(* ===== verification/Prelude.thy ===== *)
theory Prelude
  imports Main "HOL-Library.Word"
begin

unbundle bit_operations_syntax

text \<open>
  The prelude of the development: the Go values every component shares. It holds
  \<^item> the names of the machine types (\<open>byte\<close>, \<open>uint16\<close>, \<open>uint32\<close>, \<open>uint64\<close>) and of
    the identifiers built on them;
  \<^item> the error values of the repository, one datatype per package with the names its
    \<open>var (...)\<close> blocks declare, joined into one type \<open>error\<close> as Go's interface
    \<open>error\<close> joins them;
  \<^item> the result of a Go call: it returns, it panics, or it does not return
    (\<open>outcome\<close>), and the sequencing \<open>obind\<close> of such calls;
  \<^item> the big-endian codec of \<open>encoding/binary\<close> and the index and slice expressions
    of the language, whose run-time panics are values here;
  \<^item> the collections \<open>go_simps\<close> and \<open>word_nat\<close> and the list and word lemmas that the
    component theories use through \<open>simp\<close>.
\<close>

section \<open>Automation shared by the components\<close>

named_theorems go_simps "equations that evaluate sequenced Go calls"
named_theorems word_nat "facts that move unsigned machine words to natural numbers"

section \<open>Machine types\<close>

type_synonym byte = "8 word"
type_synonym uint16 = "16 word"
type_synonym uint32 = "32 word"
type_synonym uint64 = "64 word"
type_synonym bytes = "byte list"

section \<open>Errors\<close>

text \<open>\<open>io.EOF\<close>, \<open>io.ErrUnexpectedEOF\<close>, \<open>net.ErrClosed\<close> and the errors of a
  cancelled or expired context.\<close>

datatype io_error =
    EOF
  | ErrUnexpectedEOF
  | NetErrClosed
  | ContextCanceled
  | DeadlineExceeded

datatype automaton_error =
    AmbiguousAtAndKey
  | MissingTriggerState
  | AmbiguousTransitions
  | BadTransitionKey
  | BadTransitionState

datatype state_error =
    IllegalStateMutation
  | MultipleStateMutations
  | UnexpectedMutatedState
  | NonTriggeringState

datatype transition_error =
    OkWithTo
  | OkWithoutDo
  | EmptyTransition
  | OkWithoutMutation
  | NewStateWithError

datatype protocol_error =
    NothingToWrite
  | UnexpectedMessage
  | IllegalMessageType

datatype block_reader_error =
    InvalidIndex
  | IndexNotYetRead

datatype block_writer_error =
    BadBlockData
  | WriterBoundsExceeded
  | AlreadyWritten
  | BadBlockChecksum

datatype transfer_error =
    DuplicateBlockReceived
  | RedoForUnwrittenBlock
  | RedoForReceivedBlock
  | DuplicateRedoBlock
  | InvalidDataReceived

datatype session_error =
    ErrSessionClosed
  | ErrChannelClosed

datatype channel_error =
    NoMessageContent
  | UnexpectedMessageType
  | ExpectedDataMessage
  | IllegalRootMessageType
  | PayloadTooLarge

datatype buffer_error = BufferClosed

datatype relay_error =
    ErrAlreadyConnected
  | ErrAlreadyRequested
  | ErrTargetUnavailable
  | ErrSessionExists
  | ErrUnknownSession
  | ErrSessionAlreadyAccepted
  | ErrInitiatorUnavailable
  | ErrSessionAlreadyConnected
  | ErrSessionKeyInvalid

datatype local_error = ConnectionRefused

text \<open>
  An error value. \<open>ErrorString\<close> is an error made on the spot with \<open>errors.New\<close> or
  \<open>fmt.Errorf\<close>, which no code of the repository compares with another value.
\<close>

datatype error =
    IOError io_error
  | AutomatonError automaton_error
  | StateError state_error
  | TransitionError transition_error
  | ProtocolError protocol_error
  | BlockReaderError block_reader_error
  | BlockWriterError block_writer_error
  | TransferError transfer_error
  | SessionError session_error
  | ChannelError channel_error
  | BufferError buffer_error
  | RelayError relay_error
  | LocalError local_error
  | ErrorString string

text \<open>The run-time panics of the language that the modelled code can meet.\<close>

datatype runtime_error =
    IndexOutOfRange
  | SliceBounds
  | MakeSliceLen
  | DivideByZero
  | NilDereference
  | TypeAssertion
  | CloseOfClosedChannel

datatype panic =
    PanicError error
  | PanicString string
  | RuntimePanic runtime_error

section \<open>Outcomes of Go calls\<close>

text \<open>
  A call returns, panics, or does not return. Go's pair of a result and an error is an
  ordinary value under \<open>Return\<close>: a component returns \<open>error + 'a\<close> where the code returns
  either one, and a tuple with an \<open>error option\<close> where the caller can see both.
\<close>

datatype 'a outcome =
    Return 'a
  | Panic panic
  | Diverge

fun obind :: "'a outcome \<Rightarrow> ('a \<Rightarrow> 'b outcome) \<Rightarrow> 'b outcome" where
  "obind (Return x) f = f x"
| "obind (Panic p) f = Panic p"
| "obind Diverge f = Diverge"

lemmas obind_go_simps [go_simps] = obind.simps

lemma obind_Return_right [simp, go_simps]: "obind m Return = m"
  by (cases m) simp_all

lemma obind_assoc: "obind (obind m f) g = obind m (\<lambda>x. obind (f x) g)"
  by (cases m) simp_all

lemma obind_eq_Return:
  "obind m f = Return y \<longleftrightarrow> (\<exists>x. m = Return x \<and> f x = Return y)"
  by (cases m) simp_all

lemma obind_eq_Panic:
  "obind m f = Panic p \<longleftrightarrow> m = Panic p \<or> (\<exists>x. m = Return x \<and> f x = Panic p)"
  by (cases m) auto

definition returns :: "'a outcome \<Rightarrow> bool" where
  "returns m = (case m of Return _ \<Rightarrow> True | _ \<Rightarrow> False)"

lemma returns_simps [simp]:
  "returns (Return x)" "\<not> returns (Panic p)" "\<not> returns Diverge"
  by (simp_all add: returns_def)

lemma returns_iff: "returns m \<longleftrightarrow> (\<exists>x. m = Return x)"
  by (cases m) simp_all

section \<open>Slices and indices\<close>

text \<open>\<open>xs[i]\<close> of a slice, indexed by an unsigned 64-bit integer.\<close>

definition index_slice :: "'a list \<Rightarrow> uint64 \<Rightarrow> 'a outcome" where
  "index_slice xs i =
     (if unat i < length xs then Return (xs ! unat i) else Panic (RuntimePanic IndexOutOfRange))"

text \<open>\<open>xs[i] = v\<close>.\<close>

definition update_slice :: "'a list \<Rightarrow> uint64 \<Rightarrow> 'a \<Rightarrow> 'a list outcome" where
  "update_slice xs i v =
     (if unat i < length xs then Return (xs[unat i := v])
      else Panic (RuntimePanic IndexOutOfRange))"

text \<open>
  \<open>make([]T, n)\<close> for an element type of one byte: the run time panics when the length is
  more than the address space of a 64-bit process, \<open>maxAlloc\<close> (2 to the 48 bytes).
\<close>

definition maxAlloc :: nat where
  "maxAlloc = 2 ^ 48"

definition make_slice :: "uint64 \<Rightarrow> 'a \<Rightarrow> 'a list outcome" where
  "make_slice n zero =
     (if unat n \<le> maxAlloc then Return (replicate (unat n) zero)
      else Panic (RuntimePanic MakeSliceLen))"

lemma index_slice_in [go_simps]:
  "unat i < length xs \<Longrightarrow> index_slice xs i = Return (xs ! unat i)"
  by (simp add: index_slice_def)

lemma update_slice_in [go_simps]:
  "unat i < length xs \<Longrightarrow> update_slice xs i v = Return (xs[unat i := v])"
  by (simp add: update_slice_def)

lemma make_slice_in [go_simps]:
  "unat n \<le> maxAlloc \<Longrightarrow> make_slice n z = Return (replicate (unat n) z)"
  by (simp add: make_slice_def)

section \<open>Big-endian integers\<close>

text \<open>
  \<open>binary.BigEndian.PutUint16\<close>, \<open>PutUint32\<close> and \<open>PutUint64\<close> write the bytes of a word from
  the most significant one down; \<open>Uint16\<close> and \<open>Uint32\<close> read them back. \<open>put_be n w\<close> is the
  lowest \<open>n\<close> bytes of \<open>w\<close>.
\<close>

fun put_be :: "nat \<Rightarrow> 'w::len word \<Rightarrow> bytes" where
  "put_be 0 w = []"
| "put_be (Suc n) w = ucast (drop_bit (8 * n) w) # put_be n w"

definition get_be :: "bytes \<Rightarrow> 'w::len word" where
  "get_be bs = foldl (\<lambda>acc b. push_bit 8 acc OR ucast b) 0 bs"

definition PutUint16 :: "uint16 \<Rightarrow> bytes" where
  "PutUint16 w = put_be 2 w"

definition PutUint32 :: "uint32 \<Rightarrow> bytes" where
  "PutUint32 w = put_be 4 w"

definition PutUint64 :: "uint64 \<Rightarrow> bytes" where
  "PutUint64 w = put_be 8 w"

lemma length_put_be [simp]: "length (put_be n w) = n"
  by (induction n) simp_all

lemma length_PutUint [simp]:
  "length (PutUint16 a) = 2" "length (PutUint32 b) = 4" "length (PutUint64 c) = 8"
  by (simp_all add: PutUint16_def PutUint32_def PutUint64_def)

lemma PutUint_eval:
  "PutUint16 a = [ucast (drop_bit 8 a), ucast a]"
  "PutUint32 b = [ucast (drop_bit 24 b), ucast (drop_bit 16 b), ucast (drop_bit 8 b), ucast b]"
  by (simp_all add: PutUint16_def PutUint32_def numeral_eq_Suc)

lemma foldl_put_be:
  fixes w acc :: "'w::len word"
  shows "foldl (\<lambda>acc b. push_bit 8 acc OR ucast b) acc (put_be n w)
         = push_bit (8 * n) acc OR take_bit (8 * n) w"
proof (induction n arbitrary: acc)
  case 0
  then show ?case by simp
next
  case (Suc n)
  have "foldl (\<lambda>acc b. push_bit 8 acc OR ucast b) acc (put_be (Suc n) w)
      = push_bit (8 * n) (push_bit 8 acc OR ucast (ucast (drop_bit (8 * n) w) :: byte))
        OR take_bit (8 * n) w"
    by (simp add: Suc.IH)
  also have "\<dots> = push_bit (8 * Suc n) acc OR take_bit (8 * Suc n) w"
    by (rule bit_eqI) (auto simp: bit_simps not_le not_less add.commute)
  finally show ?case .
qed

lemma get_put_be: "get_be (put_be n (w :: 'w::len word)) = take_bit (8 * n) w"
  by (simp add: get_be_def foldl_put_be)

lemma get_put_be_full: "LENGTH('w) \<le> 8 * n \<Longrightarrow> get_be (put_be n (w :: 'w::len word)) = w"
  by (simp add: get_put_be take_bit_word_eq_self)

lemma put_be_inject:
  "LENGTH('w) \<le> 8 * n \<Longrightarrow> put_be n (v :: 'w::len word) = put_be n w \<longleftrightarrow> v = w"
  by (metis get_put_be_full)

lemma get_PutUint [simp]:
  "get_be (PutUint16 a) = a" "get_be (PutUint32 b) = b" "get_be (PutUint64 c) = c"
  by (simp_all add: PutUint16_def PutUint32_def PutUint64_def get_put_be_full)

section \<open>Words as numbers\<close>

lemma unat_less_64 [simp, word_nat]: "unat (w :: uint64) < 18446744073709551616"
  using unsigned_less [of w, where ?'a = nat] by simp

lemma unat_less_16 [simp, word_nat]: "unat (w :: uint16) < 65536"
  using unsigned_less [of w, where ?'a = nat] by simp

lemma unat_of_nat_64 [word_nat]:
  "n < 18446744073709551616 \<Longrightarrow> unat (of_nat n :: uint64) = n"
  by (simp add: unat_of_nat take_bit_nat_eq_self)

lemma unat_of_nat_16 [word_nat]: "n < 65536 \<Longrightarrow> unat (of_nat n :: uint16) = n"
  by (simp add: unat_of_nat take_bit_nat_eq_self)

lemma unat_mult_64:
  "unat (a :: uint64) * unat b < 18446744073709551616 \<Longrightarrow> unat (a * b) = unat a * unat b"
  by (simp add: unat_word_ariths)

lemma unat_add_64:
  "unat (a :: uint64) + unat b < 18446744073709551616 \<Longrightarrow> unat (a + b) = unat a + unat b"
  by (simp add: unat_word_ariths)

lemma sint_small_64: "unat (w :: uint64) < 9223372036854775808 \<Longrightarrow> sint w = int (unat w)"
  unfolding sint_uint uint_nat by (rule signed_take_bit_int_eq_self) (simp_all del: of_nat_unat)

section \<open>Lists\<close>

lemma take_drop_split:
  "k + n \<le> length xs \<Longrightarrow> take k xs @ take n (drop k xs) @ drop (k + n) xs = xs"
  by (metis append_take_drop_id drop_drop add.commute)

lemma count_replicate_True: "length (filter id (replicate n True)) = n"
  by simp

lemma length_filter_id_update:
  "i < length bs \<Longrightarrow> \<not> bs ! i \<Longrightarrow>
   length (filter id (bs[i := True])) = Suc (length (filter id bs))"
proof (induction bs arbitrary: i)
  case Nil
  then show ?case by simp
next
  case (Cons b bs)
  then show ?case by (cases i) auto
qed

lemma length_filter_id_all:
  "length (filter id bs) = length bs \<longleftrightarrow> (\<forall>i < length bs. bs ! i)"
  by (metis (mono_tags) filter_id_conv id_apply in_set_conv_nth length_filter_less
      less_irrefl nth_mem)

section \<open>Step relations\<close>

text \<open>
  Runs of a program of several goroutines are sequences of steps. A property of states that every
  step keeps holds after every run.
\<close>

lemma run_two: "step s t \<Longrightarrow> step t u \<Longrightarrow> step\<^sup>*\<^sup>* s u"
  by (rule converse_rtranclp_into_rtranclp [OF _ r_into_rtranclp])

lemma run_four: "step s t \<Longrightarrow> step t u \<Longrightarrow> step u v \<Longrightarrow> step v w \<Longrightarrow> step\<^sup>*\<^sup>* s w"
  by (rule rtranclp_trans [OF run_two run_two])

locale step_invariant =
  fixes step :: "'s \<Rightarrow> 's \<Rightarrow> bool" and inv :: "'s \<Rightarrow> bool"
  assumes step_inv: "step s t \<Longrightarrow> inv s \<Longrightarrow> inv t"
begin

lemma run_inv: "step\<^sup>*\<^sup>* s t \<Longrightarrow> inv s \<Longrightarrow> inv t"
  by (induction rule: rtranclp_induct) (auto intro: step_inv)

lemma run_keeps:
  assumes "step\<^sup>*\<^sup>* s t" and "inv s" and "P s" and "\<And>s t. step s t \<Longrightarrow> inv s \<Longrightarrow> P s \<Longrightarrow> P t"
  shows "P t"
  using assms(1)
proof (induction rule: rtranclp_induct)
  case base
  show ?case by (rule assms(3))
next
  case (step t u)
  then show ?case using assms(4) run_inv [OF step.hyps(1) assms(2)] by blast
qed

end

text \<open>When the runs of a step relation are bounded, one of them ends where no step is possible.\<close>

lemma bounded_run_ends:
  fixes bound :: nat
  assumes start: "run 0 a" and bound: "\<And>n x. run n x \<Longrightarrow> n \<le> bound"
    and step: "\<And>n x y. run n x \<Longrightarrow> r x y \<Longrightarrow> run (Suc n) y"
  shows "\<exists>n x. run n x \<and> (\<forall>y. \<not> r x y)"
proof -
  have le: "\<forall>n. (\<exists>x. run n x) \<longrightarrow> n < Suc bound" using bound by (auto simp: less_Suc_eq_le)
  obtain n where n: "\<exists>x. run n x" "\<And>m. \<exists>x. run m x \<Longrightarrow> m \<le> n"
    using ex_has_greatest_nat [of "\<lambda>n. \<exists>x. run n x" 0 "\<lambda>n. n" "Suc bound"] start le by blast
  then show ?thesis using step by (metis not_less_eq_eq order_refl)
qed

end
