(* ===== verification/Go_IO.thy ===== *)
theory Go_IO
  imports Prelude
begin

text \<open>
  The parts of Go's \<open>io\<close>, \<open>bytes\<close> and \<open>net\<close> packages that the repository calls: readers and
  writers as operations on a state, \<open>io.ReadFull\<close>, an in-memory \<open>bytes.Buffer\<close>, and a
  stream connection (\<open>net.Conn\<close>). The connection delivers its input in segments: one
  \<open>Read\<close> returns bytes of one segment only, so code that takes a single \<open>Read\<close> for a whole
  message is told apart from code that uses \<open>io.ReadFull\<close>.

  Two interfaces are stated as locales: \<open>byte_stream\<close> (a reader with a pending sequence of
  bytes) and \<open>byte_sink\<close> (a writer that accepts everything). \<open>io.ReadFull\<close> is specified
  once, inside \<open>byte_stream\<close>; both locales are interpreted on the connection here.
\<close>

section \<open>Readers and writers\<close>

text \<open>\<open>Read(p)\<close> with \<open>len(p) = n\<close> gives the bytes read, the error and the new state;
  \<open>Write(p)\<close> gives the number of bytes written, the error and the new state.\<close>

type_synonym 'r reader = "'r \<Rightarrow> nat \<Rightarrow> (bytes \<times> error option \<times> 'r) outcome"
type_synonym 'w writer = "'w \<Rightarrow> bytes \<Rightarrow> (nat \<times> error option \<times> 'w) outcome"

text \<open>
  \<open>io.ReadFull\<close> calls \<open>Read\<close> until the buffer is full or an error occurs. A call that
  returns no bytes and no error is repeated, so the loop runs on fuel: \<open>n + 1\<close> rounds are
  enough for \<open>n\<close> bytes when every call without an error reads at least one byte, which
  \<open>ReadFull_enough\<close> and \<open>ReadFull_short\<close> below prove; otherwise the model says \<open>Diverge\<close>.
\<close>

fun ReadFull_loop ::
  "nat \<Rightarrow> 'r reader \<Rightarrow> 'r \<Rightarrow> nat \<Rightarrow> bytes \<Rightarrow> (bytes \<times> error option \<times> 'r) outcome" where
  "ReadFull_loop 0 rd r n acc = Diverge"
| "ReadFull_loop (Suc k) rd r n acc =
     (if n = 0 then Return (acc, None, r)
      else obind (rd r n) (\<lambda>(bs, err, r').
        case err of
          None \<Rightarrow> ReadFull_loop k rd r' (n - length bs) (acc @ bs)
        | Some e \<Rightarrow>
            Return (acc @ bs,
              (if n \<le> length bs then None
               else if acc @ bs \<noteq> [] \<and> e = IOError EOF then Some (IOError ErrUnexpectedEOF)
               else Some e),
              r')))"

definition ReadFull :: "'r reader \<Rightarrow> 'r \<Rightarrow> nat \<Rightarrow> (bytes \<times> error option \<times> 'r) outcome" where
  "ReadFull rd r n = ReadFull_loop (Suc n) rd r n []"

lemma ReadFull_0 [simp]: "ReadFull rd r 0 = Return ([], None, r)"
  by (simp add: ReadFull_def)

lemma ReadFull_one_call:
  "rd r n = Return (bs, None, r') \<Longrightarrow> length bs = n \<Longrightarrow> ReadFull rd r n = Return (bs, None,
     (if n = 0 then r else r'))"
  by (cases n) (simp_all add: ReadFull_def)

text \<open>The error \<open>io.ReadFull\<close> reports when the stream ends early with \<open>e\<close>.\<close>

definition short_error :: "bytes \<Rightarrow> error \<Rightarrow> error" where
  "short_error bs e =
     (if bs \<noteq> [] \<and> e = IOError EOF then IOError ErrUnexpectedEOF else e)"

section \<open>The interface of a byte stream\<close>

text \<open>
  A stream has bytes that are still to be read and an error it reports after them. A read
  returns some of the next bytes, at least one when there is one; how many is not fixed.
\<close>

locale byte_stream =
  fixes rd :: "'r reader"
    and pending :: "'r \<Rightarrow> bytes"
    and fin :: "'r \<Rightarrow> error"
  assumes read_some:
    "pending r \<noteq> [] \<Longrightarrow> 0 < n \<Longrightarrow>
     \<exists>k r'. 0 < k \<and> k \<le> n \<and> k \<le> length (pending r) \<and>
       rd r n = Return (take k (pending r), None, r') \<and>
       pending r' = drop k (pending r) \<and> fin r' = fin r"
    and read_end:
    "pending r = [] \<Longrightarrow> 0 < n \<Longrightarrow> rd r n = Return ([], Some (fin r), r)"
begin

lemma ReadFull_loop_enough:
  "n \<le> length (pending r) \<Longrightarrow> n < k \<Longrightarrow>
   \<exists>r'. ReadFull_loop k rd r n acc = Return (acc @ take n (pending r), None, r') \<and>
     pending r' = drop n (pending r) \<and> fin r' = fin r"
proof (induction k arbitrary: r n acc)
  case 0
  then show ?case by simp
next
  case (Suc k)
  show ?case
  proof (cases "n = 0")
    case True
    then show ?thesis by simp
  next
    case False
    then have "pending r \<noteq> []" using Suc.prems by auto
    with False obtain j r' where j: "0 < j" "j \<le> n" "j \<le> length (pending r)"
      "rd r n = Return (take j (pending r), None, r')"
      "pending r' = drop j (pending r)" "fin r' = fin r"
      using read_some [of r n] by blast
    have "n - j \<le> length (pending r')" "n - j < k"
      using j False Suc.prems by auto
    then obtain r'' where "ReadFull_loop k rd r' (n - j) (acc @ take j (pending r)) =
        Return ((acc @ take j (pending r)) @ take (n - j) (pending r'), None, r'')"
      "pending r'' = drop (n - j) (pending r')" "fin r'' = fin r'"
      using Suc.IH by blast
    then show ?thesis
      using j False by (auto simp: min_def take_add [symmetric] intro!: exI [of _ r''])
  qed
qed

lemma ReadFull_loop_short:
  "length (pending r) < n \<Longrightarrow> n < k \<Longrightarrow>
   \<exists>r'. ReadFull_loop k rd r n acc =
     Return (acc @ pending r, Some (short_error (acc @ pending r) (fin r)), r') \<and>
     pending r' = [] \<and> fin r' = fin r"
proof (induction k arbitrary: r n acc)
  case 0
  then show ?case by simp
next
  case (Suc k)
  show ?case
  proof (cases "pending r = []")
    case True
    then show ?thesis using Suc.prems by (auto simp: read_end short_error_def)
  next
    case False
    with Suc.prems obtain j r' where j: "0 < j" "j \<le> n" "j \<le> length (pending r)"
      "rd r n = Return (take j (pending r), None, r')"
      "pending r' = drop j (pending r)" "fin r' = fin r"
      using read_some [of r n] by auto
    have "length (pending r') < n - j" "n - j < k"
      using j Suc.prems by auto
    then obtain r'' where "ReadFull_loop k rd r' (n - j) (acc @ take j (pending r)) =
        Return ((acc @ take j (pending r)) @ pending r',
          Some (short_error ((acc @ take j (pending r)) @ pending r') (fin r')), r'')"
      "pending r'' = []" "fin r'' = fin r'"
      using Suc.IH by blast
    then show ?thesis using j Suc.prems by (auto simp: min_def)
  qed
qed

lemma ReadFull_enough:
  "n \<le> length (pending r) \<Longrightarrow>
   \<exists>r'. ReadFull rd r n = Return (take n (pending r), None, r') \<and>
     pending r' = drop n (pending r) \<and> fin r' = fin r"
  unfolding ReadFull_def using ReadFull_loop_enough [of n r "Suc n" "[]"] by simp

lemma ReadFull_short:
  "length (pending r) < n \<Longrightarrow>
   \<exists>r'. ReadFull rd r n = Return (pending r, Some (short_error (pending r) (fin r)), r') \<and>
     pending r' = [] \<and> fin r' = fin r"
  unfolding ReadFull_def using ReadFull_loop_short [of r n "Suc n" "[]"] by simp

end

section \<open>The interface of a byte sink\<close>

text \<open>A writer that is in order accepts every byte it is given and stays in order.\<close>

locale byte_sink =
  fixes wr :: "'w writer"
    and written :: "'w \<Rightarrow> bytes"
    and healthy :: "'w \<Rightarrow> bool"
  assumes write_all:
    "healthy w \<Longrightarrow> \<exists>w'. wr w p = Return (length p, None, w') \<and>
       written w' = written w @ p \<and> healthy w'"

section \<open>bytes.Buffer\<close>

text \<open>\<open>Write\<close> of a \<open>bytes.Buffer\<close> appends and never fails.\<close>

definition bytes_Write :: "bytes writer" where
  "bytes_Write w p = Return (length p, None, w @ p)"

interpretation bytes_sink: byte_sink bytes_Write "\<lambda>w. w" "\<lambda>_. True"
  by unfold_locales (simp add: bytes_Write_def)

section \<open>Stream connections\<close>

text \<open>
  A \<open>net.Conn\<close>: the segments the peer has sent and will send, the error after the last of
  them, the bytes written so far, the error every write fails with (if any) and whether
  this side has closed it. A blocked \<open>Read\<close> is a read that returns once the next segment
  is there, so it is not told apart from one that returns at once.
\<close>

record conn =
  c_in :: "bytes list"
  c_end :: error
  c_out :: bytes
  c_werr :: "error option"
  c_closed :: bool

definition conn_Read :: "conn reader" where
  "conn_Read c n =
     (if n = 0 then Return ([], None, c)
      else if c_closed c then Return ([], Some (IOError NetErrClosed), c)
      else case dropWhile (\<lambda>s. s = []) (c_in c) of
          [] \<Rightarrow> Return ([], Some (c_end c), c)
        | s # ss \<Rightarrow> Return (take n s, None, c\<lparr>c_in := drop n s # ss\<rparr>))"

definition conn_Write :: "conn writer" where
  "conn_Write c p =
     (if c_closed c then Return (0, Some (IOError NetErrClosed), c)
      else case c_werr c of
          Some e \<Rightarrow> Return (0, Some e, c)
        | None \<Rightarrow> Return (length p, None, c\<lparr>c_out := c_out c @ p\<rparr>))"

definition conn_Close :: "conn \<Rightarrow> error option \<times> conn" where
  "conn_Close c =
     (if c_closed c then (Some (IOError NetErrClosed), c) else (None, c\<lparr>c_closed := True\<rparr>))"

definition conn_pending :: "conn \<Rightarrow> bytes" where
  "conn_pending c = (if c_closed c then [] else concat (c_in c))"

definition conn_fin :: "conn \<Rightarrow> error" where
  "conn_fin c = (if c_closed c then IOError NetErrClosed else c_end c)"

definition conn_healthy :: "conn \<Rightarrow> bool" where
  "conn_healthy c \<longleftrightarrow> \<not> c_closed c \<and> c_werr c = None"

lemma concat_dropWhile_Nil [simp]: "concat (dropWhile (\<lambda>s. s = []) xs) = concat xs"
  by (induction xs) auto

lemma dropWhile_Nil_Cons: "dropWhile (\<lambda>s. s = []) xs = y # ys \<Longrightarrow> y \<noteq> []"
  by (auto simp: dropWhile_eq_Cons_conv)

lemma conn_Read_some:
  assumes "conn_pending c \<noteq> []" and "0 < n"
  shows "\<exists>k c'. 0 < k \<and> k \<le> n \<and> k \<le> length (conn_pending c) \<and>
    conn_Read c n = Return (take k (conn_pending c), None, c') \<and>
    conn_pending c' = drop k (conn_pending c) \<and> conn_fin c' = conn_fin c"
proof -
  have open_c: "\<not> c_closed c" using assms(1) by (auto simp: conn_pending_def)
  then obtain s ss where seg: "dropWhile (\<lambda>s. s = []) (c_in c) = s # ss"
    using assms(1) by (metis concat.simps(1) concat_dropWhile_Nil conn_pending_def list.exhaust)
  have pend: "conn_pending c = s @ concat ss"
    using open_c seg concat_dropWhile_Nil [of "c_in c"] by (simp add: conn_pending_def)
  let ?k = "min n (length s)"
  have "take n s = take ?k (conn_pending c)" "drop n s @ concat ss = drop ?k (conn_pending c)"
    by (auto simp: pend min_def)
  then show ?thesis
    using assms(2) open_c seg dropWhile_Nil_Cons [OF seg] pend
    by (intro exI [of _ ?k] exI [of _ "c\<lparr>c_in := drop n s # ss\<rparr>"])
       (auto simp: conn_Read_def conn_pending_def conn_fin_def)
qed

lemma conn_Read_end:
  "conn_pending c = [] \<Longrightarrow> 0 < n \<Longrightarrow> conn_Read c n = Return ([], Some (conn_fin c), c)"
proof (cases "c_closed c")
  case False
  moreover assume "conn_pending c = []" "0 < n"
  ultimately have "dropWhile (\<lambda>s. s = []) (c_in c) = []"
    by (auto simp: conn_pending_def)
  with False \<open>0 < n\<close> show ?thesis
    by (simp add: conn_Read_def conn_fin_def del: dropWhile_eq_Nil_conv)
qed (simp add: conn_Read_def conn_fin_def)

interpretation net_stream: byte_stream conn_Read conn_pending conn_fin
  by unfold_locales (use conn_Read_some conn_Read_end in \<open>simp_all\<close>)

lemma conn_Write_healthy:
  "conn_healthy c \<Longrightarrow> conn_Write c p = Return (length p, None, c\<lparr>c_out := c_out c @ p\<rparr>)"
  by (simp add: conn_Write_def conn_healthy_def)

interpretation net_sink: byte_sink conn_Write c_out conn_healthy
  by unfold_locales (auto simp: conn_Write_healthy conn_healthy_def)

lemma conn_Write_input [simp]:
  "conn_Write c p = Return (n, err, c') \<Longrightarrow> conn_pending c' = conn_pending c \<and> conn_fin c' = conn_fin c"
  by (auto simp: conn_Write_def conn_pending_def conn_fin_def split: if_splits option.splits)

end
