(* ===== verification/Files.thy ===== *)
theory Files
  imports Go_IO
begin

text \<open>
  The two interfaces behind which a transfer hides its file: \<open>ReadSeekCloser\<close>
  (\<open>lib/session/transfer/block/reader.go\<close>) and \<open>WriteSeekCloser\<close> (\<open>writer.go\<close>). A Go
  interface value is a table of methods and a receiver, so the model passes the table as a
  record of operations and the receiver as a state. What a client may rely on is stated in
  the locales \<open>read_file\<close> and \<open>write_file\<close>; \<open>lib/util/buffer\<close> is one provider (theory
  \<open>Buffers\<close>), an operating-system file is another.
\<close>

text \<open>\<open>io.SeekStart\<close>\<close>

definition SeekStart :: int where
  "SeekStart = 0"

record 'f ReadSeekCloser =
  rsc_Read :: "'f reader"
  rsc_Seek :: "'f \<Rightarrow> int \<Rightarrow> int \<Rightarrow> (int \<times> error option \<times> 'f) outcome"
  rsc_Close :: "'f \<Rightarrow> error option \<times> 'f"

record 'f WriteSeekCloser =
  wsc_Write :: "'f writer"
  wsc_Seek :: "'f \<Rightarrow> int \<Rightarrow> int \<Rightarrow> (int \<times> error option \<times> 'f) outcome"
  wsc_Close :: "'f \<Rightarrow> error option \<times> 'f"

text \<open>
  A readable file in order (\<open>ready\<close>) has a content and a position. A seek inside the content
  moves the position; \<open>io.ReadFull\<close> of bytes that lie inside the content returns them.
\<close>

locale read_file =
  fixes ops :: "'f ReadSeekCloser"
    and content :: "'f \<Rightarrow> bytes"
    and pos :: "'f \<Rightarrow> nat"
    and ready :: "'f \<Rightarrow> bool"
  assumes read_seek:
    "ready f \<Longrightarrow> k \<le> length (content f) \<Longrightarrow>
     \<exists>f'. rsc_Seek ops f (int k) SeekStart = Return (int k, None, f') \<and>
       content f' = content f \<and> pos f' = k \<and> ready f'"
    and read_full:
    "ready f \<Longrightarrow> pos f + n \<le> length (content f) \<Longrightarrow>
     \<exists>f'. ReadFull (rsc_Read ops) f n = Return (take n (drop (pos f) (content f)), None, f') \<and>
       content f' = content f \<and> ready f'"

text \<open>
  A writable file in order has a content of fixed length. A write that fits replaces the
  bytes at the position and nothing else.
\<close>

locale write_file =
  fixes ops :: "'f WriteSeekCloser"
    and content :: "'f \<Rightarrow> bytes"
    and pos :: "'f \<Rightarrow> nat"
    and ready :: "'f \<Rightarrow> bool"
  assumes write_seek:
    "ready f \<Longrightarrow> k \<le> length (content f) \<Longrightarrow>
     \<exists>f'. wsc_Seek ops f (int k) SeekStart = Return (int k, None, f') \<and>
       content f' = content f \<and> pos f' = k \<and> ready f'"
    and write_at:
    "ready f \<Longrightarrow> pos f + length p \<le> length (content f) \<Longrightarrow>
     \<exists>f'. wsc_Write ops f p = Return (length p, None, f') \<and>
       content f' = take (pos f) (content f) @ p @ drop (pos f + length p) (content f) \<and>
       ready f'"

end
