(* ===== verification/Blocks.thy ===== *)
theory Blocks
  imports Sha256 Files
begin

text \<open>
  \<open>lib/session/transfer/block/block.go\<close>: how a file of a given size is cut into blocks, and
  the checksum of a block. All arithmetic is on unsigned 64-bit words, as in the source;
  the lemmas relate it to the same arithmetic on natural numbers (\<open>block_count\<close>, \<open>slice\<close>)
  where no product can wrap around.
\<close>

section \<open>Sizes\<close>

type_synonym Size = uint64

definition Size_BlockCount :: "Size \<Rightarrow> uint64 \<Rightarrow> uint64 outcome" where
  "Size_BlockCount s tot =
     (if tot = 0 then Return 0
      else if s = 0 then Panic (RuntimePanic DivideByZero)
      else Return ((tot - 1) div s + 1))"

definition Size_Offset :: "Size \<Rightarrow> uint64 \<Rightarrow> uint64" where
  "Size_Offset s index = index * s"

definition Size_Index :: "Size \<Rightarrow> uint64 \<Rightarrow> uint64 outcome" where
  "Size_Index s offset =
     (if s = 0 then Panic (RuntimePanic DivideByZero) else Return (offset div s))"

definition min_u64 :: "uint64 \<Rightarrow> uint64 \<Rightarrow> uint64" where
  "min_u64 a b = (if a < b then a else b)"

definition Size_Amount :: "Size \<Rightarrow> uint64 \<Rightarrow> uint64 \<Rightarrow> uint64" where
  "Size_Amount s offset tot =
     (if tot \<le> offset then 0
      else let remaining = tot - offset in min_u64 s remaining)"

section \<open>Blocks\<close>

text \<open>The message \<open>Block\<close> of \<open>block.proto\<close>.\<close>

record Block =
  b_Index :: uint64
  b_Data :: bytes
  b_Checksum :: bytes

definition ComputeChecksum :: "uint64 \<Rightarrow> bytes \<Rightarrow> bytes" where
  "ComputeChecksum index data =
     (let position = PutUint64 index in sha256 (position @ data))"

section \<open>Cutting a sequence of bytes\<close>

definition block_count :: "nat \<Rightarrow> nat \<Rightarrow> nat" where
  "block_count tot s = (if tot = 0 then 0 else (tot - 1) div s + 1)"

definition slice :: "bytes \<Rightarrow> nat \<Rightarrow> nat \<Rightarrow> bytes" where
  "slice xs s i = take s (drop (i * s) xs)"

text \<open>Block \<open>i\<close> of a file, with its checksum.\<close>

definition block_of :: "bytes \<Rightarrow> nat \<Rightarrow> nat \<Rightarrow> Block" where
  "block_of xs s i =
     \<lparr>b_Index = of_nat i, b_Data = slice xs s i,
      b_Checksum = ComputeChecksum (of_nat i) (slice xs s i)\<rparr>"

lemma less_block_count: "0 < s \<Longrightarrow> i < block_count tot s \<longleftrightarrow> i * s < tot"
proof (cases "tot = 0")
  case False
  assume "0 < s"
  then have "i \<le> (tot - 1) div s \<longleftrightarrow> i * s \<le> tot - 1"
    by (simp add: less_eq_div_iff_mult_less_eq)
  then show ?thesis using False by (auto simp: block_count_def)
qed (simp add: block_count_def)

lemma block_count_mult_ge: "0 < s \<Longrightarrow> tot \<le> block_count tot s * s"
  using less_block_count [of s "block_count tot s" tot] by simp

lemma block_count_mult_less: "0 < s \<Longrightarrow> 0 < tot \<Longrightarrow> block_count tot s * s < tot + s"
  by (simp add: block_count_def algebra_simps)
     (metis Suc_pred le_imp_less_Suc times_div_less_eq_dividend)

lemma block_count_le: "0 < s \<Longrightarrow> block_count tot s \<le> tot"
  by (cases tot) (simp_all add: block_count_def)

lemma concat_slices_take:
  "concat (map (slice xs s) [0..<k]) = take (k * s) xs"
proof (induction k)
  case (Suc k)
  have "Suc k * s = k * s + s" by simp
  then show ?case by (simp only: upt_Suc_append [of 0 k] le0 map_append concat_append Suc.IH
        take_add) (simp add: slice_def)
qed simp

lemma concat_slices:
  "0 < s \<Longrightarrow> concat (map (slice xs s) [0..<block_count (length xs) s]) = xs"
  by (simp add: concat_slices_take block_count_mult_ge)

lemma length_slice: "length (slice xs s i) = min s (length xs - i * s)"
  by (simp add: slice_def)

lemma slice_take: "take (length (slice xs s i)) (drop (i * s) xs) = slice xs s i"
  by (auto simp: slice_def min_def)

lemma slice_fits: "i * s \<le> length xs \<Longrightarrow> i * s + length (slice xs s i) \<le> length xs"
  by (simp add: length_slice)

lemma block_of_simps [simp]:
  "b_Index (block_of xs s i) = of_nat i" "b_Data (block_of xs s i) = slice xs s i"
  "b_Checksum (block_of xs s i) = ComputeChecksum (of_nat i) (slice xs s i)"
  by (simp_all add: block_of_def)

section \<open>Word arithmetic without wrap-around\<close>

text \<open>
  A transfer is \<open>sized\<close> when its block size is not zero and the whole file fits into the
  address space. The product of an index up to the block count and the block size is then
  far from \<open>2 ^ 64\<close>.
\<close>

definition sized :: "Size \<Rightarrow> uint64 \<Rightarrow> bool" where
  "sized s tot \<longleftrightarrow> s \<noteq> 0 \<and> unat tot \<le> maxAlloc"

lemma sized_pos: "sized s tot \<Longrightarrow> 0 < unat s"
  by (simp add: sized_def unat_gt_0)

lemma sized_product:
  assumes "sized s tot" and "i \<le> block_count (unat tot) (unat s)"
  shows "i * unat s < 18446744073709551616"
proof (cases "unat tot = 0")
  case False
  note pos = sized_pos [OF assms(1)]
  have le: "i * unat s \<le> block_count (unat tot) (unat s) * unat s"
    using assms(2) by simp
  show ?thesis
  proof (cases "unat s \<le> unat tot")
    case True
    then have "i * unat s < 2 * unat tot"
      using le block_count_mult_less [OF pos, of "unat tot"] False by linarith
    then show ?thesis using assms(1) by (simp add: sized_def maxAlloc_def)
  next
    case small: False
    then have "block_count (unat tot) (unat s) = 1"
      using False by (simp add: block_count_def)
    with assms(2) have "i = 0 \<or> i = 1" by linarith
    then show ?thesis by auto
  qed
next
  case True
  then show ?thesis using assms(2) by (simp add: block_count_def)
qed

lemma sized_count:
  "sized s tot \<Longrightarrow> i \<le> block_count (unat tot) (unat s) \<Longrightarrow> i \<le> maxAlloc"
  using block_count_le [of "unat s" "unat tot"] sized_pos [of s tot]
  by (auto simp: sized_def)

lemma unat_of_nat_index:
  "sized s tot \<Longrightarrow> i \<le> block_count (unat tot) (unat s) \<Longrightarrow> unat (of_nat i :: uint64) = i"
  using sized_count [of s tot i] by (simp add: unat_of_nat_64 maxAlloc_def)

lemma unat_pred: "(w :: uint64) \<noteq> 0 \<Longrightarrow> unat (w - 1) = unat w - 1"
  by (metis One_nat_def unat_minus_one)

lemma BlockCount_unat:
  assumes "s \<noteq> 0"
  shows "\<exists>c. Size_BlockCount s tot = Return c \<and> unat c = block_count (unat tot) (unat s)"
proof (cases "tot = 0")
  case False
  have "unat ((tot - 1) div s) \<le> unat tot - 1"
    by (simp add: unat_div unat_pred [OF False])
  then have "unat ((tot - 1) div s) + unat (1 :: uint64) < 18446744073709551616"
    using unat_less_64 [of tot] False unat_eq_zero [of tot] by (simp del: unat_less_64)
  then show ?thesis
    using assms False
    by (simp add: Size_BlockCount_def block_count_def unat_add_64 unat_div unat_pred unat_eq_zero)
qed (simp add: Size_BlockCount_def block_count_def)

lemma Offset_unat:
  "sized s tot \<Longrightarrow> unat i \<le> block_count (unat tot) (unat s) \<Longrightarrow>
   unat (Size_Offset s i) = unat i * unat s"
  using sized_product [of s tot "unat i"] by (simp add: Size_Offset_def unat_mult_64)

lemma Offset_in_range:
  "sized s tot \<Longrightarrow> unat i \<le> block_count (unat tot) (unat s) \<Longrightarrow>
   tot \<le> Size_Offset s i \<longleftrightarrow> unat i = block_count (unat tot) (unat s)"
  using less_block_count [of "unat s" "unat i" "unat tot"] sized_pos [of s tot]
  by (auto simp: word_le_nat_alt Offset_unat)

lemma min_u64_unat: "unat (min_u64 a b) = min (unat a) (unat b)"
  by (simp add: min_u64_def word_less_nat_alt min_def)

lemma Amount_unat:
  assumes "sized s tot" and "unat i < block_count (unat tot) (unat s)"
  shows "unat (Size_Amount s (Size_Offset s i) tot) = min (unat s) (unat tot - unat i * unat s)"
proof -
  have off: "unat (Size_Offset s i) = unat i * unat s" using assms Offset_unat by simp
  moreover have "unat i * unat s < unat tot"
    using less_block_count [OF sized_pos] assms by blast
  ultimately have "\<not> tot \<le> Size_Offset s i" "Size_Offset s i \<le> tot"
    by (simp_all add: word_le_nat_alt)
  then show ?thesis
    by (simp add: Size_Amount_def min_u64_unat unat_sub off)
qed

lemma Amount_slice:
  "sized s (of_nat (length xs)) \<Longrightarrow> length xs \<le> maxAlloc \<Longrightarrow>
   unat i < block_count (length xs) (unat s) \<Longrightarrow>
   unat (Size_Amount s (Size_Offset s i) (of_nat (length xs))) = length (slice xs (unat s) (unat i))"
  using Amount_unat [of s "of_nat (length xs)" i]
  by (simp add: length_slice unat_of_nat_64 maxAlloc_def)

end
