(* ===== verification/Buffers.thy ===== *)
theory Buffers
  imports Files
begin

text \<open>
  Package \<open>lib/util/buffer\<close>: a fixed-size in-memory file with a cursor, the file the
  receiving command assembles its data in. \<open>Read\<close> and \<open>Write\<close> leave the cursor where it
  is; every use seeks first. The two interpretations at the end discharge the file
  interfaces for it.
\<close>

record Buffer =
  buf_Data :: bytes
  buf_cursor :: int
  buf_closed :: bool

definition NewBuffer :: "bytes \<Rightarrow> Buffer" where
  "NewBuffer buffer = \<lparr>buf_Data = buffer, buf_cursor = 0, buf_closed = False\<rparr>"

text \<open>The slice expression \<open>b.Data[b.cursor:]\<close>.\<close>

definition buf_tail :: "Buffer \<Rightarrow> bytes outcome" where
  "buf_tail b =
     (if 0 \<le> buf_cursor b \<and> buf_cursor b \<le> int (length (buf_Data b))
      then Return (drop (nat (buf_cursor b)) (buf_Data b))
      else Panic (RuntimePanic SliceBounds))"

definition Buffer_Read :: "Buffer reader" where
  "Buffer_Read b n =
     (if buf_closed b then Return ([], Some (BufferError BufferClosed), b)
      else obind (buf_tail b) (\<lambda>rest.
        let bs = take n rest
        in Return (bs, (if length bs \<noteq> n then Some (IOError EOF) else None), b)))"

definition Buffer_Write :: "Buffer writer" where
  "Buffer_Write b p =
     (if buf_closed b then Return (0, Some (BufferError BufferClosed), b)
      else if int (length (buf_Data b)) < buf_cursor b + int (length p)
      then Panic (PanicString ''exceeding buffer size'')
      else obind (buf_tail b) (\<lambda>rest.
        let n = min (length rest) (length p);
            b' = b\<lparr>buf_Data := take (nat (buf_cursor b)) (buf_Data b) @ take n p @ drop n rest\<rparr>
        in Return (n, (if n \<noteq> length p then Some (IOError EOF) else None), b')))"

definition Buffer_Seek :: "Buffer \<Rightarrow> int \<Rightarrow> int \<Rightarrow> (int \<times> error option \<times> Buffer) outcome" where
  "Buffer_Seek b offset whence =
     (if buf_closed b then Return (0, Some (BufferError BufferClosed), b)
      else if whence \<noteq> SeekStart
      then Panic (PanicString ''used a whence different from io.SeekStart'')
      else Return (offset, None, b\<lparr>buf_cursor := offset\<rparr>))"

definition Buffer_Close :: "Buffer \<Rightarrow> error option \<times> Buffer" where
  "Buffer_Close b = (None, b\<lparr>buf_closed := True\<rparr>)"

definition buffer_rsc :: "Buffer ReadSeekCloser" where
  "buffer_rsc = \<lparr>rsc_Read = Buffer_Read, rsc_Seek = Buffer_Seek, rsc_Close = Buffer_Close\<rparr>"

definition buffer_wsc :: "Buffer WriteSeekCloser" where
  "buffer_wsc = \<lparr>wsc_Write = Buffer_Write, wsc_Seek = Buffer_Seek, wsc_Close = Buffer_Close\<rparr>"

section \<open>The buffer is a file\<close>

definition buf_ready :: "Buffer \<Rightarrow> bool" where
  "buf_ready b \<longleftrightarrow> \<not> buf_closed b \<and> 0 \<le> buf_cursor b"

definition buf_pos :: "Buffer \<Rightarrow> nat" where
  "buf_pos b = nat (buf_cursor b)"

lemmas buffer_defs = buf_tail_def buf_ready_def buf_pos_def Let_def

lemma Buffer_Read_full:
  assumes "buf_ready b" and "buf_pos b + n \<le> length (buf_Data b)"
  shows "ReadFull Buffer_Read b n = Return (take n (drop (buf_pos b) (buf_Data b)), None, b)"
proof -
  let ?bs = "take n (drop (buf_pos b) (buf_Data b))"
  have len: "length ?bs = n" using assms(2) by simp
  then have "Buffer_Read b n = Return (?bs, None, b)"
    using assms by (auto simp: Buffer_Read_def buffer_defs)
  then show ?thesis using ReadFull_one_call [OF _ len, of Buffer_Read b b] by simp
qed

lemma Buffer_Write_fits:
  assumes "buf_ready b" and "buf_pos b + length p \<le> length (buf_Data b)"
  shows "Buffer_Write b p = Return (length p, None,
    b\<lparr>buf_Data := take (buf_pos b) (buf_Data b) @ p @ drop (buf_pos b + length p) (buf_Data b)\<rparr>)"
proof -
  have cur: "\<not> buf_closed b" "buf_cursor b = int (buf_pos b)"
    using assms(1) by (auto simp: buffer_defs)
  have fits: "min (length (buf_Data b) - buf_pos b) (length p) = length p"
    using assms(2) by simp
  show ?thesis
    using assms(2) by (simp add: Buffer_Write_def buf_tail_def cur Let_def fits add.commute)
qed

lemma Buffer_Seek_start:
  "buf_ready b \<Longrightarrow> Buffer_Seek b (int k) SeekStart = Return (int k, None, b\<lparr>buf_cursor := int k\<rparr>)"
  by (simp add: Buffer_Seek_def buffer_defs)

interpretation buffer_reader: read_file buffer_rsc buf_Data buf_pos buf_ready
  by unfold_locales
     (auto simp: buffer_rsc_def Buffer_Seek_start Buffer_Read_full buf_ready_def buf_pos_def)

interpretation buffer_writer: write_file buffer_wsc buf_Data buf_pos buf_ready
  by unfold_locales
     (auto simp: buffer_wsc_def Buffer_Seek_start Buffer_Write_fits buf_ready_def buf_pos_def)

lemma NewBuffer_ready [simp]: "buf_ready (NewBuffer d)" "buf_Data (NewBuffer d) = d"
  by (simp_all add: NewBuffer_def buf_ready_def)

end
