(* ===== verification/Block_Reader.thy ===== *)
theory Block_Reader
  imports Blocks Buffers
begin

text \<open>
  \<open>lib/session/transfer/block/reader.go\<close>: the sender's side of a file, read block by block
  with a queue of blocks to read again. The state of a \<open>Reader\<close> is refined to the list of
  block indices it still has to deliver (\<open>pending_blocks\<close>): \<open>NextBlock\<close> takes the first of
  them, \<open>RedoBlock\<close> puts one back behind the other blocks to redo.
\<close>

section \<open>Model\<close>

record 'f Reader =
  r_reader :: 'f
  r_totalSize :: uint64
  r_blockSize :: Size
  r_nextIndex :: uint64
  r_redoBlocks :: "uint64 list"

definition NewBlockReader :: "'f \<Rightarrow> uint64 \<Rightarrow> Size \<Rightarrow> 'f Reader" where
  "NewBlockReader reader sz blockSize =
     \<lparr>r_reader = reader, r_totalSize = sz, r_blockSize = blockSize, r_nextIndex = 0,
      r_redoBlocks = []\<rparr>"

record ReaderFactory =
  rf_Config :: Size

definition NewReaderFactory :: "Size \<Rightarrow> ReaderFactory" where
  "NewReaderFactory config = \<lparr>rf_Config = config\<rparr>"

definition CreateBlockReader :: "ReaderFactory \<Rightarrow> 'f \<Rightarrow> uint64 \<Rightarrow> 'f Reader" where
  "CreateBlockReader f reader sz = NewBlockReader reader sz (rf_Config f)"

definition Reader_BlockCount :: "'f Reader \<Rightarrow> uint64 outcome" where
  "Reader_BlockCount r = Size_BlockCount (r_blockSize r) (r_totalSize r)"

definition Reader_offset :: "'f Reader \<Rightarrow> uint64 \<Rightarrow> uint64" where
  "Reader_offset r index = Size_Offset (r_blockSize r) index"

definition Reader_amount :: "'f Reader \<Rightarrow> uint64 \<Rightarrow> uint64" where
  "Reader_amount r offset = Size_Amount (r_blockSize r) offset (r_totalSize r)"

definition Reader_IsDone :: "'f Reader \<Rightarrow> bool" where
  "Reader_IsDone r \<longleftrightarrow> r_redoBlocks r = [] \<and> r_totalSize r \<le> Reader_offset r (r_nextIndex r)"

definition Reader_HasData :: "'f Reader \<Rightarrow> bool" where
  "Reader_HasData r \<longleftrightarrow> \<not> Reader_IsDone r"

text \<open>\<open>seek\<close> returns the offset, the error and the file; \<open>int64(offset)\<close> reads the word as a
  signed one.\<close>

definition Reader_seek ::
  "'f ReadSeekCloser \<Rightarrow> 'f Reader \<Rightarrow> uint64 \<Rightarrow> (uint64 \<times> error option \<times> 'f Reader) outcome" where
  "Reader_seek ops r index =
     (let offset = Reader_offset r index in
      if r_totalSize r \<le> offset then Panic (PanicString ''block index behind end of reader'')
      else obind (rsc_Seek ops (r_reader r) (sint offset) SeekStart) (\<lambda>(position, err, f).
        let r' = r\<lparr>r_reader := f\<rparr> in
        case err of
          Some e \<Rightarrow> Return (offset, Some e, r')
        | None \<Rightarrow>
            if word_of_int position \<noteq> offset
            then Panic (PanicString ''seek position does not equal requested offset'')
            else Return (offset, None, r')))"

definition Reader_read ::
  "'f ReadSeekCloser \<Rightarrow> 'f Reader \<Rightarrow> uint64 \<Rightarrow> (bytes \<times> error option \<times> 'f Reader) outcome" where
  "Reader_read ops r offset =
     (let amount = Reader_amount r offset in
      obind (make_slice amount (0 :: byte)) (\<lambda>buffer.
        obind (ReadFull (rsc_Read ops) (r_reader r) (length buffer)) (\<lambda>(bs, err, f).
          let r' = r\<lparr>r_reader := f\<rparr> in
          case err of
            Some e \<Rightarrow> Return (bs, Some e, r')
          | None \<Rightarrow>
              if of_nat (length bs) \<noteq> amount
              then Panic (PanicString ''unexpect amount of bytes read'')
              else Return (bs, None, r'))))"

definition ReadBlock ::
  "'f ReadSeekCloser \<Rightarrow> 'f Reader \<Rightarrow> uint64 \<Rightarrow> (Block option \<times> error option \<times> 'f Reader) outcome" where
  "ReadBlock ops r index =
     obind (Reader_seek ops r index) (\<lambda>(offset, err, r1).
       case err of
         Some e \<Rightarrow> Return (None, Some e, r1)
       | None \<Rightarrow>
           obind (Reader_read ops r1 offset) (\<lambda>(data, err, r2).
             case err of
               Some e \<Rightarrow> Return (None, Some e, r2)
             | None \<Rightarrow>
                 Return (Some \<lparr>b_Index = index, b_Data = data,
                   b_Checksum = ComputeChecksum index data\<rparr>, None, r2)))"

definition NextBlock ::
  "'f ReadSeekCloser \<Rightarrow> 'f Reader \<Rightarrow> (Block option \<times> error option \<times> 'f Reader) outcome" where
  "NextBlock ops r =
     (if Reader_IsDone r then Return (None, Some (IOError EOF), r)
      else
        let blockIndex = (case r_redoBlocks r of [] \<Rightarrow> r_nextIndex r | i # _ \<Rightarrow> i) in
        obind (ReadBlock ops r blockIndex) (\<lambda>(block, err, r').
          case err of
            Some e \<Rightarrow> Return (None, Some e, r')
          | None \<Rightarrow>
              (case r_redoBlocks r' of
                 _ # rest \<Rightarrow> Return (block, None, r'\<lparr>r_redoBlocks := rest\<rparr>)
               | [] \<Rightarrow> Return (block, None, r'\<lparr>r_nextIndex := r_nextIndex r' + 1\<rparr>))))"

definition RedoBlock :: "'f Reader \<Rightarrow> uint64 \<Rightarrow> bool \<times> error option \<times> 'f Reader" where
  "RedoBlock r index =
     (if r_totalSize r \<le> Reader_offset r index
      then (False, Some (BlockReaderError InvalidIndex), r)
      else if r_nextIndex r \<le> index then (False, Some (BlockReaderError IndexNotYetRead), r)
      else if index \<in> set (r_redoBlocks r) then (False, None, r)
      else (True, None, r\<lparr>r_redoBlocks := r_redoBlocks r @ [index]\<rparr>))"

definition Reader_Close :: "'f ReadSeekCloser \<Rightarrow> 'f Reader \<Rightarrow> error option \<times> 'f Reader" where
  "Reader_Close ops r =
     (case rsc_Close ops (r_reader r) of (err, f) \<Rightarrow> (err, r\<lparr>r_reader := f\<rparr>))"

section \<open>Invariant and abstraction\<close>

definition reader_count :: "'f Reader \<Rightarrow> nat" where
  "reader_count r = block_count (unat (r_totalSize r)) (unat (r_blockSize r))"

definition reader_inv :: "('f \<Rightarrow> bytes) \<Rightarrow> ('f \<Rightarrow> bool) \<Rightarrow> bytes \<Rightarrow> 'f Reader \<Rightarrow> bool" where
  "reader_inv content ready xs r \<longleftrightarrow>
     ready (r_reader r) \<and> content (r_reader r) = xs \<and> length xs \<le> maxAlloc \<and>
     r_totalSize r = of_nat (length xs) \<and> r_blockSize r \<noteq> 0 \<and>
     unat (r_nextIndex r) \<le> reader_count r \<and>
     distinct (r_redoBlocks r) \<and> (\<forall>i\<in>set (r_redoBlocks r). i < r_nextIndex r)"

text \<open>The block indices the reader still delivers, in order.\<close>

definition pending_blocks :: "'f Reader \<Rightarrow> nat list" where
  "pending_blocks r = map unat (r_redoBlocks r) @ [unat (r_nextIndex r)..<reader_count r]"

lemma reader_sized:
  "reader_inv content ready xs r \<Longrightarrow>
   sized (r_blockSize r) (r_totalSize r) \<and> unat (r_totalSize r) = length xs"
  by (simp add: reader_inv_def sized_def unat_of_nat_64 maxAlloc_def)

lemma reader_count_xs:
  "reader_inv content ready xs r \<Longrightarrow>
   reader_count r = block_count (length xs) (unat (r_blockSize r))"
  using reader_sized [of content ready xs r] by (simp add: reader_count_def)

lemma Reader_IsDone_iff:
  assumes "reader_inv content ready xs r"
  shows "Reader_IsDone r \<longleftrightarrow> pending_blocks r = []"
proof -
  have "unat (r_nextIndex r) \<le> block_count (unat (r_totalSize r)) (unat (r_blockSize r))"
    using assms unfolding reader_inv_def reader_count_def by blast
  then show ?thesis
    using Offset_in_range [of "r_blockSize r" "r_totalSize r" "r_nextIndex r"]
      reader_sized [OF assms]
    by (auto simp: Reader_IsDone_def Reader_offset_def pending_blocks_def reader_count_def)
qed

lemma pending_in_range:
  "reader_inv content ready xs r \<Longrightarrow> i \<in> set (pending_blocks r) \<Longrightarrow> i < reader_count r"
  by (fastforce simp: reader_inv_def pending_blocks_def word_less_nat_alt)

context read_file
begin

lemma ReadBlock_content:
  assumes inv: "reader_inv content ready xs r" and i: "unat i < reader_count r"
  shows "\<exists>f. ReadBlock ops r i =
      Return (Some (block_of xs (unat (r_blockSize r)) (unat i)), None, r\<lparr>r_reader := f\<rparr>) \<and>
    ready f \<and> content f = xs"
proof -
  let ?s = "r_blockSize r" and ?off = "Reader_offset r i"
  have sz: "sized ?s (r_totalSize r)" and tot: "unat (r_totalSize r) = length xs"
    using reader_sized [OF inv] by auto
  have xs: "ready (r_reader r)" "content (r_reader r) = xs" "r_totalSize r = of_nat (length xs)"
    "length xs \<le> maxAlloc" using inv by (auto simp: reader_inv_def)
  have in_range: "unat i < block_count (unat (r_totalSize r)) (unat ?s)"
    using i by (simp add: reader_count_def)
  have off: "unat ?off = unat i * unat ?s"
    using Offset_unat [OF sz] in_range by (simp add: Reader_offset_def)
  have lt: "unat i * unat ?s < length xs"
    using less_block_count [OF sized_pos [OF sz]] in_range tot by simp
  have small: "unat ?off < 9223372036854775808"
    using lt off xs(4) by (simp add: maxAlloc_def)
  obtain f1 where f1: "rsc_Seek ops (r_reader r) (sint ?off) SeekStart =
      Return (sint ?off, None, f1)"
    "content f1 = xs" "pos f1 = unat i * unat ?s" "ready f1"
    using read_seek [of "r_reader r" "unat ?off"] xs lt off sint_small_64 [OF small] by auto
  have amount: "unat (Reader_amount r ?off) = length (slice xs (unat ?s) (unat i))"
    using Amount_slice [of ?s xs i] sz xs in_range tot
    by (simp add: Reader_amount_def Reader_offset_def)
  obtain f2 where f2: "ReadFull (rsc_Read ops) f1 (length (slice xs (unat ?s) (unat i))) =
      Return (slice xs (unat ?s) (unat i), None, f2)" "content f2 = xs" "ready f2"
    using read_full [OF f1(4), of "length (slice xs (unat ?s) (unat i))"] f1(2,3) lt
      slice_fits [of "unat i" "unat ?s" xs] slice_take [of xs "unat ?s" "unat i"] by auto
  have "\<not> r_totalSize r \<le> ?off" using lt off tot by (simp add: word_le_nat_alt)
  then have "Reader_seek ops r i = Return (?off, None, r\<lparr>r_reader := f1\<rparr>)"
    by (simp add: Reader_seek_def Let_def f1)
  moreover have "length (slice xs (unat ?s) (unat i)) \<le> maxAlloc"
    using xs(4) by (simp add: length_slice)
  then have "Reader_read ops (r\<lparr>r_reader := f1\<rparr>) ?off =
      Return (slice xs (unat ?s) (unat i), None, r\<lparr>r_reader := f2\<rparr>)"
    using amount f2(1)
    by (simp add: Reader_read_def Reader_amount_def Let_def make_slice_in flip: amount)
  ultimately show ?thesis
    using f2 by (auto simp: ReadBlock_def block_of_def)
qed

lemma NextBlock_pending:
  assumes inv: "reader_inv content ready xs r" and todo: "pending_blocks r = i # is"
  shows "\<exists>r'. NextBlock ops r = Return (Some (block_of xs (unat (r_blockSize r)) i), None, r') \<and>
    pending_blocks r' = is \<and> reader_inv content ready xs r' \<and>
    r_blockSize r' = r_blockSize r \<and> r_totalSize r' = r_totalSize r \<and>
    r_redoBlocks r' = tl (r_redoBlocks r) \<and>
    r_nextIndex r' = (if r_redoBlocks r = [] then r_nextIndex r + 1 else r_nextIndex r)"
proof -
  have i: "i < reader_count r" using pending_in_range [OF inv] todo by simp
  have not_done: "\<not> Reader_IsDone r" using Reader_IsDone_iff [OF inv] todo by simp
  show ?thesis
  proof (cases "r_redoBlocks r")
    case Nil
    then have nxt: "unat (r_nextIndex r) = i" and rest: "is = [Suc i..<reader_count r]"
      using todo by (auto simp: pending_blocks_def upt_eq_Cons_conv)
    obtain f where f: "ReadBlock ops r (r_nextIndex r) =
        Return (Some (block_of xs (unat (r_blockSize r)) i), None, r\<lparr>r_reader := f\<rparr>)"
      "ready f" "content f = xs"
      using ReadBlock_content [OF inv, of "r_nextIndex r"] i nxt by auto
    have "unat (r_nextIndex r + 1) = Suc i"
      using nxt i sized_count [of "r_blockSize r" "r_totalSize r" "Suc i"] reader_sized [OF inv]
      by (simp add: unat_add_64 reader_count_def maxAlloc_def)
    then show ?thesis
      using f not_done Nil inv i rest
      by (auto simp: NextBlock_def Let_def pending_blocks_def reader_inv_def reader_count_def)
  next
    case (Cons j js)
    then have j: "unat j = i" and rest: "is = map unat js @ [unat (r_nextIndex r)..<reader_count r]"
      using todo by (auto simp: pending_blocks_def)
    obtain f where f: "ReadBlock ops r j =
        Return (Some (block_of xs (unat (r_blockSize r)) i), None, r\<lparr>r_reader := f\<rparr>)"
      "ready f" "content f = xs"
      using ReadBlock_content [OF inv, of j] i j by auto
    then show ?thesis
      using not_done Cons inv rest
      by (auto simp: NextBlock_def Let_def pending_blocks_def reader_inv_def reader_count_def)
  qed
qed

end

lemma RedoBlock_queued:
  assumes inv: "reader_inv content ready xs r"
    and i: "i < r_nextIndex r" "i \<notin> set (r_redoBlocks r)"
  shows "RedoBlock r i = (True, None, r\<lparr>r_redoBlocks := r_redoBlocks r @ [i]\<rparr>) \<and>
    reader_inv content ready xs (r\<lparr>r_redoBlocks := r_redoBlocks r @ [i]\<rparr>)"
proof -
  have lt: "unat i < reader_count r"
    using inv i(1) by (simp add: reader_inv_def word_less_nat_alt)
  then have "\<not> r_totalSize r \<le> Reader_offset r i"
    using Offset_in_range [of "r_blockSize r" "r_totalSize r" i] reader_sized [OF inv]
    by (simp add: Reader_offset_def reader_count_def)
  then show ?thesis
    using inv i by (auto simp: RedoBlock_def reader_inv_def reader_count_def not_le)
qed

lemma NewBlockReader_inv:
  assumes "ready f" and "content f = xs" and "length xs \<le> maxAlloc" and "s \<noteq> 0"
  shows "reader_inv content ready xs (NewBlockReader f (of_nat (length xs)) s)"
    "pending_blocks (NewBlockReader f (of_nat (length xs)) s) = [0..<block_count (length xs) (unat s)]"
  using assms
  by (simp_all add: NewBlockReader_def reader_inv_def pending_blocks_def reader_count_def
      unat_of_nat_64 maxAlloc_def)

section \<open>Draining a reader\<close>

text \<open>\<open>n\<close> calls of \<open>NextBlock\<close>, stopping at the first error.\<close>

fun drain ::
  "'f ReadSeekCloser \<Rightarrow> nat \<Rightarrow> 'f Reader \<Rightarrow> (Block list \<times> error option \<times> 'f Reader) outcome" where
  "drain ops 0 r = Return ([], None, r)"
| "drain ops (Suc n) r =
     obind (NextBlock ops r) (\<lambda>(b, err, r').
       case (b, err) of
         (Some blk, None) \<Rightarrow>
           obind (drain ops n r') (\<lambda>(bs, err, r''). Return (blk # bs, err, r''))
       | _ \<Rightarrow> Return ([], err, r'))"

context read_file
begin

lemma drain_pending:
  "reader_inv content ready xs r \<Longrightarrow> pending_blocks r = is @ js \<Longrightarrow>
   \<exists>r'. drain ops (length is) r =
     Return (map (block_of xs (unat (r_blockSize r))) is, None, r') \<and>
     pending_blocks r' = js \<and> reader_inv content ready xs r'"
proof (induction "is" arbitrary: r)
  case Nil
  then show ?case by simp
next
  case (Cons i "is")
  obtain r1 where r1: "NextBlock ops r =
      Return (Some (block_of xs (unat (r_blockSize r)) i), None, r1)"
    "pending_blocks r1 = is @ js" "reader_inv content ready xs r1" "r_blockSize r1 = r_blockSize r"
    using NextBlock_pending [OF Cons.prems(1)] Cons.prems(2) by auto
  then show ?case using Cons.IH [of r1] by auto
qed

end

section \<open>Properties\<close>

text \<open>
  C8. A fresh reader over a file of \<open>length xs\<close> bytes delivers its blocks in order: the
  \<open>i\<close>-th carries index \<open>i\<close> and a correct checksum, their data joined is the file, and the
  next call is \<open>io.EOF\<close>.
\<close>

theorem reader_delivers_file:
  assumes "length xs \<le> maxAlloc" and "s \<noteq> 0"
  shows "\<exists>bs r. drain buffer_rsc (block_count (length xs) (unat s))
      (NewBlockReader (NewBuffer xs) (of_nat (length xs)) s) = Return (bs, None, r) \<and>
    concat (map b_Data bs) = xs \<and>
    map b_Index bs = map of_nat [0..<block_count (length xs) (unat s)] \<and>
    (\<forall>b\<in>set bs. b_Checksum b = ComputeChecksum (b_Index b) (b_Data b)) \<and>
    NextBlock buffer_rsc r = Return (None, Some (IOError EOF), r)"
proof -
  let ?n = "block_count (length xs) (unat s)"
  let ?r = "NewBlockReader (NewBuffer xs) (of_nat (length xs)) s"
  have inv: "reader_inv buf_Data buf_ready xs ?r" "pending_blocks ?r = [0..<?n]"
    using NewBlockReader_inv [of buf_ready "NewBuffer xs" buf_Data xs s] assms by auto
  then obtain r' where r': "drain buffer_rsc ?n ?r =
      Return (map (block_of xs (unat s)) [0..<?n], None, r')"
    "pending_blocks r' = []" "reader_inv buf_Data buf_ready xs r'"
    using buffer_reader.drain_pending [OF inv(1), of "[0..<?n]" "[]"]
    by (auto simp: NewBlockReader_def)
  have "NextBlock buffer_rsc r' = Return (None, Some (IOError EOF), r')"
    using Reader_IsDone_iff [OF r'(3)] r'(2) by (simp add: NextBlock_def)
  moreover have "concat (map b_Data (map (block_of xs (unat s)) [0..<?n])) = xs"
    using concat_slices [of "unat s" xs] assms(2) by (simp add: o_def unat_gt_0)
  ultimately show ?thesis using r'(1) by (fastforce simp: o_def)
qed

lemma reader_delivers_file_witness:
  "\<exists>bs r. drain buffer_rsc (block_count (length [48, 49, 50, 51, 52 :: byte]) 4)
      (NewBlockReader (NewBuffer [48, 49, 50, 51, 52]) 5 4)
      = Return (bs, None, r) \<and> concat (map b_Data bs) = [48, 49, 50, 51, 52]"
  using reader_delivers_file [of "[48, 49, 50, 51, 52]" 4] by (auto simp: maxAlloc_def)

text \<open>
  Whatever the file does, a call of \<open>NextBlock\<close> that fails neither advances the next index
  nor drops a block to redo, so that the same block is tried again.
\<close>

theorem NextBlock_error_keeps_position:
  assumes "NextBlock ops r = Return (b, Some e, r')"
  shows "b = None \<and> r_nextIndex r' = r_nextIndex r \<and> r_redoBlocks r' = r_redoBlocks r"
  using assms
  by (auto simp: NextBlock_def ReadBlock_def Reader_seek_def Reader_read_def Let_def obind_eq_Return
      split: if_splits option.splits list.splits prod.splits)

lemma NextBlock_error_keeps_position_witness:
  "\<exists>r'. NextBlock buffer_rsc (NewBlockReader ((NewBuffer [1, 2])\<lparr>buf_closed := True\<rparr>) 2 1) =
     Return (None, Some (BufferError BufferClosed), r') \<and> r_nextIndex r' = 0"
  using NextBlock_error_keeps_position
    [of buffer_rsc "NewBlockReader ((NewBuffer [1, 2])\<lparr>buf_closed := True\<rparr>) 2 1" None
        "BufferError BufferClosed" "NewBlockReader ((NewBuffer [1, 2])\<lparr>buf_closed := True\<rparr>) 2 1"]
  by (simp add: NewBlockReader_def NewBuffer_def NextBlock_def Reader_IsDone_def Reader_offset_def
      Size_Offset_def ReadBlock_def Reader_seek_def buffer_rsc_def Buffer_Seek_def Let_def)

text \<open>
  A block that may be read again (it was read before and is not already queued) is
  delivered next, before any new block, when nothing else is queued, and afterwards the
  reader is where it was; every other request is refused and changes nothing.
\<close>

theorem RedoBlock_is_next:
  assumes "reader_inv buf_Data buf_ready xs r" and "r_redoBlocks r = []"
  shows "(i < r_nextIndex r \<longrightarrow>
      (\<exists>r1 r2. RedoBlock r i = (True, None, r1) \<and>
        NextBlock buffer_rsc r1 = Return (Some (block_of xs (unat (r_blockSize r)) (unat i)), None, r2) \<and>
        pending_blocks r2 = pending_blocks r)) \<and>
    (r_nextIndex r \<le> i \<longrightarrow>
      (\<exists>e. RedoBlock r i = (False, Some (BlockReaderError e), r)))"
proof (intro conjI impI)
  assume i: "i < r_nextIndex r"
  let ?r = "r\<lparr>r_redoBlocks := r_redoBlocks r @ [i]\<rparr>"
  have redo: "RedoBlock r i = (True, None, ?r)" "reader_inv buf_Data buf_ready xs ?r"
    using RedoBlock_queued [OF assms(1) i] assms(2) by auto
  have "pending_blocks ?r = unat i # pending_blocks r"
    by (simp add: pending_blocks_def assms(2) reader_count_def)
  then show "\<exists>r1 r2. RedoBlock r i = (True, None, r1) \<and>
      NextBlock buffer_rsc r1 = Return (Some (block_of xs (unat (r_blockSize r)) (unat i)), None, r2) \<and>
      pending_blocks r2 = pending_blocks r"
    using buffer_reader.NextBlock_pending [OF redo(2)] redo(1) by auto
qed (auto simp: RedoBlock_def)

lemma RedoBlock_is_next_witness:
  "\<exists>r1 r2. RedoBlock ((NewBlockReader (NewBuffer [1, 2, 3]) 3 2)\<lparr>r_nextIndex := 1\<rparr>) 0 = (True, None, r1) \<and>
     NextBlock buffer_rsc r1 = Return (Some (block_of [1, 2, 3] 2 0), None, r2)"
proof -
  have "reader_inv buf_Data buf_ready [1, 2, 3]
      ((NewBlockReader (NewBuffer [1, 2, 3]) 3 2)\<lparr>r_nextIndex := 1\<rparr>)"
    by (simp add: reader_inv_def NewBlockReader_def maxAlloc_def reader_count_def block_count_def)
  from RedoBlock_is_next [OF this, of 0] show ?thesis by (auto simp: NewBlockReader_def)
qed

end
