(* ===== verification/Block_Writer.thy ===== *)
theory Block_Writer
  imports Block_Reader
begin

text \<open>
  \<open>lib/session/transfer/block/writer.go\<close>: the receiver's side of a file. A block is checked
  (position, size, not written before, checksum), written at its offset and recorded in a
  table of flags. The lemmas show that the flags and their count agree, that the file equals
  the sender's wherever a flag is set, and therefore that a writer that is done holds the
  sender's file, in whatever order the blocks came.
\<close>

section \<open>Model\<close>

record 'f Writer =
  w_writer :: 'f
  w_totalSize :: uint64
  w_blockSize :: Size
  w_written :: "bool list"
  w_writtenCount :: uint64

definition NewWriter :: "'f \<Rightarrow> uint64 \<Rightarrow> Size \<Rightarrow> 'f Writer outcome" where
  "NewWriter writer sz blockSize =
     obind (Size_BlockCount blockSize sz) (\<lambda>n.
       obind (make_slice n False) (\<lambda>written.
         Return \<lparr>w_writer = writer, w_totalSize = sz, w_blockSize = blockSize,
           w_written = written, w_writtenCount = 0\<rparr>))"

definition Writer_BlockCount :: "'f Writer \<Rightarrow> uint64 outcome" where
  "Writer_BlockCount w = Size_BlockCount (w_blockSize w) (w_totalSize w)"

definition Writer_IsDone :: "'f Writer \<Rightarrow> bool outcome" where
  "Writer_IsDone w = obind (Writer_BlockCount w) (\<lambda>n. Return (w_writtenCount w = n))"

definition Writer_offset :: "'f Writer \<Rightarrow> uint64 \<Rightarrow> uint64" where
  "Writer_offset w index = Size_Offset (w_blockSize w) index"

definition Writer_index :: "'f Writer \<Rightarrow> uint64 \<Rightarrow> uint64 outcome" where
  "Writer_index w offset = Size_Index (w_blockSize w) offset"

definition Writer_amount :: "'f Writer \<Rightarrow> uint64 \<Rightarrow> uint64" where
  "Writer_amount w offset = Size_Amount (w_blockSize w) offset (w_totalSize w)"

definition checkBlock :: "'f Writer \<Rightarrow> Block \<Rightarrow> error option outcome" where
  "checkBlock w block =
     (let offset = Writer_offset w (b_Index block) in
      if w_totalSize w \<le> offset then Return (Some (BlockWriterError WriterBoundsExceeded))
      else if of_nat (length (b_Data block)) \<noteq> Writer_amount w offset
      then Return (Some (BlockWriterError BadBlockData))
      else obind (index_slice (w_written w) (b_Index block)) (\<lambda>already.
        if already then Return (Some (BlockWriterError AlreadyWritten))
        else let expected = ComputeChecksum (b_Index block) (b_Data block) in
          if expected \<noteq> b_Checksum block then Return (Some (BlockWriterError BadBlockChecksum))
          else Return None))"

definition Writer_seek ::
  "'f WriteSeekCloser \<Rightarrow> 'f Writer \<Rightarrow> uint64 \<Rightarrow> (error option \<times> 'f Writer) outcome" where
  "Writer_seek ops w index =
     (let offset = Writer_offset w index in
      obind (wsc_Seek ops (w_writer w) (sint offset) SeekStart) (\<lambda>(position, err, f).
        let w' = w\<lparr>w_writer := f\<rparr> in
        case err of
          Some e \<Rightarrow> Return (Some e, w')
        | None \<Rightarrow>
            if position \<noteq> sint offset
            then Panic (PanicString ''seek position does not equal requested offset'')
            else Return (None, w')))"

definition Writer_write ::
  "'f WriteSeekCloser \<Rightarrow> 'f Writer \<Rightarrow> bytes \<Rightarrow> (error option \<times> 'f Writer) outcome" where
  "Writer_write ops w data =
     obind (wsc_Write ops (w_writer w) data) (\<lambda>(n, err, f).
       let w' = w\<lparr>w_writer := f\<rparr> in
       case err of
         Some e \<Rightarrow> Return (Some e, w')
       | None \<Rightarrow>
           if n \<noteq> length data then Panic (PanicString ''unexpected amount of bytes written'')
           else Return (None, w'))"

definition WriteBlock ::
  "'f WriteSeekCloser \<Rightarrow> 'f Writer \<Rightarrow> Block \<Rightarrow> (error option \<times> 'f Writer) outcome" where
  "WriteBlock ops w block =
     obind (checkBlock w block) (\<lambda>err.
       case err of
         Some e \<Rightarrow> Return (Some e, w)
       | None \<Rightarrow>
           obind (Writer_seek ops w (b_Index block)) (\<lambda>(err, w1).
             case err of
               Some e \<Rightarrow> Return (Some e, w1)
             | None \<Rightarrow>
                 obind (Writer_write ops w1 (b_Data block)) (\<lambda>(err, w2).
                   case err of
                     Some e \<Rightarrow> Return (Some e, w2)
                   | None \<Rightarrow>
                       obind (update_slice (w_written w2) (b_Index block) True) (\<lambda>written.
                         Return (None,
                           w2\<lparr>w_written := written, w_writtenCount := w_writtenCount w2 + 1\<rparr>)))))"

definition Writer_Close :: "'f WriteSeekCloser \<Rightarrow> 'f Writer \<Rightarrow> error option \<times> 'f Writer" where
  "Writer_Close ops w =
     (case wsc_Close ops (w_writer w) of (err, f) \<Rightarrow> (err, w\<lparr>w_writer := f\<rparr>))"

section \<open>Invariant\<close>

definition writer_count :: "'f Writer \<Rightarrow> nat" where
  "writer_count w = block_count (unat (w_totalSize w)) (unat (w_blockSize w))"

definition writer_inv :: "('f \<Rightarrow> bytes) \<Rightarrow> ('f \<Rightarrow> bool) \<Rightarrow> 'f Writer \<Rightarrow> bool" where
  "writer_inv content ready w \<longleftrightarrow>
     ready (w_writer w) \<and> length (content (w_writer w)) = unat (w_totalSize w) \<and>
     sized (w_blockSize w) (w_totalSize w) \<and>
     length (w_written w) = writer_count w \<and>
     unat (w_writtenCount w) = length (filter id (w_written w))"

text \<open>Wherever a flag is set the file agrees with the sender's file \<open>xs\<close>.\<close>

definition writer_agrees :: "('f \<Rightarrow> bytes) \<Rightarrow> bytes \<Rightarrow> 'f Writer \<Rightarrow> bool" where
  "writer_agrees content xs w \<longleftrightarrow>
     length xs = unat (w_totalSize w) \<and>
     (\<forall>i < writer_count w. w_written w ! i \<longrightarrow>
        slice (content (w_writer w)) (unat (w_blockSize w)) i = slice xs (unat (w_blockSize w)) i)"

text \<open>The bytes of a file with block \<open>i\<close> replaced.\<close>

definition patch :: "bytes \<Rightarrow> nat \<Rightarrow> nat \<Rightarrow> bytes \<Rightarrow> bytes" where
  "patch xs s i data = take (i * s) xs @ data @ drop (i * s + length data) xs"

lemma length_patch:
  "i * s + length data \<le> length xs \<Longrightarrow> length (patch xs s i data) = length xs"
  by (simp add: patch_def)

lemma slice_patch_same:
  assumes "length data = min s (length xs - i * s)" and "i * s \<le> length xs"
  shows "slice (patch xs s i data) s i = data"
  using assms by (auto simp: slice_def patch_def min_def split: if_splits)

lemma slice_patch_other:
  assumes "length data = min s (length xs - i * s)" and "i * s \<le> length xs" and "i \<noteq> j"
  shows "slice (patch xs s i data) s j = slice xs s j"
proof (cases "j < i")
  case True
  then have "j * s + s \<le> i * s" by (metis Suc_leI add.commute mult_Suc mult_le_mono1)
  then show ?thesis using assms(2)
    by (auto simp: slice_def patch_def take_drop min_def)
next
  case False
  then have "i * s + s \<le> j * s"
    using assms(3) by (metis Suc_leI add.commute mult_Suc mult_le_mono1 nat_neq_iff)
  then obtain d where d: "j * s = i * s + s + d" by (metis le_Suc_ex)
  then show ?thesis using assms(1,2)
    by (cases "s \<le> length xs - i * s") (auto simp: slice_def patch_def min_def algebra_simps)
qed

section \<open>Lemmas\<close>

lemma checkBlock_in_range:
  assumes inv: "writer_inv content ready w" and i: "unat (b_Index b) < writer_count w"
    and len: "length (b_Data b) < 18446744073709551616"
  shows "checkBlock w b = Return
    (if length (b_Data b) \<noteq>
        min (unat (w_blockSize w)) (unat (w_totalSize w) - unat (b_Index b) * unat (w_blockSize w))
     then Some (BlockWriterError BadBlockData)
     else if w_written w ! unat (b_Index b) then Some (BlockWriterError AlreadyWritten)
     else if ComputeChecksum (b_Index b) (b_Data b) \<noteq> b_Checksum b
     then Some (BlockWriterError BadBlockChecksum) else None)"
proof -
  have sz: "sized (w_blockSize w) (w_totalSize w)" and
    flags: "unat (b_Index b) < length (w_written w)"
    using inv i by (auto simp: writer_inv_def)
  have "\<not> w_totalSize w \<le> Writer_offset w (b_Index b)"
    using Offset_in_range [OF sz] i by (simp add: Writer_offset_def writer_count_def)
  moreover have "of_nat (length (b_Data b)) = Writer_amount w (Writer_offset w (b_Index b)) \<longleftrightarrow>
      length (b_Data b) =
        min (unat (w_blockSize w)) (unat (w_totalSize w) - unat (b_Index b) * unat (w_blockSize w))"
    using Amount_unat [OF sz, of "b_Index b"] i len
    by (simp add: word_unat_eq_iff unat_of_nat_64 Writer_amount_def Writer_offset_def writer_count_def)
  ultimately show ?thesis
    using flags by (simp add: checkBlock_def Let_def index_slice_in)
qed

lemma checkBlock_error_keeps:
  "checkBlock w b = Return (Some e) \<Longrightarrow> WriteBlock ops w b = Return (Some e, w)"
  by (simp add: WriteBlock_def)

lemma Writer_IsDone_iff:
  assumes "writer_inv content ready w"
  shows "Writer_IsDone w = Return (\<forall>i < writer_count w. w_written w ! i)"
proof -
  have "w_blockSize w \<noteq> 0" using assms by (simp add: writer_inv_def sized_def)
  then obtain c where c: "Writer_BlockCount w = Return c" "unat c = writer_count w"
    using BlockCount_unat by (auto simp: Writer_BlockCount_def writer_count_def)
  have "w_writtenCount w = c \<longleftrightarrow> length (filter id (w_written w)) = length (w_written w)"
    using assms c by (simp add: writer_inv_def word_unat_eq_iff)
  also have "\<dots> \<longleftrightarrow> (\<forall>i < writer_count w. w_written w ! i)"
    using assms length_filter_id_all [of "w_written w"] by (simp add: writer_inv_def)
  finally show ?thesis by (simp add: Writer_IsDone_def c)
qed

lemma writer_agrees_done:
  assumes "writer_inv content ready w" and "writer_agrees content xs w"
    and "Writer_IsDone w = Return True"
  shows "content (w_writer w) = xs"
proof -
  let ?c = "content (w_writer w)" and ?s = "unat (w_blockSize w)"
  have "0 < ?s" using assms(1) sized_pos by (auto simp: writer_inv_def)
  have "\<forall>i < writer_count w. slice ?c ?s i = slice xs ?s i"
    using assms Writer_IsDone_iff [OF assms(1)] by (simp add: writer_agrees_def)
  then have "map (slice ?c ?s) [0..<writer_count w] = map (slice xs ?s) [0..<writer_count w]"
    by simp
  moreover have "writer_count w = block_count (length ?c) ?s" "writer_count w = block_count (length xs) ?s"
    using assms by (simp_all add: writer_inv_def writer_agrees_def writer_count_def)
  ultimately show ?thesis
    using concat_slices [OF \<open>0 < ?s\<close>, of ?c] concat_slices [OF \<open>0 < ?s\<close>, of xs] by metis
qed

context write_file
begin

lemma WriteBlock_writes:
  assumes inv: "writer_inv content ready w" and ok: "checkBlock w b = Return None"
    and i: "unat (b_Index b) < writer_count w" and len: "length (b_Data b) < 18446744073709551616"
  shows "\<exists>f. WriteBlock ops w b = Return (None,
      w\<lparr>w_writer := f, w_written := (w_written w)[unat (b_Index b) := True],
        w_writtenCount := w_writtenCount w + 1\<rparr>) \<and>
    ready f \<and> content f = patch (content (w_writer w)) (unat (w_blockSize w)) (unat (b_Index b)) (b_Data b)"
proof -
  let ?i = "unat (b_Index b)" and ?s = "unat (w_blockSize w)" and ?off = "Writer_offset w (b_Index b)"
  let ?c = "content (w_writer w)"
  have sz: "sized (w_blockSize w) (w_totalSize w)" and tot: "length ?c = unat (w_totalSize w)"
    and rdy: "ready (w_writer w)" and flags: "?i < length (w_written w)"
    using inv i by (auto simp: writer_inv_def)
  have lt: "?i * ?s < length ?c"
    using less_block_count [OF sized_pos [OF sz]] i tot by (simp add: writer_count_def)
  have off: "unat ?off = ?i * ?s"
    using Offset_unat [OF sz] i by (simp add: Writer_offset_def writer_count_def)
  have amount: "length (b_Data b) = min ?s (length ?c - ?i * ?s)"
    using ok checkBlock_in_range [OF inv i len] tot by (simp split: if_splits)
  have "unat ?off < 9223372036854775808"
    using lt off sz tot by (simp add: sized_def maxAlloc_def)
  then obtain f1 where f1: "wsc_Seek ops (w_writer w) (sint ?off) SeekStart =
      Return (sint ?off, None, f1)" "content f1 = ?c" "pos f1 = ?i * ?s" "ready f1"
    using write_seek [OF rdy, of "unat ?off"] lt off sint_small_64 [of ?off] by auto
  have "pos f1 + length (b_Data b) \<le> length (content f1)" using f1(2,3) lt amount by simp
  then obtain f2 where f2: "wsc_Write ops f1 (b_Data b) = Return (length (b_Data b), None, f2)"
    "content f2 = patch ?c ?s ?i (b_Data b)" "ready f2"
    using write_at [OF f1(4), of "b_Data b"] f1(2,3) unfolding patch_def by auto
  have "Writer_seek ops w (b_Index b) = Return (None, w\<lparr>w_writer := f1\<rparr>)"
    by (simp add: Writer_seek_def Let_def f1)
  moreover have "Writer_write ops (w\<lparr>w_writer := f1\<rparr>) (b_Data b) = Return (None, w\<lparr>w_writer := f2\<rparr>)"
    by (simp add: Writer_write_def Let_def f2)
  ultimately show ?thesis
    using ok flags f2 by (auto simp: WriteBlock_def update_slice_in)
qed

lemma WriteBlock_inv:
  assumes inv: "writer_inv content ready w" and ok: "checkBlock w b = Return None"
    and i: "unat (b_Index b) < writer_count w" and len: "length (b_Data b) < 18446744073709551616"
  shows "\<exists>w'. WriteBlock ops w b = Return (None, w') \<and> writer_inv content ready w' \<and>
    w_written w' = (w_written w)[unat (b_Index b) := True] \<and>
    w_totalSize w' = w_totalSize w \<and> w_blockSize w' = w_blockSize w \<and>
    content (w_writer w') =
      patch (content (w_writer w)) (unat (w_blockSize w)) (unat (b_Index b)) (b_Data b)"
proof -
  let ?i = "unat (b_Index b)" and ?c = "content (w_writer w)" and ?s = "unat (w_blockSize w)"
  have sz: "sized (w_blockSize w) (w_totalSize w)" using inv by (simp add: writer_inv_def)
  obtain f where f: "WriteBlock ops w b = Return (None,
      w\<lparr>w_writer := f, w_written := (w_written w)[?i := True],
        w_writtenCount := w_writtenCount w + 1\<rparr>)" "ready f" "content f = patch ?c ?s ?i (b_Data b)"
    using WriteBlock_writes [OF assms] by blast
  have new: "\<not> w_written w ! ?i" and fit: "length (b_Data b) = min ?s (length ?c - ?i * ?s)"
    using ok checkBlock_in_range [OF inv i len] inv by (auto simp: writer_inv_def split: if_splits)
  have "?i * ?s < length ?c"
    using less_block_count [OF sized_pos [OF sz]] i inv by (simp add: writer_count_def writer_inv_def)
  then have len': "length (content f) = length ?c" using f(3) fit by (simp add: length_patch)
  have count: "length (filter id ((w_written w)[?i := True])) = Suc (length (filter id (w_written w)))"
    using length_filter_id_update new i inv by (simp add: writer_inv_def)
  have "length (filter id (w_written w)) \<le> writer_count w"
    using inv length_filter_le [of id "w_written w"] by (simp add: writer_inv_def)
  then have "unat (w_writtenCount w) \<le> maxAlloc"
    using sized_count [OF sz] inv by (simp add: writer_inv_def writer_count_def)
  then have "unat (w_writtenCount w + 1) = Suc (unat (w_writtenCount w))"
    by (simp add: unat_add_64 maxAlloc_def)
  then have "writer_inv content ready (w\<lparr>w_writer := f, w_written := (w_written w)[?i := True],
      w_writtenCount := w_writtenCount w + 1\<rparr>)"
    using inv f(2) len' count by (simp add: writer_inv_def writer_count_def)
  then show ?thesis using f by auto
qed

lemma WriteBlock_agrees:
  assumes inv: "writer_inv content ready w" and ag: "writer_agrees content xs w"
    and i: "i < writer_count w" and new: "\<not> w_written w ! i"
  shows "\<exists>w'. WriteBlock ops w (block_of xs (unat (w_blockSize w)) i) = Return (None, w') \<and>
    writer_inv content ready w' \<and> writer_agrees content xs w' \<and>
    w_written w' = (w_written w)[i := True] \<and>
    w_totalSize w' = w_totalSize w \<and> w_blockSize w' = w_blockSize w"
proof -
  let ?s = "unat (w_blockSize w)" and ?c = "content (w_writer w)"
  let ?b = "block_of xs ?s i"
  have sz: "sized (w_blockSize w) (w_totalSize w)" and tot: "length ?c = unat (w_totalSize w)"
    "length xs = unat (w_totalSize w)" using inv ag by (auto simp: writer_inv_def writer_agrees_def)
  have idx: "unat (b_Index ?b) = i" using unat_of_nat_index [OF sz] i by (simp add: writer_count_def)
  have small: "length (b_Data ?b) < 18446744073709551616"
    using tot sz by (auto simp: length_slice sized_def maxAlloc_def)
  have len: "length (b_Data ?b) = min ?s (length ?c - i * ?s)" using tot by (simp add: length_slice)
  have ok: "checkBlock w ?b = Return None"
    using checkBlock_in_range [OF inv, of ?b] i idx new small len tot by simp
  have le: "i * ?s \<le> length ?c"
    using less_block_count [OF sized_pos [OF sz]] i tot by (simp add: writer_count_def less_imp_le)
  obtain w' where w': "WriteBlock ops w ?b = Return (None, w')" "writer_inv content ready w'"
    "w_written w' = (w_written w)[i := True]" "w_totalSize w' = w_totalSize w"
    "w_blockSize w' = w_blockSize w" "content (w_writer w') = patch ?c ?s i (b_Data ?b)"
    using WriteBlock_inv [OF inv ok] i idx small by auto
  have "slice (content (w_writer w')) ?s j = slice xs ?s j"
    if "j < writer_count w" "w_written w' ! j" for j
  proof (cases "j = i")
    case True
    then show ?thesis using w'(6) slice_patch_same [OF len le] by simp
  next
    case False
    then show ?thesis
      using that ag w'(3,6) slice_patch_other [OF len le, of j] by (simp add: writer_agrees_def)
  qed
  then have "writer_agrees content xs w'"
    using tot w'(4,5) by (simp add: writer_agrees_def writer_count_def)
  then show ?thesis using w' by blast
qed

end

lemma NewWriter_inv:
  assumes "ready f" and "length (content f) = unat sz" and "sized s sz"
  shows "\<exists>w. NewWriter f sz s = Return w \<and> writer_inv content ready w \<and>
    w_written w = replicate (writer_count w) False \<and> w_totalSize w = sz \<and> w_blockSize w = s \<and>
    w_writer w = f"
proof -
  obtain c where c: "Size_BlockCount s sz = Return c" "unat c = block_count (unat sz) (unat s)"
    using BlockCount_unat [of s sz] assms(3) by (auto simp: sized_def)
  moreover have "unat c \<le> maxAlloc" using sized_count [OF assms(3)] c by simp
  ultimately show ?thesis
    using assms by (simp add: NewWriter_def make_slice_in writer_inv_def writer_count_def)
qed

section \<open>Writing a list of blocks\<close>

text \<open>One \<open>WriteBlock\<close> after another, stopping at the first error.\<close>

fun write_blocks ::
  "'f WriteSeekCloser \<Rightarrow> 'f Writer \<Rightarrow> Block list \<Rightarrow> (error option \<times> 'f Writer) outcome" where
  "write_blocks ops w [] = Return (None, w)"
| "write_blocks ops w (b # bs) =
     obind (WriteBlock ops w b) (\<lambda>(err, w').
       case err of Some e \<Rightarrow> Return (Some e, w') | None \<Rightarrow> write_blocks ops w' bs)"

context write_file
begin

lemma write_blocks_agree:
  "writer_inv content ready w \<Longrightarrow> writer_agrees content xs w \<Longrightarrow> distinct is \<Longrightarrow>
   \<forall>i\<in>set is. i < writer_count w \<and> \<not> w_written w ! i \<Longrightarrow>
   \<exists>w'. write_blocks ops w (map (block_of xs (unat (w_blockSize w))) is) = Return (None, w') \<and>
     writer_inv content ready w' \<and> writer_agrees content xs w' \<and>
     (\<forall>i < writer_count w. w_written w' ! i \<longleftrightarrow> w_written w ! i \<or> i \<in> set is) \<and>
     w_totalSize w' = w_totalSize w \<and> w_blockSize w' = w_blockSize w"
proof (induction "is" arbitrary: w)
  case Nil
  then show ?case by simp
next
  case (Cons i "is")
  obtain w1 where w1: "WriteBlock ops w (block_of xs (unat (w_blockSize w)) i) = Return (None, w1)"
    "writer_inv content ready w1" "writer_agrees content xs w1"
    "w_written w1 = (w_written w)[i := True]"
    "w_totalSize w1 = w_totalSize w" "w_blockSize w1 = w_blockSize w"
    using WriteBlock_agrees [OF Cons.prems(1,2), of i] Cons.prems(4) by auto
  have "length (w_written w) = writer_count w" and same: "writer_count w1 = writer_count w"
    using Cons.prems(1) w1(5,6) by (simp_all add: writer_inv_def writer_count_def)
  then have flags: "\<forall>j < writer_count w. w_written w1 ! j \<longleftrightarrow> w_written w ! j \<or> j = i"
    using Cons.prems(4) w1(4) by (auto simp: nth_list_update)
  then have "\<forall>j\<in>set is. j < writer_count w1 \<and> \<not> w_written w1 ! j"
    using Cons.prems(3,4) same by auto
  then obtain w2 where
    "write_blocks ops w1 (map (block_of xs (unat (w_blockSize w1))) is) = Return (None, w2)"
    "writer_inv content ready w2" "writer_agrees content xs w2"
    "\<forall>j < writer_count w1. w_written w2 ! j \<longleftrightarrow> w_written w1 ! j \<or> j \<in> set is"
    "w_totalSize w2 = w_totalSize w1" "w_blockSize w2 = w_blockSize w1"
    using Cons.IH [OF w1(2,3)] Cons.prems(3) by auto
  then show ?case using w1 same flags by auto
qed

end

section \<open>Properties\<close>

text \<open>
  C7. The blocks of a file, written in any order, each exactly once, to a fresh writer over a
  buffer of the file's size, are all accepted; the writer is then done and the buffer holds
  the file.
\<close>

theorem writer_assembles_any_order:
  assumes "length xs \<le> maxAlloc" and "s \<noteq> 0" and "length ys = length xs"
    and "distinct is" and "set is = {0..<block_count (length xs) (unat s)}"
  shows "\<exists>w w'. NewWriter (NewBuffer ys) (of_nat (length xs)) s = Return w \<and>
    write_blocks buffer_wsc w (map (block_of xs (unat s)) is) = Return (None, w') \<and>
    Writer_IsDone w' = Return True \<and> buf_Data (w_writer w') = xs"
proof -
  have sz: "sized s (of_nat (length xs))" and tot: "unat (of_nat (length xs) :: uint64) = length xs"
    using assms(1,2) by (simp_all add: sized_def unat_of_nat_64 maxAlloc_def)
  then obtain w where w: "NewWriter (NewBuffer ys) (of_nat (length xs)) s = Return w"
    "writer_inv buf_Data buf_ready w" "w_written w = replicate (writer_count w) False"
    "w_totalSize w = of_nat (length xs)" "w_blockSize w = s"
    using NewWriter_inv [of buf_ready "NewBuffer ys" buf_Data "of_nat (length xs)" s] assms(3) by auto
  have count: "writer_count w = block_count (length xs) (unat s)"
    using w(4,5) tot by (simp add: writer_count_def)
  have "writer_agrees buf_Data xs w" using w(3,4) tot by (simp add: writer_agrees_def)
  then obtain w' where w': "write_blocks buffer_wsc w (map (block_of xs (unat s)) is) = Return (None, w')"
    "writer_inv buf_Data buf_ready w'" "writer_agrees buf_Data xs w'"
    "\<forall>i < writer_count w. w_written w' ! i \<longleftrightarrow> w_written w ! i \<or> i \<in> set is"
    "w_totalSize w' = w_totalSize w" "w_blockSize w' = w_blockSize w"
    using buffer_writer.write_blocks_agree [OF w(2), of xs "is"] assms(4,5) w(3,5) count by auto
  then have "Writer_IsDone w' = Return True"
    using Writer_IsDone_iff [OF w'(2)] assms(5) count by (simp add: writer_count_def)
  then show ?thesis using w(1) w' writer_agrees_done by blast
qed

lemma writer_assembles_any_order_witness:
  "\<exists>w w'. NewWriter (NewBuffer [0, 0, 0, 0, 0]) 5 4 = Return w \<and>
     write_blocks buffer_wsc w (map (block_of [48, 49, 50, 51, 52] 4) [1, 0]) = Return (None, w') \<and>
     Writer_IsDone w' = Return True \<and> buf_Data (w_writer w') = [48, 49, 50, 51, 52]"
proof -
  have "set [1, 0] = {0..<block_count (length [48, 49, 50, 51, 52 :: byte]) (unat (4 :: uint64))}"
    by (auto simp: block_count_def)
  then show ?thesis
    using writer_assembles_any_order [of "[48, 49, 50, 51, 52]" 4 "[0, 0, 0, 0, 0]" "[1, 0]"]
    by (simp add: maxAlloc_def)
qed

text \<open>The check in general: the offset is the product of the index and the block size modulo \<open>2\<close> to the power of 64.\<close>

lemma checkBlock_any_index:
  assumes inv: "writer_inv content ready w" and len: "length (b_Data b) < 18446744073709551616"
    and off: "off = unat (b_Index b) * unat (w_blockSize w) mod 18446744073709551616"
  shows "checkBlock w b =
    (if unat (w_totalSize w) \<le> off then Return (Some (BlockWriterError WriterBoundsExceeded))
     else if length (b_Data b) \<noteq> min (unat (w_blockSize w)) (unat (w_totalSize w) - off) then Return (Some (BlockWriterError BadBlockData))
     else if writer_count w \<le> unat (b_Index b) then Panic (RuntimePanic IndexOutOfRange)
     else if w_written w ! unat (b_Index b) then Return (Some (BlockWriterError AlreadyWritten))
     else if b_Checksum b \<noteq> ComputeChecksum (b_Index b) (b_Data b) then Return (Some (BlockWriterError BadBlockChecksum))
     else Return None)"
proof -
  have flags: "length (w_written w) = writer_count w" using inv by (simp add: writer_inv_def)
  have u: "unat (Writer_offset w (b_Index b)) = off"
    by (simp add: Writer_offset_def Size_Offset_def unat_word_ariths off)
  then have bound: "w_totalSize w \<le> Writer_offset w (b_Index b) \<longleftrightarrow> unat (w_totalSize w) \<le> off"
    by (simp add: word_le_nat_alt)
  have "of_nat (length (b_Data b)) = Writer_amount w (Writer_offset w (b_Index b)) \<longleftrightarrow>
      length (b_Data b) = min (unat (w_blockSize w)) (unat (w_totalSize w) - off)" if "\<not> unat (w_totalSize w) \<le> off"
  proof -
    have "Writer_offset w (b_Index b) \<le> w_totalSize w" using that u by (simp add: word_le_nat_alt)
    then show ?thesis using that bound len
      by (simp add: word_unat_eq_iff unat_of_nat_64 Writer_amount_def Size_Amount_def min_u64_unat unat_sub u)
  qed
  then show ?thesis using bound flags by (auto simp: checkBlock_def Let_def index_slice_def)
qed

lemma offset_bound_iff:
  assumes "writer_inv content ready w" and "unat (b_Index b) * unat (w_blockSize w) < 18446744073709551616"
  shows "unat (w_totalSize w) \<le> unat (b_Index b) * unat (w_blockSize w) \<longleftrightarrow> writer_count w \<le> unat (b_Index b)"
proof -
  have "sized (w_blockSize w) (w_totalSize w)" using assms(1) by (simp add: writer_inv_def)
  from less_block_count [OF sized_pos [OF this]] show ?thesis by (simp add: writer_count_def flip: not_less)
qed

text \<open>
  C28. \<open>WriteBlock\<close> on every block, whatever its index, size and checksum. The offset is the product of index and block
  size, which is a 64-bit number and wraps around. A block whose offset is not inside the file is refused
  with \<open>WriterBoundsExceeded\<close>, one whose size is not that of the block there with \<open>BadBlockData\<close>; then an index that is not one of the
  file's, which is possible only if the product has wrapped around, panics; then \<open>AlreadyWritten\<close> and
  \<open>BadBlockChecksum\<close>. A refused block changes nothing, and every other one is written and marked. When the
  product does not wrap around, the indices that are refused with \<open>WriterBoundsExceeded\<close> are exactly those outside the file.
\<close>

theorem WriteBlock_refuses:
  assumes "writer_inv buf_Data buf_ready w" and "length (b_Data b) < 18446744073709551616"
    and "off = unat (b_Index b) * unat (w_blockSize w) mod 18446744073709551616"
  shows "(unat (b_Index b) * unat (w_blockSize w) < 18446744073709551616 \<longrightarrow>
      (unat (w_totalSize w) \<le> off \<longleftrightarrow> writer_count w \<le> unat (b_Index b))) \<and>
    (if unat (w_totalSize w) \<le> off then WriteBlock buffer_wsc w b = Return (Some (BlockWriterError WriterBoundsExceeded), w)
     else if length (b_Data b) \<noteq> min (unat (w_blockSize w)) (unat (w_totalSize w) - off)
     then WriteBlock buffer_wsc w b = Return (Some (BlockWriterError BadBlockData), w)
     else if writer_count w \<le> unat (b_Index b) then WriteBlock buffer_wsc w b = Panic (RuntimePanic IndexOutOfRange)
     else if w_written w ! unat (b_Index b) then WriteBlock buffer_wsc w b = Return (Some (BlockWriterError AlreadyWritten), w)
     else if b_Checksum b \<noteq> ComputeChecksum (b_Index b) (b_Data b)
     then WriteBlock buffer_wsc w b = Return (Some (BlockWriterError BadBlockChecksum), w)
     else (\<exists>w'. WriteBlock buffer_wsc w b = Return (None, w') \<and> writer_inv buf_Data buf_ready w' \<and>
       w_written w' = (w_written w)[unat (b_Index b) := True]))"
proof -
  note check = checkBlock_any_index [OF assms]
  have "\<exists>w'. WriteBlock buffer_wsc w b = Return (None, w') \<and> writer_inv buf_Data buf_ready w' \<and>
      w_written w' = (w_written w)[unat (b_Index b) := True]"
    if "checkBlock w b = Return None" "\<not> writer_count w \<le> unat (b_Index b)"
    using buffer_writer.WriteBlock_inv [OF assms(1) that(1) _ assms(2)] that(2) by auto
  then have "if checkBlock w b = Return None then writer_count w \<le> unat (b_Index b) \<or>
      (\<exists>w'. WriteBlock buffer_wsc w b = Return (None, w') \<and> writer_inv buf_Data buf_ready w' \<and>
        w_written w' = (w_written w)[unat (b_Index b) := True])
    else WriteBlock buffer_wsc w b = obind (checkBlock w b) (\<lambda>err. Return (err, w))"
    by (cases "checkBlock w b") (auto simp: WriteBlock_def split: option.split)
  then show ?thesis using check offset_bound_iff [OF assms(1), of b] assms(3) by (auto split: if_split_asm)
qed

lemma WriteBlock_refuses_witness:
  "\<exists>w. NewWriter (NewBuffer [0, 0, 0]) 3 2 = Return w \<and>
     WriteBlock buffer_wsc w \<lparr>b_Index = 1, b_Data = [7], b_Checksum = []\<rparr> =
       Return (Some (BlockWriterError BadBlockChecksum), w) \<and>
     WriteBlock buffer_wsc w \<lparr>b_Index = 2, b_Data = [7], b_Checksum = []\<rparr> =
       Return (Some (BlockWriterError WriterBoundsExceeded), w)"
proof -
  obtain w where w: "NewWriter (NewBuffer [0, 0, 0]) 3 2 = Return w" "writer_inv buf_Data buf_ready w"
    "w_written w = replicate (writer_count w) False" "w_totalSize w = 3" "w_blockSize w = 2"
    using NewWriter_inv [of buf_ready "NewBuffer [0, 0, 0]" buf_Data 3 2]
    by (auto simp: sized_def maxAlloc_def)
  have "ComputeChecksum 1 [7] \<noteq> []"
    using length_sha256 [of "PutUint64 1 @ [7]"] by (auto simp: ComputeChecksum_def simp del: length_sha256)
  then have "WriteBlock buffer_wsc w \<lparr>b_Index = 1, b_Data = [7], b_Checksum = []\<rparr> = Return (Some (BlockWriterError BadBlockChecksum), w)"
    using WriteBlock_refuses [OF w(2), of "\<lparr>b_Index = 1, b_Data = [7], b_Checksum = []\<rparr>"] w
    by (auto simp: writer_count_def block_count_def)
  moreover have "WriteBlock buffer_wsc w \<lparr>b_Index = 2, b_Data = [7], b_Checksum = []\<rparr> = Return (Some (BlockWriterError WriterBoundsExceeded), w)"
    using WriteBlock_refuses [OF w(2), of "\<lparr>b_Index = 2, b_Data = [7], b_Checksum = []\<rparr>"] w by simp
  ultimately show ?thesis using w(1) by blast
qed

text \<open>
  The bound check of \<open>checkBlock\<close> is computed with a product that wraps around. An index
  outside the file whose product with the block size wraps back into the file passes it, and
  looking the index up in the table of flags then panics: a peer can stop the receiver with
  one block.
\<close>

theorem WriteBlock_wrapped_index_panics:
  assumes "length (w_written w) \<le> unat (b_Index b)"
    and "Size_Offset (w_blockSize w) (b_Index b) < w_totalSize w"
    and "of_nat (length (b_Data b)) =
      Size_Amount (w_blockSize w) (Size_Offset (w_blockSize w) (b_Index b)) (w_totalSize w)"
  shows "WriteBlock ops w b = Panic (RuntimePanic IndexOutOfRange)"
  using assms
  by (simp add: WriteBlock_def checkBlock_def Let_def Writer_offset_def Writer_amount_def
      index_slice_def)

lemma WriteBlock_wrapped_index_panics_witness:
  "\<exists>w. NewWriter (NewBuffer [0, 0, 0, 0, 0]) 5 32768 = Return w \<and>
     WriteBlock buffer_wsc w \<lparr>b_Index = 0x2000000000000, b_Data = [1, 2, 3, 4, 5], b_Checksum = []\<rparr> =
       Panic (RuntimePanic IndexOutOfRange)"
proof -
  obtain w where w: "NewWriter (NewBuffer [0, 0, 0, 0, 0]) 5 32768 = Return w"
    "w_written w = replicate (writer_count w) False" "w_totalSize w = 5" "w_blockSize w = 32768"
    using NewWriter_inv [of buf_ready "NewBuffer [0, 0, 0, 0, 0]" buf_Data 5 32768]
    by (auto simp: sized_def maxAlloc_def)
  then show ?thesis
    using WriteBlock_wrapped_index_panics
      [of w "\<lparr>b_Index = 0x2000000000000, b_Data = [1, 2, 3, 4, 5], b_Checksum = []\<rparr>" buffer_wsc]
    by (simp add: writer_count_def block_count_def Size_Offset_def Size_Amount_def min_u64_def)
qed

end
