(* ===== verification/Automaton.thy ===== *)
theory Automaton
  imports Prelude
begin

text \<open>
  Package \<open>lib/automaton\<close>: a state machine given as a table of transitions that is checked
  and compiled once, and a handle through which a transition's handler reads and changes
  the state. The state pointer that all compiled handlers share is threaded through them:
  an invoker takes the state it points to and returns the new one, together with the
  client's own state \<open>'s\<close>, which the Go handlers reach through their closures.

  A table is an association list, one entry per key of the Go map, in any order; Go maps
  have no duplicate keys, which \<open>distinct\<close> says where it matters.
\<close>

section \<open>States (state.go)\<close>

type_synonym State = int

definition NoState :: State where
  "NoState = 0"

definition State_Is :: "State \<Rightarrow> State \<Rightarrow> bool" where
  "State_Is s q \<longleftrightarrow> s = q"

definition State_IsNot :: "State \<Rightarrow> State \<Rightarrow> bool" where
  "State_IsNot s q \<longleftrightarrow> \<not> State_Is s q"

fun State_IsAny :: "State \<Rightarrow> State list \<Rightarrow> bool" where
  "State_IsAny s [] = False"
| "State_IsAny s (q # qs) = (if State_Is s q then True else State_IsAny s qs)"

definition State_IsNone :: "State \<Rightarrow> State list \<Rightarrow> bool" where
  "State_IsNone s qs \<longleftrightarrow> \<not> State_IsAny s qs"

record StateHandle =
  h_state :: State
  h_original :: "State list"
  h_target :: "State list"
  h_mutated :: bool

definition NewStateHandle :: "State \<Rightarrow> State list \<Rightarrow> State list \<Rightarrow> StateHandle" where
  "NewStateHandle st original target =
     \<lparr>h_state = st, h_original = original, h_target = target, h_mutated = False\<rparr>"

definition requireTarget :: "StateHandle \<Rightarrow> State \<Rightarrow> unit outcome" where
  "requireTarget h st =
     (if st \<in> set (h_target h) then Return () else Panic (PanicError (StateError IllegalStateMutation)))"

definition requireOriginal :: "StateHandle \<Rightarrow> State \<Rightarrow> unit outcome" where
  "requireOriginal h st =
     (if st \<in> set (h_original h) then Return () else Panic (PanicError (StateError NonTriggeringState)))"

definition requireNotMutated :: "StateHandle \<Rightarrow> unit outcome" where
  "requireNotMutated h =
     (if h_mutated h then Panic (PanicError (StateError UnexpectedMutatedState)) else Return ())"

definition mutate :: "StateHandle \<Rightarrow> StateHandle outcome" where
  "mutate h =
     (if h_mutated h then Panic (PanicError (StateError MultipleStateMutations))
      else Return (h\<lparr>h_mutated := True\<rparr>))"

definition StateHandle_Set :: "StateHandle \<Rightarrow> State \<Rightarrow> StateHandle outcome" where
  "StateHandle_Set h newState =
     obind (requireTarget h newState) (\<lambda>_.
       obind (mutate h) (\<lambda>h'. Return (h'\<lparr>h_state := newState\<rparr>)))"

definition StateHandle_Is :: "StateHandle \<Rightarrow> State \<Rightarrow> bool outcome" where
  "StateHandle_Is h st =
     obind (requireNotMutated h) (\<lambda>_.
       obind (requireOriginal h st) (\<lambda>_. Return (State_Is (h_state h) st)))"

definition StateHandle_IsNot :: "StateHandle \<Rightarrow> State \<Rightarrow> bool outcome" where
  "StateHandle_IsNot h st = obind (StateHandle_Is h st) (\<lambda>b. Return (\<not> b))"

fun StateHandle_IsAny :: "StateHandle \<Rightarrow> State list \<Rightarrow> bool outcome" where
  "StateHandle_IsAny h [] = Return False"
| "StateHandle_IsAny h (q # qs) =
     obind (StateHandle_Is h q) (\<lambda>b. if b then Return True else StateHandle_IsAny h qs)"

definition StateHandle_IsNone :: "StateHandle \<Rightarrow> State list \<Rightarrow> bool outcome" where
  "StateHandle_IsNone h qs = obind (StateHandle_IsAny h qs) (\<lambda>b. Return (\<not> b))"

section \<open>Transitions (transition.go)\<close>

type_synonym ('s, 'i, 'o) TransitionHandler =
  "StateHandle \<Rightarrow> 's \<Rightarrow> 'i \<Rightarrow> (StateHandle \<times> 's \<times> 'o option \<times> error option) outcome"

type_synonym ('s, 'i, 'o) TransitionHandlerInvoker =
  "State \<Rightarrow> 's \<Rightarrow> 'i \<Rightarrow> (State \<times> 's \<times> 'o option \<times> error option) outcome"

record 'd Transition =
  t_At :: "State list option"
  t_Ok :: "State list option"
  t_To :: State
  t_Do :: "'d option"

definition EmptyTransitionHandler :: "('s, 'i, 'o) TransitionHandler" where
  "EmptyTransitionHandler h s i = Return (h, s, None, None)"

text \<open>The closure that \<open>Transition.Compile\<close> hands to its callback for each triggering state.\<close>

definition Transition_invoke ::
  "'d Transition \<Rightarrow> ('s, 'i, 'o) TransitionHandler \<Rightarrow> ('s, 'i, 'o) TransitionHandlerInvoker" where
  "Transition_invoke tr handler st s i =
     (let at = (case t_At tr of None \<Rightarrow> [] | Some qs \<Rightarrow> qs);
          ok = (case t_Ok tr of None \<Rightarrow> [] | Some qs \<Rightarrow> qs);
          mustMutateState = (t_Ok tr \<noteq> None)
      in obind (handler (NewStateHandle st at ok) s i) (\<lambda>(h, s', out, err).
           let st' = (if t_To tr \<noteq> NoState then t_To tr else h_state h) in
           if err \<noteq> None \<and> h_mutated h then Panic (PanicError (TransitionError NewStateWithError))
           else if err = None \<and> mustMutateState \<and> \<not> h_mutated h
           then Panic (PanicError (TransitionError OkWithoutMutation))
           else Return (st', s', out, err)))"

fun register ::
  "State list \<Rightarrow> ('s, 'i, 'o) TransitionHandlerInvoker \<Rightarrow> (State \<rightharpoonup> ('s, 'i, 'o) TransitionHandlerInvoker)
   \<Rightarrow> (State \<rightharpoonup> ('s, 'i, 'o) TransitionHandlerInvoker) outcome" where
  "register [] invoker handlers = Return handlers"
| "register (x # xs) invoker handlers =
     (if handlers x \<noteq> None then Panic (PanicError (AutomatonError AmbiguousTransitions))
      else register xs invoker (handlers(x \<mapsto> invoker)))"

definition Transition_Compile ::
  "'d Transition \<Rightarrow> ('d \<Rightarrow> ('s, 'i, 'o) TransitionHandler) \<Rightarrow>
   (State \<rightharpoonup> ('s, 'i, 'o) TransitionHandlerInvoker) \<Rightarrow>
   (State \<rightharpoonup> ('s, 'i, 'o) TransitionHandlerInvoker) outcome" where
  "Transition_Compile tr createHandler handlers =
     (if t_Ok tr = None \<and> t_Do tr = None \<and> t_To tr = NoState
      then Panic (PanicError (TransitionError EmptyTransition))
      else if t_Ok tr \<noteq> None \<and> t_To tr \<noteq> NoState
      then Panic (PanicError (TransitionError OkWithTo))
      else if t_Ok tr \<noteq> None \<and> t_Do tr = None
      then Panic (PanicError (TransitionError OkWithoutDo))
      else
        let handler = (case t_Do tr of None \<Rightarrow> EmptyTransitionHandler | Some d \<Rightarrow> createHandler d)
        in register (case t_At tr of None \<Rightarrow> [] | Some qs \<Rightarrow> qs) (Transition_invoke tr handler) handlers)"

section \<open>Automata (automaton.go)\<close>

text \<open>A key of the transition map: a state, or a value of another type.\<close>

datatype 'k key = StateKey State | OtherKey 'k

record ('k, 'd, 's, 'i, 'o) Automaton =
  HandlerFactory :: "'k key \<Rightarrow> 'd \<Rightarrow> ('s, 'i, 'o) TransitionHandler"
  Transitions :: "('k key \<times> 'd Transition list) list"

type_synonym ('k, 's, 'i, 'o) CompiledAutomaton =
  "'k key \<rightharpoonup> (State \<rightharpoonup> ('s, 'i, 'o) TransitionHandlerInvoker)"

definition NewAutomaton ::
  "('k key \<Rightarrow> 'd \<Rightarrow> ('s, 'i, 'o) TransitionHandler) \<Rightarrow> ('k key \<times> 'd Transition list) list
   \<Rightarrow> ('k, 'd, 's, 'i, 'o) Automaton" where
  "NewAutomaton handlerFactory transitions =
     \<lparr>HandlerFactory = handlerFactory, Transitions = transitions\<rparr>"

text \<open>The inner loop of \<open>Compile\<close>: the transitions of one key.\<close>

fun compile_transitions ::
  "('k key \<Rightarrow> 'd \<Rightarrow> ('s, 'i, 'o) TransitionHandler) \<Rightarrow> 'k key \<Rightarrow> 'd Transition list \<Rightarrow>
   (State \<rightharpoonup> ('s, 'i, 'o) TransitionHandlerInvoker) \<Rightarrow>
   (State \<rightharpoonup> ('s, 'i, 'o) TransitionHandlerInvoker) outcome" where
  "compile_transitions factory key [] handlers = Return handlers"
| "compile_transitions factory key (tr # trs) handlers =
     obind
       (case key of
          StateKey at \<Rightarrow>
            if t_At tr \<noteq> None then Panic (PanicError (AutomatonError AmbiguousAtAndKey))
            else Return (tr\<lparr>t_At := Some [at]\<rparr>)
        | OtherKey _ \<Rightarrow>
            if t_At tr = None then Panic (PanicError (AutomatonError MissingTriggerState))
            else Return tr)
       (\<lambda>tr'. obind (Transition_Compile tr' (factory key) handlers)
                (compile_transitions factory key trs))"

fun compile_keys ::
  "('k key \<Rightarrow> 'd \<Rightarrow> ('s, 'i, 'o) TransitionHandler) \<Rightarrow> ('k key \<times> 'd Transition list) list \<Rightarrow>
   ('k, 's, 'i, 'o) CompiledAutomaton \<Rightarrow> ('k, 's, 'i, 'o) CompiledAutomaton outcome" where
  "compile_keys factory [] compiled = Return compiled"
| "compile_keys factory ((key, trs) # rest) compiled =
     (if (\<exists>at. key = StateKey at) \<and> 1 < length trs
      then Panic (PanicError (AutomatonError AmbiguousTransitions))
      else obind (compile_transitions factory key trs Map.empty) (\<lambda>handlers.
        compile_keys factory rest (compiled(key \<mapsto> handlers))))"

definition Automaton_Compile ::
  "('k, 'd, 's, 'i, 'o) Automaton \<Rightarrow> ('k, 's, 'i, 'o) CompiledAutomaton outcome" where
  "Automaton_Compile a = compile_keys (HandlerFactory a) (Transitions a) Map.empty"

text \<open>\<open>st\<close> is the argument \<open>state\<close>, \<open>cur\<close> what the shared pointer holds.\<close>

definition Automaton_Transition ::
  "('k, 's, 'i, 'o) CompiledAutomaton \<Rightarrow> 'k key \<Rightarrow> State \<Rightarrow> State \<Rightarrow> 's \<Rightarrow> 'i
   \<Rightarrow> (State \<times> 's \<times> 'o option \<times> error option) outcome" where
  "Automaton_Transition c key st cur s i =
     (case c key of
        None \<Rightarrow> Return (cur, s, None, Some (AutomatonError BadTransitionKey))
      | Some sub \<Rightarrow>
          (case sub st of
             None \<Rightarrow> Return (cur, s, None, Some (AutomatonError BadTransitionState))
           | Some handler \<Rightarrow> handler cur s i))"

section \<open>Well-formed tables\<close>

definition at_states :: "'k key \<Rightarrow> 'd Transition \<Rightarrow> State list" where
  "at_states key tr =
     (case key of
        StateKey at \<Rightarrow> [at]
      | OtherKey _ \<Rightarrow> (case t_At tr of None \<Rightarrow> [] | Some qs \<Rightarrow> qs))"

definition transition_wf :: "'d Transition \<Rightarrow> bool" where
  "transition_wf tr \<longleftrightarrow>
     (if t_Ok tr = None then t_Do tr \<noteq> None \<or> t_To tr \<noteq> NoState
      else t_To tr = NoState \<and> t_Do tr \<noteq> None)"

definition key_wf :: "'k key \<Rightarrow> 'd Transition \<Rightarrow> bool" where
  "key_wf key tr \<longleftrightarrow> (case key of StateKey _ \<Rightarrow> t_At tr = None | OtherKey _ \<Rightarrow> t_At tr \<noteq> None)"

definition entry_wf :: "'k key \<times> 'd Transition list \<Rightarrow> bool" where
  "entry_wf e \<longleftrightarrow>
     (\<forall>at. fst e = StateKey at \<longrightarrow> length (snd e) \<le> 1) \<and>
     (\<forall>tr\<in>set (snd e). key_wf (fst e) tr \<and> transition_wf tr) \<and>
     distinct (concat (map (at_states (fst e)) (snd e)))"

text \<open>What the compiled handler of a transition does, with the key's state filled in.\<close>

definition run_transition ::
  "('k key \<Rightarrow> 'd \<Rightarrow> ('s, 'i, 'o) TransitionHandler) \<Rightarrow> 'k key \<Rightarrow> 'd Transition
   \<Rightarrow> ('s, 'i, 'o) TransitionHandlerInvoker" where
  "run_transition factory key tr =
     Transition_invoke (tr\<lparr>t_At := Some (at_states key tr)\<rparr>)
       (case t_Do tr of None \<Rightarrow> EmptyTransitionHandler | Some d \<Rightarrow> factory key d)"

lemma register_Return:
  "register xs invoker m = Return m' \<longleftrightarrow>
     distinct xs \<and> (\<forall>x\<in>set xs. m x = None) \<and> m' = (\<lambda>x. if x \<in> set xs then Some invoker else m x)"
proof (induction xs arbitrary: m)
  case Nil
  then show ?case by auto
next
  case (Cons x xs)
  show ?case
    by (auto simp: Cons.IH fun_eq_iff split: if_splits)
qed

lemma register_panics:
  "(\<exists>m'. register xs invoker m = Return m') \<or>
   register xs invoker m = Panic (PanicError (AutomatonError AmbiguousTransitions))"
  by (induction xs arbitrary: m) auto

lemma key_wf_At:
  "key_wf key tr \<Longrightarrow>
   (case key of
      StateKey at \<Rightarrow> if t_At tr \<noteq> None then Panic (PanicError (AutomatonError AmbiguousAtAndKey))
        else Return (tr\<lparr>t_At := Some [at]\<rparr>)
    | OtherKey _ \<Rightarrow> if t_At tr = None then Panic (PanicError (AutomatonError MissingTriggerState))
        else Return tr)
   = Return (tr\<lparr>t_At := Some (at_states key tr)\<rparr>)"
  by (cases tr) (auto simp: key_wf_def at_states_def split: key.splits)

lemma Transition_Compile_wf:
  "transition_wf tr \<Longrightarrow>
   Transition_Compile (tr\<lparr>t_At := Some qs\<rparr>) (factory key) handlers =
   register qs (Transition_invoke (tr\<lparr>t_At := Some qs\<rparr>)
     (case t_Do tr of None \<Rightarrow> EmptyTransitionHandler | Some d \<Rightarrow> factory key d)) handlers"
  by (auto simp: Transition_Compile_def transition_wf_def split: if_splits)

lemma compile_step:
  "compile_transitions factory key (tr # trs) handlers =
   (if key_wf key tr \<and> transition_wf tr
    then obind (register (at_states key tr) (run_transition factory key tr) handlers)
           (compile_transitions factory key trs)
    else compile_transitions factory key (tr # trs) handlers)"
  by (simp add: key_wf_At Transition_Compile_wf run_transition_def)

lemma compile_ill_formed:
  "\<not> (key_wf key tr \<and> transition_wf tr) \<Longrightarrow>
   \<exists>p. compile_transitions factory key (tr # trs) handlers = Panic p"
  by (auto simp: key_wf_def transition_wf_def Transition_Compile_def split: key.splits if_splits)

lemma compile_transitions_Return:
  "compile_transitions factory key trs m = Return m' \<longleftrightarrow>
     (\<forall>tr\<in>set trs. key_wf key tr \<and> transition_wf tr) \<and>
     distinct (concat (map (at_states key) trs)) \<and>
     (\<forall>x\<in>set (concat (map (at_states key) trs)). m x = None) \<and>
     m' = (\<lambda>x. case find (\<lambda>tr. x \<in> set (at_states key tr)) trs of
                 None \<Rightarrow> m x | Some tr \<Rightarrow> Some (run_transition factory key tr))"
proof (induction trs arbitrary: m)
  case Nil
  then show ?case by auto
next
  case (Cons tr trs)
  show ?case
  proof (cases "key_wf key tr \<and> transition_wf tr")
    case True
    let ?at = "at_states key tr" and ?f = "run_transition factory key tr"
    let ?m1 = "\<lambda>x. if x \<in> set ?at then Some ?f else m x" and ?rest = "concat (map (at_states key) trs)"
    let ?look = "\<lambda>m trs x. case find (\<lambda>t. x \<in> set (at_states key t)) trs of
                 None \<Rightarrow> m x | Some t \<Rightarrow> Some (run_transition factory key t)"
    have same: "?look ?m1 trs = ?look m (tr # trs)" if "set ?at \<inter> set ?rest = {}"
    proof (rule ext)
      fix x
      show "?look ?m1 trs x = ?look m (tr # trs) x"
      proof (cases "x \<in> set ?at")
        case True
        with that have "find (\<lambda>t. x \<in> set (at_states key t)) trs = None"
          by (auto simp: find_None_iff)
        with True show ?thesis by simp
      qed (auto split: option.splits)
    qed
    have none: "(\<forall>x\<in>set ?rest. ?m1 x = None) \<longleftrightarrow> set ?at \<inter> set ?rest = {} \<and> (\<forall>x\<in>set ?rest. m x = None)"
      by auto
    have "compile_transitions factory key (tr # trs) m = Return m' \<longleftrightarrow>
        distinct ?at \<and> (\<forall>x\<in>set ?at. m x = None) \<and>
        compile_transitions factory key trs ?m1 = Return m'"
      using True by (subst compile_step) (auto simp: obind_eq_Return register_Return)
    also have "\<dots> \<longleftrightarrow>
      (\<forall>t\<in>set (tr # trs). key_wf key t \<and> transition_wf t) \<and>
      distinct (concat (map (at_states key) (tr # trs))) \<and>
      (\<forall>x\<in>set (concat (map (at_states key) (tr # trs))). m x = None) \<and>
      m' = ?look m (tr # trs)"
    proof (cases "set ?at \<inter> set ?rest = {}")
      case disj: True
      show ?thesis
        unfolding Cons.IH none same [OF disj]
        using True by (simp only: list.simps concat.simps set_append distinct_append ball_Un) blast
    next
      case False
      then show ?thesis unfolding Cons.IH none by simp
    qed
    finally show ?thesis .
  next
    case False
    obtain p where "compile_transitions factory key (tr # trs) m = Panic p"
      using compile_ill_formed [OF False] by blast
    with False show ?thesis by (auto simp del: compile_transitions.simps)
  qed
qed

lemma compile_keys_Return:
  "compile_keys factory entries c = Return c' \<longleftrightarrow>
     (\<forall>e\<in>set entries. entry_wf e) \<and>
     c' = c ++ map_of (rev (map (\<lambda>(key, trs). (key, \<lambda>x.
       map_option (run_transition factory key) (find (\<lambda>tr. x \<in> set (at_states key tr)) trs))) entries))"
proof (induction entries arbitrary: c)
  case Nil
  then show ?case by auto
next
  case (Cons e entries)
  obtain key trs where e: "e = (key, trs)" by (cases e)
  let ?sub = "\<lambda>x. map_option (run_transition factory key) (find (\<lambda>tr. x \<in> set (at_states key tr)) trs)"
  have "(\<lambda>x. case find (\<lambda>tr. x \<in> set (at_states key tr)) trs of
           None \<Rightarrow> None | Some tr \<Rightarrow> Some (run_transition factory key tr)) = ?sub"
    by (auto simp: fun_eq_iff map_option_case)
  then have inner: "compile_transitions factory key trs Map.empty = Return sub \<longleftrightarrow>
      (\<forall>tr\<in>set trs. key_wf key tr \<and> transition_wf tr) \<and>
      distinct (concat (map (at_states key) trs)) \<and> sub = ?sub" for sub
    by (simp add: compile_transitions_Return)
  have upd: "c ++ map_of (rev (map f (e # entries))) = c(key \<mapsto> sub) ++ map_of (rev (map f entries))"
    if "f e = (key, sub)" for f sub
    using that by simp
  have wf: "entry_wf e \<longleftrightarrow> \<not> ((\<exists>at. key = StateKey at) \<and> 1 < length trs) \<and>
      (\<forall>tr\<in>set trs. key_wf key tr \<and> transition_wf tr) \<and> distinct (concat (map (at_states key) trs))"
    by (auto simp: e entry_wf_def not_less)
  show ?case
    by (subst upd, simp add: e)
      (simp only: list.set ball_simps wf, simp only: e compile_keys.simps obind_eq_Return inner Cons.IH
        if_split_eq1, blast)
qed

lemma map_of_rev_distinct: "distinct (map fst xs) \<Longrightarrow> map_of (rev xs) = map_of xs"
  by (induction xs) (auto simp: fun_eq_iff map_add_def image_iff
      split: option.splits dest: map_of_SomeD)

lemma map_of_map_key: "map_of (map (\<lambda>(k, v). (k, f k v)) xs) k = map_option (f k) (map_of xs k)"
  by (induction xs) auto

lemma compile_transitions_total: "compile_transitions factory key trs m \<noteq> Diverge"
proof (induction trs arbitrary: m)
  case (Cons tr trs)
  show ?case
  proof (cases "key_wf key tr \<and> transition_wf tr")
    case True
    show ?thesis
      using register_panics [of "at_states key tr" "run_transition factory key tr" m] True Cons.IH
      by (subst compile_step) auto
  next
    case False
    then show ?thesis using compile_ill_formed by (metis outcome.distinct(5))
  qed
qed simp

lemma Compile_Return_iff:
  "(\<exists>c. Automaton_Compile a = Return c) \<longleftrightarrow> list_all entry_wf (Transitions a)"
  by (simp add: Automaton_Compile_def compile_keys_Return list_all_iff)

lemma compile_keys_total: "compile_keys factory entries c \<noteq> Diverge"
proof (induction entries arbitrary: c)
  case (Cons e entries)
  obtain key trs where e: "e = (key, trs)" by (cases e)
  show ?case
    using compile_transitions_total [of factory key trs Map.empty] Cons.IH
    by (cases "compile_transitions factory key trs Map.empty") (auto simp: e)
qed simp

text \<open>
  C36. \<open>Compile\<close> accepts exactly the well-formed tables: a table with an entry that is not
  (several transitions under a state, a trigger both in the key and in \<open>At\<close> or in neither, an
  empty transition, \<open>Ok\<close> with \<open>To\<close> or without \<open>Do\<close>, two transitions of a key at one state)
  panics, whatever the order in which the map is ranged over, and compilation always ends.
\<close>

theorem Compile_accepts_wf_tables:
  "((\<exists>c. Automaton_Compile a = Return c) \<longleftrightarrow> list_all entry_wf (Transitions a)) \<and>
   ((\<exists>p. Automaton_Compile a = Panic p) \<longleftrightarrow> \<not> list_all entry_wf (Transitions a))"
proof -
  note Compile_Return_iff [of a]
  moreover have "Automaton_Compile a \<noteq> Diverge"
    unfolding Automaton_Compile_def by (rule compile_keys_total)
  ultimately show ?thesis by (cases "Automaton_Compile a") auto
qed

lemma Compile_dispatch:
  assumes "Automaton_Compile a = Return c" and "distinct (map fst (Transitions a))"
  shows "c key = map_option (\<lambda>trs x. map_option (run_transition (HandlerFactory a) key)
           (find (\<lambda>tr. x \<in> set (at_states key tr)) trs)) (map_of (Transitions a) key)"
proof -
  let ?sub = "\<lambda>key trs x. map_option (run_transition (HandlerFactory a) key)
           (find (\<lambda>tr. x \<in> set (at_states key tr)) trs)"
  have "c = map_of (rev (map (\<lambda>(key, trs). (key, ?sub key trs)) (Transitions a)))"
    using assms(1) by (simp add: Automaton_Compile_def compile_keys_Return)
  also have "\<dots> = map_of (map (\<lambda>(key, trs). (key, ?sub key trs)) (Transitions a))"
    using assms(2) by (intro map_of_rev_distinct) (simp add: comp_def split_def)
  finally show ?thesis by (simp only: map_of_map_key)
qed

text \<open>
  C19. A compiled automaton behaves like its table: the transition of a key at a state runs the
  one entry listed for them, an unknown key and a state that no transition of the key lists are
  reported as errors and change nothing.
\<close>

theorem Transition_dispatches_table:
  assumes "Automaton_Compile a = Return c" and "distinct (map fst (Transitions a))"
  shows "Automaton_Transition c key st cur s i =
    (case map_of (Transitions a) key of
       None \<Rightarrow> Return (cur, s, None, Some (AutomatonError BadTransitionKey))
     | Some trs \<Rightarrow>
         (case find (\<lambda>tr. st \<in> set (at_states key tr)) trs of
            None \<Rightarrow> Return (cur, s, None, Some (AutomatonError BadTransitionState))
          | Some tr \<Rightarrow> run_transition (HandlerFactory a) key tr cur s i))"
  by (simp add: Automaton_Transition_def Compile_dispatch [OF assms] split: option.splits)

theorem Transition_dispatches_table_witness:
  "let a = NewAutomaton (\<lambda>_ d h (s :: unit) (i :: unit). Return (h, s, Some d, None))
             [(StateKey 1, [\<lparr>t_At = None, t_Ok = None, t_To = 2, t_Do = None\<rparr>]),
              (OtherKey True, [\<lparr>t_At = Some [1, 3], t_Ok = None, t_To = 0, t_Do = Some (7 :: nat)\<rparr>])];
       c = (case Automaton_Compile a of Return c \<Rightarrow> c | _ \<Rightarrow> Map.empty)
   in Automaton_Transition c (StateKey 1) 1 1 () () = Return (2, (), None, None) \<and>
      Automaton_Transition c (OtherKey True) 3 3 () () = Return (3, (), Some 7, None) \<and>
      Automaton_Transition c (OtherKey True) 2 2 () () = Return (2, (), None, Some (AutomatonError BadTransitionState)) \<and>
      Automaton_Transition c (OtherKey False) 2 2 () () = Return (2, (), None, Some (AutomatonError BadTransitionKey))"
proof -
  let ?a = "NewAutomaton (\<lambda>_ d h (s :: unit) (i :: unit). Return (h, s, Some d, None))
             [(StateKey 1, [\<lparr>t_At = None, t_Ok = None, t_To = 2, t_Do = None\<rparr>]),
              (OtherKey True, [\<lparr>t_At = Some [1, 3], t_Ok = None, t_To = 0, t_Do = Some (7 :: nat)\<rparr>])]"
  obtain c where c: "Automaton_Compile ?a = Return c"
    by (simp add: Automaton_Compile_def NewAutomaton_def Transition_Compile_def NoState_def Let_def)
  have d: "distinct (map fst (Transitions ?a))" by (simp add: NewAutomaton_def)
  show ?thesis
    unfolding Let_def
    by (simp only: c outcome.case Transition_dispatches_table [OF c d])
      (simp add: NewAutomaton_def at_states_def run_transition_def Transition_invoke_def
        EmptyTransitionHandler_def NewStateHandle_def NoState_def)
qed

section \<open>Handlers that change the state through their handle only\<close>

definition lawful :: "('s, 'i, 'o) TransitionHandler \<Rightarrow> bool" where
  "lawful handler \<longleftrightarrow>
     (\<forall>h s i h' s' out err. handler h s i = Return (h', s', out, err) \<longrightarrow>
        h' = h \<or> (\<exists>q. StateHandle_Set h q = Return h'))"

lemma StateHandle_Set_Return:
  "StateHandle_Set h q = Return h' \<longleftrightarrow>
     q \<in> set (h_target h) \<and> \<not> h_mutated h \<and> h' = h\<lparr>h_mutated := True, h_state := q\<rparr>"
  by (auto simp: StateHandle_Set_def requireTarget_def mutate_def)

text \<open>
  Where a transition leaves the automaton, for a handler that changes the state through
  its handle only: with \<open>To\<close> always in that state, an error of the handler included; with
  \<open>Ok\<close> in one of the listed states after success and where it was after an error; otherwise
  where it was. In no case does it end in a state that the table does not list.
\<close>

theorem transition_target_states:
  assumes "lawful handler" and "transition_wf tr"
    and "Transition_invoke tr handler st s i = Return (st', s', out, err)"
  shows "(t_To tr \<noteq> NoState \<longrightarrow> st' = t_To tr) \<and>
    (\<forall>qs. t_Ok tr = Some qs \<longrightarrow> (if err = None then st' \<in> set qs else st' = st)) \<and>
    (t_Ok tr = None \<longrightarrow> t_To tr = NoState \<longrightarrow> st' = st)"
proof -
  let ?h = "NewStateHandle st (case t_At tr of None \<Rightarrow> [] | Some qs \<Rightarrow> qs)
              (case t_Ok tr of None \<Rightarrow> [] | Some qs \<Rightarrow> qs)"
  obtain h where h: "handler ?h s i = Return (h, s', out, err)"
    and st': "st' = (if t_To tr \<noteq> NoState then t_To tr else h_state h)"
    and err: "err \<noteq> None \<longrightarrow> \<not> h_mutated h" and ok: "err = None \<longrightarrow> t_Ok tr \<noteq> None \<longrightarrow> h_mutated h"
    using assms(3)
    by (auto simp: Transition_invoke_def Let_def obind_eq_Return split: prod.splits if_splits)
  consider "h = ?h" | q where "StateHandle_Set ?h q = Return h"
    using assms(1) h unfolding lawful_def by blast
  then show ?thesis
  proof cases
    case 1
    with st' err ok assms(2) show ?thesis
      by (auto simp: NewStateHandle_def transition_wf_def split: if_splits)
  next
    case 2
    with st' err ok assms(2) show ?thesis
      by (auto simp: StateHandle_Set_Return NewStateHandle_def transition_wf_def split: if_splits option.splits)
  qed
qed

theorem transition_target_states_witness:
  "Transition_invoke \<lparr>t_At = Some [1], t_Ok = None, t_To = 2, t_Do = Some ()\<rparr>
     (\<lambda>h s (i :: unit). Return (h, s, None :: unit option, Some (IOError EOF))) 1 () ()
   = Return (2, (), None, Some (IOError EOF))"
proof -
  let ?tr = "\<lparr>t_At = Some [1], t_Ok = None, t_To = 2, t_Do = Some ()\<rparr>"
  let ?f = "\<lambda>h s (i :: unit). Return (h, s, None :: unit option, Some (IOError EOF))"
  obtain st' where run: "Transition_invoke ?tr ?f 1 () () = Return (st', (), None, Some (IOError EOF))"
    by (simp add: Transition_invoke_def NewStateHandle_def)
  have "lawful ?f" and "transition_wf ?tr"
    by (simp_all add: lawful_def transition_wf_def NoState_def)
  from transition_target_states [OF this run] have "st' = 2" by (simp add: NoState_def)
  with run show ?thesis by simp
qed

end
