(* ===== verification/Protocol.thy ===== *)
theory Protocol
  imports Automaton
begin

text \<open>
  Package \<open>lib/protocol\<close>: a protocol client is a pair of automata, one for writing and one
  for reading messages, that share one state; a loop drives a client over a connection with
  a second goroutine that reads. \<open>'m\<close> are the messages, \<open>'k\<close> their types and \<open>'s\<close> the state
  that the handlers of a definition work on.
\<close>

section \<open>Definitions (definition.go) and messages (message.go)\<close>

type_synonym ('s, 'm) WriteMessageHandler =
  "StateHandle \<Rightarrow> 's \<Rightarrow> (StateHandle \<times> 's \<times> 'm option \<times> error option) outcome"

type_synonym ('s, 'm) ReadMessageHandler =
  "StateHandle \<Rightarrow> 's \<Rightarrow> 'm \<Rightarrow> (StateHandle \<times> 's \<times> error option) outcome"

record ('k, 's, 'm) Definition =
  d_TypeOf :: "'m \<Rightarrow> 'k outcome"
  d_WriteFirst :: bool
  d_InitialState :: State
  d_FinalState :: State
  d_WriteMessage :: "('k key \<times> ('s, 'm) WriteMessageHandler Transition list) list"
  d_ReadMessage :: "('k key \<times> ('s, 'm) ReadMessageHandler Transition list) list"

record ('m, 'k) Message =
  m_Content :: 'm
  m_Type :: 'k

definition Message_Is :: "('m, 'k) Message \<Rightarrow> 'k \<Rightarrow> bool" where
  "Message_Is m messageType \<longleftrightarrow> m_Type m = messageType"

definition Message_IsNot :: "('m, 'k) Message \<Rightarrow> 'k \<Rightarrow> bool" where
  "Message_IsNot m messageType \<longleftrightarrow> \<not> Message_Is m messageType"

section \<open>Clients (client.go)\<close>

definition writeMessageHandlerFactory ::
  "'k key \<Rightarrow> ('s, 'm) WriteMessageHandler \<Rightarrow> ('s, unit, 'm) TransitionHandler" where
  "writeMessageHandlerFactory key handle st s inp =
     obind (handle st s) (\<lambda>(st', s', out, err).
       case out of
         None \<Rightarrow> Panic (PanicString ''written message needs be a protobuf message'')
       | Some m \<Rightarrow> Return (st', s', Some m, err))"

definition readMessageHandlerFactory ::
  "'k key \<Rightarrow> ('s, 'm) ReadMessageHandler \<Rightarrow> ('s, 'm option, unit) TransitionHandler" where
  "readMessageHandlerFactory key handle st s inp =
     (case inp of
        None \<Rightarrow> Panic (PanicString ''read message needs to be a protobuf message'')
      | Some message \<Rightarrow>
          obind (handle st s message) (\<lambda>(st', s', err). Return (st', s', None, err)))"

text \<open>The state that the automata share is the field \<open>c_state\<close>.\<close>

record ('k, 's, 'm) Client =
  c_TypeOf :: "'m \<Rightarrow> 'k outcome"
  c_writeFirst :: bool
  c_initialState :: State
  c_finalState :: State
  c_state :: State
  c_writer :: "('k, 's, unit, 'm) CompiledAutomaton"
  c_reader :: "('k, 's, 'm option, unit) CompiledAutomaton"
  c_writeAt :: "State list"

text \<open>The loop over the keys of the writer's table with the type assertion \<open>key.(State)\<close>.\<close>

fun write_states :: "'k key list \<Rightarrow> State list outcome" where
  "write_states [] = Return []"
| "write_states (StateKey q # keys) = obind (write_states keys) (\<lambda>qs. Return (q # qs))"
| "write_states (OtherKey _ # keys) = Panic (RuntimePanic TypeAssertion)"

definition NewClient :: "('k, 's, 'm) Definition \<Rightarrow> ('k, 's, 'm) Client outcome" where
  "NewClient d =
     (if d_InitialState d = NoState
      then Panic (PanicString ''initial state is required in protocol definition'')
      else if d_FinalState d = NoState
      then Panic (PanicString ''final state is required in protocol definition'')
      else obind (Automaton_Compile (NewAutomaton writeMessageHandlerFactory (d_WriteMessage d))) (\<lambda>writer.
        obind (Automaton_Compile (NewAutomaton readMessageHandlerFactory (d_ReadMessage d))) (\<lambda>reader.
          obind (write_states (map fst (d_WriteMessage d))) (\<lambda>writeAt.
            Return \<lparr>c_TypeOf = d_TypeOf d, c_writeFirst = d_WriteFirst d,
              c_initialState = d_InitialState d, c_finalState = d_FinalState d,
              c_state = d_InitialState d, c_writer = writer, c_reader = reader,
              c_writeAt = writeAt\<rparr>))))"

definition no_transition :: "error option \<Rightarrow> bool" where
  "no_transition err \<longleftrightarrow>
     err = Some (AutomatonError BadTransitionKey) \<or> err = Some (AutomatonError BadTransitionState)"

definition Client_WriteMessage ::
  "('k, 's, 'm) Client \<Rightarrow> 's \<Rightarrow> (('k, 's, 'm) Client \<times> 's \<times> 'm option \<times> error option) outcome" where
  "Client_WriteMessage c s =
     obind (Automaton_Transition (c_writer c) (StateKey (c_state c)) (c_state c) (c_state c) s ())
       (\<lambda>(st, s', out, err).
          if no_transition err
          then Return (c\<lparr>c_state := st\<rparr>, s', None, Some (ProtocolError NothingToWrite))
          else (case out of
                  None \<Rightarrow> Panic (RuntimePanic TypeAssertion)
                | Some m \<Rightarrow> Return (c\<lparr>c_state := st\<rparr>, s', Some m, err)))"

definition Client_ReadMessage ::
  "('k, 's, 'm) Client \<Rightarrow> 's \<Rightarrow> 'm \<Rightarrow> (('k, 's, 'm) Client \<times> 's \<times> error option) outcome" where
  "Client_ReadMessage c s message =
     obind (c_TypeOf c message) (\<lambda>messageType.
       obind (Automaton_Transition (c_reader c) (OtherKey messageType) (c_state c) (c_state c) s (Some message))
         (\<lambda>(st, s', _, err).
            Return (c\<lparr>c_state := st\<rparr>, s',
              if no_transition err then Some (ProtocolError UnexpectedMessage) else err)))"

definition Client_CanWrite :: "('k, 's, 'm) Client \<Rightarrow> bool" where
  "Client_CanWrite c \<longleftrightarrow> c_state c \<in> set (c_writeAt c)"

definition Client_MustWrite :: "('k, 's, 'm) Client \<Rightarrow> bool" where
  "Client_MustWrite c \<longleftrightarrow> c_writeFirst c \<and> Client_CanWrite c"

definition Client_IsDone :: "('k, 's, 'm) Client \<Rightarrow> bool" where
  "Client_IsDone c \<longleftrightarrow> c_state c = c_finalState c"

section \<open>Clients and their definitions\<close>

text \<open>A client that was made from \<open>d\<close> and has moved to some state since.\<close>

definition client_of :: "('k, 's, 'm) Definition \<Rightarrow> ('k, 's, 'm) Client \<Rightarrow> bool" where
  "client_of d c \<longleftrightarrow> NewClient d = Return (c\<lparr>c_state := d_InitialState d\<rparr>)"

definition definition_wf :: "('k, 's, 'm) Definition \<Rightarrow> bool" where
  "definition_wf d \<longleftrightarrow>
     d_InitialState d \<noteq> NoState \<and> d_FinalState d \<noteq> NoState \<and>
     list_all entry_wf (d_WriteMessage d) \<and> list_all entry_wf (d_ReadMessage d) \<and>
     distinct (map fst (d_WriteMessage d)) \<and> distinct (map fst (d_ReadMessage d)) \<and>
     list_all (\<lambda>e. (\<exists>q. fst e = StateKey q) \<and> length (snd e) = 1) (d_WriteMessage d)"

definition write_entry ::
  "('k, 's, 'm) Definition \<Rightarrow> State \<Rightarrow> ('s, 'm) WriteMessageHandler Transition option" where
  "write_entry d st = map_option hd (map_of (d_WriteMessage d) (StateKey st))"

definition read_entry ::
  "('k, 's, 'm) Definition \<Rightarrow> 'k \<Rightarrow> State \<Rightarrow> ('s, 'm) ReadMessageHandler Transition option" where
  "read_entry d k st =
     (case map_of (d_ReadMessage d) (OtherKey k) of
        None \<Rightarrow> None
      | Some trs \<Rightarrow> find (\<lambda>tr. st \<in> set (at_states (OtherKey k) tr)) trs)"

lemma write_states_keys:
  "list_all (\<lambda>e. \<exists>q. fst e = StateKey q) es \<Longrightarrow>
   \<exists>qs. write_states (map fst es) = Return qs \<and> (\<forall>q. q \<in> set qs \<longleftrightarrow> StateKey q \<in> set (map fst es))"
proof (induction es)
  case (Cons e es)
  then obtain q qs where "fst e = StateKey q" "write_states (map fst es) = Return qs"
    "\<forall>q. q \<in> set qs \<longleftrightarrow> StateKey q \<in> set (map fst es)"
    by auto
  then show ?case by auto
qed simp

lemma NewClient_wf:
  assumes "definition_wf d"
  shows "\<exists>c. NewClient d = Return c \<and> client_of d c \<and> c_state c = d_InitialState d"
proof -
  let ?aw = "NewAutomaton writeMessageHandlerFactory (d_WriteMessage d)"
  let ?ar = "NewAutomaton readMessageHandlerFactory (d_ReadMessage d)"
  have "\<exists>w. Automaton_Compile ?aw = Return w" "\<exists>r. Automaton_Compile ?ar = Return r"
    using assms by (simp_all add: Compile_Return_iff NewAutomaton_def definition_wf_def)
  moreover have "\<exists>qs. write_states (map fst (d_WriteMessage d)) = Return qs"
    using write_states_keys [of "d_WriteMessage d"] assms
    by (auto simp: definition_wf_def list_all_iff)
  ultimately show ?thesis
    using assms by (auto simp: NewClient_def client_of_def definition_wf_def)
qed

lemma client_of_state [simp]: "client_of d (c\<lparr>c_state := q\<rparr>) \<longleftrightarrow> client_of d c"
  by (simp add: client_of_def)

lemma client_ofD:
  assumes "client_of d c" and "definition_wf d"
  shows "Automaton_Compile (NewAutomaton writeMessageHandlerFactory (d_WriteMessage d)) = Return (c_writer c)"
    and "Automaton_Compile (NewAutomaton readMessageHandlerFactory (d_ReadMessage d)) = Return (c_reader c)"
    and "c_TypeOf c = d_TypeOf d" and "c_writeFirst c = d_WriteFirst d"
    and "c_finalState c = d_FinalState d"
    and "q \<in> set (c_writeAt c) \<longleftrightarrow> write_entry d q \<noteq> None"
proof -
  obtain w r qs where c: "Automaton_Compile (NewAutomaton writeMessageHandlerFactory (d_WriteMessage d)) = Return w"
    "Automaton_Compile (NewAutomaton readMessageHandlerFactory (d_ReadMessage d)) = Return r"
    "write_states (map fst (d_WriteMessage d)) = Return qs"
    "c\<lparr>c_state := d_InitialState d\<rparr> =
       \<lparr>c_TypeOf = d_TypeOf d, c_writeFirst = d_WriteFirst d, c_initialState = d_InitialState d,
        c_finalState = d_FinalState d, c_state = d_InitialState d, c_writer = w, c_reader = r,
        c_writeAt = qs\<rparr>"
    using assms(1) by (auto simp: client_of_def NewClient_def obind_eq_Return split: if_splits)
  have f: "c_TypeOf c = d_TypeOf d" "c_writeFirst c = d_WriteFirst d" "c_finalState c = d_FinalState d"
    "c_writer c = w" "c_reader c = r" "c_writeAt c = qs"
    using c(4) by (cases c; simp)+
  have "q \<in> set qs \<longleftrightarrow> StateKey q \<in> set (map fst (d_WriteMessage d))"
    using write_states_keys [of "d_WriteMessage d"] c(3) assms(2)
    by (auto simp: definition_wf_def list_all_iff)
  then show "q \<in> set (c_writeAt c) \<longleftrightarrow> write_entry d q \<noteq> None"
    using f by (auto simp: write_entry_def map_of_eq_None_iff image_iff)
  show "Automaton_Compile (NewAutomaton writeMessageHandlerFactory (d_WriteMessage d)) = Return (c_writer c)"
    "Automaton_Compile (NewAutomaton readMessageHandlerFactory (d_ReadMessage d)) = Return (c_reader c)"
    using c f by auto
  show "c_TypeOf c = d_TypeOf d" "c_writeFirst c = d_WriteFirst d" "c_finalState c = d_FinalState d"
    using f by auto
qed

lemma Client_WriteMessage_entry:
  fixes d :: "('k, 's, 'm) Definition"
  assumes c: "client_of d c" and d: "definition_wf d"
  shows "Client_WriteMessage c s =
    (case write_entry d (c_state c) of
       None \<Rightarrow> Return (c, s, None, Some (ProtocolError NothingToWrite))
     | Some tr \<Rightarrow>
         obind (run_transition writeMessageHandlerFactory (StateKey (c_state c) :: 'k key) tr (c_state c) s ())
           (\<lambda>(st, s', out, err).
              if no_transition err
              then Return (c\<lparr>c_state := st\<rparr>, s', None, Some (ProtocolError NothingToWrite))
              else (case out of
                      None \<Rightarrow> Panic (RuntimePanic TypeAssertion)
                    | Some m \<Rightarrow> Return (c\<lparr>c_state := st\<rparr>, s', Some m, err))))"
proof -
  let ?k = "StateKey (c_state c)"
  have disj: "distinct (map fst (Transitions (NewAutomaton writeMessageHandlerFactory (d_WriteMessage d))))"
    using d by (simp add: definition_wf_def NewAutomaton_def)
  note disp = Compile_dispatch [OF client_ofD(1) [OF c d] disj]
  show ?thesis
  proof (cases "map_of (d_WriteMessage d) ?k")
    case None
    then show ?thesis
      by (simp add: Client_WriteMessage_def Automaton_Transition_def disp NewAutomaton_def
          write_entry_def no_transition_def)
  next
    case (Some trs)
    then obtain tr where tr: "trs = [tr]"
      using d map_of_SomeD [OF Some] by (auto simp: definition_wf_def list_all_iff length_Suc_conv)
    then show ?thesis
      using Some
      by (simp add: Client_WriteMessage_def Automaton_Transition_def disp NewAutomaton_def
          write_entry_def at_states_def)
  qed
qed

lemma Client_ReadMessage_entry:
  assumes c: "client_of d c" and d: "definition_wf d" and k: "d_TypeOf d m = Return k"
  shows "Client_ReadMessage c s m =
    (case read_entry d k (c_state c) of
       None \<Rightarrow> Return (c, s, Some (ProtocolError UnexpectedMessage))
     | Some tr \<Rightarrow>
         obind (run_transition readMessageHandlerFactory (OtherKey k) tr (c_state c) s (Some m))
           (\<lambda>(st, s', _, err). Return (c\<lparr>c_state := st\<rparr>, s',
              if no_transition err then Some (ProtocolError UnexpectedMessage) else err)))"
proof -
  have disj: "distinct (map fst (Transitions (NewAutomaton readMessageHandlerFactory (d_ReadMessage d))))"
    using d by (simp add: definition_wf_def NewAutomaton_def)
  note disp = Compile_dispatch [OF client_ofD(2) [OF c d] disj]
  show ?thesis
    using client_ofD(3) [OF c d] k
    by (simp add: Client_ReadMessage_def Automaton_Transition_def disp NewAutomaton_def
        read_entry_def no_transition_def split: option.splits)
qed

lemma Client_flags:
  assumes "client_of d c" and "definition_wf d"
  shows "Client_CanWrite c \<longleftrightarrow> write_entry d (c_state c) \<noteq> None"
    and "Client_MustWrite c \<longleftrightarrow> d_WriteFirst d \<and> write_entry d (c_state c) \<noteq> None"
    and "Client_IsDone c \<longleftrightarrow> c_state c = d_FinalState d"
  using client_ofD [OF assms]
  by (simp_all add: Client_CanWrite_def Client_MustWrite_def Client_IsDone_def)

text \<open>
  C18. A client runs its definition, on every branch. \<open>CanWrite\<close> says whether the state has a transition for writing. Without one
  \<open>WriteMessage\<close> reports \<open>NothingToWrite\<close>, and a message whose type has no transition at the state is reported as
  \<open>UnexpectedMessage\<close>; neither changes anything. Otherwise exactly the listed transition runs: the call panics when it does,
  returns its message and its error, whatever error that is (only the two errors of the automaton itself are reported as above), and leaves
  the client of the same definition in the state, and with the data, that the transition has left.
\<close>

theorem Client_follows_definition:
  fixes d :: "('k, 's, 'm) Definition"
  assumes "client_of d c" and "definition_wf d" and "d_TypeOf d m = Return k"
  shows "(Client_CanWrite c \<longleftrightarrow> write_entry d (c_state c) \<noteq> None) \<and> (\<forall>st. client_of d (c\<lparr>c_state := st\<rparr>)) \<and>
    Client_WriteMessage c s =
      (case write_entry d (c_state c) of
         None \<Rightarrow> Return (c, s, None, Some (ProtocolError NothingToWrite))
       | Some tr \<Rightarrow>
           (case run_transition writeMessageHandlerFactory (StateKey (c_state c) :: 'k key) tr (c_state c) s () of
              Panic p \<Rightarrow> Panic p
            | Diverge \<Rightarrow> Diverge
            | Return (st, s', out, err) \<Rightarrow>
                if no_transition err then Return (c\<lparr>c_state := st\<rparr>, s', None, Some (ProtocolError NothingToWrite))
                else if out = None then Panic (RuntimePanic TypeAssertion)
                else Return (c\<lparr>c_state := st\<rparr>, s', out, err))) \<and>
    Client_ReadMessage c s m =
      (case read_entry d k (c_state c) of
         None \<Rightarrow> Return (c, s, Some (ProtocolError UnexpectedMessage))
       | Some tr \<Rightarrow>
           (case run_transition readMessageHandlerFactory (OtherKey k) tr (c_state c) s (Some m) of
              Panic p \<Rightarrow> Panic p
            | Diverge \<Rightarrow> Diverge
            | Return (st, s', out, err) \<Rightarrow>
                Return (c\<lparr>c_state := st\<rparr>, s', if no_transition err then Some (ProtocolError UnexpectedMessage) else err)))"
  using assms(1)
  by (auto simp: Client_WriteMessage_entry [OF assms(1,2)] Client_ReadMessage_entry [OF assms] Client_flags(1) [OF assms(1,2)]
      split: option.split outcome.split)

theorem Client_follows_definition_witness:
  "let d = \<lparr>d_TypeOf = \<lambda>_ :: unit. Return True, d_WriteFirst = False, d_InitialState = 1, d_FinalState = 2,
      d_WriteMessage = [(StateKey 1, [\<lparr>t_At = None, t_Ok = None, t_To = 2,
        t_Do = Some (\<lambda>h s :: unit. Return (h, s, Some (), None))\<rparr>])],
      d_ReadMessage = [(OtherKey True, [\<lparr>t_At = Some [1], t_Ok = None, t_To = 2,
        t_Do = Some (\<lambda>h s m. Return (h, s, Some (ErrorString ''bad'')))\<rparr>])]\<rparr>
   in \<exists>c c'. NewClient d = Return c \<and> Client_WriteMessage c () = Return (c', (), Some (), None) \<and>
        c_state c' = 2 \<and> Client_ReadMessage c () () = Return (c', (), Some (ErrorString ''bad''))"
proof -
  let ?tr = "\<lparr>t_At = None, t_Ok = None, t_To = 2, t_Do = Some (\<lambda>h s :: unit. Return (h, s, Some (), None))\<rparr>"
  let ?rd = "\<lparr>t_At = Some [1], t_Ok = None, t_To = 2, t_Do = Some (\<lambda>h (s :: unit) (m :: unit). Return (h, s, Some (ErrorString ''bad'')))\<rparr>"
  let ?d = "\<lparr>d_TypeOf = \<lambda>_ :: unit. Return True, d_WriteFirst = False, d_InitialState = 1, d_FinalState = 2,
      d_WriteMessage = [(StateKey 1, [?tr])], d_ReadMessage = [(OtherKey True, [?rd])]\<rparr>"
  have wf: "definition_wf ?d"
    by (simp add: definition_wf_def entry_wf_def key_wf_def transition_wf_def at_states_def NoState_def)
  obtain c where c: "NewClient ?d = Return c" "client_of ?d c" "c_state c = 1"
    using NewClient_wf [OF wf] by auto
  have "run_transition writeMessageHandlerFactory (StateKey 1 :: bool key) ?tr 1 () () = Return (2, (), Some (), None)"
    "run_transition readMessageHandlerFactory (OtherKey True) ?rd 1 () (Some ()) = Return (2, (), None, Some (ErrorString ''bad''))"
    by (simp_all add: run_transition_def Transition_invoke_def writeMessageHandlerFactory_def readMessageHandlerFactory_def
        NewStateHandle_def NoState_def)
  then show ?thesis
    using Client_follows_definition [OF c(2) wf, of "()" True "()"] c(1,3)
    by (auto simp: Let_def write_entry_def read_entry_def no_transition_def at_states_def)
qed

end
