(* ===== verification/Loop.thy ===== *)
theory Loop
  imports Protocol
begin

text \<open>
  \<open>lib/protocol/loop.go\<close>: \<open>Run\<close> as a step relation between the main goroutine and the one
  that reads from the connection, and two loops connected by a pair of FIFO channels.

  A label says what a step does on the connection. The unbuffered channel \<open>in\<close> is a
  rendezvous: the reading goroutine offers a message (\<open>Offering\<close>) until the main one takes
  it. A \<open>select\<close> with a \<open>default\<close> takes the \<open>default\<close> only if no other case is ready.

  The locale \<open>endpoint\<close> is what a client promises to its loop when it plays a fixed part
  (\<open>outs\<close>) in a fixed dialogue (\<open>ins\<close>); \<open>conversation\<close> joins a leading and a following
  endpoint and shows that every schedule of the four goroutines ends, with both loops done.
\<close>

section \<open>The loop\<close>

datatype 'm reading = Reading | Offering 'm | Stopped

datatype loop_pc = Running | Returned "error option" | Crashed panic

record ('k, 's, 'm) Loop =
  lp_client :: "('k, 's, 'm) Client"
  lp_data :: 's
  lp_reader :: "'m reading"
  lp_errs :: "error option"
  lp_done :: bool
  lp_pc :: loop_pc

datatype 'm label = Tau | Recv 'm | RecvFail error | Send 'm | SendFail 'm error

definition NewLoop :: "('k, 's, 'm) Client \<Rightarrow> 's \<Rightarrow> ('k, 's, 'm) Loop" where
  "NewLoop client data =
     \<lparr>lp_client = client, lp_data = data, lp_reader = Reading, lp_errs = None, lp_done = False,
      lp_pc = Running\<rparr>"

definition select_ready :: "('k, 's, 'm) Loop \<Rightarrow> bool" where
  "select_ready l \<longleftrightarrow> (case lp_reader l of Offering _ \<Rightarrow> True | _ \<Rightarrow> False) \<or> lp_errs l \<noteq> None"

definition at_write :: "('k, 's, 'm) Loop \<Rightarrow> bool" where
  "at_write l \<longleftrightarrow>
     lp_pc l = Running \<and> \<not> Client_IsDone (lp_client l) \<and>
     (Client_MustWrite (lp_client l) \<or> Client_CanWrite (lp_client l) \<and> \<not> select_ready l)"

definition at_select :: "('k, 's, 'm) Loop \<Rightarrow> bool" where
  "at_select l \<longleftrightarrow>
     lp_pc l = Running \<and> \<not> Client_IsDone (lp_client l) \<and> \<not> Client_MustWrite (lp_client l)"

inductive loop_step :: "('k, 's, 'm) Loop \<Rightarrow> 'm label \<Rightarrow> ('k, 's, 'm) Loop \<Rightarrow> bool" where
  read_message:
    "lp_reader l = Reading \<Longrightarrow> loop_step l (Recv m) (l\<lparr>lp_reader := Offering m\<rparr>)"
| read_error:
    "lp_reader l = Reading \<Longrightarrow>
     loop_step l (RecvFail e) (l\<lparr>lp_reader := Stopped, lp_errs := Some e\<rparr>)"
| reader_stops:
    "lp_reader l = Offering m \<Longrightarrow> lp_done l \<Longrightarrow> loop_step l Tau (l\<lparr>lp_reader := Stopped\<rparr>)"
| finish:
    "lp_pc l = Running \<Longrightarrow> Client_IsDone (lp_client l) \<Longrightarrow>
     loop_step l Tau (l\<lparr>lp_done := True, lp_pc := Returned None\<rparr>)"
| write_message:
    "at_write l \<Longrightarrow> Client_WriteMessage (lp_client l) (lp_data l) = Return (c, s, Some m, None) \<Longrightarrow>
     loop_step l (Send m) (l\<lparr>lp_client := c, lp_data := s\<rparr>)"
| write_conn_error:
    "at_write l \<Longrightarrow> Client_WriteMessage (lp_client l) (lp_data l) = Return (c, s, Some m, None) \<Longrightarrow>
     loop_step l (SendFail m e) (l\<lparr>lp_client := c, lp_data := s, lp_pc := Returned (Some e)\<rparr>)"
| write_error:
    "at_write l \<Longrightarrow> Client_WriteMessage (lp_client l) (lp_data l) = Return (c, s, mo, Some e) \<Longrightarrow>
     loop_step l Tau (l\<lparr>lp_client := c, lp_data := s, lp_pc := Returned (Some e)\<rparr>)"
| write_panic:
    "at_write l \<Longrightarrow> Client_WriteMessage (lp_client l) (lp_data l) = Panic p \<Longrightarrow>
     loop_step l Tau (l\<lparr>lp_pc := Crashed p\<rparr>)"
| take_message:
    "at_select l \<Longrightarrow> lp_reader l = Offering m \<Longrightarrow>
     Client_ReadMessage (lp_client l) (lp_data l) m = Return (c, s, None) \<Longrightarrow>
     loop_step l Tau (l\<lparr>lp_client := c, lp_data := s, lp_reader := Reading\<rparr>)"
| take_error:
    "at_select l \<Longrightarrow> lp_reader l = Offering m \<Longrightarrow>
     Client_ReadMessage (lp_client l) (lp_data l) m = Return (c, s, Some e) \<Longrightarrow>
     loop_step l Tau (l\<lparr>lp_client := c, lp_data := s, lp_reader := Reading, lp_pc := Returned (Some e)\<rparr>)"
| take_panic:
    "at_select l \<Longrightarrow> lp_reader l = Offering m \<Longrightarrow>
     Client_ReadMessage (lp_client l) (lp_data l) m = Panic p \<Longrightarrow>
     loop_step l Tau (l\<lparr>lp_pc := Crashed p\<rparr>)"
| take_conn_error:
    "at_select l \<Longrightarrow> lp_errs l = Some e \<Longrightarrow>
     loop_step l Tau (l\<lparr>lp_errs := None, lp_pc := Returned (Some e)\<rparr>)"

inductive_cases loop_RecvE: "loop_step l (Recv m) l'"
inductive_cases loop_RecvFailE: "loop_step l (RecvFail e) l'"
inductive_cases loop_SendE: "loop_step l (Send m) l'"
inductive_cases loop_SendFailE: "loop_step l (SendFail m e) l'"

definition offered :: "('k, 's, 'm) Loop \<Rightarrow> 'm list" where
  "offered l = (case lp_reader l of Offering m \<Rightarrow> [m] | _ \<Rightarrow> [])"

lemma offered_simps [simp]:
  "lp_reader l = Offering m \<Longrightarrow> offered l = [m]"
  "lp_reader l = Reading \<Longrightarrow> offered l = []"
  "lp_reader l = Stopped \<Longrightarrow> offered l = []"
  by (simp_all add: offered_def)

text \<open>A loop whose connection has not failed and that has not returned an error.\<close>

definition clean :: "('k, 's, 'm) Loop \<Rightarrow> bool" where
  "clean l \<longleftrightarrow> lp_errs l = None \<and> lp_reader l \<noteq> Stopped \<and> (\<forall>e. lp_pc l \<noteq> Returned (Some e))"

lemma clean_Send: "loop_step l (Send m) l' \<Longrightarrow> clean l \<Longrightarrow> clean l'"
  by (auto elim!: loop_SendE simp: clean_def)

lemma clean_Recv: "loop_step l (Recv m) l' \<Longrightarrow> clean l \<Longrightarrow> clean l'"
  by (auto elim!: loop_RecvE simp: clean_def)

section \<open>Two loops and the channels between them\<close>

record ('k, 's, 't, 'm) pair =
  p_left :: "('k, 's, 'm) Loop"
  p_right :: "('k, 't, 'm) Loop"
  p_right_in :: "'m list"
  p_left_in :: "'m list"

definition start_pair ::
  "('k, 's, 'm) Client \<Rightarrow> 's \<Rightarrow> ('k, 't, 'm) Client \<Rightarrow> 't \<Rightarrow> ('k, 's, 't, 'm) pair" where
  "start_pair c s d t =
     \<lparr>p_left = NewLoop c s, p_right = NewLoop d t, p_right_in = [], p_left_in = []\<rparr>"

text \<open>The flag says whether the connection may fail, at any read or write.\<close>

inductive pair_step :: "bool \<Rightarrow> ('k, 's, 't, 'm) pair \<Rightarrow> ('k, 's, 't, 'm) pair \<Rightarrow> bool" for faults where
  left_tau: "loop_step (p_left p) Tau l \<Longrightarrow> pair_step faults p (p\<lparr>p_left := l\<rparr>)"
| left_send: "loop_step (p_left p) (Send m) l \<Longrightarrow>
    pair_step faults p (p\<lparr>p_left := l, p_right_in := p_right_in p @ [m]\<rparr>)"
| left_recv: "loop_step (p_left p) (Recv m) l \<Longrightarrow> p_left_in p = m # ms \<Longrightarrow>
    pair_step faults p (p\<lparr>p_left := l, p_left_in := ms\<rparr>)"
| left_send_fail: "faults \<Longrightarrow> loop_step (p_left p) (SendFail m e) l \<Longrightarrow>
    pair_step faults p (p\<lparr>p_left := l\<rparr>)"
| left_recv_fail: "faults \<Longrightarrow> loop_step (p_left p) (RecvFail e) l \<Longrightarrow>
    pair_step faults p (p\<lparr>p_left := l\<rparr>)"
| right_tau: "loop_step (p_right p) Tau r \<Longrightarrow> pair_step faults p (p\<lparr>p_right := r\<rparr>)"
| right_send: "loop_step (p_right p) (Send m) r \<Longrightarrow>
    pair_step faults p (p\<lparr>p_right := r, p_left_in := p_left_in p @ [m]\<rparr>)"
| right_recv: "loop_step (p_right p) (Recv m) r \<Longrightarrow> p_right_in p = m # ms \<Longrightarrow>
    pair_step faults p (p\<lparr>p_right := r, p_right_in := ms\<rparr>)"
| right_send_fail: "faults \<Longrightarrow> loop_step (p_right p) (SendFail m e) r \<Longrightarrow>
    pair_step faults p (p\<lparr>p_right := r\<rparr>)"
| right_recv_fail: "faults \<Longrightarrow> loop_step (p_right p) (RecvFail e) r \<Longrightarrow>
    pair_step faults p (p\<lparr>p_right := r\<rparr>)"

inductive pair_run :: "bool \<Rightarrow> nat \<Rightarrow> ('k, 's, 't, 'm) pair \<Rightarrow> ('k, 's, 't, 'm) pair \<Rightarrow> bool"
  for faults where
  run_refl: "pair_run faults 0 p p"
| run_step: "pair_run faults n p q \<Longrightarrow> pair_step faults q r \<Longrightarrow> pair_run faults (Suc n) p r"

definition stuck :: "('k, 's, 't, 'm) pair \<Rightarrow> bool" where
  "stuck p \<longleftrightarrow> (\<forall>q. \<not> pair_step False p q)"

lemma stuckD:
  assumes "stuck p"
  shows "\<not> loop_step (p_left p) Tau l" "\<not> loop_step (p_right p) Tau r"
    "\<not> loop_step (p_left p) (Send m) l" "\<not> loop_step (p_right p) (Send m) r"
    "lp_reader (p_left p) = Reading \<Longrightarrow> p_left_in p = []"
    "lp_reader (p_right p) = Reading \<Longrightarrow> p_right_in p = []"
proof -
  note no = assms [unfolded stuck_def, rule_format]
  show "\<not> loop_step (p_left p) Tau l" using no pair_step.left_tau by metis
  show "\<not> loop_step (p_right p) Tau r" using no pair_step.right_tau by metis
  show "\<not> loop_step (p_left p) (Send m) l" using no pair_step.left_send by metis
  show "\<not> loop_step (p_right p) (Send m) r" using no pair_step.right_send by metis
  show "p_left_in p = []" if "lp_reader (p_left p) = Reading"
    using no pair_step.left_recv [OF loop_step.read_message [OF that]] by (metis neq_Nil_conv)
  show "p_right_in p = []" if "lp_reader (p_right p) = Reading"
    using no pair_step.right_recv [OF loop_step.read_message [OF that]] by (metis neq_Nil_conv)
qed

section \<open>Endpoints\<close>

text \<open>
  A client that is to send \<open>outs\<close> and to be sent \<open>ins\<close>. \<open>inv o i\<close> describes it after \<open>o\<close>
  messages written and \<open>i\<close> read; \<open>may_write\<close> says where it writes, \<open>may_read\<close> where it
  can take its next message, \<open>first\<close> whether it writes before it reads.
\<close>

locale endpoint =
  fixes inv :: "nat \<Rightarrow> nat \<Rightarrow> ('k, 's, 'm) Client \<Rightarrow> 's \<Rightarrow> bool"
    and outs :: "'m list"
    and ins :: "'m list"
    and may_write :: "nat \<Rightarrow> nat \<Rightarrow> bool"
    and first :: bool
    and may_read :: "nat \<Rightarrow> nat \<Rightarrow> bool"
  assumes can_write: "inv n i c s \<Longrightarrow> Client_CanWrite c \<longleftrightarrow> may_write n i"
    and must_write: "inv n i c s \<Longrightarrow> Client_MustWrite c \<longleftrightarrow> first \<and> may_write n i"
    and is_done: "inv n i c s \<Longrightarrow> Client_IsDone c \<longleftrightarrow> n = length outs \<and> i = length ins"
    and writes: "inv n i c s \<Longrightarrow> may_write n i \<Longrightarrow>
      n < length outs \<and>
      (\<exists>c' s'. Client_WriteMessage c s = Return (c', s', Some (outs ! n), None) \<and> inv (Suc n) i c' s')"
    and reads: "inv n i c s \<Longrightarrow> may_read n i \<Longrightarrow> i < length ins \<Longrightarrow>
      \<exists>c' s'. Client_ReadMessage c s (ins ! i) = Return (c', s', None) \<and> inv n (Suc i) c' s'"
begin

definition finished :: "nat \<Rightarrow> nat \<Rightarrow> bool" where
  "finished n i \<longleftrightarrow> n = length outs \<and> i = length ins"

definition loop_at :: "nat \<Rightarrow> nat \<Rightarrow> ('k, 's, 'm) Loop \<Rightarrow> bool" where
  "loop_at n i l \<longleftrightarrow>
     (lp_done l \<longrightarrow> lp_pc l = Returned None) \<and>
     (case lp_pc l of
        Running \<Rightarrow> inv n i (lp_client l) (lp_data l)
      | Returned None \<Rightarrow> inv n i (lp_client l) (lp_data l) \<and> finished n i
      | Returned (Some _) \<Rightarrow> \<not> finished n i
      | Crashed _ \<Rightarrow> False)"

lemma loop_at_start: "inv 0 0 c s \<Longrightarrow> loop_at 0 0 (NewLoop c s)"
  by (simp add: loop_at_def NewLoop_def)

lemma loop_at_reader:
  "loop_at n i (l\<lparr>lp_reader := r\<rparr>) \<longleftrightarrow> loop_at n i l"
  "loop_at n i (l\<lparr>lp_reader := r, lp_errs := e\<rparr>) \<longleftrightarrow> loop_at n i l"
  by (simp_all add: loop_at_def split: loop_pc.splits option.splits)

lemma at_write_ok:
  assumes "loop_at n i l" and "at_write l"
  shows "n < length outs \<and> may_write n i \<and>
    (\<exists>c s. Client_WriteMessage (lp_client l) (lp_data l) = Return (c, s, Some (outs ! n), None) \<and>
       inv (Suc n) i c s)"
proof -
  have inv: "inv n i (lp_client l) (lp_data l)"
    using assms by (simp add: loop_at_def at_write_def)
  moreover have "may_write n i"
    using assms(2) can_write [OF inv] must_write [OF inv] by (auto simp: at_write_def)
  ultimately show ?thesis using writes by blast
qed

lemma send_ok:
  assumes at: "loop_at n i l" and st: "loop_step l (Send m) l'"
  shows "n < length outs \<and> may_write n i \<and> m = outs ! n \<and> loop_at (Suc n) i l' \<and> lp_reader l' = lp_reader l"
  using st at_write_ok [OF at] at
  by (auto elim!: loop_SendE simp: at_write_def loop_at_def)

lemma send_fail_ok:
  assumes at: "loop_at n i l" and st: "loop_step l (SendFail m e) l'"
  shows "loop_at n i l' \<and> lp_reader l' = lp_reader l"
  using st at_write_ok [OF at] at
  by (auto elim!: loop_SendFailE simp: at_write_def loop_at_def finished_def)

lemma recv_fail_ok:
  assumes at: "loop_at n i l" and st: "loop_step l (RecvFail e) l'"
  shows "loop_at n i l' \<and> offered l = [] \<and> offered l' = []"
  using st at by (auto elim!: loop_RecvFailE simp: loop_at_reader)

lemma recv_ok:
  assumes at: "loop_at n i l" and st: "loop_step l (Recv m) l'"
  shows "loop_at n i l' \<and> offered l = [] \<and> offered l' = [m]"
  using st at by (auto elim!: loop_RecvE simp: loop_at_reader)

lemma not_done:
  "loop_at n i l \<Longrightarrow> lp_pc l = Running \<Longrightarrow> \<not> Client_IsDone (lp_client l) \<Longrightarrow> \<not> finished n i"
  using is_done by (auto simp: loop_at_def finished_def)

text \<open>A silent step hands the offered message to the client or ends the loop.\<close>

lemma tau_ok:
  assumes at: "loop_at n i l" and st: "loop_step l Tau l'"
    and off: "\<And>m. lp_reader l = Offering m \<Longrightarrow>
        i < length ins \<and> m = ins ! i \<and> (\<not> (first \<and> may_write n i) \<longrightarrow> may_read n i)"
  shows "(loop_at n i l' \<and> lp_reader l' = lp_reader l \<and> lp_pc l = Running \<and> lp_pc l' \<noteq> Running) \<or>
    (loop_at n (Suc i) l' \<and> offered l = [ins ! i] \<and> offered l' = [] \<and>
     lp_pc l = Running \<and> lp_pc l' = Running \<and> \<not> (first \<and> may_write n i) \<and> i < length ins)"
    and "clean l \<Longrightarrow> clean l'"
proof -
  have taken: "\<exists>c s. Client_ReadMessage (lp_client l) (lp_data l) m = Return (c, s, None) \<and> inv n (Suc i) c s"
    and sel: "\<not> (first \<and> may_write n i)"
    if "at_select l" "lp_reader l = Offering m" for m
  proof -
    have inv: "inv n i (lp_client l) (lp_data l)"
      using at that(1) by (simp add: loop_at_def at_select_def)
    show sel: "\<not> (first \<and> may_write n i)"
      using that(1) must_write [OF inv] by (simp add: at_select_def)
    then show "\<exists>c s. Client_ReadMessage (lp_client l) (lp_data l) m = Return (c, s, None) \<and> inv n (Suc i) c s"
      using off [OF that(2)] reads [OF inv] by auto
  qed
  have "((loop_at n i l' \<and> lp_reader l' = lp_reader l \<and> lp_pc l = Running \<and> lp_pc l' \<noteq> Running) \<or>
    (loop_at n (Suc i) l' \<and> offered l = [ins ! i] \<and> offered l' = [] \<and>
     lp_pc l = Running \<and> lp_pc l' = Running \<and> \<not> (first \<and> may_write n i) \<and> i < length ins)) \<and>
    (clean l \<longrightarrow> clean l')"
    using st
  proof cases
    case (reader_stops m)
    then show ?thesis using at off [of m] by (auto simp: loop_at_def finished_def)
  next
    case finish
    then show ?thesis using at is_done by (fastforce simp: loop_at_def finished_def clean_def)
  next
    case (write_error c s mo e)
    then show ?thesis using at_write_ok [OF at] by auto
  next
    case (write_panic p)
    then show ?thesis using at_write_ok [OF at] by auto
  next
    case (take_message m c s)
    then show ?thesis
      using at taken sel off [of m] by (fastforce simp: loop_at_def at_select_def clean_def)
  next
    case (take_error m c s e)
    then show ?thesis using taken by fastforce
  next
    case (take_panic m p)
    then show ?thesis using taken by fastforce
  next
    case (take_conn_error e)
    then show ?thesis using at not_done [OF at] by (auto simp: loop_at_def at_select_def clean_def)
  qed
  then show "(loop_at n i l' \<and> lp_reader l' = lp_reader l \<and> lp_pc l = Running \<and> lp_pc l' \<noteq> Running) \<or>
    (loop_at n (Suc i) l' \<and> offered l = [ins ! i] \<and> offered l' = [] \<and>
     lp_pc l = Running \<and> lp_pc l' = Running \<and> \<not> (first \<and> may_write n i) \<and> i < length ins)"
    and "clean l \<Longrightarrow> clean l'"
    by blast+
qed

text \<open>When a loop can move: it is done, it may write and has nothing to take, or it may take.\<close>

lemma enabled_finish:
  "loop_at n i l \<Longrightarrow> lp_pc l = Running \<Longrightarrow> finished n i \<Longrightarrow> \<exists>l'. loop_step l Tau l'"
  using is_done loop_step.finish by (fastforce simp: loop_at_def finished_def)

lemma enabled_write:
  assumes at: "loop_at n i l" and pc: "lp_pc l = Running" and w: "may_write n i"
    and idle: "first \<or> (lp_reader l = Reading \<and> clean l)"
  shows "\<exists>m l'. loop_step l (Send m) l'"
proof -
  have inv: "inv n i (lp_client l) (lp_data l)" using at pc by (simp add: loop_at_def)
  have n: "n < length outs" using writes [OF inv w] by blast
  have "at_write l"
    using pc idle is_done [OF inv] can_write [OF inv] must_write [OF inv] w n
    by (auto simp: at_write_def select_ready_def clean_def)
  moreover obtain c s where "Client_WriteMessage (lp_client l) (lp_data l) = Return (c, s, Some (outs ! n), None)"
    using writes [OF inv w] by blast
  ultimately have "loop_step l (Send (outs ! n)) (l\<lparr>lp_client := c, lp_data := s\<rparr>)"
    by (rule loop_step.write_message)
  then show ?thesis by blast
qed

lemma enabled_take:
  assumes at: "loop_at n i l" and pc: "lp_pc l = Running" and off: "lp_reader l = Offering (ins ! i)"
    and r: "may_read n i" "i < length ins" "\<not> (first \<and> may_write n i)"
  shows "\<exists>l'. loop_step l Tau l'"
proof -
  have inv: "inv n i (lp_client l) (lp_data l)" using at pc by (simp add: loop_at_def)
  have "at_select l"
    using pc r is_done [OF inv] must_write [OF inv] by (simp add: at_select_def)
  then show ?thesis using loop_step.take_message [OF _ off] reads [OF inv r(1,2)] by blast
qed

end

section \<open>Conversations\<close>

lemma in_flight_head:
  assumes "x # xs = drop i (take n ys)" and "n \<le> length ys"
  shows "i < n \<and> x = ys ! i \<and> xs = drop (Suc i) (take n ys)"
proof -
  have "i < length (take n ys)"
    using assms(1) by (metis drop_all list.distinct(1) not_less)
  then have i: "i < n" and "x # xs = ys ! i # drop (Suc i) (take n ys)"
    using assms Cons_nth_drop_Suc [of i "take n ys"] by simp_all
  then show ?thesis by simp
qed

lemma in_flight_snoc:
  assumes "xs @ zs = drop i (take n ys)" and "i \<le> n" and "n < length ys"
  shows "xs @ zs @ [ys ! n] = drop i (take (Suc n) ys)"
  using assms by (simp add: take_Suc_conv_app_nth flip: append_assoc)

text \<open>
  The left endpoint leads: it can take its \<open>i\<close>-th message once it has sent more than \<open>i\<close>, and
  it is never waiting when it has been answered in full. The right one follows: it answers
  every message with one of its own, before it reads the next.
\<close>

locale conversation =
  L: endpoint invL us vs mw False "\<lambda>n i. i < n" +
  R: endpoint invR vs us "\<lambda>n i. n < i" True "\<lambda>n i. n = i"
  for invL :: "nat \<Rightarrow> nat \<Rightarrow> ('k, 's, 'm) Client \<Rightarrow> 's \<Rightarrow> bool"
    and invR :: "nat \<Rightarrow> nat \<Rightarrow> ('k, 't, 'm) Client \<Rightarrow> 't \<Rightarrow> bool"
    and us :: "'m list"
    and vs :: "'m list"
    and mw :: "nat \<Rightarrow> nat \<Rightarrow> bool" +
  assumes same_length: "length us = length vs"
    and leads: "n < length us \<Longrightarrow> mw n n"
begin

text \<open>
  What has been sent is what has been received and what is in flight: in the channel, or
  offered by the reading goroutine. \<open>n\<close>, \<open>i\<close> count for the left, \<open>m\<close>, \<open>j\<close> for the right loop.
\<close>

definition pair_at :: "nat \<Rightarrow> nat \<Rightarrow> nat \<Rightarrow> nat \<Rightarrow> ('k, 's, 't, 'm) pair \<Rightarrow> bool" where
  "pair_at n i m j p \<longleftrightarrow>
     L.loop_at n i (p_left p) \<and> R.loop_at m j (p_right p) \<and>
     i \<le> m \<and> m \<le> j \<and> j \<le> Suc m \<and> j \<le> n \<and> n \<le> length us \<and>
     offered (p_right p) @ p_right_in p = drop j (take n us) \<and>
     offered (p_left p) @ p_left_in p = drop i (take m vs)"

definition pair_clean :: "('k, 's, 't, 'm) pair \<Rightarrow> bool" where
  "pair_clean p \<longleftrightarrow> clean (p_left p) \<and> clean (p_right p)"

definition running :: "('k, 'u, 'm) Loop \<Rightarrow> nat" where
  "running l = (if lp_pc l = Running then 1 else 0)"

definition work :: "nat \<Rightarrow> nat \<Rightarrow> ('k, 's, 't, 'm) pair \<Rightarrow> nat" where
  "work n m p =
     3 * (length us - n) + 3 * (length us - m) +
     2 * length (p_right_in p) + length (offered (p_right p)) +
     2 * length (p_left_in p) + length (offered (p_left p)) +
     running (p_left p) + running (p_right p)"

lemma pair_at_start:
  "invL 0 0 c s \<Longrightarrow> invR 0 0 d t \<Longrightarrow> pair_at 0 0 0 0 (start_pair c s d t)"
  using L.loop_at_start R.loop_at_start
  by (simp add: pair_at_def start_pair_def) (simp add: NewLoop_def)

lemma left_tau_at:
  assumes p: "pair_at n i m j p" and st: "loop_step (p_left p) Tau l"
  shows "\<exists>i'. pair_at n i' m j (p\<lparr>p_left := l\<rparr>) \<and> work n m (p\<lparr>p_left := l\<rparr>) < work n m p \<and>
    (pair_clean p \<longrightarrow> pair_clean (p\<lparr>p_left := l\<rparr>))"
proof -
  have flight: "offered (p_left p) @ p_left_in p = drop i (take m vs)" "m \<le> length vs" "m \<le> n"
    using p same_length by (auto simp: pair_at_def)
  have off: "i < length vs \<and> x = vs ! i \<and> (\<not> (False \<and> mw n i) \<longrightarrow> i < n)"
    if "lp_reader (p_left p) = Offering x" for x
    using in_flight_head [of x "p_left_in p" i m vs] flight that by auto
  have clean: "pair_clean p \<longrightarrow> pair_clean (p\<lparr>p_left := l\<rparr>)"
    using L.tau_ok(2) [OF _ st off] p by (auto simp: pair_at_def pair_clean_def)
  from L.tau_ok(1) [OF _ st off] p
  consider "L.loop_at n i l" "lp_reader l = lp_reader (p_left p)" "lp_pc (p_left p) = Running" "lp_pc l \<noteq> Running"
    | "L.loop_at n (Suc i) l" "offered (p_left p) = [vs ! i]" "offered l = []"
      "lp_pc (p_left p) = Running" "lp_pc l = Running"
    unfolding pair_at_def by blast
  then show ?thesis
  proof cases
    case 1
    then have "pair_at n i m j (p\<lparr>p_left := l\<rparr>)" "work n m (p\<lparr>p_left := l\<rparr>) < work n m p"
      using p by (simp_all add: pair_at_def work_def running_def offered_def)
    then show ?thesis using clean by blast
  next
    case 2
    then have "i < m \<and> p_left_in p = drop (Suc i) (take m vs)"
      using in_flight_head [of "vs ! i" "p_left_in p" i m vs] flight by simp
    with 2 have "pair_at n (Suc i) m j (p\<lparr>p_left := l\<rparr>)" "work n m (p\<lparr>p_left := l\<rparr>) < work n m p"
      using p by (simp_all add: pair_at_def work_def running_def)
    then show ?thesis using clean by blast
  qed
qed

lemma right_tau_at:
  assumes p: "pair_at n i m j p" and st: "loop_step (p_right p) Tau r"
  shows "\<exists>j'. pair_at n i m j' (p\<lparr>p_right := r\<rparr>) \<and> work n m (p\<lparr>p_right := r\<rparr>) < work n m p \<and>
    (pair_clean p \<longrightarrow> pair_clean (p\<lparr>p_right := r\<rparr>))"
proof -
  have flight: "offered (p_right p) @ p_right_in p = drop j (take n us)" "n \<le> length us" "m \<le> j"
    using p by (auto simp: pair_at_def)
  have off: "j < length us \<and> x = us ! j \<and> (\<not> (True \<and> m < j) \<longrightarrow> m = j)"
    if "lp_reader (p_right p) = Offering x" for x
    using in_flight_head [of x "p_right_in p" j n us] flight that by auto
  have clean: "pair_clean p \<longrightarrow> pair_clean (p\<lparr>p_right := r\<rparr>)"
    using R.tau_ok(2) [OF _ st off] p by (auto simp: pair_at_def pair_clean_def)
  from R.tau_ok(1) [OF _ st off] p
  consider "R.loop_at m j r" "lp_reader r = lp_reader (p_right p)" "lp_pc (p_right p) = Running" "lp_pc r \<noteq> Running"
    | "R.loop_at m (Suc j) r" "offered (p_right p) = [us ! j]" "offered r = []"
      "lp_pc (p_right p) = Running" "lp_pc r = Running" "\<not> m < j"
    unfolding pair_at_def by blast
  then show ?thesis
  proof cases
    case 1
    then have "pair_at n i m j (p\<lparr>p_right := r\<rparr>)" "work n m (p\<lparr>p_right := r\<rparr>) < work n m p"
      using p by (simp_all add: pair_at_def work_def running_def offered_def)
    then show ?thesis using clean by blast
  next
    case 2
    then have "j < n \<and> p_right_in p = drop (Suc j) (take n us)"
      using in_flight_head [of "us ! j" "p_right_in p" j n us] flight by simp
    with 2 have "pair_at n i m (Suc j) (p\<lparr>p_right := r\<rparr>)" "work n m (p\<lparr>p_right := r\<rparr>) < work n m p"
      using p by (simp_all add: pair_at_def work_def running_def)
    then show ?thesis using clean by blast
  qed
qed


lemma left_send_at:
  assumes p: "pair_at n i m j p" and st: "loop_step (p_left p) (Send x) l"
  shows "pair_at (Suc n) i m j (p\<lparr>p_left := l, p_right_in := p_right_in p @ [x]\<rparr>) \<and>
    work (Suc n) m (p\<lparr>p_left := l, p_right_in := p_right_in p @ [x]\<rparr>) < work n m p"
proof
  have l: "n < length us" "x = us ! n" "L.loop_at (Suc n) i l" "offered l = offered (p_left p)"
    using L.send_ok [OF _ st, of n i] p by (auto simp: pair_at_def offered_def)
  then show "pair_at (Suc n) i m j (p\<lparr>p_left := l, p_right_in := p_right_in p @ [x]\<rparr>)"
    using p in_flight_snoc [of "offered (p_right p)" "p_right_in p" j n us] by (simp add: pair_at_def)
  have "lp_pc l = lp_pc (p_left p)" using st by (auto elim: loop_SendE)
  with l(1,4) show "work (Suc n) m (p\<lparr>p_left := l, p_right_in := p_right_in p @ [x]\<rparr>) < work n m p"
    by (simp add: work_def running_def)
qed

lemma right_send_at:
  assumes p: "pair_at n i m j p" and st: "loop_step (p_right p) (Send x) r"
  shows "pair_at n i (Suc m) j (p\<lparr>p_right := r, p_left_in := p_left_in p @ [x]\<rparr>) \<and>
    work n (Suc m) (p\<lparr>p_right := r, p_left_in := p_left_in p @ [x]\<rparr>) < work n m p"
proof
  have r: "m < length us" "m < j" "x = vs ! m" "R.loop_at (Suc m) j r" "offered r = offered (p_right p)"
    using R.send_ok [OF _ st, of m j] p same_length by (auto simp: pair_at_def offered_def)
  then show "pair_at n i (Suc m) j (p\<lparr>p_right := r, p_left_in := p_left_in p @ [x]\<rparr>)"
    using p same_length in_flight_snoc [of "offered (p_left p)" "p_left_in p" i m vs]
    by (simp add: pair_at_def)
  have "lp_pc r = lp_pc (p_right p)" using st by (auto elim: loop_SendE)
  with r(1,5) show "work n (Suc m) (p\<lparr>p_right := r, p_left_in := p_left_in p @ [x]\<rparr>) < work n m p"
    by (simp add: work_def running_def)
qed

lemma left_recv_at:
  assumes p: "pair_at n i m j p" and st: "loop_step (p_left p) (Recv x) l" and q: "p_left_in p = x # xs"
  shows "pair_at n i m j (p\<lparr>p_left := l, p_left_in := xs\<rparr>) \<and>
    work n m (p\<lparr>p_left := l, p_left_in := xs\<rparr>) < work n m p"
proof
  have l: "L.loop_at n i l" "offered (p_left p) = []" "offered l = [x]"
    using L.recv_ok [OF _ st, of n i] p by (simp_all add: pair_at_def)
  then show "pair_at n i m j (p\<lparr>p_left := l, p_left_in := xs\<rparr>)"
    using p q by (simp add: pair_at_def)
  have "lp_pc l = lp_pc (p_left p)" using st by (auto elim: loop_RecvE)
  with l(2,3) q show "work n m (p\<lparr>p_left := l, p_left_in := xs\<rparr>) < work n m p"
    by (simp add: work_def running_def)
qed

lemma right_recv_at:
  assumes p: "pair_at n i m j p" and st: "loop_step (p_right p) (Recv x) r" and q: "p_right_in p = x # xs"
  shows "pair_at n i m j (p\<lparr>p_right := r, p_right_in := xs\<rparr>) \<and>
    work n m (p\<lparr>p_right := r, p_right_in := xs\<rparr>) < work n m p"
proof
  have r: "R.loop_at m j r" "offered (p_right p) = []" "offered r = [x]"
    using R.recv_ok [OF _ st, of m j] p by (simp_all add: pair_at_def)
  then show "pair_at n i m j (p\<lparr>p_right := r, p_right_in := xs\<rparr>)"
    using p q by (simp add: pair_at_def)
  have "lp_pc r = lp_pc (p_right p)" using st by (auto elim: loop_RecvE)
  with r(2,3) q show "work n m (p\<lparr>p_right := r, p_right_in := xs\<rparr>) < work n m p"
    by (simp add: work_def running_def)
qed

lemma step_at:
  assumes p: "pair_at n i m j p" and st: "pair_step faults p q"
  shows "\<exists>n' i' m' j'. pair_at n' i' m' j' q \<and>
    (\<not> faults \<longrightarrow> work n' m' q < work n m p \<and> (pair_clean p \<longrightarrow> pair_clean q))"
  using st
proof cases
  case (left_tau l)
  then show ?thesis using left_tau_at [OF p] by blast
next
  case (left_send x l)
  then show ?thesis using left_send_at [OF p] clean_Send by (fastforce simp: pair_clean_def)
next
  case (left_recv x l xs)
  then show ?thesis using left_recv_at [OF p] clean_Recv by (fastforce simp: pair_clean_def)
next
  case (left_send_fail x e l)
  then have "pair_at n i m j q"
    using L.send_fail_ok [of n i "p_left p"] p by (auto simp: pair_at_def offered_def)
  then show ?thesis using left_send_fail by blast
next
  case (left_recv_fail e l)
  then have "pair_at n i m j q"
    using L.recv_fail_ok [of n i "p_left p"] p by (auto simp: pair_at_def)
  then show ?thesis using left_recv_fail by blast
next
  case (right_tau r)
  then show ?thesis using right_tau_at [OF p] by blast
next
  case (right_send x r)
  then show ?thesis using right_send_at [OF p] clean_Send by (fastforce simp: pair_clean_def)
next
  case (right_recv x r xs)
  then show ?thesis using right_recv_at [OF p] clean_Recv by (fastforce simp: pair_clean_def)
next
  case (right_send_fail x e r)
  then have "pair_at n i m j q"
    using R.send_fail_ok [of m j "p_right p"] p by (auto simp: pair_at_def offered_def)
  then show ?thesis using right_send_fail by blast
next
  case (right_recv_fail e r)
  then have "pair_at n i m j q"
    using R.recv_fail_ok [of m j "p_right p"] p by (auto simp: pair_at_def)
  then show ?thesis using right_recv_fail by blast
qed

lemma run_at:
  assumes "pair_run faults k p q" and "pair_at n i m j p"
  shows "\<exists>n' i' m' j'. pair_at n' i' m' j' q \<and>
    (\<not> faults \<longrightarrow> k + work n' m' q \<le> work n m p \<and> (pair_clean p \<longrightarrow> pair_clean q))"
  using assms
proof (induction rule: pair_run.induct)
  case (run_refl p)
  then show ?case by fastforce
next
  case (run_step k p q r)
  then obtain n' i' m' j' where q: "pair_at n' i' m' j' q"
    "\<not> faults \<longrightarrow> k + work n' m' q \<le> work n m p \<and> (pair_clean p \<longrightarrow> pair_clean q)"
    by blast
  with step_at [OF q(1) run_step.hyps(2)] show ?case by fastforce
qed


lemma stuck_right_idle:
  assumes p: "pair_at n i m j p" "pair_clean p" "stuck p"
  shows "j = n \<and> m = j \<and> (lp_pc (p_right p) = Running \<longrightarrow> j < length us)"
proof (cases "lp_pc (p_right p) = Running")
  case True
  have at: "R.loop_at m j (p_right p)" and le: "m \<le> j" "j \<le> n" "n \<le> length us"
    and flight: "offered (p_right p) @ p_right_in p = drop j (take n us)"
    using p(1) by (auto simp: pair_at_def)
  have nofin: "\<not> R.finished m j"
    using R.enabled_finish [OF at True] stuckD(2) [OF p(3)] by blast
  have nowrite: "\<not> m < j"
    using R.enabled_write [OF at True] stuckD(4) [OF p(3)] by blast
  have not_off: "lp_reader (p_right p) \<noteq> Offering x" for x
  proof
    assume off: "lp_reader (p_right p) = Offering x"
    then have "j < n \<and> x = us ! j" using in_flight_head [of x "p_right_in p" j n us] flight le by simp
    then show False
      using R.enabled_take [OF at True] off le nowrite stuckD(2) [OF p(3)] by auto
  qed
  then have "lp_reader (p_right p) = Reading"
    using p(2) by (cases "lp_reader (p_right p)") (auto simp: pair_clean_def clean_def)
  then have "offered (p_right p) = []" "p_right_in p = []"
    using stuckD(6) [OF p(3)] by simp_all
  then have "j = n" using flight le by simp
  then show ?thesis using nowrite nofin le same_length by (auto simp: R.finished_def)
next
  case False
  then have "R.finished m j"
    using p(1,2)
    by (auto simp: pair_at_def R.loop_at_def pair_clean_def clean_def split: loop_pc.splits option.splits)
  then show ?thesis using p(1) False same_length by (auto simp: pair_at_def R.finished_def)
qed


lemma stuck_left_idle:
  assumes p: "pair_at n i m j p" "pair_clean p" "stuck p"
  shows "i = m \<and> (lp_pc (p_left p) = Running \<longrightarrow> \<not> mw n i \<and> \<not> L.finished n i) \<and>
    (lp_pc (p_left p) \<noteq> Running \<longrightarrow> L.finished n i)"
proof (cases "lp_pc (p_left p) = Running")
  case True
  have at: "L.loop_at n i (p_left p)" and le: "i \<le> m" "m \<le> n" "m \<le> length vs"
    and flight: "offered (p_left p) @ p_left_in p = drop i (take m vs)"
    using p(1) same_length by (auto simp: pair_at_def)
  have nofin: "\<not> L.finished n i"
    using L.enabled_finish [OF at True] stuckD(1) [OF p(3)] by blast
  have not_off: "lp_reader (p_left p) \<noteq> Offering x" for x
  proof
    assume off: "lp_reader (p_left p) = Offering x"
    then have "i < m \<and> x = vs ! i" using in_flight_head [of x "p_left_in p" i m vs] flight le by simp
    then show False
      using L.enabled_take [OF at True] off le stuckD(1) [OF p(3)] by auto
  qed
  then have reading: "lp_reader (p_left p) = Reading"
    using p(2) by (cases "lp_reader (p_left p)") (auto simp: pair_clean_def clean_def)
  then have "offered (p_left p) = []" "p_left_in p = []"
    using stuckD(5) [OF p(3)] by simp_all
  then have "i = m" using flight le by simp
  moreover have "\<not> mw n i"
    using L.enabled_write [OF at True] stuckD(3) [OF p(3)] reading p(2) by (auto simp: pair_clean_def)
  ultimately show ?thesis using True nofin by blast
next
  case False
  then have "L.finished n i"
    using p(1,2)
    by (auto simp: pair_at_def L.loop_at_def pair_clean_def clean_def split: loop_pc.splits option.splits)
  then show ?thesis using p(1) False same_length by (auto simp: pair_at_def L.finished_def)
qed

lemma stuck_finished:
  assumes p: "pair_at n i m j p" "pair_clean p" "stuck p"
  shows "lp_pc (p_left p) = Returned None \<and> lp_pc (p_right p) = Returned None \<and>
    n = length us \<and> i = length us \<and> m = length us \<and> j = length us"
proof -
  note r = stuck_right_idle [OF p] and l = stuck_left_idle [OF p]
  have n: "n = length us"
  proof (rule ccontr)
    assume "n \<noteq> length us"
    with p(1) have "n < length us" by (simp add: pair_at_def)
    then show False using leads [of n] l r by (auto simp: L.finished_def)
  qed
  then have "lp_pc (p_left p) \<noteq> Running" "lp_pc (p_right p) \<noteq> Running"
    using l r same_length by (auto simp: L.finished_def)
  then show ?thesis
    using p(1,2) n l r
    by (auto simp: pair_at_def L.loop_at_def R.loop_at_def pair_clean_def clean_def
        split: loop_pc.splits option.splits)
qed

text \<open>
  Every run without faults is at most as long as the work to be done, and a run that can go
  no further has both loops returned without an error, at the end of the dialogue.
\<close>

lemma start_clean: "pair_clean (start_pair c s d t)"
  by (simp add: pair_clean_def clean_def start_pair_def NewLoop_def)

theorem conversation_ends:
  assumes "invL 0 0 c s" and "invR 0 0 d t" and run: "pair_run False k (start_pair c s d t) p"
  shows "k \<le> 6 * length us + 2" and "stuck p \<Longrightarrow>
    lp_pc (p_left p) = Returned None \<and> lp_pc (p_right p) = Returned None \<and>
    invL (length us) (length us) (lp_client (p_left p)) (lp_data (p_left p)) \<and>
    invR (length us) (length us) (lp_client (p_right p)) (lp_data (p_right p))"
proof -
  obtain n i m j where p: "pair_at n i m j p" "pair_clean p"
    and k: "k + work n m p \<le> work 0 0 (start_pair c s d t)"
    using run_at [OF run pair_at_start [OF assms(1,2)]] start_clean by blast
  have "work 0 0 (start_pair c s d t) = 6 * length us + 2"
    by (simp add: work_def start_pair_def running_def) (simp add: NewLoop_def)
  with k show "k \<le> 6 * length us + 2" by simp
  assume "stuck p"
  from stuck_finished [OF p this] show "lp_pc (p_left p) = Returned None \<and> lp_pc (p_right p) = Returned None \<and>
    invL (length us) (length us) (lp_client (p_left p)) (lp_data (p_left p)) \<and>
    invR (length us) (length us) (lp_client (p_right p)) (lp_data (p_right p))"
    using p(1) by (auto simp: pair_at_def L.loop_at_def R.loop_at_def)
qed

text \<open>
  Safety, also over a connection that fails: no loop panics, and once the left loop has
  returned without an error the right one is at the end of the dialogue, too.
\<close>

theorem conversation_safe:
  assumes "invL 0 0 c s" and "invR 0 0 d t" and run: "pair_run faults k (start_pair c s d t) p"
  shows "lp_pc (p_left p) \<noteq> Crashed x" and "lp_pc (p_right p) \<noteq> Crashed x"
    and "lp_pc (p_right p) = Returned None \<Longrightarrow>
      invR (length us) (length us) (lp_client (p_right p)) (lp_data (p_right p))"
    and "lp_pc (p_left p) = Returned None \<Longrightarrow>
      invR (length us) (length us) (lp_client (p_right p)) (lp_data (p_right p))"
proof -
  obtain n i m j where p: "pair_at n i m j p"
    using run_at [OF run pair_at_start [OF assms(1,2)]] by blast
  show "lp_pc (p_left p) \<noteq> Crashed x" "lp_pc (p_right p) \<noteq> Crashed x"
    using p by (auto simp: pair_at_def L.loop_at_def R.loop_at_def)
  show "invR (length us) (length us) (lp_client (p_right p)) (lp_data (p_right p))"
    if "lp_pc (p_right p) = Returned None"
    using p that same_length by (auto simp: pair_at_def R.loop_at_def R.finished_def)
  show "invR (length us) (length us) (lp_client (p_right p)) (lp_data (p_right p))"
    if "lp_pc (p_left p) = Returned None"
  proof -
    have "m = length us \<and> j = length us" and "R.loop_at m j (p_right p)"
      using p that same_length by (auto simp: pair_at_def L.loop_at_def L.finished_def)
    then show ?thesis
      using same_length
      by (auto simp: R.loop_at_def R.finished_def split: loop_pc.splits option.splits)
  qed
qed

end

end
