(* ===== verification/File_Transfer.thy ===== *)
theory File_Transfer
  imports Block_Writer Loop
begin

text \<open>
  \<open>lib/session/transfer\<close>: the messages of the file transfer, and the protocol definitions of
  the sender and the receiver with all their handlers. A handler works on the record
  (\<open>Sender\<close>, \<open>Receiver\<close>) that it closes over in the source.
\<close>

section \<open>Messages (transfer.proto, transfer.go)\<close>

record Metadata =
  md_Filename :: bytes

record Header =
  hd_Metadata :: "Metadata option"
  hd_TotalSize :: uint64
  hd_BlockSize :: uint64

text \<open>
  A protobuf message. \<open>BlockMsg None\<close> is the nil \<open>*Block\<close> that \<open>NextBlock\<close> returns beside an
  error: as an interface value it is not nil. \<open>ForeignMsg\<close> is a message of another package.
\<close>

datatype message =
    HeaderMsg Header
  | AcknowledgeMsg
  | BlockMsg "Block option"
  | BlockReceivedMsg uint64
  | RedoBlockMsg uint64
  | DataSentMsg bytes
  | DataReceivedMsg
  | AbortMsg uint32
  | ForeignMsg

datatype MessageType =
    MessageTypeHeader
  | MessageTypeAcknowledge
  | MessageTypeBlock
  | MessageTypeBlockReceived
  | MessageTypeRedoBlock
  | MessageTypeDataSent
  | MessageTypeDataReceived
  | MessageTypeAbort

fun MessageType_number :: "MessageType \<Rightarrow> uint32" where
  "MessageType_number MessageTypeHeader = 2"
| "MessageType_number MessageTypeAcknowledge = 3"
| "MessageType_number MessageTypeBlock = 4"
| "MessageType_number MessageTypeBlockReceived = 5"
| "MessageType_number MessageTypeRedoBlock = 6"
| "MessageType_number MessageTypeDataSent = 7"
| "MessageType_number MessageTypeDataReceived = 8"
| "MessageType_number MessageTypeAbort = 9"

definition ChannelTypeTransfer :: uint32 where
  "ChannelTypeTransfer = 1"

definition Protocol_Id :: uint32 where
  "Protocol_Id = ChannelTypeTransfer"

fun TypeOf :: "message \<Rightarrow> MessageType outcome" where
  "TypeOf (HeaderMsg _) = Return MessageTypeHeader"
| "TypeOf AcknowledgeMsg = Return MessageTypeAcknowledge"
| "TypeOf (BlockMsg _) = Return MessageTypeBlock"
| "TypeOf (BlockReceivedMsg _) = Return MessageTypeBlockReceived"
| "TypeOf (RedoBlockMsg _) = Return MessageTypeRedoBlock"
| "TypeOf (DataSentMsg _) = Return MessageTypeDataSent"
| "TypeOf DataReceivedMsg = Return MessageTypeDataReceived"
| "TypeOf (AbortMsg _) = Return MessageTypeAbort"
| "TypeOf ForeignMsg = Panic (PanicError (ChannelError IllegalRootMessageType))"

definition RawTypeOf :: "message \<Rightarrow> uint32 outcome" where
  "RawTypeOf message = obind (TypeOf message) (\<lambda>t. Return (MessageType_number t))"

definition empty_header :: Header where
  "empty_header = \<lparr>hd_Metadata = None, hd_TotalSize = 0, hd_BlockSize = 0\<rparr>"

definition empty_block :: Block where
  "empty_block = \<lparr>b_Index = 0, b_Data = [], b_Checksum = []\<rparr>"

definition NewMessage :: "uint32 \<Rightarrow> error + message" where
  "NewMessage messageType =
     (if messageType = 2 then Inr (HeaderMsg empty_header)
      else if messageType = 3 then Inr AcknowledgeMsg
      else if messageType = 4 then Inr (BlockMsg (Some empty_block))
      else if messageType = 5 then Inr (BlockReceivedMsg 0)
      else if messageType = 6 then Inr (RedoBlockMsg 0)
      else if messageType = 7 then Inr (DataSentMsg [])
      else if messageType = 8 then Inr DataReceivedMsg
      else if messageType = 9 then Inr (AbortMsg 0)
      else Inl (ChannelError UnexpectedMessageType))"

section \<open>States (state.go)\<close>

definition initialized :: State where "initialized = 1"

definition finalDone :: State where "finalDone = 2"

definition sendAbort :: State where "sendAbort = 3"

definition aborted :: State where "aborted = 4"

definition firstState :: State where "firstState = 5"

definition inPrologue :: State where "inPrologue = 0 + firstState"

definition inProgress :: State where "inProgress = 1 + firstState"

definition needAcknowledge :: State where "needAcknowledge = 2 + firstState"

definition transferred :: State where "transferred = 3 + firstState"

definition needDataReceived :: State where "needDataReceived = 4 + firstState"

definition sendAcknowledge :: State where "sendAcknowledge = 0 + firstState"

definition needBlock :: State where "needBlock = 1 + firstState"

definition handleBlock :: State where "handleBlock = 2 + firstState"

definition needDataSent :: State where "needDataSent = 3 + firstState"

definition sendDataReceived :: State where "sendDataReceived = 4 + firstState"

lemmas state_defs =
  initialized_def finalDone_def sendAbort_def aborted_def firstState_def inPrologue_def
  inProgress_def needAcknowledge_def transferred_def needDataReceived_def sendAcknowledge_def
  needBlock_def handleBlock_def needDataSent_def sendDataReceived_def NoState_def

section \<open>The sender (sender.go)\<close>

record 'f Sender =
  s_reader :: "'f Reader"
  s_received :: "bool list"
  s_receivedCount :: uint64
  s_metadata :: "Metadata option"

definition createHeader :: "'f Sender \<Rightarrow> Header" where
  "createHeader s =
     \<lparr>hd_Metadata = s_metadata s, hd_TotalSize = r_totalSize (s_reader s),
      hd_BlockSize = r_blockSize (s_reader s)\<rparr>"

definition write_Header :: "('f Sender, message) WriteMessageHandler" where
  "write_Header st s = Return (st, s, Some (HeaderMsg (createHeader s)), None)"

text \<open>The handlers at \<open>inPrologue\<close> and \<open>inProgress\<close>, which differ in the states they set.\<close>

definition write_Block ::
  "'f ReadSeekCloser \<Rightarrow> State \<Rightarrow> State \<Rightarrow> ('f Sender, message) WriteMessageHandler" where
  "write_Block ops again final st s =
     (if \<not> Reader_HasData (s_reader s) then Panic (PanicString ''expected data but no data to write'')
      else obind (NextBlock ops (s_reader s)) (\<lambda>(block, err, r).
        let s' = s\<lparr>s_reader := r\<rparr> in
        case err of
          Some e \<Rightarrow> Return (st, s', Some (BlockMsg block), Some e)
        | None \<Rightarrow>
            obind (StateHandle_Set st (if Reader_IsDone r then final else again)) (\<lambda>st'.
              Return (st', s', Some (BlockMsg block), None))))"

definition write_DataSent :: "('f Sender, message) WriteMessageHandler" where
  "write_DataSent st s = Return (st, s, Some (DataSentMsg []), None)"

definition write_Abort :: "('s, message) WriteMessageHandler" where
  "write_Abort st s = Return (st, s, Some (AbortMsg 0), None)"

definition read_BlockReceived :: "('f Sender, message) ReadMessageHandler" where
  "read_BlockReceived st s message =
     (case message of
        BlockReceivedMsg index \<Rightarrow>
          obind (index_slice (s_received s) index) (\<lambda>already.
            if already then Return (st, s, Some (TransferError DuplicateBlockReceived))
            else obind (update_slice (s_received s) index True) (\<lambda>received.
              let s' = s\<lparr>s_received := received, s_receivedCount := s_receivedCount s + 1\<rparr> in
              obind (Reader_BlockCount (s_reader s')) (\<lambda>n.
                if n < s_receivedCount s'
                then Panic (PanicString ''sent more blocks than there should be available'')
                else Return (st, s', None))))
      | _ \<Rightarrow> Panic (RuntimePanic TypeAssertion))"

definition read_RedoBlock :: "('f Sender, message) ReadMessageHandler" where
  "read_RedoBlock st s message =
     (case message of
        RedoBlockMsg index \<Rightarrow>
          obind (index_slice (s_received s) index) (\<lambda>already.
            if already then Return (st, s, Some (TransferError RedoForReceivedBlock))
            else if r_nextIndex (s_reader s) \<le> index
            then Return (st, s, Some (TransferError RedoForUnwrittenBlock))
            else (case RedoBlock (s_reader s) index of
                    (queued, err, r) \<Rightarrow>
                      let s' = s\<lparr>s_reader := r\<rparr> in
                      if err \<noteq> None then Return (st, s', err)
                      else if \<not> queued then Return (st, s', Some (TransferError DuplicateRedoBlock))
                      else Return (st, s', None)))
      | _ \<Rightarrow> Panic (RuntimePanic TypeAssertion))"

definition read_DataReceived :: "('f Sender, message) ReadMessageHandler" where
  "read_DataReceived st s message =
     obind (Reader_BlockCount (s_reader s)) (\<lambda>n.
       Return (st, s,
         if s_receivedCount s < n then Some (TransferError InvalidDataReceived) else None))"

definition Sender_protocolDefinition ::
  "'f ReadSeekCloser \<Rightarrow> (MessageType, 'f Sender, message) Definition" where
  "Sender_protocolDefinition ops =
     \<lparr>d_TypeOf = TypeOf, d_WriteFirst = False,
      d_InitialState = initialized, d_FinalState = finalDone,
      d_WriteMessage =
       [(StateKey initialized,
          [\<lparr>t_At = None, t_Ok = None, t_To = inPrologue, t_Do = Some write_Header\<rparr>]),
        (StateKey inPrologue,
          [\<lparr>t_At = None, t_Ok = Some [inPrologue, needAcknowledge], t_To = NoState,
            t_Do = Some (write_Block ops inPrologue needAcknowledge)\<rparr>]),
        (StateKey inProgress,
          [\<lparr>t_At = None, t_Ok = Some [inProgress, transferred], t_To = NoState,
            t_Do = Some (write_Block ops inProgress transferred)\<rparr>]),
        (StateKey transferred,
          [\<lparr>t_At = None, t_Ok = None, t_To = needDataReceived, t_Do = Some write_DataSent\<rparr>]),
        (StateKey sendAbort,
          [\<lparr>t_At = None, t_Ok = None, t_To = aborted, t_Do = Some write_Abort\<rparr>])],
      d_ReadMessage =
       [(OtherKey MessageTypeAcknowledge,
          [\<lparr>t_At = Some [inPrologue], t_Ok = None, t_To = inProgress, t_Do = None\<rparr>,
           \<lparr>t_At = Some [needAcknowledge], t_Ok = None, t_To = transferred, t_Do = None\<rparr>]),
        (OtherKey MessageTypeBlockReceived,
          [\<lparr>t_At = Some [inProgress], t_Ok = None, t_To = NoState, t_Do = Some read_BlockReceived\<rparr>,
           \<lparr>t_At = Some [transferred], t_Ok = None, t_To = NoState, t_Do = Some read_BlockReceived\<rparr>,
           \<lparr>t_At = Some [needDataReceived], t_Ok = None, t_To = NoState, t_Do = Some read_BlockReceived\<rparr>]),
        (OtherKey MessageTypeRedoBlock,
          [\<lparr>t_At = Some [inProgress], t_Ok = None, t_To = NoState, t_Do = Some read_RedoBlock\<rparr>,
           \<lparr>t_At = Some [transferred], t_Ok = None, t_To = inProgress, t_Do = Some read_RedoBlock\<rparr>,
           \<lparr>t_At = Some [needDataReceived], t_Ok = None, t_To = inProgress, t_Do = Some read_RedoBlock\<rparr>]),
        (OtherKey MessageTypeDataReceived,
          [\<lparr>t_At = Some [needDataReceived], t_Ok = None, t_To = finalDone, t_Do = Some read_DataReceived\<rparr>]),
        (OtherKey MessageTypeAbort,
          [\<lparr>t_At = Some [initialized, inPrologue, inProgress, needAcknowledge, transferred,
              needDataReceived, sendAbort],
            t_Ok = None, t_To = aborted, t_Do = None\<rparr>])]\<rparr>"

definition NewSender ::
  "'f ReadSeekCloser \<Rightarrow> Metadata option \<Rightarrow> 'f Reader \<Rightarrow>
   ((MessageType, 'f Sender, message) Client \<times> 'f Sender) outcome" where
  "NewSender ops metadata reader =
     obind (Reader_BlockCount reader) (\<lambda>n.
       obind (make_slice n False) (\<lambda>received.
         obind (NewClient (Sender_protocolDefinition ops)) (\<lambda>client.
           Return (client, \<lparr>s_reader = reader, s_received = received, s_receivedCount = 0,
             s_metadata = metadata\<rparr>))))"

section \<open>The receiver (receiver.go)\<close>

text \<open>\<open>nil\<close> and an empty slice of blocks to redo differ: the handlers test for \<open>nil\<close>.\<close>

record 'g Receiver =
  v_writer :: "'g Writer option"
  v_nextBlockIndex :: uint64
  v_lastBlock :: "Block option"
  v_redoBlocks :: "uint64 list option"
  v_header :: "Header option"

type_synonym 'g WriterFactory = "Metadata \<Rightarrow> uint64 \<Rightarrow> ('g \<times> error option) outcome"

definition write_Acknowledge :: "('g Receiver, message) WriteMessageHandler" where
  "write_Acknowledge st s = Return (st, s, Some AcknowledgeMsg, None)"

text \<open>The first part of the handler at \<open>handleBlock\<close>: the message, if there is one.\<close>

definition next_block_message :: "'g Receiver \<Rightarrow> ('g Receiver \<times> message option) outcome" where
  "next_block_message s =
     (case v_lastBlock s of
        Some b \<Rightarrow> Return (s\<lparr>v_lastBlock := None\<rparr>, Some (BlockReceivedMsg (b_Index b)))
      | None \<Rightarrow>
          (case v_redoBlocks s of
             None \<Rightarrow> Return (s, None)
           | Some [] \<Rightarrow> Panic (RuntimePanic IndexOutOfRange)
           | Some (redoIndex # rest) \<Rightarrow>
               Return (s\<lparr>v_redoBlocks := if rest = [] then None else Some rest\<rparr>,
                 Some (RedoBlockMsg redoIndex))))"

definition write_handleBlock :: "('g Receiver, message) WriteMessageHandler" where
  "write_handleBlock st s =
     obind (next_block_message s) (\<lambda>(s', message).
       obind
         (if v_redoBlocks s' \<noteq> None then StateHandle_Set st handleBlock
          else (case v_writer s' of
                  None \<Rightarrow> Panic (RuntimePanic NilDereference)
                | Some w \<Rightarrow>
                    obind (Writer_IsDone w) (\<lambda>d.
                      if d then StateHandle_Set st needDataSent else StateHandle_Set st needBlock)))
         (\<lambda>st'. Return (st', s', message, None)))"

definition write_DataReceived :: "('g Receiver, message) WriteMessageHandler" where
  "write_DataReceived st s = Return (st, s, Some DataReceivedMsg, None)"

definition read_Header ::
  "'g WriterFactory \<Rightarrow> ('g Receiver, message) ReadMessageHandler" where
  "read_Header writerFactory st s message =
     (case message of
        HeaderMsg header \<Rightarrow>
          (case hd_Metadata header of
             None \<Rightarrow> Return (st, s, Some (ErrorString ''header does not contain metadata''))
           | Some metadata \<Rightarrow>
               if hd_BlockSize header = 0
               then Return (st, s, Some (ErrorString ''header contains an illegal block size of 0''))
               else obind (writerFactory metadata (hd_TotalSize header)) (\<lambda>(f, err).
                 case err of
                   Some e \<Rightarrow> Return (st, s, Some e)
                 | None \<Rightarrow>
                     obind (NewWriter f (hd_TotalSize header) (hd_BlockSize header)) (\<lambda>w.
                       Return (st, s\<lparr>v_writer := Some w, v_header := Some header\<rparr>, None))))
      | _ \<Rightarrow> Panic (RuntimePanic TypeAssertion))"

text \<open>\<open>make([]uint64, 0, n)\<close> followed by the loop that appends the skipped indices.\<close>

definition skipped_blocks :: "uint64 \<Rightarrow> uint64 \<Rightarrow> uint64 list outcome" where
  "skipped_blocks lo hi =
     (if maxAlloc < 8 * unat (hi - lo) then Panic (RuntimePanic MakeSliceLen)
      else Return (map of_nat [unat lo..<unat hi]))"

definition read_Block ::
  "'g WriteSeekCloser \<Rightarrow> ('g Receiver, message) ReadMessageHandler" where
  "read_Block ops st s message =
     (case message of
        BlockMsg mb \<Rightarrow>
          (case (v_writer s, mb) of
             (Some w, Some b) \<Rightarrow>
               obind (WriteBlock ops w b) (\<lambda>(err, w').
                 let s' = s\<lparr>v_writer := Some w'\<rparr> in
                 if err = Some (BlockWriterError BadBlockChecksum)
                 then Return (st, s'\<lparr>v_redoBlocks := Some [b_Index b]\<rparr>, None)
                 else if err \<noteq> None then Return (st, s', err)
                 else if v_nextBlockIndex s < b_Index b
                 then obind (skipped_blocks (v_nextBlockIndex s) (b_Index b)) (\<lambda>redo.
                   Return (st, s'\<lparr>v_redoBlocks := Some redo, v_lastBlock := Some b\<rparr>, None))
                 else if b_Index b < v_nextBlockIndex s
                 then Panic (PanicString ''block already written'')
                 else Return (st, s'\<lparr>v_nextBlockIndex := v_nextBlockIndex s + 1,
                   v_lastBlock := Some b\<rparr>, None))
           | _ \<Rightarrow> Panic (RuntimePanic NilDereference))
      | _ \<Rightarrow> Panic (RuntimePanic TypeAssertion))"

definition Receiver_protocolDefinition ::
  "'g WriteSeekCloser \<Rightarrow> 'g WriterFactory \<Rightarrow> (MessageType, 'g Receiver, message) Definition" where
  "Receiver_protocolDefinition ops writerFactory =
     \<lparr>d_TypeOf = TypeOf, d_WriteFirst = True,
      d_InitialState = initialized, d_FinalState = finalDone,
      d_WriteMessage =
       [(StateKey sendAcknowledge,
          [\<lparr>t_At = None, t_Ok = None, t_To = needBlock, t_Do = Some write_Acknowledge\<rparr>]),
        (StateKey handleBlock,
          [\<lparr>t_At = None, t_Ok = Some [handleBlock, needBlock, needDataSent], t_To = NoState,
            t_Do = Some write_handleBlock\<rparr>]),
        (StateKey sendDataReceived,
          [\<lparr>t_At = None, t_Ok = None, t_To = finalDone, t_Do = Some write_DataReceived\<rparr>]),
        (StateKey sendAbort,
          [\<lparr>t_At = None, t_Ok = None, t_To = aborted, t_Do = Some write_Abort\<rparr>])],
      d_ReadMessage =
       [(OtherKey MessageTypeHeader,
          [\<lparr>t_At = Some [initialized], t_Ok = None, t_To = sendAcknowledge,
            t_Do = Some (read_Header writerFactory)\<rparr>]),
        (OtherKey MessageTypeBlock,
          [\<lparr>t_At = Some [needBlock], t_Ok = None, t_To = handleBlock, t_Do = Some (read_Block ops)\<rparr>]),
        (OtherKey MessageTypeDataSent,
          [\<lparr>t_At = Some [needDataSent], t_Ok = None, t_To = sendDataReceived, t_Do = None\<rparr>])]\<rparr>"

definition NewReceiver ::
  "'g WriteSeekCloser \<Rightarrow> 'g WriterFactory \<Rightarrow>
   ((MessageType, 'g Receiver, message) Client \<times> 'g Receiver) outcome" where
  "NewReceiver ops writerFactory =
     obind (NewClient (Receiver_protocolDefinition ops writerFactory)) (\<lambda>client.
       Return (client, \<lparr>v_writer = None, v_nextBlockIndex = 0, v_lastBlock = None,
         v_redoBlocks = None, v_header = None\<rparr>))"

text \<open>\<open>IsDone\<close> and \<open>IsAborted\<close> of both sides, which hide those of the client.\<close>

definition transfer_IsAborted :: "('k, 's, 'm) Client \<Rightarrow> bool" where
  "transfer_IsAborted c \<longleftrightarrow> State_Is (c_state c) aborted"

definition transfer_IsDone :: "('k, 's, 'm) Client \<Rightarrow> bool" where
  "transfer_IsDone c \<longleftrightarrow> State_Is (c_state c) finalDone \<or> transfer_IsAborted c"

definition Receiver_IsDone :: "('k, 's, 'm) Client \<Rightarrow> bool" where
  "Receiver_IsDone c \<longleftrightarrow> State_Is (c_state c) finalDone \<or> transfer_IsAborted c"

definition transfer_Abort :: "'s \<Rightarrow> error option outcome" where
  "transfer_Abort s = Panic (PanicString ''not implemented'')"

section \<open>The clients, state by state\<close>

lemmas table_simps =
  definition_wf_def entry_wf_def key_wf_def transition_wf_def at_states_def state_defs

lemma Sender_wf: "definition_wf (Sender_protocolDefinition ops)"
  by (simp add: Sender_protocolDefinition_def table_simps)

lemma Receiver_wf: "definition_wf (Receiver_protocolDefinition ops fac)"
  by (simp add: Receiver_protocolDefinition_def table_simps)

lemmas Sender_flags = Client_flags [OF _ Sender_wf]
lemmas Receiver_flags = Client_flags [OF _ Receiver_wf]
lemmas Sender_WriteMessage = Client_WriteMessage_entry [OF _ Sender_wf]
lemmas Receiver_WriteMessage = Client_WriteMessage_entry [OF _ Receiver_wf]
lemmas Sender_ReadMessage = Client_ReadMessage_entry [OF _ Sender_wf]
lemmas Receiver_ReadMessage = Client_ReadMessage_entry [OF _ Receiver_wf]

lemmas run_simps =
  run_transition_def Transition_invoke_def writeMessageHandlerFactory_def
  readMessageHandlerFactory_def EmptyTransitionHandler_def NewStateHandle_def no_transition_def
  StateHandle_Set_def requireTarget_def mutate_def at_states_def

lemma sender_write_entry:
  "write_entry (Sender_protocolDefinition ops) q =
    (if q = initialized then Some \<lparr>t_At = None, t_Ok = None, t_To = inPrologue, t_Do = Some write_Header\<rparr>
     else if q = inPrologue then Some \<lparr>t_At = None, t_Ok = Some [inPrologue, needAcknowledge],
       t_To = NoState, t_Do = Some (write_Block ops inPrologue needAcknowledge)\<rparr>
     else if q = inProgress then Some \<lparr>t_At = None, t_Ok = Some [inProgress, transferred],
       t_To = NoState, t_Do = Some (write_Block ops inProgress transferred)\<rparr>
     else if q = transferred then Some \<lparr>t_At = None, t_Ok = None, t_To = needDataReceived, t_Do = Some write_DataSent\<rparr>
     else if q = sendAbort then Some \<lparr>t_At = None, t_Ok = None, t_To = aborted, t_Do = Some write_Abort\<rparr>
     else None)"
  by (simp add: write_entry_def Sender_protocolDefinition_def)

lemma sender_writes_header:
  "client_of (Sender_protocolDefinition ops) c \<Longrightarrow> c_state c = initialized \<Longrightarrow>
   Client_WriteMessage c s = Return (c\<lparr>c_state := inPrologue\<rparr>, s, Some (HeaderMsg (createHeader s)), None)"
  by (simp add: Sender_WriteMessage sender_write_entry run_simps write_Header_def state_defs)

lemma sender_writes_block:
  assumes "client_of (Sender_protocolDefinition ops) c" and "c_state c = inPrologue \<or> c_state c = inProgress"
    and "NextBlock ops (s_reader s) = Return (Some b, None, r)" and "Reader_HasData (s_reader s)"
  shows "Client_WriteMessage c s =
    Return (c\<lparr>c_state := if Reader_IsDone r
                then (if c_state c = inPrologue then needAcknowledge else transferred) else c_state c\<rparr>,
      s\<lparr>s_reader := r\<rparr>, Some (BlockMsg (Some b)), None)"
  using assms(2)
  by (auto simp: Sender_WriteMessage [OF assms(1)] sender_write_entry run_simps write_Block_def state_defs assms Let_def)

lemma sender_writes_dataSent:
  "client_of (Sender_protocolDefinition ops) c \<Longrightarrow> c_state c = transferred \<Longrightarrow>
   Client_WriteMessage c s = Return (c\<lparr>c_state := needDataReceived\<rparr>, s, Some (DataSentMsg []), None)"
  by (simp add: Sender_WriteMessage sender_write_entry run_simps write_DataSent_def state_defs)

lemma sender_reads_acknowledge:
  assumes "client_of (Sender_protocolDefinition ops) c"
    and "c_state c = inPrologue \<or> c_state c = needAcknowledge"
  shows "Client_ReadMessage c s AcknowledgeMsg =
    Return (c\<lparr>c_state := if c_state c = inPrologue then inProgress else transferred\<rparr>, s, None)"
  using assms(2)
  by (auto simp: Sender_ReadMessage [OF assms(1)] read_entry_def Sender_protocolDefinition_def run_simps state_defs)

lemma Client_same_state: "c_state c = q \<Longrightarrow> c\<lparr>c_state := q\<rparr> = c"
  by (cases c) simp

lemma sender_reads_received:
  assumes c: "client_of (Sender_protocolDefinition ops) c"
    and st: "c_state c = inProgress \<or> c_state c = transferred \<or> c_state c = needDataReceived"
    and i: "unat i < length (s_received s)" "\<not> s_received s ! unat i"
    and n: "Reader_BlockCount (s_reader s) = Return n" "s_receivedCount s + 1 \<le> n"
  shows "Client_ReadMessage c s (BlockReceivedMsg i) =
    Return (c, s\<lparr>s_received := (s_received s)[unat i := True], s_receivedCount := s_receivedCount s + 1\<rparr>, None)"
  using st i n
  by (auto simp: Sender_ReadMessage [OF c] read_entry_def Sender_protocolDefinition_def run_simps state_defs
      read_BlockReceived_def index_slice_in update_slice_in Let_def not_le Client_same_state)

lemma sender_reads_dataReceived:
  assumes c: "client_of (Sender_protocolDefinition ops) c" and st: "c_state c = needDataReceived"
    and n: "Reader_BlockCount (s_reader s) = Return n"
  shows "Client_ReadMessage c s DataReceivedMsg =
    Return (c\<lparr>c_state := finalDone\<rparr>, s,
      if s_receivedCount s < n then Some (TransferError InvalidDataReceived) else None)"
  using st n
  by (simp add: Sender_ReadMessage [OF c] read_entry_def Sender_protocolDefinition_def run_simps state_defs
      read_DataReceived_def)

lemma receiver_write_entry:
  "write_entry (Receiver_protocolDefinition ops fac) q =
    (if q = sendAcknowledge then Some \<lparr>t_At = None, t_Ok = None, t_To = needBlock, t_Do = Some write_Acknowledge\<rparr>
     else if q = handleBlock then Some \<lparr>t_At = None, t_Ok = Some [handleBlock, needBlock, needDataSent],
       t_To = NoState, t_Do = Some write_handleBlock\<rparr>
     else if q = sendDataReceived then Some \<lparr>t_At = None, t_Ok = None, t_To = finalDone, t_Do = Some write_DataReceived\<rparr>
     else if q = sendAbort then Some \<lparr>t_At = None, t_Ok = None, t_To = aborted, t_Do = Some write_Abort\<rparr>
     else None)"
  by (simp add: write_entry_def Receiver_protocolDefinition_def)

lemma receiver_writes_acknowledge:
  "client_of (Receiver_protocolDefinition ops fac) c \<Longrightarrow> c_state c = sendAcknowledge \<Longrightarrow>
   Client_WriteMessage c s = Return (c\<lparr>c_state := needBlock\<rparr>, s, Some AcknowledgeMsg, None)"
  by (simp add: Receiver_WriteMessage receiver_write_entry run_simps write_Acknowledge_def state_defs)

lemma receiver_writes_received:
  assumes c: "client_of (Receiver_protocolDefinition ops fac) c" and st: "c_state c = handleBlock"
    and b: "v_lastBlock s = Some b" "v_redoBlocks s = None" "v_writer s = Some w" "Writer_IsDone w = Return d"
  shows "Client_WriteMessage c s =
    Return (c\<lparr>c_state := if d then needDataSent else needBlock\<rparr>, s\<lparr>v_lastBlock := None\<rparr>,
      Some (BlockReceivedMsg (b_Index b)), None)"
  using st b
  by (simp add: Receiver_WriteMessage [OF c] receiver_write_entry run_simps write_handleBlock_def
      next_block_message_def state_defs)

lemma receiver_writes_dataReceived:
  "client_of (Receiver_protocolDefinition ops fac) c \<Longrightarrow> c_state c = sendDataReceived \<Longrightarrow>
   Client_WriteMessage c s = Return (c\<lparr>c_state := finalDone\<rparr>, s, Some DataReceivedMsg, None)"
  by (simp add: Receiver_WriteMessage receiver_write_entry run_simps write_DataReceived_def state_defs)

lemma receiver_reads_header:
  assumes c: "client_of (Receiver_protocolDefinition ops fac) c" and st: "c_state c = initialized"
    and h: "hd_Metadata h = Some md" "hd_BlockSize h \<noteq> 0" "fac md (hd_TotalSize h) = Return (f, None)"
      "NewWriter f (hd_TotalSize h) (hd_BlockSize h) = Return w"
  shows "Client_ReadMessage c s (HeaderMsg h) =
    Return (c\<lparr>c_state := sendAcknowledge\<rparr>, s\<lparr>v_writer := Some w, v_header := Some h\<rparr>, None)"
  using st h
  by (simp add: Receiver_ReadMessage [OF c] read_entry_def Receiver_protocolDefinition_def run_simps state_defs
      read_Header_def)

lemma receiver_reads_block:
  assumes c: "client_of (Receiver_protocolDefinition ops fac) c" and st: "c_state c = needBlock"
    and b: "v_writer s = Some w" "WriteBlock ops w b = Return (None, w')" "b_Index b = v_nextBlockIndex s"
  shows "Client_ReadMessage c s (BlockMsg (Some b)) =
    Return (c\<lparr>c_state := handleBlock\<rparr>,
      s\<lparr>v_writer := Some w', v_nextBlockIndex := v_nextBlockIndex s + 1, v_lastBlock := Some b\<rparr>, None)"
  using st b
  by (simp add: Receiver_ReadMessage [OF c] read_entry_def Receiver_protocolDefinition_def run_simps state_defs
      read_Block_def Let_def)

lemma receiver_reads_dataSent:
  assumes c: "client_of (Receiver_protocolDefinition ops fac) c" and st: "c_state c = needDataSent"
  shows "Client_ReadMessage c s (DataSentMsg x) = Return (c\<lparr>c_state := sendDataReceived\<rparr>, s, None)"
  using st
  by (simp add: Receiver_ReadMessage [OF c] read_entry_def Receiver_protocolDefinition_def run_simps state_defs)

section \<open>Properties\<close>

text \<open>
  The message types round-trip: a message made for the number that \<open>RawTypeOf\<close> gives for
  a message of the protocol has the same type, and \<open>NewMessage\<close> refuses every other number.
\<close>

theorem NewMessage_RawTypeOf:
  "(m \<noteq> ForeignMsg \<longrightarrow>
     (\<exists>k m'. RawTypeOf m = Return k \<and> NewMessage k = Inr m' \<and> TypeOf m' = TypeOf m)) \<and>
   (NewMessage k = Inl (ChannelError UnexpectedMessageType) \<longleftrightarrow> k \<notin> range MessageType_number)"
proof
  show "m \<noteq> ForeignMsg \<longrightarrow>
     (\<exists>k m'. RawTypeOf m = Return k \<and> NewMessage k = Inr m' \<and> TypeOf m' = TypeOf m)"
    by (cases m) (simp_all add: RawTypeOf_def NewMessage_def)
  have "range MessageType_number = {2, 3, 4, 5, 6, 7, 8, 9}"
  proof -
    have "(UNIV :: MessageType set) = {MessageTypeHeader, MessageTypeAcknowledge, MessageTypeBlock,
        MessageTypeBlockReceived, MessageTypeRedoBlock, MessageTypeDataSent, MessageTypeDataReceived,
        MessageTypeAbort}"
      using MessageType.exhaust by blast
    from arg_cong [OF this, of "image MessageType_number"] show ?thesis by simp
  qed
  then show "NewMessage k = Inl (ChannelError UnexpectedMessageType) \<longleftrightarrow> k \<notin> range MessageType_number"
    by (simp add: NewMessage_def)
qed

theorem NewMessage_RawTypeOf_witness:
  "\<exists>k m'. RawTypeOf (BlockReceivedMsg 7) = Return k \<and> NewMessage k = Inr m' \<and>
     TypeOf m' = Return MessageTypeBlockReceived"
  using NewMessage_RawTypeOf [of "BlockReceivedMsg 7"] by simp

text \<open>
  The receiver's definition is what its flag \<open>WriteFirst\<close> promises: a state in which it has
  a message to write triggers no transition that reads one. A message read in such a state is
  refused and changes nothing.
\<close>

theorem Receiver_write_states_are_write_only:
  assumes "client_of (Receiver_protocolDefinition ops fac) c" and "Client_MustWrite c"
    and "TypeOf m = Return k"
  shows "Client_ReadMessage c s m = Return (c, s, Some (ProtocolError UnexpectedMessage))"
proof -
  have "write_entry (Receiver_protocolDefinition ops fac) (c_state c) \<noteq> None"
    using assms(2) Receiver_flags(2) [OF assms(1)] by simp
  then have "c_state c \<in> {sendAcknowledge, handleBlock, sendDataReceived, sendAbort}"
    by (auto simp: receiver_write_entry split: if_splits)
  moreover have "d_TypeOf (Receiver_protocolDefinition ops fac) m = Return k"
    using assms(3) by (simp add: Receiver_protocolDefinition_def)
  ultimately show ?thesis
    by (auto simp: Receiver_ReadMessage [OF assms(1)] read_entry_def Receiver_protocolDefinition_def
        at_states_def state_defs)
qed

lemma some_client:
  "definition_wf d \<Longrightarrow> \<exists>c. client_of d c \<and> c_state c = q"
  using NewClient_wf [of d] by (metis Client.select_convs(5) Client.surjective Client.update_convs(5) client_of_state)

theorem Receiver_write_states_are_write_only_witness:
  "\<exists>c. client_of (Receiver_protocolDefinition buffer_wsc (\<lambda>_ _. Return (NewBuffer [], None))) c \<and>
     c_state c = handleBlock \<and> Client_ReadMessage c \<lparr>v_writer = None, v_nextBlockIndex = 0, v_lastBlock = None,
       v_redoBlocks = None, v_header = None\<rparr> (DataSentMsg []) =
     Return (c, \<lparr>v_writer = None, v_nextBlockIndex = 0, v_lastBlock = None,
       v_redoBlocks = None, v_header = None\<rparr>, Some (ProtocolError UnexpectedMessage))"
proof -
  obtain c where c: "client_of (Receiver_protocolDefinition buffer_wsc (\<lambda>_ _. Return (NewBuffer [], None))) c"
    "c_state c = handleBlock"
    using some_client [OF Receiver_wf] by blast
  then have "Client_MustWrite c"
    using Receiver_flags(2) [OF c(1)] by (simp add: receiver_write_entry) (simp add: Receiver_protocolDefinition_def)
  then show ?thesis
    using Receiver_write_states_are_write_only [OF c(1), of "DataSentMsg []"] c by auto
qed

text \<open>
  C35. A corrupted block is asked for again and changes nothing of the file: the receiver moves on
  to \<open>handleBlock\<close>, writes \<open>RedoBlock\<close> with the block's index, and waits for a block again.
\<close>

theorem corrupt_block_is_redone:
  assumes c: "client_of (Receiver_protocolDefinition ops fac) c" and st: "c_state c = needBlock"
    and w: "v_writer s = Some w" "checkBlock w b = Return (Some (BlockWriterError BadBlockChecksum))"
      "Writer_IsDone w = Return False" "v_lastBlock s = None"
  shows "Client_ReadMessage c s (BlockMsg (Some b)) =
      Return (c\<lparr>c_state := handleBlock\<rparr>, s\<lparr>v_redoBlocks := Some [b_Index b]\<rparr>, None) \<and>
    Client_WriteMessage (c\<lparr>c_state := handleBlock\<rparr>) (s\<lparr>v_redoBlocks := Some [b_Index b]\<rparr>) =
      Return (c\<lparr>c_state := needBlock\<rparr>, s\<lparr>v_redoBlocks := None\<rparr>, Some (RedoBlockMsg (b_Index b)), None)"
proof
  have "s\<lparr>v_writer := Some w\<rparr> = s" using w(1) by (cases s) simp
  then show "Client_ReadMessage c s (BlockMsg (Some b)) =
      Return (c\<lparr>c_state := handleBlock\<rparr>, s\<lparr>v_redoBlocks := Some [b_Index b]\<rparr>, None)"
    using checkBlock_error_keeps [OF w(2)] w(1) st
    by (simp add: Receiver_ReadMessage [OF c] read_entry_def Receiver_protocolDefinition_def run_simps
        state_defs read_Block_def Let_def)
  show "Client_WriteMessage (c\<lparr>c_state := handleBlock\<rparr>) (s\<lparr>v_redoBlocks := Some [b_Index b]\<rparr>) =
      Return (c\<lparr>c_state := needBlock\<rparr>, s\<lparr>v_redoBlocks := None\<rparr>, Some (RedoBlockMsg (b_Index b)), None)"
    using c w
    by (simp add: Receiver_WriteMessage receiver_write_entry run_simps write_handleBlock_def
        next_block_message_def state_defs)
qed

theorem corrupt_block_is_redone_witness:
  "\<exists>c w s c' s'. NewWriter (NewBuffer [0, 0, 0]) 3 2 = Return w \<and> v_writer s = Some w \<and>
     client_of (Receiver_protocolDefinition buffer_wsc (\<lambda>_ _. Return (NewBuffer [], None))) c \<and>
     c_state c = needBlock \<and> Client_ReadMessage c s
       (BlockMsg (Some \<lparr>b_Index = 1, b_Data = [7], b_Checksum = []\<rparr>)) = Return (c', s', None) \<and>
     Client_WriteMessage c' s' = Return (c, s, Some (RedoBlockMsg 1), None)"
proof -
  let ?b = "\<lparr>b_Index = 1, b_Data = [7], b_Checksum = []\<rparr>"
  obtain w where w: "NewWriter (NewBuffer [0, 0, 0]) 3 2 = Return w" "writer_inv buf_Data buf_ready w"
    "w_written w = replicate (writer_count w) False" "w_totalSize w = 3" "w_blockSize w = 2"
    using NewWriter_inv [of buf_ready "NewBuffer [0, 0, 0]" buf_Data 3 2]
    by (auto simp: sized_def maxAlloc_def)
  have "writer_count w = 2" using w by (simp add: writer_count_def block_count_def)
  moreover have "ComputeChecksum 1 [7] \<noteq> []"
    using length_sha256 [of "PutUint64 1 @ [7]"] by (auto simp: ComputeChecksum_def simp del: length_sha256)
  ultimately have chk: "checkBlock w ?b = Return (Some (BlockWriterError BadBlockChecksum))"
    using checkBlock_in_range [OF w(2), of ?b] w by simp
  have dn: "Writer_IsDone w = Return False"
    using Writer_IsDone_iff [OF w(2)] w(3) \<open>writer_count w = 2\<close> by (auto intro: exI [of _ 0])
  obtain c where c: "client_of (Receiver_protocolDefinition buffer_wsc (\<lambda>_ _. Return (NewBuffer [], None))) c"
    "c_state c = needBlock"
    using some_client [OF Receiver_wf] by blast
  have "c\<lparr>c_state := needBlock\<rparr> = c" using c(2) by (rule Client_same_state)
  moreover let ?s = "\<lparr>v_writer = Some w, v_nextBlockIndex = 0, v_lastBlock = None,
       v_redoBlocks = None, v_header = None\<rparr>"
  have "?s\<lparr>v_redoBlocks := None\<rparr> = ?s" by simp
  ultimately have "Client_ReadMessage c ?s (BlockMsg (Some ?b)) =
      Return (c\<lparr>c_state := handleBlock\<rparr>, ?s\<lparr>v_redoBlocks := Some [1]\<rparr>, None)"
    "Client_WriteMessage (c\<lparr>c_state := handleBlock\<rparr>) (?s\<lparr>v_redoBlocks := Some [1]\<rparr>) =
      Return (c, ?s, Some (RedoBlockMsg 1), None)"
    using corrupt_block_is_redone [OF c, of ?s w ?b] chk dn by simp_all
  moreover have "v_writer ?s = Some w" by simp
  ultimately show ?thesis using w(1) c by blast
qed

text \<open>
  A sender whose file is empty panics: after the header it is in \<open>inPrologue\<close>, where it
  expects data, and has none.
\<close>

theorem Sender_empty_file_panics:
  assumes "bs \<noteq> 0"
  shows "\<exists>c s c' s' m. NewSender ops md (NewBlockReader f 0 bs) = Return (c, s) \<and>
    Client_WriteMessage c s = Return (c', s', Some m, None) \<and>
    Client_WriteMessage c' s' = Panic (PanicString ''expected data but no data to write'')"
proof -
  let ?s = "\<lparr>s_reader = NewBlockReader f 0 bs, s_received = [], s_receivedCount = 0, s_metadata = md\<rparr>"
  obtain c where c: "NewClient (Sender_protocolDefinition ops) = Return c"
    "client_of (Sender_protocolDefinition ops) c" "c_state c = initialized"
    using NewClient_wf [OF Sender_wf] by (auto simp: Sender_protocolDefinition_def)
  have "NewSender ops md (NewBlockReader f 0 bs) = Return (c, ?s)"
    using c(1) by (simp add: NewSender_def Reader_BlockCount_def NewBlockReader_def Size_BlockCount_def make_slice_def)
  moreover have "Client_WriteMessage (c\<lparr>c_state := inPrologue\<rparr>) ?s =
      Panic (PanicString ''expected data but no data to write'')"
    using c(2)
    by (simp add: Sender_WriteMessage sender_write_entry run_simps write_Block_def state_defs
        Reader_HasData_def Reader_IsDone_def NewBlockReader_def)
  ultimately show ?thesis using sender_writes_header [OF c(2,3)] by blast
qed

theorem Sender_empty_file_panics_witness:
  "\<exists>c s c' s' m. NewSender buffer_rsc None (NewBlockReader (NewBuffer []) 0 4) = Return (c, s) \<and>
    Client_WriteMessage c s = Return (c', s', Some m, None) \<and>
    Client_WriteMessage c' s' = Panic (PanicString ''expected data but no data to write'')"
  using Sender_empty_file_panics [of 4 buffer_rsc None "NewBuffer []"] by simp

text \<open>
  The index of an acknowledgement or of a request to redo is not validated: one at or above
  the number of blocks makes the sender panic.
\<close>

theorem Sender_foreign_index_panics:
  assumes c: "client_of (Sender_protocolDefinition ops) c"
    and st: "c_state c \<in> {inProgress, transferred, needDataReceived}"
    and i: "length (s_received s) \<le> unat i"
  shows "Client_ReadMessage c s (BlockReceivedMsg i) = Panic (RuntimePanic IndexOutOfRange) \<and>
    Client_ReadMessage c s (RedoBlockMsg i) = Panic (RuntimePanic IndexOutOfRange)"
  using st i
  by (auto simp: Sender_ReadMessage [OF c] read_entry_def Sender_protocolDefinition_def run_simps
      state_defs read_BlockReceived_def read_RedoBlock_def index_slice_def)

theorem Sender_foreign_index_panics_witness:
  "\<exists>c. client_of (Sender_protocolDefinition buffer_rsc) c \<and> c_state c = transferred \<and>
    Client_ReadMessage c \<lparr>s_reader = NewBlockReader (NewBuffer [1]) 1 4, s_received = [False],
      s_receivedCount = 0, s_metadata = None\<rparr> (BlockReceivedMsg 1) = Panic (RuntimePanic IndexOutOfRange)"
proof -
  obtain c where c: "client_of (Sender_protocolDefinition buffer_rsc) c" "c_state c = transferred"
    using some_client [OF Sender_wf] by blast
  then show ?thesis using Sender_foreign_index_panics [OF c(1), of "\<lparr>s_reader = NewBlockReader (NewBuffer [1]) 1 4,
      s_received = [False], s_receivedCount = 0, s_metadata = None\<rparr>" 1] by auto
qed

text \<open>
  A receipt for all data that comes before every block was acknowledged is reported as an
  error, but the sender's client is in its final state all the same.
\<close>

theorem early_DataReceived_ends_sender:
  assumes c: "client_of (Sender_protocolDefinition ops) c" and st: "c_state c = needDataReceived"
    and n: "Reader_BlockCount (s_reader s) = Return n" "s_receivedCount s < n"
  shows "\<exists>c'. Client_ReadMessage c s DataReceivedMsg =
      Return (c', s, Some (TransferError InvalidDataReceived)) \<and> Client_IsDone c'"
proof -
  have "Client_IsDone (c\<lparr>c_state := finalDone\<rparr>)"
    using Sender_flags(3) [of ops "c\<lparr>c_state := finalDone\<rparr>"] c
    by (simp add: Sender_protocolDefinition_def)
  then show ?thesis using sender_reads_dataReceived [OF c st n(1)] n(2) by auto
qed

theorem early_DataReceived_ends_sender_witness:
  "\<exists>c c' s. client_of (Sender_protocolDefinition buffer_rsc) c \<and>
    Client_ReadMessage c s DataReceivedMsg =
      Return (c', s, Some (TransferError InvalidDataReceived)) \<and> Client_IsDone c' \<and>
    s = \<lparr>s_reader = NewBlockReader (NewBuffer [1]) 1 4, s_received = [False], s_receivedCount = 0,
      s_metadata = None\<rparr>"
proof -
  obtain c where c: "client_of (Sender_protocolDefinition buffer_rsc) c" "c_state c = needDataReceived"
    using some_client [OF Sender_wf] by blast
  show ?thesis
    using early_DataReceived_ends_sender [OF c, of "\<lparr>s_reader = NewBlockReader (NewBuffer [1]) 1 4,
      s_received = [False], s_receivedCount = 0, s_metadata = None\<rparr>" 1] c(1)
    by (auto simp: Reader_BlockCount_def NewBlockReader_def Size_BlockCount_def)
qed

end
