(* ===== verification/Transfer_System.thy ===== *)
theory Transfer_System
  imports File_Transfer
begin

text \<open>
  A sender and a receiver, each driven by its loop, connected by two FIFO channels. The two
  clients follow a fixed dialogue: header, blocks and the end of data one way, one answer to
  each the other way. \<open>sender_inv\<close> and \<open>receiver_inv\<close> say where a client is after so many
  messages written and read; they discharge the interface \<open>conversation\<close>, whose facts give
  the two main properties: every transfer ends with the file on the other side, and no
  schedule and no failure of the connection makes a loop panic or report a file that is not
  the sender's.
\<close>

section \<open>The two parts of the dialogue\<close>

definition sender_script :: "Metadata option \<Rightarrow> bytes \<Rightarrow> Size \<Rightarrow> message list" where
  "sender_script md xs bs =
     HeaderMsg \<lparr>hd_Metadata = md, hd_TotalSize = of_nat (length xs), hd_BlockSize = bs\<rparr> #
     map (\<lambda>k. BlockMsg (Some (block_of xs (unat bs) k))) [0..<block_count (length xs) (unat bs)] @
     [DataSentMsg []]"

definition receiver_script :: "nat \<Rightarrow> message list" where
  "receiver_script n = AcknowledgeMsg # map (\<lambda>k. BlockReceivedMsg (of_nat k)) [0..<n] @ [DataReceivedMsg]"

lemma script_lengths [simp]:
  "length (sender_script md xs bs) = block_count (length xs) (unat bs) + 2"
  "length (receiver_script n) = n + 2"
  by (simp_all add: sender_script_def receiver_script_def)

lemma sender_script_nth:
  "sender_script md xs bs ! 0 =
     HeaderMsg \<lparr>hd_Metadata = md, hd_TotalSize = of_nat (length xs), hd_BlockSize = bs\<rparr>"
  "k < block_count (length xs) (unat bs) \<Longrightarrow>
     sender_script md xs bs ! Suc k = BlockMsg (Some (block_of xs (unat bs) k))"
  "n = block_count (length xs) (unat bs) \<Longrightarrow> sender_script md xs bs ! Suc n = DataSentMsg []"
  by (simp_all add: sender_script_def nth_append)

lemma receiver_script_nth:
  "receiver_script n ! 0 = AcknowledgeMsg"
  "k < n \<Longrightarrow> receiver_script n ! Suc k = BlockReceivedMsg (of_nat k)"
  "receiver_script n ! Suc n = DataReceivedMsg"
  by (simp_all add: receiver_script_def nth_append)

section \<open>Where the clients are in the dialogue\<close>

text \<open>The states after \<open>p\<close> messages written and \<open>q\<close> read, for a file of \<open>n\<close> blocks.\<close>

definition sender_state :: "nat \<Rightarrow> nat \<Rightarrow> nat \<Rightarrow> State" where
  "sender_state n p q =
     (if p = 0 then initialized
      else if p \<le> n then (if q = 0 then inPrologue else inProgress)
      else if p = n + 1 then (if q = 0 then needAcknowledge else transferred)
      else if q = n + 2 then finalDone else needDataReceived)"

definition receiver_state :: "nat \<Rightarrow> nat \<Rightarrow> nat \<Rightarrow> State" where
  "receiver_state n p q =
     (if q = 0 then initialized
      else if p < q then
        (if q = 1 then sendAcknowledge else if q \<le> n + 1 then handleBlock else sendDataReceived)
      else if q \<le> n then needBlock else if q = n + 1 then needDataSent else finalDone)"

definition sender_may_write :: "nat \<Rightarrow> nat \<Rightarrow> nat \<Rightarrow> bool" where
  "sender_may_write n p q \<longleftrightarrow> p < n + 2 \<and> \<not> (p = n + 1 \<and> q = 0)"

text \<open>A file that can be sent: not empty, small enough to address, cut into blocks of some size.\<close>

definition transferable :: "bytes \<Rightarrow> Size \<Rightarrow> bool" where
  "transferable xs bs \<longleftrightarrow> xs \<noteq> [] \<and> length xs \<le> maxAlloc \<and> bs \<noteq> 0"

text \<open>A factory that makes a writable file of the size it is asked for.\<close>

definition creates_file :: "'g WriterFactory \<Rightarrow> ('g \<Rightarrow> bytes) \<Rightarrow> ('g \<Rightarrow> bool) \<Rightarrow> Metadata \<Rightarrow> nat \<Rightarrow> bool" where
  "creates_file fac content ready md k \<longleftrightarrow>
     (\<exists>f. fac md (of_nat k) = Return (f, None) \<and> ready f \<and> length (content f) = k)"

definition sender_inv ::
  "'f ReadSeekCloser \<Rightarrow> ('f \<Rightarrow> bytes) \<Rightarrow> ('f \<Rightarrow> bool) \<Rightarrow> Metadata option \<Rightarrow> bytes \<Rightarrow> Size \<Rightarrow>
   nat \<Rightarrow> nat \<Rightarrow> (MessageType, 'f Sender, message) Client \<Rightarrow> 'f Sender \<Rightarrow> bool" where
  "sender_inv ops content ready md xs bs p q c s \<longleftrightarrow>
     (let n = block_count (length xs) (unat bs) in
      transferable xs bs \<and> client_of (Sender_protocolDefinition ops) c \<and> c_state c = sender_state n p q \<and>
      p \<le> n + 2 \<and> (p = n + 2 \<longrightarrow> 0 < q) \<and> q \<le> p \<and>
      reader_inv content ready xs (s_reader s) \<and> r_blockSize (s_reader s) = bs \<and>
      r_redoBlocks (s_reader s) = [] \<and> unat (r_nextIndex (s_reader s)) = min (p - 1) n \<and>
      s_metadata s = md \<and>
      s_received s = map (\<lambda>k. k < q - 1) [0..<n] \<and> unat (s_receivedCount s) = min (q - 1) n)"

definition receiver_inv ::
  "'g WriteSeekCloser \<Rightarrow> 'g WriterFactory \<Rightarrow> ('g \<Rightarrow> bytes) \<Rightarrow> ('g \<Rightarrow> bool) \<Rightarrow> Metadata \<Rightarrow>
   bytes \<Rightarrow> Size \<Rightarrow> nat \<Rightarrow> nat \<Rightarrow> (MessageType, 'g Receiver, message) Client \<Rightarrow> 'g Receiver \<Rightarrow> bool" where
  "receiver_inv ops fac content ready md xs bs p q c s \<longleftrightarrow>
     (let n = block_count (length xs) (unat bs) in
      transferable xs bs \<and> creates_file fac content ready md (length xs) \<and>
      client_of (Receiver_protocolDefinition ops fac) c \<and> c_state c = receiver_state n p q \<and>
      p \<le> q \<and> q \<le> Suc p \<and> q \<le> n + 2 \<and> v_redoBlocks s = None \<and>
      v_nextBlockIndex s = of_nat (min (q - 1) n) \<and>
      v_lastBlock s = (if p < q \<and> 1 < q \<and> q \<le> n + 1 then Some (block_of xs (unat bs) (q - 2)) else None) \<and>
      (0 < q \<longrightarrow> (\<exists>w. v_writer s = Some w \<and> writer_inv content ready w \<and> writer_agrees content xs w \<and>
         w_blockSize w = bs \<and> w_totalSize w = of_nat (length xs) \<and>
         w_written w = map (\<lambda>k. k < q - 1) [0..<n])) \<and>
      (0 < q \<longrightarrow> (\<exists>h. v_header s = Some h \<and> hd_Metadata h = Some md)))"

text \<open>A receiver that has the file and its metadata.\<close>

definition has_received :: "('g \<Rightarrow> bytes) \<Rightarrow> Metadata \<Rightarrow> bytes \<Rightarrow> 'g Receiver \<Rightarrow> bool" where
  "has_received content md xs s \<longleftrightarrow>
     (\<exists>w. v_writer s = Some w \<and> content (w_writer w) = xs) \<and> (\<exists>h. v_header s = Some h \<and> hd_Metadata h = Some md)"

text \<open>What the sender and the receiver are given.\<close>

locale file_transfer =
  R: read_file rops rcontent rpos rready + W: write_file wops wcontent wpos wready
  for rops :: "'f ReadSeekCloser" and rcontent and rpos and rready
    and wops :: "'g WriteSeekCloser" and wcontent and wpos and wready +
  fixes fac :: "'g WriterFactory" and md :: Metadata and xs :: bytes and bs :: Size
begin

abbreviation "N \<equiv> block_count (length xs) (unat bs)"

lemma transferable_facts:
  assumes "transferable xs bs"
  shows N_pos: "0 < N" and xs_sized: "sized bs (of_nat (length xs))"
    "unat (of_nat (length xs) :: uint64) = length xs" and N_small: "N + 2 < 18446744073709551616"
    and block_size: "bs \<noteq> 0"
proof -
  show "0 < N" and "bs \<noteq> 0" using assms by (simp_all add: transferable_def block_count_def)
  show sz: "sized bs (of_nat (length xs))" "unat (of_nat (length xs) :: uint64) = length xs"
    using assms by (simp_all add: transferable_def sized_def unat_of_nat_64 maxAlloc_def)
  show "N + 2 < 18446744073709551616"
    using sized_count [OF sz(1), of N] sz(2) by (simp add: maxAlloc_def)
qed

abbreviation "sinv \<equiv> sender_inv rops rcontent rready (Some md) xs bs"

lemma sender_flags:
  assumes "sinv p q c s"
  shows "Client_CanWrite c \<longleftrightarrow> sender_may_write N p q" and "\<not> Client_MustWrite c"
    and "Client_IsDone c \<longleftrightarrow> p = N + 2 \<and> q = N + 2"
proof -
  have tx: "transferable xs bs" using assms by (simp add: sender_inv_def Let_def)
  note tf = transferable_facts [OF tx]
  have c: "client_of (Sender_protocolDefinition rops) c" and st: "c_state c = sender_state N p q"
    and r: "p \<le> N + 2" "q \<le> p" "p = N + 2 \<longrightarrow> 0 < q"
    using assms by (simp_all add: sender_inv_def Let_def)
  show "Client_CanWrite c \<longleftrightarrow> sender_may_write N p q"
    using r tf(1)
    by (simp add: Sender_flags [OF c] st sender_write_entry sender_state_def sender_may_write_def state_defs)
  show "\<not> Client_MustWrite c" by (simp add: Sender_flags [OF c] Sender_protocolDefinition_def)
  show "Client_IsDone c \<longleftrightarrow> p = N + 2 \<and> q = N + 2"
    using r tf(1)
    by (simp add: Sender_flags [OF c] Sender_protocolDefinition_def st sender_state_def state_defs)
qed

lemma sender_writes_script_block:
  assumes inv: "sinv (Suc k) q c s" and k: "k < N"
  shows "\<exists>c' s'. Client_WriteMessage c s = Return (c', s', Some (BlockMsg (Some (block_of xs (unat bs) k))), None) \<and>
    sinv (Suc (Suc k)) q c' s'"
proof -
  have tx: "transferable xs bs" using inv by (simp add: sender_inv_def Let_def)
  note tf = transferable_facts [OF tx]
  let ?r = "s_reader s"
  have c: "client_of (Sender_protocolDefinition rops) c"
    and st: "c_state c = (if q = 0 then inPrologue else inProgress)"
    and rd: "reader_inv rcontent rready xs ?r" "r_blockSize ?r = bs" "r_redoBlocks ?r = []"
      "unat (r_nextIndex ?r) = k"
    using inv k by (auto simp: sender_inv_def Let_def sender_state_def)
  have cnt: "reader_count ?r = N" using reader_count_xs [OF rd(1)] rd(2) by simp
  then have "pending_blocks ?r = k # [Suc k..<N]"
    using rd k by (simp add: pending_blocks_def upt_conv_Cons)
  from R.NextBlock_pending [OF rd(1) this] obtain r' where
    r': "NextBlock rops ?r = Return (Some (block_of xs (unat bs) k), None, r')"
      "pending_blocks r' = [Suc k..<N]" "reader_inv rcontent rready xs r'" "r_blockSize r' = bs"
      "r_redoBlocks r' = []" "r_nextIndex r' = r_nextIndex ?r + 1"
    using rd by auto
  have nxt: "unat (r_nextIndex r') = Suc k"
    using r'(6) rd(4) k tf(4) by (simp add: unat_add_64)
  have data: "Reader_HasData ?r"
    using \<open>pending_blocks ?r = _\<close> Reader_IsDone_iff [OF rd(1)] by (simp add: Reader_HasData_def)
  have dn: "Reader_IsDone r' \<longleftrightarrow> Suc k = N"
    using Reader_IsDone_iff [OF r'(3)] r'(2) k by auto
  have st': "sender_state N (Suc (Suc k)) q =
      (if Suc k = N then (if c_state c = inPrologue then needAcknowledge else transferred) else c_state c)"
    using st k by (simp add: sender_state_def state_defs)
  have "c_state c = inPrologue \<or> c_state c = inProgress" using st by simp
  from sender_writes_block [OF c this r'(1) data]
  have "Client_WriteMessage c s = Return (c\<lparr>c_state := sender_state N (Suc (Suc k)) q\<rparr>, s\<lparr>s_reader := r'\<rparr>,
      Some (BlockMsg (Some (block_of xs (unat bs) k))), None)"
    by (simp only: dn st')
  moreover have "sinv (Suc (Suc k)) q (c\<lparr>c_state := sender_state N (Suc (Suc k)) q\<rparr>) (s\<lparr>s_reader := r'\<rparr>)"
    using inv k r'(3-5) nxt by (simp add: sender_inv_def Let_def)
  ultimately show ?thesis by blast
qed

lemma sender_writes:
  assumes inv: "sinv p q c s" and w: "sender_may_write N p q"
  shows "p < length (sender_script (Some md) xs bs) \<and>
    (\<exists>c' s'. Client_WriteMessage c s = Return (c', s', Some (sender_script (Some md) xs bs ! p), None) \<and>
       sinv (Suc p) q c' s')"
proof
  have tx: "transferable xs bs" using inv by (simp add: sender_inv_def Let_def)
  note tf = transferable_facts [OF tx]
  show "p < length (sender_script (Some md) xs bs)" using w by (simp add: sender_may_write_def)
  have c: "client_of (Sender_protocolDefinition rops) c" and st: "c_state c = sender_state N p q"
    and r: "p \<le> N + 2" "q \<le> p"
    using inv by (simp_all add: sender_inv_def Let_def)
  consider "p = 0" | k where "p = Suc k" "k < N" | "p = Suc N" "0 < q"
    using w by (cases p) (auto simp: sender_may_write_def less_Suc_eq)
  then show "\<exists>c' s'. Client_WriteMessage c s = Return (c', s', Some (sender_script (Some md) xs bs ! p), None) \<and>
       sinv (Suc p) q c' s'"
  proof cases
    case 1
    then have "createHeader s = \<lparr>hd_Metadata = Some md, hd_TotalSize = of_nat (length xs), hd_BlockSize = bs\<rparr>"
      using inv by (simp add: sender_inv_def Let_def createHeader_def reader_inv_def)
    then show ?thesis
      using sender_writes_header [OF c, of s] 1 inv st tf(1) r
      by (simp add: sender_inv_def Let_def sender_state_def sender_script_nth)
  next
    case 2
    then show ?thesis using sender_writes_script_block [of k q c s] inv by (simp add: sender_script_nth)
  next
    case 3
    then show ?thesis
      using sender_writes_dataSent [OF c, of s] inv st r
      by (simp add: sender_inv_def Let_def sender_state_def sender_script_nth)
  qed
qed

lemma received_update:
  "k < n \<Longrightarrow> (map (\<lambda>j. j < k) [0..<n])[k := True] = map (\<lambda>j. j < Suc k) [0..<n]"
  by (auto simp: list_eq_iff_nth_eq nth_list_update)

lemma received_full: "map (\<lambda>j. j < Suc n) [0..<n] = map (\<lambda>j. j < n) [0..<n]"
  by simp

lemma sender_count:
  assumes "sinv p q c s"
  shows "\<exists>n. Reader_BlockCount (s_reader s) = Return n \<and> unat n = N"
proof -
  have tx: "transferable xs bs" using assms by (simp add: sender_inv_def Let_def)
  note tf = transferable_facts [OF tx]
  have r: "reader_inv rcontent rready xs (s_reader s)" "r_blockSize (s_reader s) = bs"
    using assms by (simp_all add: sender_inv_def Let_def)
  then show ?thesis
    using BlockCount_unat [of bs "r_totalSize (s_reader s)"] tf(5) reader_sized [OF r(1)]
    by (auto simp: Reader_BlockCount_def)
qed

lemma sender_reads_script_received:
  assumes inv: "sinv p (Suc k) c s" and k: "k < N" "Suc k < p"
  shows "\<exists>c' s'. Client_ReadMessage c s (BlockReceivedMsg (of_nat k)) = Return (c', s', None) \<and>
    sinv p (Suc (Suc k)) c' s'"
proof -
  have tx: "transferable xs bs" using inv by (simp add: sender_inv_def Let_def)
  note tf = transferable_facts [OF tx]
  have c: "client_of (Sender_protocolDefinition rops) c" and st: "c_state c = sender_state N p (Suc k)"
    and r: "s_received s = map (\<lambda>j. j < k) [0..<N]" "unat (s_receivedCount s) = k" and p: "p \<le> N + 2"
    using inv k by (simp_all add: sender_inv_def Let_def)
  obtain n where n: "Reader_BlockCount (s_reader s) = Return n" "unat n = N"
    using sender_count [OF inv] by blast
  have u: "unat (of_nat k :: uint64) = k" "unat (s_receivedCount s + 1) = Suc k"
    using k tf(4) r(2) by (simp_all add: unat_of_nat_64 unat_add_64)
  have same: "sender_state N p (Suc (Suc k)) = sender_state N p (Suc k)"
    using k p by (simp add: sender_state_def)
  have "c_state c = inProgress \<or> c_state c = transferred \<or> c_state c = needDataReceived"
    using st k p by (auto simp: sender_state_def)
  from sender_reads_received [OF c this, of "of_nat k" s n]
  have "Client_ReadMessage c s (BlockReceivedMsg (of_nat k)) =
      Return (c, s\<lparr>s_received := map (\<lambda>j. j < Suc k) [0..<N], s_receivedCount := s_receivedCount s + 1\<rparr>, None)"
    using u r(1) n k by (simp add: received_update word_le_nat_alt)
  moreover have "sinv p (Suc (Suc k)) c
      (s\<lparr>s_received := map (\<lambda>j. j < Suc k) [0..<N], s_receivedCount := s_receivedCount s + 1\<rparr>)"
    using inv k u same by (simp add: sender_inv_def Let_def)
  ultimately show ?thesis by blast
qed

lemma sender_reads:
  assumes inv: "sinv p q c s" and q: "q < p" "q < length (receiver_script N)"
  shows "\<exists>c' s'. Client_ReadMessage c s (receiver_script N ! q) = Return (c', s', None) \<and> sinv p (Suc q) c' s'"
proof -
  have c: "client_of (Sender_protocolDefinition rops) c" and st: "c_state c = sender_state N p q"
    and r: "p \<le> N + 2" "p = N + 2 \<longrightarrow> 0 < q"
    using inv by (simp_all add: sender_inv_def Let_def)
  consider "q = 0" | k where "q = Suc k" "k < N" | "q = Suc N"
    using q by (cases q) (auto simp: less_Suc_eq)
  then show ?thesis
  proof cases
    case 1
    have next_st: "sender_state N p 1 = (if c_state c = inPrologue then inProgress else transferred)"
      and "c_state c = inPrologue \<or> c_state c = needAcknowledge"
      using 1 q r st by (auto simp: sender_state_def state_defs)
    with sender_reads_acknowledge [OF c, of s]
    have "Client_ReadMessage c s AcknowledgeMsg = Return (c\<lparr>c_state := sender_state N p 1\<rparr>, s, None)"
      by (simp only: next_st)
    moreover have "sinv p 1 (c\<lparr>c_state := sender_state N p 1\<rparr>) s"
      using inv 1 q by (simp add: sender_inv_def Let_def)
    ultimately show ?thesis using 1 by (auto simp: receiver_script_nth)
  next
    case 2
    then show ?thesis using sender_reads_script_received [of p k c s] inv q by (simp add: receiver_script_nth)
  next
    case 3
    obtain n where n: "Reader_BlockCount (s_reader s) = Return n" "unat n = N"
      using sender_count [OF inv] by blast
    have "\<not> s_receivedCount s < n" and "p = N + 2"
      using inv 3 q r n by (simp_all add: sender_inv_def Let_def word_less_nat_alt)
    then show ?thesis
      using sender_reads_dataReceived [OF c _ n(1)] inv st 3
      by (simp add: sender_inv_def Let_def sender_state_def receiver_script_nth)
  qed
qed

abbreviation "rinv \<equiv> receiver_inv wops fac wcontent wready md xs bs"

lemma receiver_flags:
  assumes "rinv p q c s"
  shows "Client_CanWrite c \<longleftrightarrow> p < q" and "Client_MustWrite c \<longleftrightarrow> p < q"
    and "Client_IsDone c \<longleftrightarrow> p = N + 2 \<and> q = N + 2"
proof -
  have c: "client_of (Receiver_protocolDefinition wops fac) c" and st: "c_state c = receiver_state N p q"
    and r: "p \<le> q" "q \<le> Suc p" "q \<le> N + 2"
    using assms by (simp_all add: receiver_inv_def Let_def)
  have w: "write_entry (Receiver_protocolDefinition wops fac) (c_state c) \<noteq> None \<longleftrightarrow> p < q"
    using r by (auto simp: st receiver_write_entry receiver_state_def state_defs)
  show "Client_CanWrite c \<longleftrightarrow> p < q" "Client_MustWrite c \<longleftrightarrow> p < q"
    using w by (simp_all add: Receiver_flags [OF c] Receiver_protocolDefinition_def)
  show "Client_IsDone c \<longleftrightarrow> p = N + 2 \<and> q = N + 2"
    using r by (auto simp: Receiver_flags [OF c] Receiver_protocolDefinition_def st receiver_state_def state_defs)
qed

lemma receiver_writes_script_received:
  assumes inv: "rinv (Suc k) (Suc (Suc k)) c s" and k: "k < N"
  shows "\<exists>c' s'. Client_WriteMessage c s = Return (c', s', Some (BlockReceivedMsg (of_nat k)), None) \<and>
    rinv (Suc (Suc k)) (Suc (Suc k)) c' s'"
proof -
  have tx: "transferable xs bs" using inv by (simp add: receiver_inv_def Let_def)
  note tf = transferable_facts [OF tx]
  let ?st = "receiver_state N (Suc (Suc k)) (Suc (Suc k))"
  have c: "client_of (Receiver_protocolDefinition wops fac) c" and st: "c_state c = handleBlock"
    and b: "v_lastBlock s = Some (block_of xs (unat bs) k)" "v_redoBlocks s = None"
    using inv k by (simp_all add: receiver_inv_def Let_def receiver_state_def)
  obtain w where w: "v_writer s = Some w" "writer_inv wcontent wready w"
    "w_blockSize w = bs" "w_totalSize w = of_nat (length xs)" "w_written w = map (\<lambda>j. j < Suc k) [0..<N]"
    using inv by (auto simp: receiver_inv_def Let_def)
  have "writer_count w = N" using w tf(2,3) by (simp add: writer_count_def)
  moreover have "(\<forall>j < N. j < Suc k) \<longleftrightarrow> Suc k = N" using k by (metis Suc_lessI less_irrefl)
  ultimately have dn: "Writer_IsDone w = Return (Suc k = N)"
    using Writer_IsDone_iff [OF w(2)] w(5) by simp
  have st': "?st = (if Suc k = N then needDataSent else needBlock)"
    using k by (auto simp: receiver_state_def)
  have "Client_WriteMessage c s = Return (c\<lparr>c_state := ?st\<rparr>, s\<lparr>v_lastBlock := None\<rparr>,
      Some (BlockReceivedMsg (of_nat k)), None)"
    using receiver_writes_received [OF c st b w(1) dn] by (simp add: st')
  moreover have "rinv (Suc (Suc k)) (Suc (Suc k)) (c\<lparr>c_state := ?st\<rparr>) (s\<lparr>v_lastBlock := None\<rparr>)"
    using inv by (simp add: receiver_inv_def Let_def)
  ultimately show ?thesis by blast
qed

lemma receiver_writes:
  assumes inv: "rinv p q c s" and w: "p < q"
  shows "p < length (receiver_script N) \<and>
    (\<exists>c' s'. Client_WriteMessage c s = Return (c', s', Some (receiver_script N ! p), None) \<and> rinv (Suc p) q c' s')"
proof
  have tx: "transferable xs bs" using inv by (simp add: receiver_inv_def Let_def)
  note tf = transferable_facts [OF tx]
  have c: "client_of (Receiver_protocolDefinition wops fac) c" and st: "c_state c = receiver_state N p q"
    and r: "q = Suc p" "q \<le> N + 2"
    using inv w by (simp_all add: receiver_inv_def Let_def)
  then show "p < length (receiver_script N)" by simp
  consider "p = 0" | k where "p = Suc k" "k < N" | "p = Suc N"
    using r by (cases p) (auto simp: le_less)
  then show "\<exists>c' s'. Client_WriteMessage c s = Return (c', s', Some (receiver_script N ! p), None) \<and> rinv (Suc p) q c' s'"
  proof cases
    case 1
    then have "Client_WriteMessage c s = Return (c\<lparr>c_state := needBlock\<rparr>, s, Some AcknowledgeMsg, None)"
      using receiver_writes_acknowledge [OF c] st r by (simp add: receiver_state_def)
    moreover have "rinv 1 1 (c\<lparr>c_state := needBlock\<rparr>) s"
      using inv 1 r tf(1) by (simp add: receiver_inv_def Let_def receiver_state_def)
    ultimately show ?thesis using 1 r by (auto simp: receiver_script_nth)
  next
    case 2
    then show ?thesis using receiver_writes_script_received [of k c s] inv r by (simp add: receiver_script_nth)
  next
    case 3
    then have "Client_WriteMessage c s = Return (c\<lparr>c_state := finalDone\<rparr>, s, Some DataReceivedMsg, None)"
      using receiver_writes_dataReceived [OF c] st r by (simp add: receiver_state_def)
    moreover have "rinv (Suc p) q (c\<lparr>c_state := finalDone\<rparr>) s"
      using inv 3 r by (simp add: receiver_inv_def Let_def receiver_state_def)
    ultimately show ?thesis using 3 by (auto simp: receiver_script_nth)
  qed
qed

lemma receiver_reads_script_header:
  assumes inv: "rinv 0 0 c s"
  shows "\<exists>c' s'. Client_ReadMessage c s (HeaderMsg \<lparr>hd_Metadata = Some md,
      hd_TotalSize = of_nat (length xs), hd_BlockSize = bs\<rparr>) = Return (c', s', None) \<and> rinv 0 1 c' s'"
proof -
  have tx: "transferable xs bs" using inv by (simp add: receiver_inv_def Let_def)
  note tf = transferable_facts [OF tx]
  let ?h = "\<lparr>hd_Metadata = Some md, hd_TotalSize = of_nat (length xs), hd_BlockSize = bs\<rparr>"
  have c: "client_of (Receiver_protocolDefinition wops fac) c" and st: "c_state c = initialized"
    using inv by (simp_all add: receiver_inv_def Let_def receiver_state_def)
  obtain f where f: "fac md (of_nat (length xs)) = Return (f, None)" "wready f" "length (wcontent f) = length xs"
    using inv by (auto simp: receiver_inv_def Let_def creates_file_def)
  have "length (wcontent f) = unat (of_nat (length xs) :: uint64)" using f(3) tf(3) by simp
  from NewWriter_inv [of wready f wcontent, OF f(2) this tf(2)] obtain w where
    w: "NewWriter f (of_nat (length xs)) bs = Return w" "writer_inv wcontent wready w"
      "w_written w = replicate (writer_count w) False" "w_totalSize w = of_nat (length xs)" "w_blockSize w = bs"
    by blast
  have cnt: "writer_count w = N" using w tf(2,3) by (simp add: writer_count_def)
  then have "w_written w = map (\<lambda>j. j < 0) [0..<N]" "writer_agrees wcontent xs w"
    using w tf(2,3) by (simp_all add: writer_agrees_def map_replicate_const)
  then have "rinv 0 1 (c\<lparr>c_state := sendAcknowledge\<rparr>) (s\<lparr>v_writer := Some w, v_header := Some ?h\<rparr>)"
    using inv w by (simp add: receiver_inv_def Let_def receiver_state_def)
  then show ?thesis
    using receiver_reads_header [OF c st, of ?h md f w s] f(1) w(1) tf(5) by auto
qed

lemma receiver_reads_script_block:
  assumes inv: "rinv (Suc k) (Suc k) c s" and k: "k < N"
  shows "\<exists>c' s'. Client_ReadMessage c s (BlockMsg (Some (block_of xs (unat bs) k))) = Return (c', s', None) \<and>
    rinv (Suc k) (Suc (Suc k)) c' s'"
proof -
  have tx: "transferable xs bs" using inv by (simp add: receiver_inv_def Let_def)
  note tf = transferable_facts [OF tx]
  let ?b = "block_of xs (unat bs) k"
  have c: "client_of (Receiver_protocolDefinition wops fac) c" and st: "c_state c = needBlock"
    and nxt: "v_nextBlockIndex s = of_nat k"
    using inv k by (simp_all add: receiver_inv_def Let_def receiver_state_def)
  obtain w where w: "v_writer s = Some w" "writer_inv wcontent wready w" "writer_agrees wcontent xs w"
    "w_blockSize w = bs" "w_totalSize w = of_nat (length xs)" "w_written w = map (\<lambda>j. j < k) [0..<N]"
    using inv by (auto simp: receiver_inv_def Let_def)
  have "writer_count w = N" using w tf(2,3) by (simp add: writer_count_def)
  then obtain w' where w': "WriteBlock wops w ?b = Return (None, w')" "writer_inv wcontent wready w'"
    "writer_agrees wcontent xs w'" "w_written w' = map (\<lambda>j. j < Suc k) [0..<N]"
    "w_totalSize w' = of_nat (length xs)" "w_blockSize w' = bs"
    using W.WriteBlock_agrees [OF w(2,3), of k] w k by (auto simp: received_update)
  let ?s = "s\<lparr>v_writer := Some w', v_nextBlockIndex := v_nextBlockIndex s + 1, v_lastBlock := Some ?b\<rparr>"
  have "Client_ReadMessage c s (BlockMsg (Some ?b)) = Return (c\<lparr>c_state := handleBlock\<rparr>, ?s, None)"
    using receiver_reads_block [OF c st w(1) w'(1)] nxt by simp
  moreover have "rinv (Suc k) (Suc (Suc k)) (c\<lparr>c_state := handleBlock\<rparr>) ?s"
    using inv k nxt w' by (simp add: receiver_inv_def Let_def receiver_state_def)
  ultimately show ?thesis by blast
qed

lemma receiver_reads:
  assumes inv: "rinv p q c s" and q: "p = q" "q < length (sender_script (Some md) xs bs)"
  shows "\<exists>c' s'. Client_ReadMessage c s (sender_script (Some md) xs bs ! q) = Return (c', s', None) \<and>
    rinv p (Suc q) c' s'"
proof -
  have c: "client_of (Receiver_protocolDefinition wops fac) c" and st: "c_state c = receiver_state N p q"
    using inv by (simp_all add: receiver_inv_def Let_def)
  consider "q = 0" | k where "q = Suc k" "k < N" | "q = Suc N"
    using q by (cases q) (auto simp: less_Suc_eq)
  then show ?thesis
  proof cases
    case 1
    then show ?thesis using receiver_reads_script_header inv q by (auto simp: sender_script_nth)
  next
    case 2
    then show ?thesis using receiver_reads_script_block [of k c s] inv q by (simp add: sender_script_nth)
  next
    case 3
    then have "Client_ReadMessage c s (DataSentMsg []) = Return (c\<lparr>c_state := sendDataReceived\<rparr>, s, None)"
      using receiver_reads_dataSent [OF c] st q by (simp add: receiver_state_def)
    moreover have "rinv p (Suc q) (c\<lparr>c_state := sendDataReceived\<rparr>) s"
      using inv 3 q by (simp add: receiver_inv_def Let_def receiver_state_def received_full)
    ultimately show ?thesis using 3 by (auto simp: sender_script_nth)
  qed
qed

lemma NewSender_inv:
  assumes "transferable xs bs" and f: "rready f" "rcontent f = xs"
  shows "\<exists>c s. NewSender rops (Some md) (NewBlockReader f (of_nat (length xs)) bs) = Return (c, s) \<and> sinv 0 0 c s"
proof -
  let ?r = "NewBlockReader f (of_nat (length xs)) bs"
  note tf = transferable_facts [OF assms(1)]
  have r: "reader_inv rcontent rready xs ?r"
    using NewBlockReader_inv(1) [of rready f rcontent xs bs] assms by (simp add: transferable_def)
  obtain n where n: "Reader_BlockCount ?r = Return n" "unat n = N"
    using BlockCount_unat [of bs "of_nat (length xs)"] tf by (auto simp: Reader_BlockCount_def NewBlockReader_def)
  then have "make_slice n False = Return (replicate N False)"
    using sized_count [OF tf(2), of N] tf(3) by (simp add: make_slice_in)
  moreover obtain c where "NewClient (Sender_protocolDefinition rops) = Return c"
    "client_of (Sender_protocolDefinition rops) c" "c_state c = initialized"
    using NewClient_wf [OF Sender_wf] by (auto simp: Sender_protocolDefinition_def)
  ultimately show ?thesis
    using n r assms(1)
    by (simp add: NewSender_def sender_inv_def Let_def sender_state_def map_replicate_const)
      (simp add: NewBlockReader_def)
qed

lemma NewReceiver_inv:
  assumes "transferable xs bs" and "creates_file fac wcontent wready md (length xs)"
  shows "\<exists>d t. NewReceiver wops fac = Return (d, t) \<and> rinv 0 0 d t"
proof -
  obtain d where "NewClient (Receiver_protocolDefinition wops fac) = Return d"
    "client_of (Receiver_protocolDefinition wops fac) d" "c_state d = initialized"
    using NewClient_wf [OF Receiver_wf] by (auto simp: Receiver_protocolDefinition_def)
  then show ?thesis
    using assms by (simp add: NewReceiver_def receiver_inv_def Let_def receiver_state_def)
qed

lemma receiver_complete:
  assumes "rinv (N + 2) (N + 2) d t"
  shows "has_received wcontent md xs t"
proof -
  have tx: "transferable xs bs" using assms by (simp add: receiver_inv_def Let_def)
  note tf = transferable_facts [OF tx]
  obtain w where w: "v_writer t = Some w" "writer_inv wcontent wready w" "writer_agrees wcontent xs w"
    "w_blockSize w = bs" "w_totalSize w = of_nat (length xs)" "w_written w = map (\<lambda>k. k < N + 1) [0..<N]"
    using assms by (auto simp: receiver_inv_def Let_def)
  have "writer_count w = N" using w tf by (simp add: writer_count_def)
  then have "Writer_IsDone w = Return True" using Writer_IsDone_iff [OF w(2)] w(6) by simp
  then have "wcontent (w_writer w) = xs" using w writer_agrees_done by blast
  moreover have "\<exists>h. v_header t = Some h \<and> hd_Metadata h = Some md" using assms by (simp add: receiver_inv_def Let_def)
  ultimately show ?thesis using w(1) by (simp add: has_received_def)
qed

end

sublocale file_transfer \<subseteq> talk: conversation
    "sender_inv rops rcontent rready (Some md) xs bs" "receiver_inv wops fac wcontent wready md xs bs"
    "sender_script (Some md) xs bs" "receiver_script (block_count (length xs) (unat bs))"
    "sender_may_write (block_count (length xs) (unat bs))"
proof (unfold_locales, goal_cases)
  case (1 n i c s) then show ?case by (rule sender_flags)
next
  case (2 n i c s) then show ?case using sender_flags(2) by simp
next
  case (3 n i c s) then show ?case using sender_flags(3) by simp
next
  case (4 n i c s) then show ?case by (rule sender_writes)
next
  case (5 n i c s) then show ?case by (rule sender_reads)
next
  case (6 n i c s) then show ?case by (rule receiver_flags)
next
  case (7 n i c s) then show ?case using receiver_flags(2) by simp
next
  case (8 n i c s) then show ?case using receiver_flags(3) by simp
next
  case (9 n i c s) then show ?case by (rule receiver_writes)
next
  case (10 n i c s) then show ?case by (rule receiver_reads)
next
  case 11 then show ?case by simp
next
  case (12 n) then show ?case by (simp add: sender_may_write_def)
qed

context file_transfer
begin

lemma transfer_ends:
  assumes "sinv 0 0 c s" and "rinv 0 0 d t" and "pair_run False k (start_pair c s d t) p"
  shows "k \<le> 6 * N + 14" and "stuck p \<Longrightarrow>
    lp_pc (p_left p) = Returned None \<and> lp_pc (p_right p) = Returned None \<and>
    has_received wcontent md xs (lp_data (p_right p))"
proof -
  note ends = talk.conversation_ends [OF assms]
  show "k \<le> 6 * N + 14" using ends(1) by simp
  assume "stuck p"
  then show "lp_pc (p_left p) = Returned None \<and> lp_pc (p_right p) = Returned None \<and>
      has_received wcontent md xs (lp_data (p_right p))"
    using ends(2) receiver_complete [of "lp_client (p_right p)" "lp_data (p_right p)"] by simp
qed

lemma transfer_never_wrong:
  assumes "sinv 0 0 c s" and "rinv 0 0 d t" and "pair_run faults k (start_pair c s d t) p"
  shows "lp_pc (p_left p) \<noteq> Crashed x \<and> lp_pc (p_right p) \<noteq> Crashed x \<and>
    (lp_pc (p_left p) = Returned None \<or> lp_pc (p_right p) = Returned None \<longrightarrow>
      has_received wcontent md xs (lp_data (p_right p)))"
proof -
  note safe = talk.conversation_safe [OF assms]
  have "has_received wcontent md xs (lp_data (p_right p))"
    if "lp_pc (p_left p) = Returned None \<or> lp_pc (p_right p) = Returned None"
    using safe(3,4) receiver_complete [of "lp_client (p_right p)"] that by auto
  then show ?thesis using safe(1,2) by blast
qed

end

text \<open>The in-memory file plays both parts; \<open>cmd/receive\<close> makes one for each transfer.\<close>

interpretation buffer_transfer: file_transfer buffer_rsc buf_Data buf_pos buf_ready
    buffer_wsc buf_Data buf_pos buf_ready fac md xs bs
  for fac :: "Buffer WriterFactory" and md xs bs
  by unfold_locales

definition receive_factory :: "Buffer WriterFactory" where
  "receive_factory meta sz = obind (make_slice sz (0 :: byte)) (\<lambda>data. Return (NewBuffer data, None))"

lemma receive_factory_creates:
  "k \<le> maxAlloc \<Longrightarrow> creates_file receive_factory buf_Data buf_ready md k"
  by (simp add: creates_file_def receive_factory_def make_slice_in unat_of_nat_64 maxAlloc_def NewBuffer_def buf_ready_def)

section \<open>Properties\<close>

text \<open>
  C5. Total correctness of a file transfer, for a file that is not empty (the sender panics on an empty one, \<open>Sender_empty_file_panics\<close>) and not
  larger than what can be allocated: a sender and a receiver are made without a panic,
  every schedule of their four goroutines comes to an end within a bound that is linear in the
  number of blocks, there is such a complete run, and whenever nothing can move any more both
  loops have returned without an error and the receiver has the sender's file and its
  metadata.
\<close>

theorem transfer_completes:
  assumes rd: "read_file rops rcontent rpos rready" and wr: "write_file wops wcontent wpos wready"
    and ok: "transferable xs bs" and fac: "creates_file fac wcontent wready md (length xs)"
    and f: "rready f" "rcontent f = xs"
  shows "\<exists>c s d t.
    NewSender rops (Some md) (NewBlockReader f (of_nat (length xs)) bs) = Return (c, s) \<and>
    NewReceiver wops fac = Return (d, t) \<and>
    (\<exists>k p. pair_run False k (start_pair c s d t) p \<and> stuck p) \<and>
    (\<forall>k p. pair_run False k (start_pair c s d t) p \<longrightarrow>
       k \<le> 6 * block_count (length xs) (unat bs) + 14 \<and>
       (stuck p \<longrightarrow>
          lp_pc (p_left p) = Returned None \<and> lp_pc (p_right p) = Returned None \<and>
          has_received wcontent md xs (lp_data (p_right p))))"
proof -
  have ft: "file_transfer rops rcontent rpos rready wops wcontent wpos wready"
    using rd wr by (simp add: file_transfer_def)
  obtain c s d t where c: "NewSender rops (Some md) (NewBlockReader f (of_nat (length xs)) bs) = Return (c, s)"
      "sender_inv rops rcontent rready (Some md) xs bs 0 0 c s"
    and d: "NewReceiver wops fac = Return (d, t)" "receiver_inv wops fac wcontent wready md xs bs 0 0 d t"
    using file_transfer.NewSender_inv [OF ft ok f] file_transfer.NewReceiver_inv [OF ft ok fac] by blast
  note talk = file_transfer.transfer_ends [OF ft c(2) d(2)]
  have bound: "k \<le> 6 * block_count (length xs) (unat bs) + 14"
    if "pair_run False k (start_pair c s d t) p" for k p
    by (rule talk(1) [OF that])
  show ?thesis
  proof (rule exI [of _ c], rule exI [of _ s], rule exI [of _ d], rule exI [of _ t], intro conjI)
    show "\<exists>k p. pair_run False k (start_pair c s d t) p \<and> stuck p"
      unfolding stuck_def by (rule bounded_run_ends [OF pair_run.run_refl bound pair_run.run_step])
  qed (use c(1) d(1) bound talk(2) in blast)+
qed

theorem transfer_completes_witness:
  "\<exists>c s d t.
    NewSender buffer_rsc (Some \<lparr>md_Filename = [97]\<rparr>) (NewBlockReader (NewBuffer [1, 2, 3]) 3 2) = Return (c, s) \<and>
    NewReceiver buffer_wsc receive_factory = Return (d, t) \<and>
    (\<exists>k p. pair_run False k (start_pair c s d t) p \<and> stuck p \<and>
       lp_pc (p_left p) = Returned None \<and> lp_pc (p_right p) = Returned None \<and>
       has_received buf_Data \<lparr>md_Filename = [97]\<rparr> [1, 2, 3] (lp_data (p_right p)))"
proof -
  have "transferable [1, 2, 3 :: byte] 2" by (simp add: transferable_def maxAlloc_def)
  moreover have "creates_file receive_factory buf_Data buf_ready \<lparr>md_Filename = [97]\<rparr> (length [1, 2, 3 :: byte])"
    by (rule receive_factory_creates) (simp add: maxAlloc_def)
  ultimately show ?thesis
    using transfer_completes [OF buffer_reader.read_file_axioms buffer_writer.write_file_axioms,
        of "[1, 2, 3]" 2 receive_factory "\<lparr>md_Filename = [97]\<rparr>" "NewBuffer [1, 2, 3]"]
    by simp blast
qed

text \<open>
  C6. Safety of a file transfer over a connection that may fail at any read and write, for a file that is not empty (the sender panics on an
  empty one, \<open>Sender_empty_file_panics\<close>) and not larger than what can be allocated: neither
  loop ever panics, and as soon as one of the two returns without an error, the sender's loop
  or the receiver's, the receiver has the sender's file and its
  metadata.
\<close>

theorem transfer_safe:
  assumes rd: "read_file rops rcontent rpos rready" and wr: "write_file wops wcontent wpos wready"
    and ok: "transferable xs bs" and fac: "creates_file fac wcontent wready md (length xs)"
    and f: "rready f" "rcontent f = xs"
    and c: "NewSender rops (Some md) (NewBlockReader f (of_nat (length xs)) bs) = Return (c, s)"
    and d: "NewReceiver wops fac = Return (d, t)"
    and run: "pair_run True k (start_pair c s d t) p"
  shows "lp_pc (p_left p) \<noteq> Crashed x \<and> lp_pc (p_right p) \<noteq> Crashed x \<and>
    (lp_pc (p_left p) = Returned None \<or> lp_pc (p_right p) = Returned None \<longrightarrow>
      has_received wcontent md xs (lp_data (p_right p)))"
proof -
  have ft: "file_transfer rops rcontent rpos rready wops wcontent wpos wready"
    using rd wr by (simp add: file_transfer_def)
  have inv: "sender_inv rops rcontent rready (Some md) xs bs 0 0 c s"
      "receiver_inv wops fac wcontent wready md xs bs 0 0 d t"
    using file_transfer.NewSender_inv [OF ft ok f, of md] file_transfer.NewReceiver_inv [OF ft ok fac] c d
    by auto
  show ?thesis
    by (rule file_transfer.transfer_never_wrong [OF ft inv run])
qed

theorem transfer_safe_witness:
  "\<exists>c s d t. NewSender buffer_rsc (Some \<lparr>md_Filename = [97]\<rparr>) (NewBlockReader (NewBuffer [1, 2, 3]) 3 2) = Return (c, s) \<and>
    NewReceiver buffer_wsc receive_factory = Return (d, t) \<and>
    (\<forall>k p. pair_run True k (start_pair c s d t) p \<longrightarrow>
       lp_pc (p_right p) \<noteq> Crashed (RuntimePanic IndexOutOfRange))"
proof -
  have ok: "transferable [1, 2, 3 :: byte] 2" by (simp add: transferable_def maxAlloc_def)
  have fac: "creates_file receive_factory buf_Data buf_ready \<lparr>md_Filename = [97]\<rparr> (length [1, 2, 3 :: byte])"
    by (rule receive_factory_creates) (simp add: maxAlloc_def)
  obtain c s where c: "NewSender buffer_rsc (Some \<lparr>md_Filename = [97]\<rparr>)
      (NewBlockReader (NewBuffer [1, 2, 3]) (of_nat (length [1, 2, 3 :: byte])) 2) = Return (c, s)"
    using buffer_transfer.NewSender_inv [where md = "\<lparr>md_Filename = [97]\<rparr>", OF ok, of "NewBuffer [1, 2, 3]"]
    by auto
  obtain d t where d: "NewReceiver buffer_wsc receive_factory = Return (d, t)"
    using buffer_transfer.NewReceiver_inv [OF ok fac] by auto
  show ?thesis
    using transfer_safe [OF buffer_reader.read_file_axioms buffer_writer.write_file_axioms ok fac _ _ c d] c d
    by auto
qed

end
