(* ===== verification/Packet.thy ===== *)
theory Packet
  imports Go_IO
begin

text \<open>
  Package \<open>lib/packet\<close>: a packet on the wire is a two-byte big-endian length and that many
  bytes. The operations are those of \<open>length.go\<close> and \<open>packet.go\<close>, over any reader or
  writer. The lemmas show that a sequence of packets written to a stream is decoded packet
  by packet however the stream is cut into segments, what a cut stream gives, and that
  \<open>Decode\<close> accepts exactly the encodings.
\<close>

section \<open>The length field\<close>

type_synonym Length = uint16

definition LengthSize :: nat where
  "LengthSize = 2"

definition MaxLength :: nat where
  "MaxLength = 2 ^ (LengthSize * 2 ^ 3) - 1"

definition LengthOf :: "bytes \<Rightarrow> error + Length" where
  "LengthOf data =
     (if MaxLength < length data then Inl (ErrorString ''the data may not exceed 65535 bytes'')
      else Inr (of_nat (length data)))"

definition DecodeLength :: "bytes \<Rightarrow> error + Length" where
  "DecodeLength raw =
     (if length raw \<noteq> LengthSize then Inl (ErrorString ''a length field must be 2 bytes long'')
      else Inr (get_be raw))"

definition Length_Bytes :: "Length \<Rightarrow> bytes" where
  "Length_Bytes l = PutUint16 l"

section \<open>Packets\<close>

type_synonym Packet = bytes

definition Packet_New :: "bytes \<Rightarrow> Packet" where
  "Packet_New data = data"

text \<open>The byte count is the Go result \<open>n\<close>: 0 when the length or the header fails, the sum
  of both writes otherwise.\<close>

definition Packet_WriteTo :: "'w writer \<Rightarrow> Packet \<Rightarrow> 'w \<Rightarrow> (nat \<times> error option \<times> 'w) outcome" where
  "Packet_WriteTo wr p w =
     (case LengthOf p of
        Inl e \<Rightarrow> Return (0, Some e, w)
      | Inr l \<Rightarrow>
          obind (wr w (Length_Bytes l)) (\<lambda>(n1, err1, w1).
            case err1 of
              Some e \<Rightarrow> Return (0, Some e, w1)
            | None \<Rightarrow> obind (wr w1 p) (\<lambda>(n2, err2, w2). Return (n1 + n2, err2, w2))))"

definition Packet_Decode :: "bytes \<Rightarrow> error + Packet" where
  "Packet_Decode raw =
     (if length raw < LengthSize then Inl (ErrorString ''missing length header'')
      else case DecodeLength (take LengthSize raw) of
          Inl e \<Rightarrow> Inl e
        | Inr l \<Rightarrow>
            if length raw - LengthSize \<noteq> unat l
            then Inl (ErrorString ''length of remaining bytes does not conform to header value'')
            else Inr (Packet_New (drop LengthSize raw)))"

text \<open>A packet that ends early is returned with the error, its missing bytes still zero.\<close>

definition DecodeFrom :: "'r reader \<Rightarrow> 'r \<Rightarrow> (Packet \<times> error option \<times> 'r) outcome" where
  "DecodeFrom rd r =
     obind (ReadFull rd r LengthSize) (\<lambda>(header, err, r1).
       case err of
         Some e \<Rightarrow> Return ([], Some e, r1)
       | None \<Rightarrow>
           (case DecodeLength header of
              Inl e \<Rightarrow> Return ([], Some e, r1)
            | Inr l \<Rightarrow>
                obind (ReadFull rd r1 (unat l)) (\<lambda>(body, err, r2).
                  Return (body @ replicate (unat l - length body) 0, err, r2))))"

definition Packet_Size :: "Packet \<Rightarrow> nat" where
  "Packet_Size p = LengthSize + length p"

section \<open>Sequences of packets\<close>

type_synonym Sequence = "Packet list"

definition NewSequence :: "bytes list \<Rightarrow> Sequence" where
  "NewSequence packets = packets"

fun Sequence_WriteTo_from ::
  "'w writer \<Rightarrow> Sequence \<Rightarrow> nat \<Rightarrow> 'w \<Rightarrow> (nat \<times> error option \<times> 'w) outcome" where
  "Sequence_WriteTo_from wr [] n w = Return (n, None, w)"
| "Sequence_WriteTo_from wr (p # ps) n w =
     obind (Packet_WriteTo wr p w) (\<lambda>(m, err, w').
       case err of
         Some e \<Rightarrow> Return (n + m, Some e, w')
       | None \<Rightarrow> Sequence_WriteTo_from wr ps (n + m) w')"

definition Sequence_WriteTo :: "'w writer \<Rightarrow> Sequence \<Rightarrow> 'w \<Rightarrow> (nat \<times> error option \<times> 'w) outcome" where
  "Sequence_WriteTo wr ps w = Sequence_WriteTo_from wr ps 0 w"

definition Sequence_Size :: "Sequence \<Rightarrow> nat" where
  "Sequence_Size ps = sum_list (map Packet_Size ps)"

section \<open>Reference encoding\<close>

text \<open>The bytes a packet stands for, and \<open>n\<close> packets taken from a stream one by one: what the
  operations are compared with below.\<close>

definition frame :: "bytes \<Rightarrow> bytes" where
  "frame p = PutUint16 (of_nat (length p)) @ p"

fun decode_many :: "'r reader \<Rightarrow> nat \<Rightarrow> 'r \<Rightarrow> (Packet list \<times> error option \<times> 'r) outcome" where
  "decode_many rd 0 r = Return ([], None, r)"
| "decode_many rd (Suc n) r =
     obind (DecodeFrom rd r) (\<lambda>(p, err, r1).
       case err of
         Some e \<Rightarrow> Return ([], Some e, r1)
       | None \<Rightarrow> obind (decode_many rd n r1) (\<lambda>(ps, err, r2). Return (p # ps, err, r2)))"

section \<open>Lemmas\<close>

lemmas packet_consts = LengthSize_def MaxLength_def

lemma LengthOf_ok: "length p \<le> MaxLength \<Longrightarrow> LengthOf p = Inr (of_nat (length p))"
  by (simp add: LengthOf_def)

lemma DecodeLength_Bytes: "DecodeLength (Length_Bytes l) = Inr l"
  by (simp add: DecodeLength_def Length_Bytes_def packet_consts)

lemma length_frame [simp]: "length (frame p) = Packet_Size p"
  by (simp add: frame_def Packet_Size_def packet_consts)

lemma take_drop_frame:
  "take LengthSize (frame p @ rest) = PutUint16 (of_nat (length p))"
  "drop LengthSize (frame p @ rest) = p @ rest"
  by (simp_all add: frame_def packet_consts)

lemma frame_length_field:
  "length p \<le> MaxLength \<Longrightarrow> unat (of_nat (length p) :: Length) = length p"
  by (simp add: unat_of_nat_16 packet_consts)

context byte_sink
begin

lemma Packet_WriteTo_healthy:
  assumes "healthy w" and "length p \<le> MaxLength"
  shows "\<exists>w'. Packet_WriteTo wr p w = Return (Packet_Size p, None, w') \<and>
    written w' = written w @ frame p \<and> healthy w'"
proof -
  let ?h = "PutUint16 (of_nat (length p))"
  obtain w1 where w1: "wr w ?h = Return (2, None, w1)" "written w1 = written w @ ?h" "healthy w1"
    using write_all [OF assms(1), of ?h] by auto
  obtain w2 where w2: "wr w1 p = Return (length p, None, w2)" "written w2 = written w1 @ p"
    "healthy w2" using write_all [OF w1(3), of p] by auto
  show ?thesis
    using w1 w2 assms(2)
    by (simp add: Packet_WriteTo_def LengthOf_ok Length_Bytes_def frame_def Packet_Size_def
        LengthSize_def)
qed

lemma Sequence_WriteTo_from_healthy:
  "healthy w \<Longrightarrow> \<forall>p\<in>set ps. length p \<le> MaxLength \<Longrightarrow>
   \<exists>w'. Sequence_WriteTo_from wr ps n w = Return (n + Sequence_Size ps, None, w') \<and>
     written w' = written w @ concat (map frame ps) \<and> healthy w'"
proof (induction ps arbitrary: n w)
  case Nil
  then show ?case by (simp add: Sequence_Size_def)
next
  case (Cons p ps)
  obtain w1 where w1: "Packet_WriteTo wr p w = Return (Packet_Size p, None, w1)"
    "written w1 = written w @ frame p" "healthy w1"
    using Packet_WriteTo_healthy [of w p] Cons.prems by auto
  obtain w2 where "Sequence_WriteTo_from wr ps (n + Packet_Size p) w1 =
      Return (n + Packet_Size p + Sequence_Size ps, None, w2)"
    "written w2 = written w1 @ concat (map frame ps)" "healthy w2"
    using Cons.IH [OF w1(3)] Cons.prems(2) by auto
  then show ?case using w1 by (simp add: Sequence_Size_def)
qed

lemma Sequence_WriteTo_healthy:
  "healthy w \<Longrightarrow> \<forall>p\<in>set ps. length p \<le> MaxLength \<Longrightarrow>
   \<exists>w'. Sequence_WriteTo wr ps w = Return (Sequence_Size ps, None, w') \<and>
     written w' = written w @ concat (map frame ps) \<and> healthy w'"
  unfolding Sequence_WriteTo_def using Sequence_WriteTo_from_healthy [of w ps 0] by simp

end

context byte_stream
begin

lemma DecodeFrom_frame:
  assumes "pending r = frame p @ rest" and "length p \<le> MaxLength"
  shows "\<exists>r'. DecodeFrom rd r = Return (p, None, r') \<and> pending r' = rest \<and> fin r' = fin r"
proof -
  have "LengthSize \<le> length (pending r)" by (simp add: assms(1) Packet_Size_def)
  then obtain r1 where r1: "ReadFull rd r LengthSize =
      Return (PutUint16 (of_nat (length p)), None, r1)" "pending r1 = p @ rest" "fin r1 = fin r"
    using ReadFull_enough [of LengthSize r]
    unfolding assms(1) take_drop_frame by blast
  obtain r2 where r2: "ReadFull rd r1 (length p) = Return (p, None, r2)"
    "pending r2 = rest" "fin r2 = fin r1"
    using ReadFull_enough [of "length p" r1] r1(2) by auto
  show ?thesis
    using r1 r2 frame_length_field [OF assms(2)]
      DecodeLength_Bytes [of "of_nat (length p)"]
    by (simp add: DecodeFrom_def Length_Bytes_def)
qed

lemma decode_many_frames:
  "pending r = concat (map frame ps) @ rest \<Longrightarrow> \<forall>p\<in>set ps. length p \<le> MaxLength \<Longrightarrow>
   \<exists>r'. decode_many rd (length ps) r = Return (ps, None, r') \<and> pending r' = rest \<and> fin r' = fin r"
proof (induction ps arbitrary: r)
  case Nil
  then show ?case by simp
next
  case (Cons p ps)
  obtain r1 where r1: "DecodeFrom rd r = Return (p, None, r1)"
    "pending r1 = concat (map frame ps) @ rest" "fin r1 = fin r"
    using DecodeFrom_frame [of r p "concat (map frame ps) @ rest"] Cons.prems by auto
  with Cons.IH [OF r1(2)] Cons.prems(2) show ?case by auto
qed

lemma DecodeFrom_cut:
  assumes "pending r = take k (frame p)" and "k < Packet_Size p" and "length p \<le> MaxLength"
    and "fin r = IOError EOF"
  shows "\<exists>q r'. DecodeFrom rd r =
      Return (q, Some (IOError (if k = 0 \<or> k = LengthSize then EOF else ErrUnexpectedEOF)), r')
    \<and> pending r' = []"
proof (cases "k < LengthSize")
  case True
  have "length (pending r) = k" using assms(1,2) by (simp add: min_def)
  then have "length (pending r) < LengthSize" "pending r = [] \<longleftrightarrow> k = 0" using True by auto
  then show ?thesis
    using ReadFull_short [of r LengthSize] True assms(4)
    by (auto simp: DecodeFrom_def short_error_def LengthSize_def)
next
  case False
  let ?h = "PutUint16 (of_nat (length p)) :: bytes"
  have pend: "pending r = ?h @ take (k - LengthSize) p"
    using assms(1) False by (simp add: frame_def LengthSize_def)
  then obtain r1 where r1: "ReadFull rd r LengthSize = Return (?h, None, r1)"
    "pending r1 = take (k - LengthSize) p" "fin r1 = fin r"
    using ReadFull_enough [of LengthSize r] by (auto simp: LengthSize_def)
  have "length (pending r1) < length p" and emp: "pending r1 = [] \<longleftrightarrow> k = LengthSize"
    using r1(2) False assms(2) by (auto simp: Packet_Size_def)
  then obtain r2 where "ReadFull rd r1 (length p) =
      Return (pending r1, Some (short_error (pending r1) (fin r1)), r2)" "pending r2 = []"
    using ReadFull_short by blast
  then show ?thesis
    using r1 False emp assms(4) frame_length_field [OF assms(3)]
      DecodeLength_Bytes [of "of_nat (length p)"]
    by (auto simp: DecodeFrom_def Length_Bytes_def short_error_def LengthSize_def)
qed

end

lemma put_get_be_16:
  assumes "length bs = 2"
  shows "PutUint16 (get_be bs :: uint16) = bs"
proof -
  obtain a b where bs: "bs = [a, b]"
    using assms by (auto simp: length_Suc_conv numeral_2_eq_2)
  have "ucast (drop_bit 8 (push_bit 8 (ucast a) OR ucast b :: uint16)) = a"
    by (rule bit_eqI) (auto simp: bit_simps dest: bit_imp_le_length)
  moreover have "ucast (push_bit 8 (ucast a) OR ucast b :: uint16) = b"
    by (rule bit_eqI) (auto simp: bit_simps)
  ultimately show ?thesis
    by (simp add: bs PutUint_eval get_be_def)
qed

lemma Packet_Decode_iff:
  "Packet_Decode raw = Inr p \<longleftrightarrow> raw = frame p \<and> length p \<le> MaxLength"
proof
  assume "Packet_Decode raw = Inr p"
  then have len: "LengthSize \<le> length raw" and p: "p = drop LengthSize raw"
    and l: "length p = unat (get_be (take LengthSize raw) :: Length)"
    by (auto simp: Packet_Decode_def DecodeLength_def Packet_New_def
        split: if_splits sum.splits)
  have "of_nat (length p) = (get_be (take LengthSize raw) :: Length)" using l by simp
  then have "PutUint16 (of_nat (length p)) = take LengthSize raw"
    using put_get_be_16 [of "take LengthSize raw"] len by (simp add: LengthSize_def)
  moreover have "length p < 65536" unfolding l by (rule unat_less_16)
  ultimately show "raw = frame p \<and> length p \<le> MaxLength"
    by (simp add: frame_def p packet_consts)
next
  assume asm: "raw = frame p \<and> length p \<le> MaxLength"
  then have "unat (of_nat (length p) :: Length) = length p"
    by (simp add: frame_length_field)
  with asm show "Packet_Decode raw = Inr p"
    using take_drop_frame [of p "[]"] DecodeLength_Bytes [of "of_nat (length p)"]
    by (simp add: Packet_Decode_def Packet_New_def Packet_Size_def Length_Bytes_def)
qed

section \<open>Properties\<close>

text \<open>
  C9. Packets written one after another to a connection by \<open>Sequence.WriteTo\<close>, and bytes that
  follow them, are read back by \<open>DecodeFrom\<close> one packet at a time from any connection that
  delivers those bytes, however they are cut into segments; what follows stays unread.
\<close>

theorem packets_survive_segmentation:
  assumes "\<forall>p\<in>set ps. length p \<le> MaxLength"
    and "conn_healthy w" and "c_out w = []"
    and "Sequence_WriteTo conn_Write (NewSequence ps) w = Return (n, err, w')"
    and "\<not> c_closed r" and "concat (c_in r) = c_out w' @ rest"
  shows "err = None \<and> n = Sequence_Size ps \<and>
    (\<exists>r'. decode_many conn_Read (length ps) r = Return (ps, None, r') \<and> conn_pending r' = rest)"
proof -
  obtain w2 where "Sequence_WriteTo conn_Write ps w = Return (Sequence_Size ps, None, w2)"
    "c_out w2 = concat (map frame ps)"
    using net_sink.Sequence_WriteTo_healthy [OF assms(2,1)] assms(3) by auto
  with assms(4) have w': "err = None" "n = Sequence_Size ps" "c_out w' = concat (map frame ps)"
    by (auto simp: NewSequence_def)
  then have "conn_pending r = concat (map frame ps) @ rest"
    using assms(5,6) by (simp add: conn_pending_def)
  then show ?thesis using net_stream.decode_many_frames assms(1) w' by blast
qed

lemma packets_survive_segmentation_witness:
  "\<exists>r'. decode_many conn_Read (Suc (Suc 0))
     \<lparr>c_in = [[0], [2, 7], [8, 0], [], [1, 9, 5]], c_end = IOError EOF, c_out = [],
      c_werr = None, c_closed = False\<rparr> = Return ([[7, 8], [9]], None, r') \<and>
     conn_pending r' = [5]"
proof -
  let ?w = "\<lparr>c_in = [], c_end = IOError EOF, c_out = [], c_werr = None, c_closed = False\<rparr>"
  let ?w' = "?w\<lparr>c_out := [0, 2, 7, 8, 0, 1, 9]\<rparr>"
  have "Sequence_WriteTo conn_Write (NewSequence [[7, 8], [9]]) ?w = Return (7, None, ?w')"
    by (simp add: NewSequence_def Sequence_WriteTo_def Packet_WriteTo_def LengthOf_def
        packet_consts Length_Bytes_def PutUint_eval conn_Write_def)
  then show ?thesis
    using packets_survive_segmentation [of "[[7, 8], [9]]" ?w 7 None ?w'
        "\<lparr>c_in = [[0], [2, 7], [8, 0], [], [1, 9, 5]], c_end = IOError EOF, c_out = [],
          c_werr = None, c_closed = False\<rparr>" "[5]"]
    by (simp add: conn_healthy_def packet_consts)
qed

text \<open>
  C34. \<open>Decode\<close> accepts a datagram exactly when it is the encoding of a packet of at most
  \<open>MaxLength\<close> bytes, and then returns that packet; every other datagram is an error.
\<close>

theorem Decode_accepts_exactly_encodings:
  "(Packet_Decode raw = Inr p) = (raw = frame p \<and> length p \<le> MaxLength)"
  by (rule Packet_Decode_iff)

text \<open>
  A stream that ends inside a packet makes \<open>DecodeFrom\<close> fail: with \<open>io.EOF\<close> when it ends
  at a boundary of the length field (nothing of the packet, or only its header), with
  \<open>io.ErrUnexpectedEOF\<close> everywhere else. An \<open>io.EOF\<close> is therefore no proof that the
  peer stopped between packets.
\<close>

theorem DecodeFrom_truncated:
  assumes "k < Packet_Size p" and "length p \<le> MaxLength"
    and "\<not> c_closed r" and "concat (c_in r) = take k (frame p)" and "c_end r = IOError EOF"
  shows "\<exists>q r'. DecodeFrom conn_Read r =
    Return (q, Some (IOError (if k = 0 \<or> k = LengthSize then EOF else ErrUnexpectedEOF)), r')"
  using net_stream.DecodeFrom_cut [of r k p] assms
  by (auto simp: conn_pending_def conn_fin_def)

lemma DecodeFrom_truncated_witness:
  "\<exists>q r'. DecodeFrom conn_Read
     \<lparr>c_in = [[0], [3, 65]], c_end = IOError EOF, c_out = [], c_werr = None, c_closed = False\<rparr>
   = Return (q, Some (IOError ErrUnexpectedEOF), r')"
proof -
  have "[0, 3, 65] = take 3 (frame [65, 66, 67])" by (simp add: frame_def PutUint_eval)
  then show ?thesis
    using DecodeFrom_truncated [of 3 "[65, 66, 67]"
      "\<lparr>c_in = [[0], [3, 65]], c_end = IOError EOF, c_out = [], c_werr = None,
        c_closed = False\<rparr>"]
    by (simp add: Packet_Size_def packet_consts)
qed

section \<open>Reading and writing leave the other direction alone\<close>

text \<open>What every call of a reader keeps, \<open>DecodeFrom\<close> keeps.\<close>

definition reader_keeps :: "('r \<Rightarrow> 'x) \<Rightarrow> 'r reader \<Rightarrow> bool" where
  "reader_keeps f rd \<longleftrightarrow> (\<forall>r n bs e r'. rd r n = Return (bs, e, r') \<longrightarrow> f r' = f r)"

lemma ReadFull_loop_keeps:
  assumes rd: "reader_keeps f rd"
  shows "ReadFull_loop k rd r n acc = Return (bs, err, r') \<Longrightarrow> f r' = f r"
proof (induction k arbitrary: r n acc)
  case 0
  then show ?case by simp
next
  case (Suc k)
  then show ?case
    using rd unfolding reader_keeps_def
    by (auto simp: obind_eq_Return split: if_split_asm option.split_asm prod.split_asm)
qed

lemma ReadFull_keeps: "reader_keeps f rd \<Longrightarrow> ReadFull rd r n = Return (bs, err, r') \<Longrightarrow> f r' = f r"
  unfolding ReadFull_def by (rule ReadFull_loop_keeps)

lemma DecodeFrom_keeps:
  assumes "reader_keeps f rd" and "DecodeFrom rd r = Return (p, err, r')"
  shows "f r' = f r"
  using assms(2)
  by (auto simp: DecodeFrom_def obind_eq_Return dest!: ReadFull_keeps [OF assms(1)]
      split: prod.split_asm option.split_asm sum.split_asm)

lemma conn_Read_keeps: "reader_keeps c_out conn_Read" "reader_keeps c_closed conn_Read" "reader_keeps c_werr conn_Read"
  by (auto simp: reader_keeps_def conn_Read_def split: if_split_asm list.split_asm)

lemmas DecodeFrom_output = conn_Read_keeps [THEN DecodeFrom_keeps]

lemma Packet_WriteTo_input:
  assumes "Packet_WriteTo conn_Write p c = Return (n, err, c')"
  shows "conn_pending c' = conn_pending c"
  using assms conn_Write_input
  by (auto simp: Packet_WriteTo_def obind_eq_Return split: sum.split_asm prod.split_asm option.split_asm)

lemma Packet_WriteTo_c_in:
  assumes "Packet_WriteTo conn_Write p c = Return (n, err, c')"
  shows "c_in c' = c_in c"
  using assms
  by (auto simp: Packet_WriteTo_def conn_Write_def obind_eq_Return split: sum.split_asm prod.split_asm option.split_asm if_split_asm)

end
