(* ===== verification/Device.thy ===== *)
theory Device
  imports Go_IO
begin

text \<open>
  Package \<open>lib/device\<close>: the keys that identify a device, and the certificate of a device. The curve arithmetic is third-party
  code and a parameter; the source of randomness is a reader.
\<close>

type_synonym Key = bytes
type_synonym Identity = bytes
type_synonym X25519Key = bytes
type_synonym HMACKey = bytes

definition HmacKeySize :: nat where
  "HmacKeySize = 32"

text \<open>The key is \<open>nil\<close>, the empty slice, beside an error.\<close>

definition GenerateHMACKey :: "'r reader \<Rightarrow> 'r \<Rightarrow> (HMACKey \<times> error option \<times> 'r) outcome" where
  "GenerateHMACKey rd randSource =
     obind (ReadFull rd randSource HmacKeySize) (\<lambda>(key, err, r).
       Return (if err \<noteq> None then [] else key, err, r))"

record KeyPair =
  kp_Private :: Key
  kp_Public :: Identity

definition Key_X25519 :: "(Key \<Rightarrow> X25519Key) \<Rightarrow> Key \<Rightarrow> X25519Key" where
  "Key_X25519 EdPrivateKeyToX25519 k = EdPrivateKeyToX25519 k"

definition Identity_X25519 :: "(Identity \<Rightarrow> X25519Key option) \<Rightarrow> Identity \<Rightarrow> X25519Key outcome" where
  "Identity_X25519 EdPublicKeyToX25519 k =
     (case EdPublicKeyToX25519 k of
        None \<Rightarrow> Panic (PanicString ''failed to convert ed25519 public key to X25519 key'')
      | Some key \<Rightarrow> Return key)"

definition GenerateKeyPair ::
  "('r \<Rightarrow> Identity \<times> Key \<times> error option) \<Rightarrow> 'r \<Rightarrow> KeyPair \<times> error option" where
  "GenerateKeyPair GenerateKey reader =
     (case GenerateKey reader of
        (publicKey, privateKey, err) \<Rightarrow>
          (case err of
             Some e \<Rightarrow> (\<lparr>kp_Private = [], kp_Public = []\<rparr>, Some e)
           | None \<Rightarrow> (\<lparr>kp_Private = privateKey, kp_Public = publicKey\<rparr>, None)))"

definition KeyPair_Noise ::
  "(Key \<Rightarrow> X25519Key) \<Rightarrow> (Identity \<Rightarrow> X25519Key option) \<Rightarrow> KeyPair \<Rightarrow> (X25519Key \<times> X25519Key) outcome" where
  "KeyPair_Noise EdPrivateKeyToX25519 EdPublicKeyToX25519 k =
     obind (Identity_X25519 EdPublicKeyToX25519 (kp_Public k)) (\<lambda>pub.
       Return (Key_X25519 EdPrivateKeyToX25519 (kp_Private k), pub))"

text \<open>
  The certificate of a device. \<open>crypto/x509\<close> and \<open>crypto/tls\<close> are parameters: the encodings of a private key and of a certificate that is
  signed by itself (the errors of both are not looked at; the bytes are nil beside them), PEM, and the pair made of both. Times are in nanoseconds.
\<close>

record certTemplate =
  ct_SerialNumber :: int
  ct_NotBefore :: int
  ct_NotAfter :: int
  ct_KeyUsage :: string
  ct_ExtKeyUsage :: "string list"

record 'cert x509 =
  MarshalPKCS8PrivateKey :: "Key \<Rightarrow> bytes"
  CreateCertificate :: "certTemplate \<Rightarrow> certTemplate \<Rightarrow> Identity \<Rightarrow> Key \<Rightarrow> bytes"
  pem_Encode :: "string \<Rightarrow> bytes \<Rightarrow> bytes"
  X509KeyPair :: "bytes \<Rightarrow> bytes \<Rightarrow> error + 'cert"

text \<open>\<open>rand.Int\<close> gives a number below its bound.\<close>

definition randomSerialNumber :: "(int \<Rightarrow> error + int) \<Rightarrow> error + int" where
  "randomSerialNumber rand_Int = rand_Int (2 ^ 128)"

definition hour :: int where "hour = 3600 * 1000000000"

definition KeyPair_Certificate :: "'cert x509 \<Rightarrow> (int \<Rightarrow> error + int) \<Rightarrow> int \<Rightarrow> int \<Rightarrow> KeyPair \<Rightarrow> error + 'cert" where
  "KeyPair_Certificate x rand_Int now now' k =
     (case randomSerialNumber rand_Int of
        Inl e \<Rightarrow> Inl e
      | Inr serialNumber \<Rightarrow>
          let certificate_template = \<lparr>ct_SerialNumber = serialNumber, ct_NotBefore = now, ct_NotAfter = now' + hour * 24 * 365,
                ct_KeyUsage = ''KeyUsageDigitalSignature'', ct_ExtKeyUsage = [''ExtKeyUsageClientAuth'']\<rparr>;
              keyDer = MarshalPKCS8PrivateKey x (kp_Private k);
              certDer = CreateCertificate x certificate_template certificate_template (kp_Public k) (kp_Private k)
          in X509KeyPair x (pem_Encode x ''CERTIFICATE'' certDer) (pem_Encode x ''PRIVATE KEY'' keyDer))"

text \<open>
  What is documented of \<open>crypto/x509\<close>: a certificate made for a public key, with the private key as its own issuer, gives a pair that has this public key.
\<close>

definition certifies :: "'cert x509 \<Rightarrow> ('cert \<Rightarrow> Identity option) \<Rightarrow> KeyPair \<Rightarrow> bool" where
  "certifies x publicKey k \<longleftrightarrow>
     (\<forall>t. \<exists>cert. X509KeyPair x (pem_Encode x ''CERTIFICATE'' (CreateCertificate x t t (kp_Public k) (kp_Private k)))
        (pem_Encode x ''PRIVATE KEY'' (MarshalPKCS8PrivateKey x (kp_Private k))) = Inr cert \<and> publicKey cert = Some (kp_Public k))"

lemma Certificate_has_identity:
  assumes "certifies x publicKey k" and "randomSerialNumber rand_Int = Inr n"
  shows "\<exists>cert. KeyPair_Certificate x rand_Int now now' k = Inr cert \<and> publicKey cert = Some (kp_Public k)"
  using assms by (simp add: KeyPair_Certificate_def Let_def certifies_def)

context byte_stream
begin

lemma GenerateHMACKey_bytes:
  "if HmacKeySize \<le> length (pending r)
   then \<exists>r'. GenerateHMACKey rd r = Return (take HmacKeySize (pending r), None, r') \<and>
     pending r' = drop HmacKeySize (pending r)
   else \<exists>e r'. GenerateHMACKey rd r = Return ([], Some e, r')"
proof (cases "HmacKeySize \<le> length (pending r)")
  case True
  then show ?thesis using ReadFull_enough [OF True] by (auto simp: GenerateHMACKey_def)
next
  case False
  then show ?thesis using ReadFull_short [of r HmacKeySize] by (auto simp: GenerateHMACKey_def)
qed

end

end
