(* ===== verification/Secure.thy ===== *)
theory Secure
  imports Packet Device
begin

text \<open>
  Package \<open>lib/secure\<close>: an encrypted connection. A payload is encrypted, prefixed with the
  length of the ciphertext, which is authenticated too, and written in one piece; a read takes
  one such message from the connection and decrypts it. The Noise cipher is a parameter.

  The lemmas follow the segments in which the network delivers the stream (\<open>consume\<close>),
  because the header is read with a single \<open>Read\<close> and a cut inside it matters.
\<close>

section \<open>Sizes\<close>

definition TagSize :: nat where
  "TagSize = 16"

definition MessageMaxSize :: nat where
  "MessageMaxSize = 2 ^ 16 - 1"

definition PayloadMaxSize :: nat where
  "PayloadMaxSize = MessageMaxSize - TagSize"

definition MessageSize :: "nat \<Rightarrow> nat" where
  "MessageSize payloadLength = payloadLength + TagSize"

definition PayloadSize :: "nat \<Rightarrow> int" where
  "PayloadSize messageLength = int messageLength - int (MessageSize 0)"

lemmas secure_consts = TagSize_def MessageMaxSize_def PayloadMaxSize_def MessageSize_def PayloadSize_def

section \<open>Connections\<close>

text \<open>
  \<open>noise.CipherState\<close> is third-party code: \<open>Encrypt\<close> and \<open>Decrypt\<close> are parameters. They get
  the bytes to append to, the associated data and the text, and return the result, the error
  and the next cipher state.
\<close>

type_synonym 'c cipher = "'c \<Rightarrow> bytes \<Rightarrow> bytes \<Rightarrow> bytes \<Rightarrow> bytes \<times> error option \<times> 'c"

record 'c noiseConn =
  nc_Conn :: conn
  nc_identity :: Identity
  nc_peerIdentity :: Identity
  nc_writeCipher :: 'c
  nc_readCipher :: 'c

definition WrapConn :: "Identity \<Rightarrow> Identity \<Rightarrow> conn \<Rightarrow> 'c \<Rightarrow> 'c \<Rightarrow> 'c noiseConn" where
  "WrapConn identity peerIdentity conn writeCipher readCipher =
     \<lparr>nc_Conn = conn, nc_identity = identity, nc_peerIdentity = peerIdentity,
      nc_writeCipher = writeCipher, nc_readCipher = readCipher\<rparr>"

definition LocalIdentity :: "'c noiseConn \<Rightarrow> Identity" where
  "LocalIdentity c = nc_identity c"

definition RemoteIdentity :: "'c noiseConn \<Rightarrow> Identity" where
  "RemoteIdentity c = nc_peerIdentity c"

definition noiseConn_Write ::
  "'c cipher \<Rightarrow> 'c noiseConn \<Rightarrow> bytes \<Rightarrow> (nat \<times> error option \<times> 'c noiseConn) outcome" where
  "noiseConn_Write Encrypt c p =
     (let sz = MessageSize (length p) in
      if MessageMaxSize < sz then Return (0, Some (ErrorString ''noise message is too long''), c)
      else
        let lenBuf = Length_Bytes (of_nat sz) in
        (case Encrypt (nc_writeCipher c) lenBuf lenBuf p of
           (message, err, w) \<Rightarrow>
             let c1 = c\<lparr>nc_writeCipher := w\<rparr> in
             if int (length message) - int (length lenBuf) \<noteq> int sz
             then Panic (PanicString ''unexpected ciphertext length'')
             else (case err of
                 Some e \<Rightarrow> Return (0, Some e, c1)
               | None \<Rightarrow>
                   obind (conn_Write (nc_Conn c1) message) (\<lambda>(m, err, conn').
                     let c2 = c1\<lparr>nc_Conn := conn'\<rparr> in
                     case err of
                       Some e \<Rightarrow> Return (0, Some e, c2)
                     | None \<Rightarrow>
                         if m \<noteq> length message
                         then Return (0, Some (ErrorString ''failed to write entire payload''), c2)
                         else Return (length p, None, c2)))))"

text \<open>The end of \<open>Read\<close>, once the ciphertext is there.\<close>

definition decrypt_message ::
  "'c cipher \<Rightarrow> 'c noiseConn \<Rightarrow> Length \<Rightarrow> bytes \<Rightarrow> (bytes \<times> error option \<times> 'c noiseConn) outcome" where
  "decrypt_message Decrypt c sz ct =
     (case Decrypt (nc_readCipher c) [] (Length_Bytes sz) ct of
        (plaintext, err, r) \<Rightarrow>
          let c' = c\<lparr>nc_readCipher := r\<rparr> in
          (case err of
             Some e \<Rightarrow> Return ([], Some e, c')
           | None \<Rightarrow>
               if int (length plaintext) \<noteq> PayloadSize (unat sz)
               then Return ([], Some (ErrorString ''unexpected plaintext length''), c')
               else Return (plaintext, None, c')))"

text \<open>
  \<open>Read\<close> into a buffer of \<open>n\<close> bytes; the result is the plaintext at the start of it. The header
  is read with one call of the connection's \<open>Read\<close>.
\<close>

definition noiseConn_Read ::
  "'c cipher \<Rightarrow> 'c noiseConn \<Rightarrow> nat \<Rightarrow> (bytes \<times> error option \<times> 'c noiseConn) outcome" where
  "noiseConn_Read Decrypt c n =
     (if n < PayloadMaxSize then Return ([], Some (ErrorString ''buffer is too small''), c)
      else obind (conn_Read (nc_Conn c) LengthSize) (\<lambda>(lenBuf, err, conn1).
        let c1 = c\<lparr>nc_Conn := conn1\<rparr> in
        case err of
          Some e \<Rightarrow> Return ([], Some e, c1)
        | None \<Rightarrow>
            if length lenBuf \<noteq> LengthSize
            then Return ([], Some (ErrorString ''read invalid length field''), c1)
            else (case DecodeLength lenBuf of
                Inl e \<Rightarrow> Return ([], Some e, c1)
              | Inr sz \<Rightarrow>
                  if n < unat sz then Panic (RuntimePanic SliceBounds)
                  else obind (ReadFull conn_Read conn1 (unat sz)) (\<lambda>(ct, err, conn2).
                    let c2 = c1\<lparr>nc_Conn := conn2\<rparr> in
                    case err of
                      Some e \<Rightarrow> Return ([], Some e, c2)
                    | None \<Rightarrow>
                        decrypt_message Decrypt c2 sz ct))))"

text \<open>Several writes and reads in a row, each stopping at the first error.\<close>

fun write_payloads :: "'c cipher \<Rightarrow> 'c noiseConn \<Rightarrow> bytes list \<Rightarrow> (error option \<times> 'c noiseConn) outcome" where
  "write_payloads enc c [] = Return (None, c)"
| "write_payloads enc c (p # ps) =
     obind (noiseConn_Write enc c p) (\<lambda>(n, err, c').
       case err of Some e \<Rightarrow> Return (Some e, c') | None \<Rightarrow> write_payloads enc c' ps)"

fun read_payloads ::
  "'c cipher \<Rightarrow> nat \<Rightarrow> nat \<Rightarrow> 'c noiseConn \<Rightarrow> (bytes list \<times> error option \<times> 'c noiseConn) outcome" where
  "read_payloads dec n 0 c = Return ([], None, c)"
| "read_payloads dec n (Suc k) c =
     obind (noiseConn_Read dec c n) (\<lambda>(p, err, c').
       case err of
         Some e \<Rightarrow> Return ([], Some e, c')
       | None \<Rightarrow> obind (read_payloads dec n k c') (\<lambda>(ps, err, c''). Return (p # ps, err, c'')))"

section \<open>Segments\<close>

text \<open>The segments after \<open>n\<close> bytes, without leading empty ones.\<close>

fun consume :: "nat \<Rightarrow> bytes list \<Rightarrow> bytes list" where
  "consume n [] = []"
| "consume n (s # ss) = (if n < length s then drop n s # ss else consume (n - length s) ss)"

lemma consume_consume: "consume m (consume n ss) = consume (n + m) ss"
proof (induction n ss rule: consume.induct)
  case (2 n s ss)
  then show ?case by (auto simp: add.commute)
qed simp

lemma consume_0: "consume 0 ss = dropWhile (\<lambda>s. s = []) ss"
  by (induction ss) auto

lemma concat_consume: "concat (consume n ss) = drop n (concat ss)"
  by (induction n ss rule: consume.induct) auto

lemma conn_Read_consume:
  assumes "\<not> c_closed c" and "0 < n" and "consume 0 (c_in c) = s # ss"
  shows "\<exists>segs. conn_Read c n = Return (take n s, None, c\<lparr>c_in := segs\<rparr>) \<and>
    consume 0 segs = consume (min n (length s)) (c_in c) \<and> s \<noteq> []"
proof -
  have s: "s \<noteq> []" using assms(3) dropWhile_Nil_Cons by (simp add: consume_0)
  have "consume (min n (length s)) (c_in c) = consume (min n (length s)) (s # ss)"
    using consume_consume [of "min n (length s)" 0 "c_in c"] assms(3) by simp
  also have "\<dots> = consume 0 (drop n s # ss)" by (auto simp: min_def)
  finally show ?thesis
    using assms s by (auto simp: conn_Read_def consume_0 simp del: consume.simps)
qed

lemma ReadFull_loop_consume:
  "\<not> c_closed c \<Longrightarrow> n \<le> length (concat (c_in c)) \<Longrightarrow> n < k \<Longrightarrow>
   \<exists>segs. ReadFull_loop k conn_Read c n acc =
      Return (acc @ take n (concat (c_in c)), None, c\<lparr>c_in := segs\<rparr>) \<and>
    consume 0 segs = consume n (c_in c)"
proof (induction k arbitrary: c n acc)
  case (Suc k)
  show ?case
  proof (cases "n = 0")
    case True
    then show ?thesis by (auto intro!: exI [of _ "c_in c"])
  next
    case False
    then have "concat (c_in c) \<noteq> []" using Suc.prems(2) by (metis le_zero_eq list.size(3))
    then have "concat (consume 0 (c_in c)) \<noteq> []" by (simp only: concat_consume drop_0) simp
    then obtain s ss where s: "consume 0 (c_in c) = s # ss" by (cases "consume 0 (c_in c)") auto
    let ?j = "min n (length s)"
    obtain segs where r: "conn_Read c n = Return (take n s, None, c\<lparr>c_in := segs\<rparr>)"
      "consume 0 segs = consume ?j (c_in c)" "s \<noteq> []"
      using conn_Read_consume [OF Suc.prems(1) _ s] False by auto
    have all: "concat (c_in c) = s @ concat ss"
      using concat_consume [of 0 "c_in c"] s by simp
    have segs: "concat segs = drop ?j (concat (c_in c))"
      using concat_consume [of 0 segs] r(2) concat_consume [of ?j "c_in c"] by simp
    have "n - ?j \<le> length (concat segs)" "n - ?j < k"
      using Suc.prems segs False r(3) by (cases s; auto simp: min_def)+
    then obtain segs' where "ReadFull_loop k conn_Read (c\<lparr>c_in := segs\<rparr>) (n - ?j) (acc @ take n s) =
        Return ((acc @ take n s) @ take (n - ?j) (concat segs), None, c\<lparr>c_in := segs'\<rparr>)"
      "consume 0 segs' = consume (n - ?j) segs"
      using Suc.IH [of "c\<lparr>c_in := segs\<rparr>" "n - ?j" "acc @ take n s"] Suc.prems(1) by auto
    moreover have "consume (n - ?j) segs = consume n (c_in c)"
      using consume_consume [of "n - ?j" 0 segs] r(2) consume_consume [of "n - ?j" ?j "c_in c"] by simp
    moreover have "take n s @ take (n - ?j) (concat segs) = take n (concat (c_in c))"
      by (simp add: segs all min_def)
    ultimately show ?thesis using r(1) False by (auto simp: min.commute)
  qed
qed simp

lemma ReadFull_consume:
  "\<not> c_closed c \<Longrightarrow> n \<le> length (concat (c_in c)) \<Longrightarrow>
   \<exists>segs. ReadFull conn_Read c n = Return (take n (concat (c_in c)), None, c\<lparr>c_in := segs\<rparr>) \<and>
    consume 0 segs = consume n (c_in c)"
  unfolding ReadFull_def using ReadFull_loop_consume [of c n "Suc n" "[]"] by simp

text \<open>No segment ends inside the two header bytes of one of the frames.\<close>

fun headers_whole :: "bytes list \<Rightarrow> bytes list \<Rightarrow> bool" where
  "headers_whole [] ss = True"
| "headers_whole (f # fs) ss =
     ((case consume 0 ss of [] \<Rightarrow> False | s # _ \<Rightarrow> LengthSize \<le> length s) \<and>
      headers_whole fs (consume (length f) ss))"

section \<open>Ciphers\<close>

text \<open>
  What the code relies on in a pair of cipher states that a handshake made for one direction:
  for \<open>k\<close> more messages (the nonce has 64 bits) encryption succeeds, adds a tag, and the other
  state decrypts with the same associated data. \<open>matched\<close> relates the states that belong
  together.
\<close>

definition cipher_pair ::
  "'c cipher \<Rightarrow> 'c cipher \<Rightarrow> (nat \<Rightarrow> 'c \<Rightarrow> 'c \<Rightarrow> bool) \<Rightarrow> bool" where
  "cipher_pair enc dec matched \<longleftrightarrow>
     (\<forall>k w r ad p. matched (Suc k) w r \<longrightarrow>
        (\<exists>ct w' r'. (\<forall>pre. enc w pre ad p = (pre @ ct, None, w')) \<and> length ct = length p + TagSize \<and>
           dec r [] ad ct = (p, None, r') \<and> matched k w' r'))"

text \<open>The ciphertexts for a list of payloads.\<close>

fun ciphertexts :: "'c cipher \<Rightarrow> 'c \<Rightarrow> bytes list \<Rightarrow> bytes list" where
  "ciphertexts enc w [] = []"
| "ciphertexts enc w (p # ps) =
     (let ad = Length_Bytes (of_nat (MessageSize (length p)));
          (ct, err, w') = enc w [] ad p
      in ct # ciphertexts enc w' ps)"

lemma cipher_pairD:
  assumes "cipher_pair enc dec matched" and "matched (Suc k) w r"
  obtains ct w' r' where "\<And>pre. enc w pre ad p = (pre @ ct, None, w')" "length ct = length p + TagSize"
    "dec r [] ad ct = (p, None, r')" "matched k w' r'"
  using assms unfolding cipher_pair_def by meson

lemma write_one:
  assumes enc: "\<And>pre. enc (nc_writeCipher a) pre (Length_Bytes (of_nat (MessageSize (length p)))) p = (pre @ ct, None, w)"
    and len: "length ct = length p + TagSize" "length p \<le> PayloadMaxSize" and conn: "conn_healthy (nc_Conn a)"
  shows "\<exists>conn'. noiseConn_Write enc a p =
      Return (length p, None, a\<lparr>nc_writeCipher := w, nc_Conn := conn'\<rparr>) \<and>
    conn_healthy conn' \<and> c_out conn' = c_out (nc_Conn a) @ frame ct"
proof -
  let ?h = "Length_Bytes (of_nat (MessageSize (length p)))"
  have fr: "?h @ ct = frame ct" using len by (simp add: frame_def Length_Bytes_def MessageSize_def)
  have sz: "\<not> MessageMaxSize < MessageSize (length p)" using len(2) by (simp add: secure_consts)
  have len': "length ?h = 2" "length ct = MessageSize (length p)"
    using len(1) by (simp_all add: Length_Bytes_def MessageSize_def)
  show ?thesis
    using sz len' conn_Write_healthy [OF conn, of "?h @ ct"] conn
    by (auto simp: noiseConn_Write_def Let_def enc conn_healthy_def simp flip: fr)
qed

lemma read_one:
  assumes c: "\<not> c_closed (nc_Conn b)" "concat (c_in (nc_Conn b)) = frame ct @ rest"
    and hd: "consume 0 (c_in (nc_Conn b)) = s # ss" "LengthSize \<le> length s"
    and len: "length ct = length p + TagSize" "length p \<le> PayloadMaxSize" "MessageMaxSize \<le> n"
    and dec: "dec (nc_readCipher b) [] (Length_Bytes (of_nat (MessageSize (length p)))) ct = (p, None, r)"
  shows "\<exists>segs. noiseConn_Read dec b n =
      Return (p, None, b\<lparr>nc_Conn := (nc_Conn b)\<lparr>c_in := segs\<rparr>, nc_readCipher := r\<rparr>) \<and>
    consume 0 segs = consume (length (frame ct)) (c_in (nc_Conn b)) \<and> concat segs = rest"
proof -
  let ?c = "nc_Conn b" and ?h = "Length_Bytes (of_nat (MessageSize (length p)))"
  have ms: "length ct \<le> MaxLength" using len by (simp add: secure_consts packet_consts)
  have sz: "unat (of_nat (MessageSize (length p)) :: Length) = length ct"
    using frame_length_field [OF ms] len(1) by (simp add: MessageSize_def)
  obtain segs1 where r1: "conn_Read ?c LengthSize = Return (take LengthSize s, None, ?c\<lparr>c_in := segs1\<rparr>)"
    "consume 0 segs1 = consume LengthSize (c_in ?c)"
    using conn_Read_consume [OF c(1) _ hd(1), of LengthSize] hd(2) by (auto simp: min_def packet_consts)
  have "concat (c_in ?c) = s @ concat ss" using concat_consume [of 0 "c_in ?c"] hd(1) by simp
  then have "take LengthSize s = take LengthSize (concat (c_in ?c))" using hd(2) by simp
  also have "\<dots> = ?h" using take_drop_frame(1) len(1) c(2) by (simp add: Length_Bytes_def MessageSize_def)
  finally have h: "take LengthSize s = ?h" .
  have rest1: "concat segs1 = ct @ rest"
    using concat_consume [of 0 segs1] r1(2) concat_consume [of LengthSize "c_in ?c"] c(2) take_drop_frame(2) by simp
  obtain segs where r2: "ReadFull conn_Read (?c\<lparr>c_in := segs1\<rparr>) (length ct) =
      Return (ct, None, ?c\<lparr>c_in := segs\<rparr>)" "consume 0 segs = consume (length ct) segs1"
    using ReadFull_consume [of "?c\<lparr>c_in := segs1\<rparr>" "length ct"] c(1) rest1 by auto
  have "consume (length ct) segs1 = consume (length (frame ct)) (c_in ?c)"
    using consume_consume [of "length ct" 0 segs1] r1(2) consume_consume [of "length ct" LengthSize "c_in ?c"]
    by (simp add: Packet_Size_def)
  moreover have "concat segs = rest"
    using concat_consume [of 0 segs] r2(2) concat_consume [of "length ct" segs1] rest1 by simp
  moreover have "noiseConn_Read dec b n =
      Return (p, None, b\<lparr>nc_Conn := ?c\<lparr>c_in := segs\<rparr>, nc_readCipher := r\<rparr>)"
    using len r1(1) r2(1) h sz dec ms
    by (simp add: noiseConn_Read_def decrypt_message_def Let_def DecodeLength_Bytes) (simp add: Length_Bytes_def secure_consts packet_consts)
  ultimately show ?thesis using r2(2) by auto
qed

lemma write_payloads_frames:
  assumes cp: "cipher_pair enc dec matched"
  shows "matched (length ps) (nc_writeCipher a) r \<Longrightarrow> \<forall>p\<in>set ps. length p \<le> PayloadMaxSize \<Longrightarrow>
    conn_healthy (nc_Conn a) \<Longrightarrow>
    \<exists>a'. write_payloads enc a ps = Return (None, a') \<and>
      c_out (nc_Conn a') = c_out (nc_Conn a) @ concat (map frame (ciphertexts enc (nc_writeCipher a) ps))"
proof (induction ps arbitrary: a r)
  case (Cons p ps)
  let ?ad = "Length_Bytes (of_nat (MessageSize (length p)))"
  from Cons.prems(1) have "matched (Suc (length ps)) (nc_writeCipher a) r" by simp
  then obtain ct w' r' where ct: "\<And>pre. enc (nc_writeCipher a) pre ?ad p = (pre @ ct, None, w')"
    "length ct = length p + TagSize" "matched (length ps) w' r'"
    using cipher_pairD [OF cp, of "length ps" "nc_writeCipher a" r ?ad p] by metis
  obtain conn' where w: "noiseConn_Write enc a p =
      Return (length p, None, a\<lparr>nc_writeCipher := w', nc_Conn := conn'\<rparr>)"
    "conn_healthy conn'" "c_out conn' = c_out (nc_Conn a) @ frame ct"
    using write_one [of enc a p ct w', OF ct(1,2)] Cons.prems by auto
  from Cons.IH [of "a\<lparr>nc_writeCipher := w', nc_Conn := conn'\<rparr>" r'] ct(3) Cons.prems(2) w(2)
  obtain a' where a': "write_payloads enc (a\<lparr>nc_writeCipher := w', nc_Conn := conn'\<rparr>) ps = Return (None, a')"
    "c_out (nc_Conn a') = c_out conn' @ concat (map frame (ciphertexts enc w' ps))" by auto
  show ?case using w a' ct(1) by (simp add: Let_def)
qed simp

lemma read_payloads_frames:
  assumes cp: "cipher_pair enc dec matched" and n: "MessageMaxSize \<le> n"
  shows "matched (length ps) w (nc_readCipher b) \<Longrightarrow> \<forall>p\<in>set ps. length p \<le> PayloadMaxSize \<Longrightarrow>
    \<not> c_closed (nc_Conn b) \<Longrightarrow>
    concat (c_in (nc_Conn b)) = concat (map frame (ciphertexts enc w ps)) @ rest \<Longrightarrow>
    headers_whole (map frame (ciphertexts enc w ps)) (c_in (nc_Conn b)) \<Longrightarrow>
    \<exists>b'. read_payloads dec n (length ps) b = Return (ps, None, b')"
proof (induction ps arbitrary: b w)
  case (Cons p ps)
  let ?ad = "Length_Bytes (of_nat (MessageSize (length p)))"
  from Cons.prems(1) have "matched (Suc (length ps)) w (nc_readCipher b)" by simp
  then obtain ct w' r' where ct: "\<And>pre. enc w pre ?ad p = (pre @ ct, None, w')"
    "length ct = length p + TagSize" "dec (nc_readCipher b) [] ?ad ct = (p, None, r')" "matched (length ps) w' r'"
    using cipher_pairD [OF cp, of "length ps" w "nc_readCipher b" ?ad p] by metis
  have cts: "ciphertexts enc w (p # ps) = ct # ciphertexts enc w' ps" using ct(1) by (simp add: Let_def)
  obtain s ss where s: "consume 0 (c_in (nc_Conn b)) = s # ss" "LengthSize \<le> length s"
    using Cons.prems(5) unfolding cts by (auto split: list.splits)
  obtain segs where r: "noiseConn_Read dec b n =
      Return (p, None, b\<lparr>nc_Conn := (nc_Conn b)\<lparr>c_in := segs\<rparr>, nc_readCipher := r'\<rparr>)"
    "consume 0 segs = consume (length (frame ct)) (c_in (nc_Conn b))"
    "concat segs = concat (map frame (ciphertexts enc w' ps)) @ rest"
    using read_one [of b ct "concat (map frame (ciphertexts enc w' ps)) @ rest" s ss p n dec r',
        OF Cons.prems(3) _ s ct(2) _ n ct(3)] Cons.prems(2,4) unfolding cts by auto
  have start: "headers_whole fs (consume 0 ts) \<longleftrightarrow> headers_whole fs ts" for fs ts
    by (cases fs) (simp_all add: consume_consume)
  have "headers_whole (map frame (ciphertexts enc w' ps)) segs"
    using Cons.prems(5) r(2) start [of _ segs] unfolding cts by simp
  with Cons.IH [of w' "b\<lparr>nc_Conn := (nc_Conn b)\<lparr>c_in := segs\<rparr>, nc_readCipher := r'\<rparr>"] ct(4) Cons.prems(2,3) r(3)
  show ?case using r(1) by auto
qed simp

lemma payloads_roundtrip:
  assumes "cipher_pair enc dec matched" and "matched (length ps) (nc_writeCipher a) (nc_readCipher b)"
    and "\<forall>p\<in>set ps. length p \<le> PayloadMaxSize" and "MessageMaxSize \<le> n"
    and "conn_healthy (nc_Conn a)" and "c_out (nc_Conn a) = []" and "\<not> c_closed (nc_Conn b)"
  shows "\<exists>a'. write_payloads enc a ps = Return (None, a') \<and>
    (concat (c_in (nc_Conn b)) = c_out (nc_Conn a') @ rest \<longrightarrow>
     headers_whole (map frame (ciphertexts enc (nc_writeCipher a) ps)) (c_in (nc_Conn b)) \<longrightarrow>
      (\<exists>b'. read_payloads dec n (length ps) b = Return (ps, None, b')))"
proof -
  let ?fs = "map frame (ciphertexts enc (nc_writeCipher a) ps)"
  obtain a' where "write_payloads enc a ps = Return (None, a')" "c_out (nc_Conn a') = concat ?fs"
    using write_payloads_frames [OF assms(1,2,3,5)] assms(6) by auto
  then show ?thesis
    using read_payloads_frames [OF assms(1,4) assms(2,3,7)] by (intro exI [of _ a']) auto
qed

text \<open>
  C20. Payloads survive an encrypted connection: written in order on one side they are read in
  the same order on the other side, for every way the network cuts the stream as long as no
  cut falls between the two bytes of a length header (there \<open>Read\<close> fails, \<open>Read_split_header_fails\<close>).
\<close>

theorem secure_roundtrip:
  assumes "cipher_pair enc dec matched" and "matched (length ps) (nc_writeCipher a) (nc_readCipher b)"
    and "\<forall>p\<in>set ps. length p \<le> PayloadMaxSize" and "MessageMaxSize \<le> n"
    and "conn_healthy (nc_Conn a)" and "c_out (nc_Conn a) = []" and "\<not> c_closed (nc_Conn b)"
  shows "\<exists>a'. write_payloads enc a ps = Return (None, a') \<and>
    (concat (c_in (nc_Conn b)) = c_out (nc_Conn a') @ rest \<longrightarrow>
     headers_whole (map frame (ciphertexts enc (nc_writeCipher a) ps)) (c_in (nc_Conn b)) \<longrightarrow>
      (\<exists>b'. read_payloads dec n (length ps) b = Return (ps, None, b')))"
  using assms by (rule payloads_roundtrip)

text \<open>For the witnesses: a cipher that appends a tag of zeros and counts messages.\<close>

definition tag_cipher :: "nat cipher" where
  "tag_cipher w pre ad p = (pre @ p @ replicate TagSize 0, None, Suc w)"

definition untag_cipher :: "nat cipher" where
  "untag_cipher r pre ad ct = (pre @ take (length ct - TagSize) ct, None, Suc r)"

theorem secure_roundtrip_witness:
  "\<exists>a' b'. write_payloads tag_cipher (WrapConn [] [] \<lparr>c_in = [], c_end = IOError EOF, c_out = [],
       c_werr = None, c_closed = False\<rparr> 0 0) [[1], [2, 3]] = Return (None, a') \<and>
     read_payloads untag_cipher MessageMaxSize (length [[1], [2, 3 :: byte]])
       (WrapConn [] [] \<lparr>c_in = [[0, 17, 1], replicate 16 0 @ [0, 18, 2, 3], replicate 16 0],
          c_end = IOError EOF, c_out = [], c_werr = None, c_closed = False\<rparr> 0 0) =
       Return ([[1], [2, 3]], None, b')"
proof -
  let ?a = "WrapConn [] [] \<lparr>c_in = [], c_end = IOError EOF, c_out = [], c_werr = None, c_closed = False\<rparr> (0 :: nat) 0"
  let ?segs = "[[0, 17, 1], replicate 16 0 @ [0, 18, 2, 3], replicate 16 (0 :: byte)]"
  let ?b = "WrapConn [] [] \<lparr>c_in = ?segs, c_end = IOError EOF, c_out = [], c_werr = None, c_closed = False\<rparr> (0 :: nat) 0"
  let ?fs = "map frame (ciphertexts tag_cipher 0 [[1], [2, 3]])"
  have "cipher_pair tag_cipher untag_cipher (\<lambda>k w r. True)"
    by (simp add: cipher_pair_def tag_cipher_def untag_cipher_def)
  from secure_roundtrip [OF this, where ps = "[[1], [2, 3]]" and a = ?a and b = ?b
      and n = MessageMaxSize and rest = "[]"]
  obtain a' where a': "write_payloads tag_cipher ?a [[1], [2, 3]] = Return (None, a')"
    and r: "concat ?segs = c_out (nc_Conn a') \<longrightarrow> headers_whole ?fs ?segs \<longrightarrow>
      (\<exists>b'. read_payloads untag_cipher MessageMaxSize (length [[1], [2, 3 :: byte]]) ?b = Return ([[1], [2, 3]], None, b'))"
    by (auto simp: WrapConn_def conn_healthy_def secure_consts)
  have fs: "?fs = [[0, 17, 1] @ replicate 16 0, [0, 18, 2, 3] @ replicate 16 0]"
    by (simp add: tag_cipher_def frame_def PutUint_eval TagSize_def)
  have "c_out (nc_Conn a') = concat ?fs"
    using write_payloads_frames [OF \<open>cipher_pair _ _ _\<close>, where ps = "[[1], [2, 3]]" and a = ?a] a'
    by (simp add: WrapConn_def conn_healthy_def secure_consts)
  then have "concat ?segs = c_out (nc_Conn a')" by (simp only: fs) simp
  moreover have "headers_whole ?fs ?segs" by (simp only: fs) (simp add: packet_consts)
  ultimately show ?thesis using a' r by blast
qed

text \<open>
  A length header that arrives in two segments is not read: the first call of \<open>Read\<close> gives
  one byte, which is reported as an invalid length field and lost.
\<close>

theorem Read_split_header_fails:
  assumes "PayloadMaxSize \<le> n" and "\<not> c_closed (nc_Conn c)" and "c_in (nc_Conn c) = [x] # ss"
  shows "noiseConn_Read dec c n = Return ([], Some (ErrorString ''read invalid length field''),
    c\<lparr>nc_Conn := (nc_Conn c)\<lparr>c_in := [] # ss\<rparr>\<rparr>)"
  using assms by (simp add: noiseConn_Read_def conn_Read_def Let_def packet_consts)

theorem Read_split_header_fails_witness:
  "\<exists>c. noiseConn_Read untag_cipher (WrapConn [] [] \<lparr>c_in = [[0], [17]], c_end = IOError EOF, c_out = [],
      c_werr = None, c_closed = False\<rparr> 0 0) MessageMaxSize =
     Return ([], Some (ErrorString ''read invalid length field''), c)"
  using Read_split_header_fails [where n = MessageMaxSize and c = "WrapConn [] [] \<lparr>c_in = [[0], [17]],
      c_end = IOError EOF, c_out = [], c_werr = None, c_closed = False\<rparr> 0 0" and dec = untag_cipher
      and x = 0 and ss = "[[17]]"]
  by (simp add: WrapConn_def secure_consts)

section \<open>Authenticity\<close>

text \<open>
  An ideal cipher state for a log of messages sent (associated data, ciphertext, plaintext): it
  decrypts exactly the next message of the log and reports an error for anything else, which
  leaves it as it is.
\<close>

definition rejects :: "'c cipher \<Rightarrow> 'c \<Rightarrow> bytes \<Rightarrow> bytes \<Rightarrow> bool" where
  "rejects dec r ad ct \<longleftrightarrow> (\<exists>x e. dec r [] ad ct = (x, Some e, r))"

fun authentic :: "'c cipher \<Rightarrow> 'c \<Rightarrow> (bytes \<times> bytes \<times> bytes) list \<Rightarrow> bool" where
  "authentic dec r [] \<longleftrightarrow> (\<forall>ad ct. rejects dec r ad ct)"
| "authentic dec r ((ad, ct, p) # log) \<longleftrightarrow>
     (\<exists>r'. dec r [] ad ct = (p, None, r') \<and> authentic dec r' log) \<and>
     (\<forall>ad' ct'. (ad', ct') \<noteq> (ad, ct) \<longrightarrow> rejects dec r ad' ct')"

lemma Read_authentic:
  assumes "authentic dec (nc_readCipher c) log" and "noiseConn_Read dec c n = Return (p, None, c')"
  shows "\<exists>ad ct log'. log = (ad, ct, p) # log' \<and> authentic dec (nc_readCipher c') log'"
proof -
  obtain c2 sz ct where c2: "decrypt_message dec c2 sz ct = Return (p, None, c')" "nc_readCipher c2 = nc_readCipher c"
    using assms(2)
    by (fastforce simp: noiseConn_Read_def Let_def obind_eq_Return
        split: if_split_asm option.split_asm sum.split_asm)
  let ?ad = "Length_Bytes sz"
  obtain r where d: "dec (nc_readCipher c) [] ?ad ct = (p, None, r)" "nc_readCipher c' = r"
    using c2
    by (auto simp: decrypt_message_def Let_def split: if_split_asm prod.split_asm option.split_asm)
  show ?thesis
  proof (cases log)
    case Nil
    then have "rejects dec (nc_readCipher c) ?ad ct" using assms(1) by simp
    then show ?thesis using d(1) by (simp add: rejects_def)
  next
    case (Cons m log')
    obtain ad1 ct1 p1 where m: "m = (ad1, ct1, p1)" by (cases m)
    have "(?ad, ct) = (ad1, ct1)"
    proof (rule ccontr)
      assume "(?ad, ct) \<noteq> (ad1, ct1)"
      then have "rejects dec (nc_readCipher c) ?ad ct" using assms(1) Cons m by simp
      then show False using d(1) by (simp add: rejects_def)
    qed
    then show ?thesis using assms(1) d Cons m by auto
  qed
qed

text \<open>
  C21. Whatever bytes the network delivers, the payloads read are the ones sent, in the order
  they were sent and from the first: with an ideal cipher an attacker can only make a read fail.
\<close>

theorem reads_are_authentic:
  assumes "authentic dec (nc_readCipher c) log" and "read_payloads dec n k c = Return (ps, err, c')"
  shows "ps = take (length ps) (map (\<lambda>(ad, ct, p). p) log) \<and> length ps \<le> length log"
  using assms
proof (induction k arbitrary: c log ps)
  case (Suc k)
  obtain p err1 c1 where r: "noiseConn_Read dec c n = Return (p, err1, c1)"
    using Suc.prems(2) by (auto simp: obind_eq_Return)
  show ?case
  proof (cases err1)
    case (Some e)
    then show ?thesis using Suc.prems(2) r by simp
  next
    case None
    obtain ad ct log' where l: "log = (ad, ct, p) # log'" "authentic dec (nc_readCipher c1) log'"
      using Read_authentic [OF Suc.prems(1)] r None by blast
    obtain qs where "read_payloads dec n k c1 = Return (qs, err, c')" "ps = p # qs"
      using Suc.prems(2) r None by (auto simp: obind_eq_Return)
    then show ?thesis using Suc.IH [OF l(2)] l(1) by auto
  qed
qed simp

theorem reads_are_authentic_witness:
  "\<exists>ps err c'. read_payloads (\<lambda>r pre ad ct. if r = 0 \<and> ad = [0, 17] \<and> ct = 5 # replicate 16 7
        then ([5], None, 1 :: nat) else ([], Some (IOError EOF), r)) MessageMaxSize 1
      (WrapConn [] [] \<lparr>c_in = [[0, 17], 5 # replicate 16 8], c_end = IOError EOF, c_out = [],
        c_werr = None, c_closed = False\<rparr> 0 0) = Return (ps, err, c') \<and> length ps \<le> 1 \<and> ps \<noteq> [[5]]"
proof -
  let ?dec = "\<lambda>r pre ad ct. if r = 0 \<and> ad = [0, 17] \<and> ct = 5 # replicate 16 7
        then ([5], None, 1 :: nat) else ([], Some (IOError EOF), r)"
  let ?conn = "\<lparr>c_in = [[0, 17], 5 # replicate 16 8], c_end = IOError EOF, c_out = [], c_werr = None, c_closed = False\<rparr>"
  let ?c = "WrapConn [] [] ?conn (0 :: nat) 0"
  have auth: "authentic ?dec (nc_readCipher ?c) [([0, 17], 5 # replicate 16 7, [5])]"
    by (auto simp: rejects_def WrapConn_def)
  have sizes: "\<not> MessageMaxSize < PayloadMaxSize" "\<not> MessageMaxSize < 17" by (simp_all add: secure_consts)
  have "PutUint16 17 = [0, 17]" by (simp add: PutUint_eval)
  then have len: "DecodeLength [0, 17] = Inr 17" "Length_Bytes 17 = [0, 17]"
    using DecodeLength_Bytes [of 17] by (simp_all add: Length_Bytes_def)
  have hdr: "conn_Read ?conn LengthSize = Return ([0, 17], None, ?conn\<lparr>c_in := [[], 5 # replicate 16 8]\<rparr>)"
    by (simp add: conn_Read_def packet_consts)
  have body: "ReadFull conn_Read (?conn\<lparr>c_in := [[], 5 # replicate 16 8]\<rparr>) 17 =
      Return (5 # replicate 16 8, None, ?conn\<lparr>c_in := [[]]\<rparr>)"
    by (subst ReadFull_one_call) (simp_all add: conn_Read_def)
  have "\<exists>c'. noiseConn_Read ?dec ?c MessageMaxSize = Return ([], Some (IOError EOF), c')"
    using sizes len hdr body
    by (simp add: noiseConn_Read_def decrypt_message_def Let_def WrapConn_def) (simp add: packet_consts)
  then obtain c' where "read_payloads ?dec MessageMaxSize 1 ?c = Return ([], Some (IOError EOF), c')" by auto
  then show ?thesis using reads_are_authentic [OF auth] by fastforce
qed

end
