(* ===== verification/Channel.thy ===== *)
theory Channel
  imports File_Transfer Secure
begin

text \<open>
  \<open>lib/session/channel.go\<close>: the channels that share one encrypted connection. Each side numbers
  its channels with a factory, wraps the messages of a channel into messages of the session
  and unwraps them on the other side. The lemmas show that the ids of the two sides never
  collide, that a message survives wrapping, marshalling and the way back, and that a message
  that is not refused as too large fits into one message of the connection.
\<close>

section \<open>Messages of a session (session.proto)\<close>

type_synonym ChannelId = uint64

record Data =
  dt_ChannelId :: ChannelId
  dt_MessageType :: uint32
  dt_Payload :: bytes

datatype content =
    Message_Open ChannelId uint32
  | Message_Accept ChannelId
  | Message_Close ChannelId
  | Message_Data Data
  | Message_Unknown

text \<open>A message is its \<open>oneof\<close> content, which may be missing.\<close>

type_synonym session_message = "content option"

text \<open>
  Protobuf is third-party code: \<open>proto.Marshal\<close> and \<open>proto.Unmarshal\<close> are parameters, for the
  messages of the session and for those of the protocol that a channel speaks. \<open>Unmarshal\<close>
  works on a message that \<open>NewMessage\<close> made and leaves something in it also on an error.
\<close>

record 'm codec =
  Marshal :: "session_message \<Rightarrow> error + bytes"
  Unmarshal :: "bytes \<Rightarrow> error + session_message"
  Marshal_m :: "'m \<Rightarrow> error + bytes"
  Unmarshal_m :: "bytes \<Rightarrow> 'm \<Rightarrow> error option \<times> 'm"

text \<open>The interface \<open>protocol.Protocol\<close> of lib/protocol/protocol.go.\<close>

record 'm Protocol =
  pr_Id :: uint32
  pr_RawTypeOf :: "'m \<Rightarrow> uint32 outcome"
  pr_NewMessage :: "uint32 \<Rightarrow> error + 'm"

text \<open>The file transfer as a protocol (lib/session/transfer/transfer.go).\<close>

definition transfer_protocol :: "message Protocol" where
  "transfer_protocol = \<lparr>pr_Id = Protocol_Id, pr_RawTypeOf = RawTypeOf, pr_NewMessage = NewMessage\<rparr>"

section \<open>Sizes\<close>

definition max_data :: Data where
  "max_data = \<lparr>dt_ChannelId = 18446744073709551615, dt_MessageType = 2147483647,
     dt_Payload = replicate PayloadMaxSize 0\<rparr>"

definition ComputePayloadMaxSize :: "'m codec \<Rightarrow> int" where
  "ComputePayloadMaxSize cd =
     (case Marshal cd (Some (Message_Data max_data)) of
        Inl e \<Rightarrow> int PayloadMaxSize - 256
      | Inr encoded \<Rightarrow>
          let tooMuch = int (length encoded) - int PayloadMaxSize in int PayloadMaxSize - tooMuch)"

text \<open>
  The variable \<open>payloadMaxSize\<close> of the package with its \<open>sync.Once\<close>, which every \<open>NewChannelHandle\<close> runs. So all handles, which read the
  variable, see the computed size.
\<close>

record payload_vars =
  pv_payloadMaxSize :: int
  pv_InitOnce :: bool

definition payload_vars_init :: payload_vars where
  "payload_vars_init = \<lparr>pv_payloadMaxSize = 0, pv_InitOnce = False\<rparr>"

definition initPayloadMaxSize :: "'m codec \<Rightarrow> payload_vars \<Rightarrow> payload_vars" where
  "initPayloadMaxSize cd v = v\<lparr>pv_payloadMaxSize := ComputePayloadMaxSize cd\<rparr>"

definition Once_Do :: "(payload_vars \<Rightarrow> payload_vars) \<Rightarrow> payload_vars \<Rightarrow> payload_vars" where
  "Once_Do f v = (if pv_InitOnce v then v else (f v)\<lparr>pv_InitOnce := True\<rparr>)"

lemma payload_size_initialised:
  "((Once_Do (initPayloadMaxSize cd)) ^^ Suc n) payload_vars_init = \<lparr>pv_payloadMaxSize = ComputePayloadMaxSize cd, pv_InitOnce = True\<rparr>"
  by (induction n) (simp_all add: Once_Do_def initPayloadMaxSize_def payload_vars_init_def)

section \<open>Channel ids\<close>

definition firstChannelId :: ChannelId where "firstChannelId = 1"

definition channelIdIncrement :: ChannelId where "channelIdIncrement = 2"

record ChannelFactory =
  cf_nextId :: ChannelId

definition NewChannelFactory :: "bool \<Rightarrow> ChannelFactory" where
  "NewChannelFactory initiator =
     (let factory = \<lparr>cf_nextId = firstChannelId\<rparr> in
      if \<not> initiator then factory\<lparr>cf_nextId := cf_nextId factory + 1\<rparr> else factory)"

section \<open>Channel handles\<close>

record 'm channelHandle =
  h_protocol :: "'m Protocol"
  h_id :: ChannelId

definition NewChannelHandle :: "'m Protocol \<Rightarrow> ChannelId \<Rightarrow> 'm channelHandle" where
  "NewChannelHandle protocol channelId = \<lparr>h_protocol = protocol, h_id = channelId\<rparr>"

definition CreateChannelHandle ::
  "ChannelFactory \<Rightarrow> 'm Protocol \<Rightarrow> 'm channelHandle \<times> ChannelFactory" where
  "CreateChannelHandle f protocol =
     (let cid = cf_nextId f in
      (NewChannelHandle protocol cid, f\<lparr>cf_nextId := cf_nextId f + channelIdIncrement\<rparr>))"

definition handle_Type :: "'m channelHandle \<Rightarrow> uint32" where
  "handle_Type c = pr_Id (h_protocol c)"

definition OpenMessage :: "'m channelHandle \<Rightarrow> session_message" where
  "OpenMessage c = Some (Message_Open (h_id c) (handle_Type c))"

definition AcceptMessage :: "'m channelHandle \<Rightarrow> session_message" where
  "AcceptMessage c = Some (Message_Accept (h_id c))"

definition CloseMessage :: "'m channelHandle \<Rightarrow> session_message" where
  "CloseMessage c = Some (Message_Close (h_id c))"

definition WrapMessage :: "'m codec \<Rightarrow> 'm channelHandle \<Rightarrow> 'm \<Rightarrow> (error + session_message) outcome" where
  "WrapMessage cd c message =
     (case Marshal_m cd message of
        Inl e \<Rightarrow> Return (Inl e)
      | Inr payload \<Rightarrow>
          if ComputePayloadMaxSize cd < int (length payload)
          then Return (Inl (ChannelError PayloadTooLarge))
          else obind (pr_RawTypeOf (h_protocol c) message) (\<lambda>t.
            Return (Inr (Some (Message_Data
              \<lparr>dt_ChannelId = h_id c, dt_MessageType = t, dt_Payload = payload\<rparr>)))))"

definition MarshalMessage :: "'m codec \<Rightarrow> 'm channelHandle \<Rightarrow> 'm \<Rightarrow> (error + bytes) outcome" where
  "MarshalMessage cd c message =
     obind (WrapMessage cd c message) (\<lambda>r.
       case r of Inl e \<Rightarrow> Return (Inl e) | Inr result \<Rightarrow> Return (Marshal cd result))"

section \<open>Channel messages\<close>

datatype ChannelMessageType =
    ChannelMessageTypeOpen
  | ChannelMessageTypeAccept
  | ChannelMessageTypeClose
  | ChannelMessageTypeData

fun ChannelMessageType_number :: "ChannelMessageType \<Rightarrow> uint16" where
  "ChannelMessageType_number ChannelMessageTypeOpen = 1"
| "ChannelMessageType_number ChannelMessageTypeAccept = 2"
| "ChannelMessageType_number ChannelMessageTypeClose = 3"
| "ChannelMessageType_number ChannelMessageTypeData = 4"

record channelMessage =
  cm_content :: content
  cm_channelId :: ChannelId
  cm_messageType :: ChannelMessageType

definition IsData :: "channelMessage \<Rightarrow> bool" where
  "IsData m \<longleftrightarrow> cm_messageType m = ChannelMessageTypeData"

definition OpensChannel :: "channelMessage \<Rightarrow> bool" where
  "OpensChannel m \<longleftrightarrow> cm_messageType m = ChannelMessageTypeOpen"

definition AcceptsChannel :: "channelMessage \<Rightarrow> bool" where
  "AcceptsChannel m \<longleftrightarrow> cm_messageType m = ChannelMessageTypeAccept"

definition ClosesChannel :: "channelMessage \<Rightarrow> bool" where
  "ClosesChannel m \<longleftrightarrow> cm_messageType m = ChannelMessageTypeClose"

fun UnwrapMessage :: "session_message \<Rightarrow> error + channelMessage" where
  "UnwrapMessage (Some (Message_Open cid t)) =
     Inr \<lparr>cm_content = Message_Open cid t, cm_channelId = cid, cm_messageType = ChannelMessageTypeOpen\<rparr>"
| "UnwrapMessage (Some (Message_Accept cid)) =
     Inr \<lparr>cm_content = Message_Accept cid, cm_channelId = cid, cm_messageType = ChannelMessageTypeAccept\<rparr>"
| "UnwrapMessage (Some (Message_Close cid)) =
     Inr \<lparr>cm_content = Message_Close cid, cm_channelId = cid, cm_messageType = ChannelMessageTypeClose\<rparr>"
| "UnwrapMessage (Some (Message_Data d)) =
     Inr \<lparr>cm_content = Message_Data d, cm_channelId = dt_ChannelId d, cm_messageType = ChannelMessageTypeData\<rparr>"
| "UnwrapMessage None = Inl (ChannelError NoMessageContent)"
| "UnwrapMessage (Some Message_Unknown) = Inl (ChannelError UnexpectedMessageType)"

definition UnmarshalMessage :: "'m codec \<Rightarrow> bytes \<Rightarrow> error + channelMessage" where
  "UnmarshalMessage cd bs =
     (case Unmarshal cd bs of Inl e \<Rightarrow> Inl e | Inr message \<Rightarrow> UnwrapMessage message)"

definition handle_ReadMessage ::
  "'m codec \<Rightarrow> 'm channelHandle \<Rightarrow> channelMessage \<Rightarrow> (error + ('m, uint32) Message) outcome" where
  "handle_ReadMessage cd c message =
     (if \<not> IsData message then Return (Inl (ChannelError ExpectedDataMessage))
      else case cm_content message of
          Message_Data data \<Rightarrow>
            (case pr_NewMessage (h_protocol c) (dt_MessageType data) of
               Inl e \<Rightarrow> Return (Inl e)
             | Inr blank \<Rightarrow>
                 (case Unmarshal_m cd (dt_Payload data) blank of
                    (err, result) \<Rightarrow>
                      Return (Inr \<lparr>m_Content = result, m_Type = dt_MessageType data\<rparr>)))
        | _ \<Rightarrow> Panic (PanicString ''message should have been of type data''))"

section \<open>Ids never collide\<close>

text \<open>The ids of the first \<open>k\<close> channels of a factory.\<close>

fun channel_ids :: "nat \<Rightarrow> ChannelFactory \<Rightarrow> 'm Protocol \<Rightarrow> ChannelId list" where
  "channel_ids 0 f p = []"
| "channel_ids (Suc k) f p =
     (case CreateChannelHandle f p of (h, f') \<Rightarrow> h_id h # channel_ids k f' p)"

lemma channel_ids_nth:
  "channel_ids k f p = map (\<lambda>i. cf_nextId f + of_nat (2 * i)) [0..<k]"
proof (induction k arbitrary: f)
  case (Suc k)
  have "[0..<Suc k] = 0 # map Suc [0..<k]" by (simp add: upt_conv_Cons map_Suc_upt del: upt_Suc)
  then show ?case
    by (simp add: CreateChannelHandle_def NewChannelHandle_def channelIdIncrement_def Suc.IH o_def
        algebra_simps del: upt_Suc)
qed simp

lemma factory_ids:
  "channel_ids k (NewChannelFactory initiator) p =
     map (\<lambda>i. of_nat (2 * i + (if initiator then 1 else 2))) [0..<k]"
  by (simp add: channel_ids_nth NewChannelFactory_def Let_def firstChannelId_def algebra_simps)

text \<open>
  C24. The ids of the initiator's channels are odd and those of the acceptor's even, however many
  they create and even after the counter wraps around, so the two sides never use the same id;
  and the ids of one side are distinct for the first 2 to the 63 channels.
\<close>

theorem channel_ids_never_collide:
  "set (channel_ids k (NewChannelFactory True) p) \<inter> set (channel_ids j (NewChannelFactory False) q) = {} \<and>
   (k \<le> 2 ^ 63 \<longrightarrow> distinct (channel_ids k (NewChannelFactory initiator) p))"
proof
  show "set (channel_ids k (NewChannelFactory True) p) \<inter> set (channel_ids j (NewChannelFactory False) q) = {}"
  proof -
    have "odd x" if "x \<in> set (channel_ids k (NewChannelFactory True) p)" for x
      using that by (auto simp: factory_ids simp del: of_nat_add of_nat_mult of_nat_Suc)
    moreover have "even x" if "x \<in> set (channel_ids j (NewChannelFactory False) q)" for x
      using that by (auto simp: factory_ids simp del: of_nat_add of_nat_mult of_nat_Suc)
    ultimately show ?thesis by blast
  qed
  show "k \<le> 2 ^ 63 \<longrightarrow> distinct (channel_ids k (NewChannelFactory initiator) p)"
  proof
    assume k: "k \<le> 2 ^ 63"
    let ?off = "if initiator then 1 else 2 :: uint64"
    have "inj_on (\<lambda>i. of_nat (2 * i) :: uint64) {0..<k}"
    proof (rule inj_onI)
      fix i j assume "i \<in> {0..<k}" "j \<in> {0..<k}" "(of_nat (2 * i) :: uint64) = of_nat (2 * j)"
      moreover from this have "2 * i < 18446744073709551616" "2 * j < 18446744073709551616"
        using k by simp_all
      ultimately have "2 * i = 2 * j" by (metis unat_of_nat_64)
      then show "i = j" by simp
    qed
    then show "distinct (channel_ids k (NewChannelFactory initiator) p)"
      by (auto simp: channel_ids_nth distinct_map inj_on_def)
  qed
qed

theorem channel_ids_never_collide_witness:
  "distinct (channel_ids 3 (NewChannelFactory False) \<lparr>pr_Id = 1, pr_RawTypeOf = RawTypeOf, pr_NewMessage = NewMessage\<rparr>)"
  using channel_ids_never_collide [where k = 3] by auto

section \<open>Round trip and sizes\<close>

text \<open>
  What the code relies on in Protobuf: a session message decodes to itself, and a message of
  the protocol decodes to itself into a new message of its type.
\<close>

definition codec_roundtrip :: "'m codec \<Rightarrow> 'm Protocol \<Rightarrow> bool" where
  "codec_roundtrip cd p \<longleftrightarrow>
     (\<forall>m bs. Marshal cd m = Inr bs \<longrightarrow> Unmarshal cd bs = Inr m) \<and>
     (\<forall>m t bs blank. Marshal_m cd m = Inr bs \<longrightarrow> pr_RawTypeOf p m = Return t \<longrightarrow>
        pr_NewMessage p t = Inr blank \<longrightarrow> Unmarshal_m cd bs blank = (None, m))"

lemma MarshalMessage_Inr:
  assumes "MarshalMessage cd c m = Return (Inr bs)" and "pr_RawTypeOf (h_protocol c) m = Return t"
  shows "\<exists>payload. Marshal_m cd m = Inr payload \<and> int (length payload) \<le> ComputePayloadMaxSize cd \<and>
    Marshal cd (Some (Message_Data \<lparr>dt_ChannelId = h_id c, dt_MessageType = t, dt_Payload = payload\<rparr>)) = Inr bs"
proof (cases "Marshal_m cd m")
  case (Inl e)
  then show ?thesis using assms by (simp add: MarshalMessage_def WrapMessage_def)
next
  case (Inr payload)
  then show ?thesis using assms by (simp add: MarshalMessage_def WrapMessage_def split: if_split_asm)
qed

text \<open>
  C29. A message marshalled for a channel is unmarshalled by the peer as a data message of this
  channel, and the peer's handle reads the same message with its type.
\<close>

theorem channel_message_roundtrip:
  assumes "codec_roundtrip cd p" and "MarshalMessage cd (NewChannelHandle p cid) m = Return (Inr bs)"
    and "pr_RawTypeOf p m = Return t" and "pr_NewMessage p t = Inr blank"
  shows "\<exists>cm. UnmarshalMessage cd bs = Inr cm \<and> IsData cm \<and> cm_channelId cm = cid \<and>
    handle_ReadMessage cd (NewChannelHandle p cid) cm = Return (Inr \<lparr>m_Content = m, m_Type = t\<rparr>)"
proof -
  obtain payload where p: "Marshal_m cd m = Inr payload"
    and bs: "Marshal cd (Some (Message_Data \<lparr>dt_ChannelId = cid, dt_MessageType = t, dt_Payload = payload\<rparr>)) = Inr bs"
    using MarshalMessage_Inr [OF assms(2)] assms(3) by (auto simp: NewChannelHandle_def)
  then have "Unmarshal cd bs = Inr (Some (Message_Data \<lparr>dt_ChannelId = cid, dt_MessageType = t, dt_Payload = payload\<rparr>))"
    "Unmarshal_m cd payload blank = (None, m)"
    using assms(1,3,4) unfolding codec_roundtrip_def by blast+
  then show ?thesis
    using assms(4) by (simp add: UnmarshalMessage_def IsData_def handle_ReadMessage_def NewChannelHandle_def)
qed

text \<open>\<open>ReadMessage\<close> drops the error of \<open>proto.Unmarshal\<close>: a payload that does not decode is handed
  on as whatever was left in the new message.\<close>

lemma ReadMessage_hides_decode_error:
  assumes "IsData cm" and "cm_content cm = Message_Data d"
    and "pr_NewMessage (h_protocol c) (dt_MessageType d) = Inr blank"
    and "Unmarshal_m cd (dt_Payload d) blank = (Some e, junk)"
  shows "handle_ReadMessage cd c cm = Return (Inr \<lparr>m_Content = junk, m_Type = dt_MessageType d\<rparr>)"
  using assms by (simp add: handle_ReadMessage_def)

text \<open>
  The part of a data message that is not payload is largest for the largest id and type and
  the largest payload; a type below 2 to the 31 is not negative as the \<open>int32\<close> it is on the wire.
\<close>

definition overhead_bounded :: "'m codec \<Rightarrow> bool" where
  "overhead_bounded cd \<longleftrightarrow>
     (\<exists>top. Marshal cd (Some (Message_Data max_data)) = Inr top \<and> PayloadMaxSize \<le> length top \<and>
       (\<forall>d bs. Marshal cd (Some (Message_Data d)) = Inr bs \<longrightarrow> dt_MessageType d \<le> 2147483647 \<longrightarrow>
          length (dt_Payload d) \<le> PayloadMaxSize \<longrightarrow>
          int (length bs) - int (length (dt_Payload d)) \<le> int (length top) - int PayloadMaxSize))"

lemma marshalled_size:
  assumes "overhead_bounded cd" and "MarshalMessage cd c m = Return (Inr bs)"
    and "pr_RawTypeOf (h_protocol c) m = Return t" and "t \<le> 2147483647"
  shows "length bs \<le> PayloadMaxSize"
proof -
  obtain payload where p: "int (length payload) \<le> ComputePayloadMaxSize cd"
    "Marshal cd (Some (Message_Data \<lparr>dt_ChannelId = h_id c, dt_MessageType = t, dt_Payload = payload\<rparr>)) = Inr bs"
    using MarshalMessage_Inr [OF assms(2,3)] by blast
  obtain top where top: "Marshal cd (Some (Message_Data max_data)) = Inr top" "PayloadMaxSize \<le> length top"
    and le: "\<And>d bs. Marshal cd (Some (Message_Data d)) = Inr bs \<Longrightarrow> dt_MessageType d \<le> 2147483647 \<Longrightarrow>
      length (dt_Payload d) \<le> PayloadMaxSize \<Longrightarrow>
      int (length bs) - int (length (dt_Payload d)) \<le> int (length top) - int PayloadMaxSize"
    using assms(1) unfolding overhead_bounded_def by blast
  have "int (length payload) \<le> int PayloadMaxSize - (int (length top) - int PayloadMaxSize)"
    using p(1) top(1) by (simp add: ComputePayloadMaxSize_def Let_def)
  with le [OF p(2)] assms(4) top(2) show ?thesis by simp
qed

lemma marshalled_fits:
  assumes "overhead_bounded cd" and "MarshalMessage cd c m = Return (Inr bs)"
    and "pr_RawTypeOf (h_protocol c) m = Return t" and "t \<le> 2147483647"
    and "cipher_pair enc dec matched" and "matched 1 (nc_writeCipher nc) r" and "conn_healthy (nc_Conn nc)"
  shows "length bs \<le> PayloadMaxSize \<and> (\<exists>nc'. noiseConn_Write enc nc bs = Return (length bs, None, nc'))"
proof -
  have fits: "length bs \<le> PayloadMaxSize" by (rule marshalled_size [OF assms(1-4)])
  have "matched (Suc 0) (nc_writeCipher nc) r" using assms(6) by simp
  then obtain ct w where "\<And>pre. enc (nc_writeCipher nc) pre (Length_Bytes (of_nat (MessageSize (length bs)))) bs =
      (pre @ ct, None, w)" "length ct = length bs + TagSize"
    using cipher_pairD [OF assms(5), of 0 "nc_writeCipher nc" r] by metis
  from write_one [of enc nc bs ct w, OF this fits assms(7)] fits show ?thesis by auto
qed

text \<open>
  \<open>ComputePayloadMaxSize\<close> is right: every message that \<open>WrapMessage\<close> does not refuse as too
  large fits into one message of the encrypted connection once it is marshalled, and writing it
  there succeeds.
\<close>

theorem marshalled_message_fits:
  assumes "overhead_bounded cd" and "MarshalMessage cd c m = Return (Inr bs)"
    and "pr_RawTypeOf (h_protocol c) m = Return t" and "t \<le> 2147483647"
    and "cipher_pair enc dec matched" and "matched 1 (nc_writeCipher nc) r" and "conn_healthy (nc_Conn nc)"
  shows "length bs \<le> PayloadMaxSize \<and> (\<exists>nc'. noiseConn_Write enc nc bs = Return (length bs, None, nc'))"
  using assms by (rule marshalled_fits)

text \<open>
  For the witnesses: messages of a few numbers, encoded byte by byte. A data message is encoded
  with a fixed overhead.
\<close>

definition small_codec :: "byte codec" where
  "small_codec =
     \<lparr>Marshal = (\<lambda>m. case m of
        Some (Message_Data d) \<Rightarrow> Inr (PutUint64 (dt_ChannelId d) @ PutUint32 (dt_MessageType d) @ dt_Payload d)
      | _ \<Rightarrow> Inl (ErrorString ''unsupported'')),
      Unmarshal = (\<lambda>bs. Inr (Some (Message_Data
        \<lparr>dt_ChannelId = get_be (take 8 bs), dt_MessageType = get_be (take 4 (drop 8 bs)), dt_Payload = drop 12 bs\<rparr>))),
      Marshal_m = (\<lambda>m. Inr [m]), Unmarshal_m = (\<lambda>bs blank. (None, hd bs))\<rparr>"

definition small_protocol :: "byte Protocol" where
  "small_protocol = \<lparr>pr_Id = 1, pr_RawTypeOf = (\<lambda>m. Return 2), pr_NewMessage = (\<lambda>t. Inr 0)\<rparr>"

lemma small_codec_roundtrip: "codec_roundtrip small_codec small_protocol"
  by (auto simp: codec_roundtrip_def small_codec_def small_protocol_def split: option.splits content.splits)

lemma small_codec_overhead: "overhead_bounded small_codec"
  by (simp add: overhead_bounded_def small_codec_def max_data_def)

lemma small_codec_marshals:
  "MarshalMessage small_codec (NewChannelHandle small_protocol 5) 7 = Return (Inr (PutUint64 5 @ PutUint32 2 @ [7]))"
  by (simp add: MarshalMessage_def WrapMessage_def NewChannelHandle_def ComputePayloadMaxSize_def Let_def
      small_codec_def small_protocol_def max_data_def secure_consts)

theorem channel_message_roundtrip_witness:
  "\<exists>cm. UnmarshalMessage small_codec (PutUint64 5 @ PutUint32 2 @ [7]) = Inr cm \<and> IsData cm \<and> cm_channelId cm = 5 \<and>
    handle_ReadMessage small_codec (NewChannelHandle small_protocol 5) cm = Return (Inr \<lparr>m_Content = 7, m_Type = 2\<rparr>)"
  using channel_message_roundtrip [OF small_codec_roundtrip small_codec_marshals, of 2 0]
  by (simp add: small_protocol_def)

theorem marshalled_message_fits_witness:
  "\<exists>nc'. noiseConn_Write tag_cipher (WrapConn [] [] \<lparr>c_in = [], c_end = IOError EOF, c_out = [],
       c_werr = None, c_closed = False\<rparr> 0 0) (PutUint64 5 @ PutUint32 2 @ [7]) = Return (13, None, nc')"
proof -
  have "cipher_pair tag_cipher untag_cipher (\<lambda>k w r. True)"
    by (simp add: cipher_pair_def tag_cipher_def untag_cipher_def)
  from marshalled_message_fits [OF small_codec_overhead small_codec_marshals, of 2, OF _ _ this,
      where nc = "WrapConn [] [] \<lparr>c_in = [], c_end = IOError EOF, c_out = [], c_werr = None, c_closed = False\<rparr> 0 0"]
  show ?thesis by (simp add: NewChannelHandle_def small_protocol_def WrapConn_def conn_healthy_def)
qed

end
