(* ===== verification/Session.thy ===== *)
theory Session
  imports Channel
begin

text \<open>
  \<open>lib/session/session.go\<close>: a session with its read handler, its broker, its channels with one
  goroutine each and the calls of \<open>OpenChannel\<close> and \<open>AcceptChannel\<close>. The goroutines are
  interleaved by a step relation. A Go channel without a buffer is a rendezvous: a send and the
  matching receive are one step. The lemmas show the order of messages on a channel, that
  a channel is known to the broker once a call has returned it, and three ways in which messages
  get lost or stuck.
\<close>

section \<open>Channels and their queue\<close>

text \<open>A channel and its handler goroutine, which runs until \<open>done\<close> is closed.\<close>

record 'm channel =
  ch_handle :: "'m channelHandle"
  ch_queue :: "'m list"
  ch_done :: bool
  ch_running :: bool

definition new_channel :: "'m channelHandle \<Rightarrow> 'm channel" where
  "new_channel h = \<lparr>ch_handle = h, ch_queue = [], ch_done = False, ch_running = True\<rparr>"

text \<open>The two cases of the handler's \<open>select\<close> that move a message.\<close>

definition handler_in :: "'m channel \<Rightarrow> 'm \<Rightarrow> 'm channel option" where
  "handler_in c message = (if ch_running c then Some (c\<lparr>ch_queue := ch_queue c @ [message]\<rparr>) else None)"

definition handler_next :: "'m channel \<Rightarrow> ('m \<times> 'm channel) option" where
  "handler_next c =
     (if ch_running c then
        (case ch_queue c of [] \<Rightarrow> None | message # rest \<Rightarrow> Some (message, c\<lparr>ch_queue := rest\<rparr>))
      else None)"

definition handler_stop :: "'m channel \<Rightarrow> 'm channel option" where
  "handler_stop c = (if ch_running c \<and> ch_done c then Some (c\<lparr>ch_running := False\<rparr>) else None)"

definition channel_Write ::
  "'m codec \<Rightarrow> 'm channel \<Rightarrow> ('n \<Rightarrow> bytes \<Rightarrow> error option \<times> 'n) \<Rightarrow> 'n \<Rightarrow> 'm \<Rightarrow> (error option \<times> 'n) outcome" where
  "channel_Write cd c write conn message =
     (if ch_done c then Return (Some (SessionError ErrChannelClosed), conn)
      else obind (MarshalMessage cd (ch_handle c) message) (\<lambda>r.
        case r of Inl e \<Rightarrow> Return (Some e, conn) | Inr data \<Rightarrow> Return (write conn data)))"

text \<open>Closing a closed channel panics. The error of \<open>Marshal\<close> is lost: the write runs anyway.\<close>

definition channel_Close ::
  "'m codec \<Rightarrow> 'm channel \<Rightarrow> ('n \<Rightarrow> bytes \<Rightarrow> error option \<times> 'n) \<Rightarrow> 'n \<Rightarrow>
   (error option \<times> 'm channel \<times> 'n) outcome" where
  "channel_Close cd c write conn =
     (if ch_done c then Panic (RuntimePanic CloseOfClosedChannel)
      else
        let c' = c\<lparr>ch_done := True\<rparr>;
            closeData = (case Marshal cd (CloseMessage (ch_handle c)) of Inl e \<Rightarrow> [] | Inr bs \<Rightarrow> bs)
        in (case write conn closeData of (err, conn') \<Rightarrow> Return (err, c', conn')))"

section \<open>The session\<close>

text \<open>Requests of the read handler to the broker.\<close>

datatype request =
    InData Data
  | InOpen ChannelId uint32
  | InAccept ChannelId

text \<open>
  A call of \<open>OpenChannel\<close> or \<open>AcceptChannel\<close> by where it is: its next operation is a send to the
  broker (\<open>OpenSend\<close>, \<open>AcceptSend\<close>, \<open>Register\<close>), a wait for it (\<open>OpenWait\<close>, \<open>AcceptWait\<close>) or a
  write to the connection (\<open>OpenWrite\<close>, \<open>AcceptWrite\<close>). Its \<open>accepted\<close> or \<open>opened\<close> channel is
  identified by the call's number.
\<close>

datatype 'm caller =
    OpenSend "'m channelHandle" bytes
  | OpenWrite "'m channelHandle" bytes
  | OpenWait "'m channelHandle"
  | AcceptSend "'m Protocol"
  | AcceptWait "'m Protocol"
  | AcceptWrite "'m channelHandle" bytes
  | Register "'m channelHandle"
  | CallReturned "'m channelHandle"
  | CallFailed error

datatype 'm broker_pc =
    Select
  | SendOpened nat ChannelId uint32
  | Delivering ChannelId 'm
  | BrokerReturned
  | BrokerPanicked string

datatype reader_pc =
    ReaderReading
  | ReaderSending request
  | ReaderReturned
  | ReaderPanicked error

record 'm session =
  ss_factory :: ChannelFactory
  ss_channels :: "ChannelId \<rightharpoonup> 'm channel"
  ss_opens :: "uint32 \<rightharpoonup> nat"
  ss_accepts :: "ChannelId \<rightharpoonup> nat"
  ss_broker :: "'m broker_pc"
  ss_reader :: reader_pc
  ss_done :: bool
  ss_accepted :: "nat list"
  ss_callers :: "nat \<rightharpoonup> 'm caller"
  ss_out :: "bytes list"

definition NewSession :: "bool \<Rightarrow> 'm session" where
  "NewSession initiator =
     \<lparr>ss_factory = NewChannelFactory initiator, ss_channels = Map.empty, ss_opens = Map.empty,
      ss_accepts = Map.empty, ss_broker = Select, ss_reader = ReaderReading, ss_done = False,
      ss_accepted = [], ss_callers = Map.empty, ss_out = []\<rparr>"

text \<open>What the read handler does with a message and with an error of \<open>conn.Read\<close>.\<close>

definition read_dispatch :: "'m codec \<Rightarrow> bytes \<Rightarrow> request option" where
  "read_dispatch cd data =
     (case UnmarshalMessage cd data of
        Inl e \<Rightarrow> None
      | Inr message \<Rightarrow>
          (case (IsData message, cm_content message) of
             (True, Message_Data d) \<Rightarrow> Some (InData d)
           | _ \<Rightarrow>
               if OpensChannel message
               then Some (InOpen (cm_channelId message) (ucast (ChannelMessageType_number (cm_messageType message))))
               else if AcceptsChannel message then Some (InAccept (cm_channelId message))
               else None))"

definition read_failure :: "(error \<Rightarrow> bool) \<Rightarrow> error \<Rightarrow> reader_pc" where
  "read_failure use_of_closed err =
     (if err = IOError NetErrClosed \<or> use_of_closed err \<or> err = IOError EOF then ReaderReturned
      else ReaderPanicked err)"

text \<open>The cases of the broker's \<open>select\<close>.\<close>

definition broker_waitOpen :: "'m session \<Rightarrow> uint32 \<Rightarrow> nat \<Rightarrow> 'm session" where
  "broker_waitOpen s protocolId opened =
     (if ss_opens s protocolId \<noteq> None
      then s\<lparr>ss_broker := BrokerPanicked ''waiting for opening of a channel which is already being waited for''\<rparr>
      else s\<lparr>ss_opens := (ss_opens s)(protocolId \<mapsto> opened)\<rparr>)"

definition broker_inOpen :: "'m session \<Rightarrow> ChannelId \<Rightarrow> uint32 \<Rightarrow> 'm session" where
  "broker_inOpen s channelId protocolId =
     (if ss_channels s channelId \<noteq> None then s
      else case ss_opens s protocolId of
          None \<Rightarrow> s
        | Some opened \<Rightarrow> s\<lparr>ss_broker := SendOpened opened channelId protocolId\<rparr>)"

definition broker_opened :: "'m session \<Rightarrow> uint32 \<Rightarrow> 'm session" where
  "broker_opened s protocolId = s\<lparr>ss_opens := (ss_opens s)(protocolId := None), ss_broker := Select\<rparr>"

definition broker_waitAccept :: "'m session \<Rightarrow> ChannelId \<Rightarrow> nat \<Rightarrow> 'm session" where
  "broker_waitAccept s channelId accepted =
     (if ss_accepts s channelId \<noteq> None
      then s\<lparr>ss_broker := BrokerPanicked ''waiting for an accept which is already being waited for''\<rparr>
      else if ss_channels s channelId \<noteq> None
      then s\<lparr>ss_broker := BrokerPanicked ''waiting for an accept of a channel that already exists''\<rparr>
      else s\<lparr>ss_accepts := (ss_accepts s)(channelId \<mapsto> accepted)\<rparr>)"

definition broker_inAccept :: "'m session \<Rightarrow> ChannelId \<Rightarrow> 'm session" where
  "broker_inAccept s channelId =
     (if ss_channels s channelId \<noteq> None then s
      else case ss_accepts s channelId of
          None \<Rightarrow> s
        | Some accepted \<Rightarrow>
            s\<lparr>ss_accepted := accepted # ss_accepted s, ss_accepts := (ss_accepts s)(channelId := None)\<rparr>)"

definition broker_channel :: "'m session \<Rightarrow> 'm channelHandle \<Rightarrow> 'm session" where
  "broker_channel s h =
     (if ss_channels s (h_id h) \<noteq> None
      then s\<lparr>ss_broker := BrokerPanicked ''attempting to register a channel with an ID that is already opened''\<rparr>
      else s\<lparr>ss_channels := (ss_channels s)(h_id h \<mapsto> new_channel h)\<rparr>)"

definition broker_data :: "'m codec \<Rightarrow> 'm session \<Rightarrow> Data \<Rightarrow> 'm session" where
  "broker_data cd s data =
     (case ss_channels s (dt_ChannelId data) of
        None \<Rightarrow> s
      | Some ch \<Rightarrow>
          (case pr_NewMessage (h_protocol (ch_handle ch)) (dt_MessageType data) of
             Inl e \<Rightarrow> s
           | Inr blank \<Rightarrow>
               (case Unmarshal_m cd (dt_Payload data) blank of
                  (Some e, _) \<Rightarrow> s
                | (None, message) \<Rightarrow> s\<lparr>ss_broker := Delivering (dt_ChannelId data) message\<rparr>)))"

definition broker_request :: "'m codec \<Rightarrow> 'm session \<Rightarrow> request \<Rightarrow> 'm session" where
  "broker_request cd s r =
     (case r of
        InData d \<Rightarrow> broker_data cd s d
      | InOpen channelId protocolId \<Rightarrow> broker_inOpen s channelId protocolId
      | InAccept channelId \<Rightarrow> broker_inAccept s channelId)"

text \<open>The start of the two calls, up to their first send to the broker.\<close>

definition OpenChannel :: "'m codec \<Rightarrow> 'm session \<Rightarrow> nat \<Rightarrow> 'm Protocol \<Rightarrow> 'm session" where
  "OpenChannel cd s call protocol =
     (case CreateChannelHandle (ss_factory s) protocol of
        (h, f) \<Rightarrow>
          s\<lparr>ss_factory := f, ss_callers := (ss_callers s)(call \<mapsto>
             (case Marshal cd (OpenMessage h) of Inl e \<Rightarrow> CallFailed e | Inr openData \<Rightarrow> OpenSend h openData))\<rparr>)"

definition AcceptChannel :: "'m session \<Rightarrow> nat \<Rightarrow> 'm Protocol \<Rightarrow> 'm session" where
  "AcceptChannel s call protocol = s\<lparr>ss_callers := (ss_callers s)(call \<mapsto> AcceptSend protocol)\<rparr>"

definition accept_opened :: "'m codec \<Rightarrow> 'm Protocol \<Rightarrow> ChannelId \<Rightarrow> 'm caller" where
  "accept_opened cd protocol channelId =
     (let h = NewChannelHandle protocol channelId in
      case Marshal cd (AcceptMessage h) of Inl e \<Rightarrow> CallFailed e | Inr acceptData \<Rightarrow> AcceptWrite h acceptData)"

definition session_Close :: "'m session \<Rightarrow> 'm session outcome" where
  "session_Close s =
     (if ss_done s then Panic (RuntimePanic CloseOfClosedChannel) else Return (s\<lparr>ss_done := True\<rparr>))"

abbreviation set_caller :: "nat \<Rightarrow> 'm caller \<Rightarrow> 'm session \<Rightarrow> 'm session" where
  "set_caller call c s \<equiv> s\<lparr>ss_callers := (ss_callers s)(call \<mapsto> c)\<rparr>"

datatype 'm session_label = Silent | Arrived bytes | Got ChannelId 'm | Handed ChannelId 'm

inductive session_step :: "'m codec \<Rightarrow> 'm session \<Rightarrow> 'm session_label \<Rightarrow> 'm session \<Rightarrow> bool" for cd where
  open_call: "ss_callers s call = None \<Longrightarrow> session_step cd s Silent (OpenChannel cd s call p)"
| accept_call: "ss_callers s call = None \<Longrightarrow> session_step cd s Silent (AcceptChannel s call p)"
| read_bytes: "ss_reader s = ReaderReading \<Longrightarrow>
    session_step cd s (Arrived data) (s\<lparr>ss_reader :=
      (case read_dispatch cd data of None \<Rightarrow> ReaderReading | Some r \<Rightarrow> ReaderSending r)\<rparr>)"
| read_error: "ss_reader s = ReaderReading \<Longrightarrow>
    session_step cd s Silent (s\<lparr>ss_reader := read_failure use_of_closed e\<rparr>)"
| broker_read: "ss_broker s = Select \<Longrightarrow> ss_reader s = ReaderSending r \<Longrightarrow>
    session_step cd s Silent (broker_request cd (s\<lparr>ss_reader := ReaderReading\<rparr>) r)"
| broker_open_send: "ss_broker s = Select \<Longrightarrow> ss_callers s call = Some (OpenSend h bs) \<Longrightarrow>
    session_step cd s Silent (broker_waitAccept (set_caller call (OpenWrite h bs) s) (h_id h) call)"
| open_write: "ss_callers s call = Some (OpenWrite h bs) \<Longrightarrow>
    session_step cd s Silent ((set_caller call (OpenWait h) s)\<lparr>ss_out := ss_out s @ [bs]\<rparr>)"
| open_write_error: "ss_callers s call = Some (OpenWrite h bs) \<Longrightarrow>
    session_step cd s Silent (set_caller call (CallFailed e) s)"
| open_accepted: "ss_callers s call = Some (OpenWait h) \<Longrightarrow> call \<in> set (ss_accepted s) \<Longrightarrow>
    session_step cd s Silent (set_caller call (Register h) s)"
| open_done: "ss_callers s call = Some (OpenWait h) \<Longrightarrow> ss_done s \<Longrightarrow>
    session_step cd s Silent (set_caller call (CallFailed (SessionError ErrSessionClosed)) s)"
| broker_accept_send: "ss_broker s = Select \<Longrightarrow> ss_callers s call = Some (AcceptSend p) \<Longrightarrow>
    session_step cd s Silent (broker_waitOpen (set_caller call (AcceptWait p) s) (pr_Id p) call)"
| accept_opened: "ss_broker s = SendOpened call channelId protocolId \<Longrightarrow>
    ss_callers s call = Some (AcceptWait p) \<Longrightarrow>
    session_step cd s Silent (broker_opened (set_caller call (accept_opened cd p channelId) s) protocolId)"
| accept_done: "ss_callers s call = Some (AcceptWait p) \<Longrightarrow> ss_done s \<Longrightarrow>
    session_step cd s Silent (set_caller call (CallFailed (SessionError ErrSessionClosed)) s)"
| accept_write: "ss_callers s call = Some (AcceptWrite h bs) \<Longrightarrow>
    session_step cd s Silent ((set_caller call (Register h) s)\<lparr>ss_out := ss_out s @ [bs]\<rparr>)"
| accept_write_error: "ss_callers s call = Some (AcceptWrite h bs) \<Longrightarrow>
    session_step cd s Silent (set_caller call (CallFailed e) s)"
| broker_register: "ss_broker s = Select \<Longrightarrow> ss_callers s call = Some (Register h) \<Longrightarrow>
    session_step cd s Silent (broker_channel (set_caller call (CallReturned h) s) h)"
| broker_deliver: "ss_broker s = Delivering cid message \<Longrightarrow> ss_channels s cid = Some ch \<Longrightarrow>
    handler_in ch message = Some ch' \<Longrightarrow>
    session_step cd s (Got cid message)
      (s\<lparr>ss_channels := (ss_channels s)(cid \<mapsto> ch'), ss_broker := Select\<rparr>)"
| broker_deliver_done: "ss_broker s = Delivering cid message \<Longrightarrow> ss_done s \<Longrightarrow>
    session_step cd s Silent (s\<lparr>ss_broker := BrokerReturned\<rparr>)"
| broker_done: "ss_broker s = Select \<Longrightarrow> ss_done s \<Longrightarrow>
    session_step cd s Silent (s\<lparr>ss_broker := BrokerReturned\<rparr>)"
| channel_read: "ss_channels s cid = Some ch \<Longrightarrow> handler_next ch = Some (message, ch') \<Longrightarrow>
    session_step cd s (Handed cid message) (s\<lparr>ss_channels := (ss_channels s)(cid \<mapsto> ch')\<rparr>)"
| channel_close: "ss_channels s cid = Some ch \<Longrightarrow>
    wr = (\<lambda>out bs. (None, out @ [bs])) \<or> wr = (\<lambda>out bs. (Some e, out)) \<Longrightarrow>
    channel_Close cd ch wr (ss_out s) = Return (err, ch', out) \<Longrightarrow>
    session_step cd s Silent (s\<lparr>ss_channels := (ss_channels s)(cid \<mapsto> ch'), ss_out := out\<rparr>)"
| channel_stop: "ss_channels s cid = Some ch \<Longrightarrow> handler_stop ch = Some ch' \<Longrightarrow>
    session_step cd s Silent (s\<lparr>ss_channels := (ss_channels s)(cid \<mapsto> ch')\<rparr>)"
| close_call: "session_Close s = Return s' \<Longrightarrow> session_step cd s Silent s'"

inductive session_run :: "'m codec \<Rightarrow> 'm session \<Rightarrow> 'm session_label list \<Rightarrow> 'm session \<Rightarrow> bool" for cd where
  session_refl: "session_run cd s [] s"
| session_trans: "session_run cd s tr t \<Longrightarrow> session_step cd t l u \<Longrightarrow> session_run cd s (tr @ [l]) u"

section \<open>Order of messages\<close>

definition pending_messages :: "'m session \<Rightarrow> ChannelId \<Rightarrow> 'm list" where
  "pending_messages s cid = (case ss_channels s cid of None \<Rightarrow> [] | Some ch \<Rightarrow> ch_queue ch)"

fun got :: "ChannelId \<Rightarrow> 'm session_label list \<Rightarrow> 'm list" where
  "got cid [] = []"
| "got cid (l # ls) = (case l of Got c m \<Rightarrow> (if c = cid then m # got cid ls else got cid ls) | _ \<Rightarrow> got cid ls)"

fun handed :: "ChannelId \<Rightarrow> 'm session_label list \<Rightarrow> 'm list" where
  "handed cid [] = []"
| "handed cid (l # ls) =
     (case l of Handed c m \<Rightarrow> (if c = cid then m # handed cid ls else handed cid ls) | _ \<Rightarrow> handed cid ls)"

lemma got_append: "got cid (xs @ ys) = got cid xs @ got cid ys"
  by (induction xs) (auto split: session_label.splits)

lemma handed_append: "handed cid (xs @ ys) = handed cid xs @ handed cid ys"
  by (induction xs) (auto split: session_label.splits)

lemmas broker_defs =
  broker_waitOpen_def broker_inOpen_def broker_opened_def broker_waitAccept_def broker_inAccept_def
  broker_channel_def broker_data_def broker_request_def

lemma broker_request_channels [simp]: "ss_channels (broker_request cd s r) = ss_channels s"
  by (auto simp: broker_defs split: request.splits option.splits sum.splits prod.splits)

lemma broker_wait_channels [simp]:
  "ss_channels (broker_waitOpen s p n) = ss_channels s"
  "ss_channels (broker_waitAccept s c n) = ss_channels s"
  "ss_channels (broker_opened s p) = ss_channels s"
  by (simp_all add: broker_defs)

lemma call_channels [simp]:
  "ss_channels (OpenChannel cd s call p) = ss_channels s"
  "ss_channels (AcceptChannel s call p) = ss_channels s"
  by (simp_all add: OpenChannel_def AcceptChannel_def split: prod.splits)

lemma pending_channel: "pending_messages (broker_channel s h) = pending_messages s"
  by (auto simp: fun_eq_iff pending_messages_def broker_channel_def new_channel_def)

lemma step_pending:
  assumes "session_step cd s l t"
  shows "got cid [l] = [] \<Longrightarrow> handed cid [l] = [] \<Longrightarrow> pending_messages t cid = pending_messages s cid"
    and "l = Got cid m \<Longrightarrow> pending_messages t cid = pending_messages s cid @ [m]"
    and "l = Handed cid m \<Longrightarrow> pending_messages s cid = m # pending_messages t cid"
proof -
  have "(got cid [l] = [] \<longrightarrow> handed cid [l] = [] \<longrightarrow> pending_messages t cid = pending_messages s cid) \<and>
    (l = Got cid m \<longrightarrow> pending_messages t cid = pending_messages s cid @ [m]) \<and>
    (l = Handed cid m \<longrightarrow> pending_messages s cid = m # pending_messages t cid)" for m
    using assms
  proof cases
    case (broker_register call h)
    then show ?thesis by (simp add: pending_channel) (simp add: pending_messages_def)
  next
    case (channel_close c ch wr e err ch' out)
    then show ?thesis
      by (auto simp: pending_messages_def channel_Close_def Let_def split: if_split_asm prod.split_asm)
  next
    case (close_call)
    then show ?thesis by (auto simp: pending_messages_def session_Close_def split: if_split_asm)
  qed (auto simp: pending_messages_def handler_in_def handler_next_def handler_stop_def
      split: if_split_asm list.split_asm option.splits)
  then show "got cid [l] = [] \<Longrightarrow> handed cid [l] = [] \<Longrightarrow> pending_messages t cid = pending_messages s cid"
    and "l = Got cid m \<Longrightarrow> pending_messages t cid = pending_messages s cid @ [m]"
    and "l = Handed cid m \<Longrightarrow> pending_messages s cid = m # pending_messages t cid"
    by blast+
qed

text \<open>
  C12. A channel is a reliable FIFO queue: in every run of a session, whatever the interleaving of
  its goroutines, the messages that the broker has handed to a channel are exactly those that
  \<open>Read\<close> has returned followed by those in its queue, in the same order.
\<close>

theorem channel_is_fifo:
  fixes cd :: "'m codec"
  assumes "session_run cd (NewSession initiator) tr s"
  shows "got cid tr = handed cid tr @ pending_messages s cid"
  using assms
proof (induction "NewSession initiator :: 'm session" tr s rule: session_run.induct)
  case session_refl
  then show ?case by (simp add: pending_messages_def NewSession_def)
next
  case (session_trans tr t l u)
  note IH = session_trans.hyps(2) and st = step_pending [OF session_trans.hyps(3), of cid]
  show ?case
  proof (cases "got cid [l] = [] \<and> handed cid [l] = []")
    case True
    then show ?thesis using IH st(1) by (simp only: got_append handed_append append_Nil2)
  next
    case False
    then consider m where "l = Got cid m" | m where "l = Handed cid m"
      by (cases l) (auto split: if_split_asm)
    then show ?thesis
    proof cases
      case 1
      then show ?thesis using IH st(2) [OF 1] by (simp add: got_append handed_append)
    next
      case 2
      then show ?thesis using IH st(3) [OF 2] by (simp add: got_append handed_append)
    qed
  qed
qed

section \<open>What a session guarantees and what it does not\<close>

lemma step_registered:
  assumes "session_step cd s l t"
  shows "ss_channels s cid \<noteq> None \<Longrightarrow> ss_channels t cid \<noteq> None"
  using assms
  by cases (auto simp: broker_channel_def session_Close_def split: if_split_asm)

lemma broker_callers [simp]:
  "ss_callers (broker_request cd s r) = ss_callers s"
  "ss_callers (broker_waitOpen s p n) = ss_callers s"
  "ss_callers (broker_waitAccept s c n) = ss_callers s"
  "ss_callers (broker_opened s p) = ss_callers s"
  "ss_callers (broker_channel s h) = ss_callers s"
  by (auto simp: broker_defs split: request.splits option.splits sum.splits prod.splits)

lemma call_started:
  "ss_callers (OpenChannel cd s call p) = (ss_callers s)(call \<mapsto> c) \<Longrightarrow> c \<noteq> CallReturned h"
  "ss_callers (AcceptChannel s call p) = (ss_callers s)(call \<mapsto> c) \<Longrightarrow> c \<noteq> CallReturned h"
  by (auto simp: OpenChannel_def AcceptChannel_def split: prod.splits sum.splits dest: fun_upd_eqD)

lemma step_returned:
  assumes "session_step cd s l t" and "ss_callers t call = Some (CallReturned h)"
  shows "ss_callers s call = Some (CallReturned h) \<or> ss_channels t (h_id h) \<noteq> None"
  using assms
proof cases
  case (accept_opened call' channelId protocolId p)
  then show ?thesis using assms(2)
    by (auto simp: accept_opened_def Let_def split: if_split_asm sum.split_asm)
next
  case (broker_register call' h')
  then show ?thesis using assms(2)
    by (auto simp: broker_channel_def split: if_split_asm)
qed (auto simp: OpenChannel_def AcceptChannel_def session_Close_def
    split: prod.split_asm sum.split_asm if_split_asm)

text \<open>
  C23. When \<open>OpenChannel\<close> or \<open>AcceptChannel\<close> returns a channel, the broker knows it: from then on
  no message for it is dropped as one for a channel that is not open.
\<close>

theorem returned_channel_is_registered:
  fixes cd :: "'m codec"
  assumes "session_run cd (NewSession initiator) tr s" and "ss_callers s call = Some (CallReturned h)"
  shows "ss_channels s (h_id h) \<noteq> None"
  using assms
proof (induction "NewSession initiator :: 'm session" tr s rule: session_run.induct)
  case session_refl
  then show ?case by (simp add: NewSession_def)
next
  case (session_trans tr t l u)
  then show ?case using step_returned [OF session_trans.hyps(3)] step_registered [OF session_trans.hyps(3)] by blast
qed

text \<open>
  The peer may use a channel as soon as the accept message is there, but \<open>AcceptChannel\<close>
  writes that message before it registers the channel: a data message that arrives in between
  is dropped, and the channel that the call then returns never delivers it.
\<close>

theorem accept_race_loses_message:
  assumes call: "ss_callers s call = Some (Register h)" and b: "ss_broker s = Select"
    and r: "ss_reader s = ReaderReading" and c: "ss_channels s (h_id h) = None"
    and d: "Unmarshal cd bs = Inr (Some (Message_Data d))" "dt_ChannelId d = h_id h"
  shows "\<exists>t. session_run cd s [Arrived bs, Silent, Silent] t \<and>
    ss_callers t call = Some (CallReturned h) \<and> ss_reader t = ReaderReading \<and> ss_broker t = Select \<and>
    ss_channels t (h_id h) = Some (new_channel h)"
proof -
  let ?s1 = "s\<lparr>ss_reader := ReaderSending (InData d)\<rparr>"
  let ?s2 = "broker_request cd (?s1\<lparr>ss_reader := ReaderReading\<rparr>) (InData d)"
  let ?s3 = "broker_channel (set_caller call (CallReturned h) ?s2) h"
  have disp: "read_dispatch cd bs = Some (InData d)"
    using d(1) by (simp add: read_dispatch_def UnmarshalMessage_def IsData_def)
  have s2: "?s2 = s" using c d(2) r by (cases s) (simp add: broker_request_def broker_data_def)
  have "session_step cd s (Arrived bs) ?s1"
    using session_step.read_bytes [OF r, of cd bs] disp by simp
  moreover have "session_step cd ?s1 Silent ?s2"
    by (rule session_step.broker_read) (simp_all add: b)
  moreover have "session_step cd ?s2 Silent ?s3"
    by (rule session_step.broker_register) (simp_all only: s2 b call)
  ultimately have "session_run cd s ((([] @ [Arrived bs]) @ [Silent]) @ [Silent]) ?s3"
    by (intro session_run.session_trans [OF session_run.session_trans [OF session_run.session_trans
            [OF session_run.session_refl]]])
  moreover have "ss_callers ?s3 call = Some (CallReturned h)" "ss_reader ?s3 = ReaderReading" "ss_broker ?s3 = Select"
    "ss_channels ?s3 (h_id h) = Some (new_channel h)"
    unfolding s2 using r b c by (simp_all add: broker_channel_def)
  ultimately show ?thesis by auto
qed

lemma broker_keeps_done [simp]:
  "ss_done (broker_request cd s r) = ss_done s"
  "ss_done (broker_waitOpen s p n) = ss_done s"
  "ss_done (broker_waitAccept s c n) = ss_done s"
  "ss_done (broker_opened s p) = ss_done s"
  "ss_done (broker_channel s h) = ss_done s"
  by (auto simp: broker_defs split: request.splits option.splits sum.splits prod.splits)

lemma step_done:
  assumes "session_step cd s l t" and "ss_done s"
  shows "ss_done t"
  using assms
  by cases (auto simp: OpenChannel_def AcceptChannel_def session_Close_def split: prod.splits if_split_asm)

lemma step_stalled:
  assumes "session_step cd s l t" and "ss_broker s = Delivering cid m"
    and "ss_channels s cid = Some ch" "\<not> ch_running ch"
  shows "(\<forall>c x. l \<noteq> Got c x) \<and>
    (ss_done t \<or> ss_broker t = Delivering cid m \<and> (\<exists>ch'. ss_channels t cid = Some ch' \<and> \<not> ch_running ch'))"
  using assms
proof cases
  case (channel_close c ch1 wr e err ch' out)
  then show ?thesis using assms(2-4)
    by (auto simp: channel_Close_def Let_def split: if_split_asm prod.split_asm)
qed (auto simp: OpenChannel_def AcceptChannel_def session_Close_def handler_in_def handler_next_def handler_stop_def
    split: prod.splits if_split_asm list.split_asm)

text \<open>
  A message for a channel that this side has closed is not discarded: the broker waits for the
  channel's goroutine, which has ended, and handles nothing any more, for any channel, until the
  session is closed.
\<close>

theorem closed_channel_stalls_broker:
  assumes "session_run cd s tr t" and "ss_broker s = Delivering cid m"
    and "ss_channels s cid = Some ch" "\<not> ch_running ch" and "\<not> ss_done t"
  shows "ss_broker t = Delivering cid m \<and> (\<forall>c. got c tr = [])"
proof -
  have "(ss_done t \<or> ss_broker t = Delivering cid m \<and> (\<exists>ch'. ss_channels t cid = Some ch' \<and> \<not> ch_running ch') \<and>
      (\<forall>c. got c tr = []))"
    using assms(1-4)
  proof (induction rule: session_run.induct)
    case (session_refl s)
    then show ?case by auto
  next
    case (session_trans s tr t l u)
    show ?case
    proof (cases "ss_done t")
      case True
      then show ?thesis using step_done [OF session_trans.hyps(2)] by blast
    next
      case False
      then obtain ch' where t: "ss_broker t = Delivering cid m" "ss_channels t cid = Some ch'" "\<not> ch_running ch'"
        "\<forall>c. got c tr = []"
        using session_trans.IH [OF session_trans.prems] by blast
      have "got c [l] = []" for c
        using step_stalled [OF session_trans.hyps(2) t(1-3)] by (cases l) auto
      then show ?thesis
        using step_stalled [OF session_trans.hyps(2) t(1-3)] t(4) by (simp only: got_append append_Nil2) blast
    qed
  qed
  with assms(5) show ?thesis by blast
qed

text \<open>
  An open request does not say which protocol is opened: the read handler passes the type of
  the session message on, so a request for a channel of any type is taken for protocol 1.
\<close>

theorem open_request_ignores_channel_type:
  assumes "Unmarshal cd bs = Inr (Some (Message_Open cid t))"
  shows "read_dispatch cd bs = Some (InOpen cid 1)"
  using assms by (simp add: read_dispatch_def UnmarshalMessage_def IsData_def OpensChannel_def)

text \<open>
  For the witnesses: a codec in which \<open>[0]\<close> is a request to open channel 1, \<open>[1]\<close> its acceptance
  and every other list of bytes a data message for channel 1.
\<close>

definition tiny_codec :: "byte codec" where
  "tiny_codec =
     \<lparr>Marshal = (\<lambda>m. case m of Some (Message_Accept cid) \<Rightarrow> Inr [1] | _ \<Rightarrow> Inr [2]),
      Unmarshal = (\<lambda>bs. if bs = [0] then Inr (Some (Message_Open 1 7))
        else Inr (Some (Message_Data \<lparr>dt_ChannelId = 1, dt_MessageType = 2, dt_Payload = bs\<rparr>))),
      Marshal_m = (\<lambda>m. Inr [m]), Unmarshal_m = (\<lambda>bs blank. (None, hd bs))\<rparr>"

definition tiny_session :: "byte caller \<Rightarrow> byte session" where
  "tiny_session c = (NewSession False)\<lparr>ss_callers := [0 \<mapsto> c]\<rparr>"

abbreviation tiny_handle :: "byte channelHandle" where
  "tiny_handle \<equiv> NewChannelHandle small_protocol 1"

lemma tiny_dispatch:
  "read_dispatch tiny_codec [0] = Some (InOpen 1 1)"
  "read_dispatch tiny_codec [9] = Some (InData \<lparr>dt_ChannelId = 1, dt_MessageType = 2, dt_Payload = [9]\<rparr>)"
  by (simp_all add: read_dispatch_def UnmarshalMessage_def IsData_def OpensChannel_def tiny_codec_def)

definition tiny_done :: "byte session" where
  "tiny_done = (tiny_session (CallReturned tiny_handle))
     \<lparr>ss_channels := [1 \<mapsto> new_channel tiny_handle], ss_out := [[1]]\<rparr>"

lemma session_stepI: "session_step cd s l t \<Longrightarrow> t = u \<Longrightarrow> session_step cd s l u"
  by simp

lemmas tiny_defs = tiny_session_def tiny_done_def NewSession_def small_protocol_def tiny_dispatch
  AcceptChannel_def broker_defs accept_opened_def NewChannelHandle_def

lemma tiny_run:
  "session_run tiny_codec (NewSession False)
     (((((([] @ [Silent]) @ [Silent]) @ [Arrived [0]]) @ [Silent]) @ [Silent]) @ [Silent] @ [Silent]) tiny_done"
proof -
  let ?w = "(tiny_session (AcceptWait small_protocol))\<lparr>ss_opens := [1 \<mapsto> 0]\<rparr>"
  have "session_step tiny_codec (NewSession False) Silent (tiny_session (AcceptSend small_protocol))"
    by (rule session_stepI [OF session_step.accept_call [where call = 0 and p = small_protocol]]) (simp_all add: tiny_defs)
  moreover have "session_step tiny_codec (tiny_session (AcceptSend small_protocol)) Silent ?w"
    by (rule session_stepI [OF session_step.broker_accept_send [where call = 0 and p = small_protocol]])
      (simp_all add: tiny_defs)
  moreover have "session_step tiny_codec ?w (Arrived [0]) (?w\<lparr>ss_reader := ReaderSending (InOpen 1 1)\<rparr>)"
    by (rule session_stepI [OF session_step.read_bytes]) (simp_all add: tiny_defs)
  moreover have "session_step tiny_codec (?w\<lparr>ss_reader := ReaderSending (InOpen 1 1)\<rparr>) Silent
    (?w\<lparr>ss_broker := SendOpened 0 1 1\<rparr>)"
    by (rule session_stepI [OF session_step.broker_read [where r = "InOpen 1 1"]]) (simp_all add: tiny_defs)
  moreover have "session_step tiny_codec (?w\<lparr>ss_broker := SendOpened 0 1 1\<rparr>) Silent
    (tiny_session (AcceptWrite tiny_handle [1]))"
    by (rule session_stepI [OF session_step.accept_opened [where call = 0 and p = small_protocol and channelId = 1
          and protocolId = 1]])
      (auto simp: tiny_defs AcceptMessage_def tiny_codec_def fun_eq_iff)
  moreover have "session_step tiny_codec (tiny_session (AcceptWrite tiny_handle [1])) Silent
    ((tiny_session (Register tiny_handle))\<lparr>ss_out := [[1]]\<rparr>)"
    by (rule session_stepI [OF session_step.accept_write [where call = 0 and h = tiny_handle and bs = "[1]"]]) (simp_all add: tiny_defs)
  moreover have "session_step tiny_codec ((tiny_session (Register tiny_handle))\<lparr>ss_out := [[1]]\<rparr>) Silent tiny_done"
    by (rule session_stepI [OF session_step.broker_register [where call = 0 and h = tiny_handle]]) (simp_all add: tiny_defs)
  ultimately show ?thesis
    unfolding append_assoc [symmetric]
    by (intro session_run.session_trans [OF session_run.session_trans [OF session_run.session_trans
        [OF session_run.session_trans [OF session_run.session_trans [OF session_run.session_trans
        [OF session_run.session_trans [OF session_run.session_refl]]]]]]])
qed

lemma tiny_delivery:
  "session_run tiny_codec (NewSession False)
     [Silent, Silent, Arrived [0], Silent, Silent, Silent, Silent, Arrived [9], Silent, Got 1 9]
     (tiny_done\<lparr>ss_channels := [1 \<mapsto> (new_channel tiny_handle)\<lparr>ch_queue := [9]\<rparr>]\<rparr>)"
proof -
  let ?d = "InData \<lparr>dt_ChannelId = 1, dt_MessageType = 2, dt_Payload = [9]\<rparr>"
  have "session_step tiny_codec tiny_done (Arrived [9]) (tiny_done\<lparr>ss_reader := ReaderSending ?d\<rparr>)"
    by (rule session_stepI [OF session_step.read_bytes]) (simp_all add: tiny_defs)
  moreover have "session_step tiny_codec (tiny_done\<lparr>ss_reader := ReaderSending ?d\<rparr>) Silent
    (tiny_done\<lparr>ss_broker := Delivering 1 9\<rparr>)"
    by (rule session_stepI [OF session_step.broker_read [where r = ?d]])
      (simp_all add: tiny_defs new_channel_def tiny_codec_def)
  moreover have "session_step tiny_codec (tiny_done\<lparr>ss_broker := Delivering 1 9\<rparr>) (Got 1 9)
    (tiny_done\<lparr>ss_channels := [1 \<mapsto> (new_channel tiny_handle)\<lparr>ch_queue := [9]\<rparr>]\<rparr>)"
    by (rule session_stepI [OF session_step.broker_deliver [where cid = 1 and message = 9 and
          ch = "new_channel tiny_handle" and ch' = "(new_channel tiny_handle)\<lparr>ch_queue := [9]\<rparr>"]])
      (simp_all add: tiny_defs new_channel_def handler_in_def)
  ultimately have "session_run tiny_codec (NewSession False)
      ((((((((([] @ [Silent]) @ [Silent]) @ [Arrived [0]]) @ [Silent]) @ [Silent]) @ [Silent] @ [Silent])
         @ [Arrived [9]]) @ [Silent]) @ [Got 1 9])
      (tiny_done\<lparr>ss_channels := [1 \<mapsto> (new_channel tiny_handle)\<lparr>ch_queue := [9]\<rparr>]\<rparr>)"
    by (intro session_run.session_trans [OF session_run.session_trans [OF session_run.session_trans [OF tiny_run]]])
  then show ?thesis by simp
qed

theorem channel_is_fifo_witness:
  "got 1 [Silent, Silent, Arrived [0], Silent, Silent, Silent, Silent, Arrived [9], Silent, Got 1 (9 :: byte)] = [9] \<and>
   pending_messages (tiny_done\<lparr>ss_channels := [1 \<mapsto> (new_channel tiny_handle)\<lparr>ch_queue := [9]\<rparr>]\<rparr>) 1 = [9]"
  using channel_is_fifo [OF tiny_delivery, of 1] by simp

theorem returned_channel_is_registered_witness: "ss_channels tiny_done 1 \<noteq> None"
  using returned_channel_is_registered [OF tiny_run, of 0 tiny_handle] by (simp add: tiny_defs)

theorem accept_race_loses_message_witness:
  "\<exists>t. session_run tiny_codec (tiny_session (Register tiny_handle)) [Arrived [9], Silent, Silent] t \<and>
    ss_channels t 1 = Some (new_channel tiny_handle)"
  using accept_race_loses_message [where s = "tiny_session (Register tiny_handle)" and call = 0 and h = tiny_handle
      and cd = tiny_codec and bs = "[9]"]
  by (simp add: tiny_session_def NewSession_def NewChannelHandle_def tiny_codec_def) blast

theorem closed_channel_stalls_broker_witness:
  "ss_broker (tiny_done\<lparr>ss_broker := Delivering 1 9,
       ss_channels := [1 \<mapsto> (new_channel tiny_handle)\<lparr>ch_done := True, ch_running := False\<rparr>]\<rparr>) = Delivering 1 9"
  using closed_channel_stalls_broker [where cd = tiny_codec and cid = 1 and m = 9 and tr = "[]", OF session_run.session_refl]
  by (simp add: tiny_defs)

theorem open_request_ignores_channel_type_witness: "read_dispatch tiny_codec [0] = Some (InOpen 1 1)"
  using open_request_ignores_channel_type [of tiny_codec "[0]" 1 7] by (simp add: tiny_codec_def)

end
