(* ===== verification/Session_Link.thy ===== *)
theory Session_Link
  imports Transfer_System Session
begin

text \<open>
  Protocol loops over the channels of a session, as the programs run them: the loop of a client on each side writes to and
  reads from a channel, and the sessions of the two sides exchange the payloads of one encrypted connection. The system of
  the two sides is simulated by two loops that are joined by FIFO queues (theory \<open>Loop\<close>): the messages under way (in the
  queue of the channel, with the broker, with the read handler and on the connection) are one queue. Steps of the
  session that only bring a message closer to its channel leave the pair as it is and decrease a weight.
\<close>

section \<open>A loop over a channel of a session\<close>

text \<open>
  The steps of one side. \<open>Some d\<close> is a payload that the session reads from the connection. With \<open>faults\<close>, the connection
  may fail, and the session may be used for anything else: opening, accepting and closing channels, this one too, and closing the session.
\<close>

inductive end_step ::
  "bool \<Rightarrow> 'm codec \<Rightarrow> ChannelId \<Rightarrow> ('k, 's, 'm) Loop \<times> 'm session \<Rightarrow> bytes option \<Rightarrow> ('k, 's, 'm) Loop \<times> 'm session \<Rightarrow> bool"
  for faults cd cid where
  end_tau: "loop_step l Tau l' \<Longrightarrow> end_step faults cd cid (l, s) None (l', s)"
| end_send: "loop_step l (Send m) l' \<Longrightarrow> ss_channels s cid = Some ch \<Longrightarrow>
    channel_Write cd ch (\<lambda>out d. (None, out @ [d])) (ss_out s) m = Return (None, out) \<Longrightarrow>
    end_step faults cd cid (l, s) None (l', s\<lparr>ss_out := out\<rparr>)"
| end_send_fail: "loop_step l (SendFail m e) l' \<Longrightarrow> ss_channels s cid = Some ch \<Longrightarrow> faults \<or> werr = None \<Longrightarrow>
    channel_Write cd ch (\<lambda>out d. (werr, out)) (ss_out s) m = Return (Some e, out) \<Longrightarrow>
    end_step faults cd cid (l, s) None (l', s\<lparr>ss_out := out\<rparr>)"
| end_send_panic: "loop_step l (Send m) l' \<Longrightarrow> ss_channels s cid = Some ch \<Longrightarrow>
    channel_Write cd ch (\<lambda>out d. (None, out @ [d])) (ss_out s) m = Panic p \<Longrightarrow>
    end_step faults cd cid (l, s) None (l'\<lparr>lp_pc := Crashed p\<rparr>, s)"
| end_recv: "loop_step l (Recv m) l' \<Longrightarrow> session_step cd s (Handed cid m) s' \<Longrightarrow>
    end_step faults cd cid (l, s) None (l', s')"
| end_recv_closed: "loop_step l (RecvFail (SessionError ErrChannelClosed)) l' \<Longrightarrow> ss_channels s cid = Some ch \<Longrightarrow>
    ch_done ch \<Longrightarrow> end_step faults cd cid (l, s) None (l', s)"
| end_arrives: "session_step cd s (Arrived d) s' \<Longrightarrow> end_step faults cd cid (l, s) (Some d) (l, s')"
| end_request: "ss_broker s = Select \<Longrightarrow> ss_reader s = ReaderSending r \<Longrightarrow>
    end_step faults cd cid (l, s) None (l, broker_request cd (s\<lparr>ss_reader := ReaderReading\<rparr>) r)"
| end_delivers: "session_step cd s (Got c m) s' \<Longrightarrow> end_step faults cd cid (l, s) None (l, s')"
| end_session: "faults \<Longrightarrow> session_step cd s Silent s' \<Longrightarrow> end_step faults cd cid (l, s) None (l, s')"
| end_other: "faults \<Longrightarrow> session_step cd s (Handed c m) s' \<Longrightarrow> c \<noteq> cid \<Longrightarrow> end_step faults cd cid (l, s) None (l, s')"

section \<open>Messages under way\<close>

text \<open>What a request of the read handler, and a payload of the connection, holds for the channel of a handle.\<close>

definition request_messages :: "'m codec \<Rightarrow> 'm channelHandle \<Rightarrow> request \<Rightarrow> 'm list" where
  "request_messages cd h r =
     (case r of
        InData d \<Rightarrow>
          if dt_ChannelId d = h_id h then
            (case pr_NewMessage (h_protocol h) (dt_MessageType d) of
               Inl e \<Rightarrow> []
             | Inr blank \<Rightarrow>
                 (case Unmarshal_m cd (dt_Payload d) blank of (Some e, _) \<Rightarrow> [] | (None, m) \<Rightarrow> [m]))
          else []
      | _ \<Rightarrow> [])"

definition payload_messages :: "'m codec \<Rightarrow> 'm channelHandle \<Rightarrow> bytes \<Rightarrow> 'm list" where
  "payload_messages cd h bs = (case read_dispatch cd bs of None \<Rightarrow> [] | Some r \<Rightarrow> request_messages cd h r)"

definition broker_messages :: "ChannelId \<Rightarrow> 'm broker_pc \<Rightarrow> 'm list" where
  "broker_messages cid b = (case b of Delivering c m \<Rightarrow> if c = cid then [m] else [] | _ \<Rightarrow> [])"

definition reader_messages :: "'m codec \<Rightarrow> 'm channelHandle \<Rightarrow> reader_pc \<Rightarrow> 'm list" where
  "reader_messages cd h rd = (case rd of ReaderSending r \<Rightarrow> request_messages cd h r | _ \<Rightarrow> [])"

definition transit :: "'m codec \<Rightarrow> 'm channelHandle \<Rightarrow> 'm session \<Rightarrow> bytes list \<Rightarrow> 'm list" where
  "transit cd h s pend =
     broker_messages (h_id h) (ss_broker s) @ reader_messages cd h (ss_reader s) @ concat (map (payload_messages cd h) pend)"

definition broker_alive :: "'m session \<Rightarrow> bool" where
  "broker_alive s \<longleftrightarrow> (case ss_broker s of BrokerReturned \<Rightarrow> False | BrokerPanicked _ \<Rightarrow> False | _ \<Rightarrow> True)"

text \<open>
  A session carries the messages \<open>q\<close> to the reader of a channel when \<open>pend\<close> is still on the connection. What comes after the queue
  of the channel never gets there once the broker has stopped.
\<close>

definition carries :: "'m codec \<Rightarrow> 'm channelHandle \<Rightarrow> 'm session \<Rightarrow> bytes list \<Rightarrow> 'm list \<Rightarrow> bool" where
  "carries cd h s pend q \<longleftrightarrow>
     (\<exists>tail. q = pending_messages s (h_id h) @ tail \<and> (broker_alive s \<longrightarrow> tail = transit cd h s pend))"

definition registered :: "'m channelHandle \<Rightarrow> 'm session \<Rightarrow> bool" where
  "registered h s \<longleftrightarrow> (\<exists>ch. ss_channels s (h_id h) = Some ch \<and> ch_handle ch = h)"

text \<open>The calls that wait to write their open or accept message have it encoded.\<close>

definition callers_ok :: "'m codec \<Rightarrow> 'm session \<Rightarrow> bool" where
  "callers_ok cd s \<longleftrightarrow>
     (\<forall>call h bs. (ss_callers s call = Some (OpenSend h bs) \<or> ss_callers s call = Some (OpenWrite h bs) \<longrightarrow>
        Marshal cd (OpenMessage h) = Inr bs) \<and>
      (ss_callers s call = Some (AcceptWrite h bs) \<longrightarrow> Marshal cd (AcceptMessage h) = Inr bs))"

text \<open>What is relied on in Protobuf: messages of the session decode to themselves, and no bytes are the message without content.\<close>

definition session_codec :: "'m codec \<Rightarrow> bool" where
  "session_codec cd \<longleftrightarrow> (\<forall>m bs. Marshal cd m = Inr bs \<longrightarrow> Unmarshal cd bs = Inr m) \<and> Unmarshal cd [] = Inr None"

lemmas flow_defs = request_messages_def payload_messages_def broker_messages_def reader_messages_def transit_def

lemma control_payload:
  assumes "session_codec cd"
  shows "Marshal cd (OpenMessage h') = Inr bs \<Longrightarrow> payload_messages cd h bs = []"
    and "Marshal cd (AcceptMessage h') = Inr bs \<Longrightarrow> payload_messages cd h bs = []"
    and "Marshal cd (CloseMessage h') = Inr bs \<Longrightarrow> payload_messages cd h bs = []"
    and "payload_messages cd h [] = []"
proof -
  have ctl: "payload_messages cd h bs = []" if "Unmarshal cd bs = Inr m" "\<And>d. m \<noteq> Some (Message_Data d)" for bs m
    using that by (cases m rule: UnwrapMessage.cases)
      (auto simp: payload_messages_def request_messages_def read_dispatch_def UnmarshalMessage_def IsData_def
        OpensChannel_def AcceptsChannel_def)
  have rt: "Marshal cd m = Inr bs \<Longrightarrow> Unmarshal cd bs = Inr m" for m bs using assms by (simp add: session_codec_def)
  show "payload_messages cd h bs = []" if "Marshal cd (OpenMessage h') = Inr bs"
    by (rule ctl [OF rt [OF that]]) (simp add: OpenMessage_def)
  show "payload_messages cd h bs = []" if "Marshal cd (AcceptMessage h') = Inr bs"
    by (rule ctl [OF rt [OF that]]) (simp add: AcceptMessage_def)
  show "payload_messages cd h bs = []" if "Marshal cd (CloseMessage h') = Inr bs"
    by (rule ctl [OF rt [OF that]]) (simp add: CloseMessage_def)
  show "payload_messages cd h [] = []"
    by (rule ctl [of _ None]) (use assms in \<open>simp_all add: session_codec_def\<close>)
qed

section \<open>What the steps of a session keep\<close>

lemma step_keeps_handle:
  assumes "session_step cd s l t" and "registered h s"
  shows "registered h t"
  using assms
proof cases
  case (channel_close c ch wr e err ch' out)
  then show ?thesis using assms(2)
    by (auto simp: registered_def channel_Close_def Let_def split: if_split_asm prod.split_asm)
qed (auto simp: registered_def broker_channel_def session_Close_def handler_in_def handler_next_def handler_stop_def
    split: if_split_asm list.split_asm)

lemma step_callers_ok:
  assumes "session_step cd s l t" and "callers_ok cd s"
  shows "callers_ok cd t"
  using assms
proof cases
  case (open_call call p)
  then show ?thesis using assms(2)
    by (auto simp: callers_ok_def OpenChannel_def split: prod.split sum.split_asm if_split_asm)
next
  case (accept_opened call channelId protocolId p)
  then show ?thesis using assms(2)
    by (auto simp: callers_ok_def accept_opened_def Let_def split: sum.split_asm if_split_asm)
qed (auto simp: callers_ok_def AcceptChannel_def session_Close_def split: if_split_asm)

lemma broker_out [simp]:
  "ss_out (broker_request cd s r) = ss_out s" "ss_out (broker_waitOpen s p n) = ss_out s"
  "ss_out (broker_waitAccept s c n) = ss_out s" "ss_out (broker_opened s p) = ss_out s" "ss_out (broker_channel s h) = ss_out s"
  "ss_out (OpenChannel cd s call q) = ss_out s" "ss_out (AcceptChannel s call q) = ss_out s"
  by (auto simp: broker_defs OpenChannel_def AcceptChannel_def split: request.splits option.splits sum.splits prod.splits)

lemma step_writes_control:
  assumes "session_step cd s l t" and "callers_ok cd s" and "session_codec cd"
  shows "\<exists>ps. ss_out t = ss_out s @ ps \<and> concat (map (payload_messages cd h) ps) = []"
  using assms(1)
proof cases
  case (open_write call h' bs)
  then have "Marshal cd (OpenMessage h') = Inr bs" using assms(2) unfolding callers_ok_def by blast
  with open_write show ?thesis by (intro exI [of _ "[bs]"]) (simp add: control_payload(1) [OF assms(3)])
next
  case (accept_write call h' bs)
  then have "Marshal cd (AcceptMessage h') = Inr bs" using assms(2) unfolding callers_ok_def by blast
  with accept_write show ?thesis by (intro exI [of _ "[bs]"]) (simp add: control_payload(2) [OF assms(3)])
next
  case (channel_close c ch wr e err ch' out)
  let ?bs = "case Marshal cd (CloseMessage (ch_handle ch)) of Inl e \<Rightarrow> [] | Inr bs \<Rightarrow> bs"
  have "payload_messages cd h ?bs = []" using control_payload(3,4) [OF assms(3)] by (auto split: sum.split)
  moreover have "out = ss_out s @ [?bs] \<or> out = ss_out s"
    using channel_close by (auto simp: channel_Close_def Let_def split: if_split_asm)
  ultimately show ?thesis using channel_close by auto
qed (auto simp: session_Close_def split: if_split_asm)

text \<open>A request that the broker takes from the read handler stays under way.\<close>

lemma broker_request_transit:
  assumes "ss_broker s = Select" and "registered h s"
  shows "broker_messages (h_id h) (ss_broker (broker_request cd s r)) = request_messages cd h r"
    and "broker_alive (broker_request cd s r)" and "ss_reader (broker_request cd s r) = ss_reader s"
  using assms
  by (auto simp: broker_defs request_messages_def broker_messages_def broker_alive_def registered_def
      split: request.splits option.splits sum.splits prod.splits if_split_asm)

lemma broker_keeps_reader [simp]:
  "ss_reader (broker_waitOpen s p n) = ss_reader s" "ss_reader (broker_waitAccept s c n) = ss_reader s"
  "ss_reader (broker_opened s p) = ss_reader s" "ss_reader (broker_channel s h) = ss_reader s"
  "ss_reader (OpenChannel cd s call q) = ss_reader s" "ss_reader (AcceptChannel s call q) = ss_reader s"
  by (auto simp: broker_defs OpenChannel_def AcceptChannel_def split: option.splits prod.splits)

lemma call_broker [simp]:
  "ss_broker (OpenChannel cd s call q) = ss_broker s" "ss_broker (AcceptChannel s call q) = ss_broker s"
  by (simp_all add: OpenChannel_def AcceptChannel_def split: prod.split)

lemma broker_waits:
  assumes "ss_broker s = Select"
  shows "ss_broker (broker_waitOpen s p n) = Select \<or> \<not> broker_alive (broker_waitOpen s p n)"
    and "ss_broker (broker_waitAccept s c n) = Select \<or> \<not> broker_alive (broker_waitAccept s c n)"
    and "ss_broker (broker_channel s h) = Select \<or> \<not> broker_alive (broker_channel s h)"
  using assms by (auto simp: broker_defs broker_alive_def)

text \<open>Every other step of the session leaves what it carries.\<close>

lemma transit_step:
  assumes "session_step cd s l t" and "registered h s" and "broker_alive t"
  shows "l = Silent \<Longrightarrow> broker_alive s \<and> transit cd h t pend = transit cd h s pend"
    and "l = Handed c m \<Longrightarrow> broker_alive s \<and> transit cd h t pend = transit cd h s pend"
    and "l = Got c m \<Longrightarrow> broker_alive s \<and>
      transit cd h s pend = (if c = h_id h then [m] else []) @ transit cd h t pend"
    and "l = Arrived d \<Longrightarrow> broker_alive s \<and> transit cd h t pend = transit cd h s (d # pend)"
proof -
  have "broker_alive s \<and>
    (case l of
       Got c m \<Rightarrow> transit cd h s pend = (if c = h_id h then [m] else []) @ transit cd h t pend
     | Arrived d \<Rightarrow> transit cd h t pend = transit cd h s (d # pend)
     | _ \<Rightarrow> transit cd h t pend = transit cd h s pend)"
    using assms(1)
  proof cases
    case (read_bytes d)
    then show ?thesis using assms(3)
      by (simp add: transit_def broker_alive_def reader_messages_def payload_messages_def split: option.split)
  next
    case (read_error use_of_closed e)
    then show ?thesis using assms(3)
      by (simp add: transit_def broker_alive_def reader_messages_def read_failure_def)
  next
    case (broker_read r)
    let ?u = "s\<lparr>ss_reader := ReaderReading\<rparr>"
    have "ss_broker ?u = Select" "registered h ?u" using broker_read assms(2) by (simp_all add: registered_def)
    note b = broker_request_transit [OF this, of cd r]
    show ?thesis using broker_read b by (simp add: transit_def reader_messages_def broker_messages_def broker_alive_def)
  next
    case (broker_open_send call h' bs)
    then show ?thesis using assms(3) broker_waits(2) [of "set_caller call (OpenWrite h' bs) s" "h_id h'" call]
      by (auto simp: transit_def broker_alive_def)
  next
    case (broker_accept_send call p)
    then show ?thesis using assms(3) broker_waits(1) [of "set_caller call (AcceptWait p) s" "pr_Id p" call]
      by (auto simp: transit_def broker_alive_def)
  next
    case (broker_register call h')
    then show ?thesis using assms(3) broker_waits(3) [of "set_caller call (CallReturned h') s" h']
      by (auto simp: transit_def broker_alive_def)
  next
    case (accept_opened call channelId protocolId p)
    then show ?thesis by (simp add: transit_def broker_alive_def broker_opened_def broker_messages_def)
  next
    case (broker_deliver c m ch ch')
    then show ?thesis by (simp add: transit_def broker_alive_def broker_messages_def)
  next
    case close_call
    then show ?thesis using assms(3) by (auto simp: session_Close_def transit_def broker_alive_def split: if_split_asm)
  qed (use assms(3) in \<open>simp_all add: transit_def broker_alive_def\<close>)
  then show "l = Silent \<Longrightarrow> broker_alive s \<and> transit cd h t pend = transit cd h s pend"
    and "l = Handed c m \<Longrightarrow> broker_alive s \<and> transit cd h t pend = transit cd h s pend"
    and "l = Got c m \<Longrightarrow> broker_alive s \<and>
      transit cd h s pend = (if c = h_id h then [m] else []) @ transit cd h t pend"
    and "l = Arrived d \<Longrightarrow> broker_alive s \<and> transit cd h t pend = transit cd h s (d # pend)"
    by auto
qed

lemma Got_alive: "session_step cd s (Got c m) t \<Longrightarrow> broker_alive t"
  by (erule session_step.cases) (simp_all add: broker_alive_def)

lemma carries_step:
  assumes "session_step cd s l t" and "registered h s"
  shows "l = Silent \<Longrightarrow> carries cd h s pend q \<Longrightarrow> carries cd h t pend q"
    and "l = Got c m \<Longrightarrow> carries cd h s pend q \<Longrightarrow> carries cd h t pend q"
    and "l = Arrived d \<Longrightarrow> carries cd h s (d # pend) q \<Longrightarrow> carries cd h t pend q"
    and "l = Handed c m \<Longrightarrow> c \<noteq> h_id h \<Longrightarrow> carries cd h s pend q \<Longrightarrow> carries cd h t pend q"
    and "l = Handed (h_id h) m \<Longrightarrow> carries cd h s pend q \<Longrightarrow> \<exists>q'. q = m # q' \<and> carries cd h t pend q'"
proof -
  note pending = step_pending [OF assms(1), of "h_id h"] and tr = transit_step [OF assms, where pend = pend]
  show "carries cd h t pend q" if "l = Silent" "carries cd h s pend q"
    using that pending(1) tr(1) by (auto simp: carries_def)
  show "carries cd h t pend q" if "l = Arrived d" "carries cd h s (d # pend) q"
    using that pending(1) tr(4) by (auto simp: carries_def)
  show "carries cd h t pend q" if "l = Handed c m" "c \<noteq> h_id h" "carries cd h s pend q"
    using that pending(1) tr(2) by (auto simp: carries_def)
  show "\<exists>q'. q = m # q' \<and> carries cd h t pend q'" if "l = Handed (h_id h) m" "carries cd h s pend q"
    using that pending(3) tr(2) by (fastforce simp: carries_def)
  show "carries cd h t pend q" if "l = Got c m" "carries cd h s pend q"
  proof -
    have alive: "broker_alive t" using Got_alive [of cd s c m t] assms(1) that(1) by simp
    have "q = pending_messages s (h_id h) @ (if c = h_id h then [m] else []) @ transit cd h t pend"
      using that(2) tr(3) [OF alive that(1)] by (auto simp: carries_def)
    moreover have "pending_messages t (h_id h) = pending_messages s (h_id h) @ (if c = h_id h then [m] else [])"
      using pending(1,2) that(1) by (cases "c = h_id h") auto
    ultimately show ?thesis by (simp add: carries_def)
  qed
qed

lemma carries_more:
  assumes "carries cd h s pend q"
  shows "carries cd h s (pend @ ps) (q @ concat (map (payload_messages cd h) ps))"
  using assms by (auto simp: carries_def transit_def)

lemma carries_out [simp]: "carries cd h (s\<lparr>ss_out := out\<rparr>) pend q = carries cd h s pend q"
  by (simp add: carries_def pending_messages_def transit_def broker_alive_def)

text \<open>A message that a channel can send and its peer decodes.\<close>

definition sendable :: "'m codec \<Rightarrow> 'm channelHandle \<Rightarrow> 'm \<Rightarrow> bool" where
  "sendable cd h m \<longleftrightarrow> (\<exists>bs. MarshalMessage cd h m = Return (Inr bs) \<and> payload_messages cd h bs = [m])"

text \<open>
  A message that a channel refuses to send, with an error and nothing written. Where errors are let through, as with failing
  connections, a loop may have such messages too.
\<close>

definition refused :: "'m codec \<Rightarrow> 'm channelHandle \<Rightarrow> 'm \<Rightarrow> bool" where
  "refused cd h m \<longleftrightarrow> (\<exists>e. MarshalMessage cd h m = Return (Inl e))"

definition can_write :: "bool \<Rightarrow> 'm codec \<Rightarrow> 'm channelHandle \<Rightarrow> 'm \<Rightarrow> bool" where
  "can_write faults cd h m \<longleftrightarrow> sendable cd h m \<or> faults \<and> refused cd h m"

lemma can_write_cases:
  assumes "can_write faults cd h m"
  obtains bs where "MarshalMessage cd h m = Return (Inr bs)" "payload_messages cd h bs = [m]"
    | e where "faults" "MarshalMessage cd h m = Return (Inl e)"
  using assms by (auto simp: can_write_def sendable_def refused_def)

text \<open>The channel has not been closed on this side.\<close>

definition open_channel :: "'m channelHandle \<Rightarrow> 'm session \<Rightarrow> bool" where
  "open_channel h s \<longleftrightarrow> (\<exists>ch. ss_channels s (h_id h) = Some ch \<and> ch_handle ch = h \<and> \<not> ch_done ch \<and> ch_running ch)"

text \<open>What a step of one side is for its loop and for the messages \<open>q\<close> on the way to it, and what it adds to the other way.\<close>

inductive end_move ::
  "bool \<Rightarrow> ('k, 's, 'm) Loop \<Rightarrow> 'm list \<Rightarrow> 'm list \<Rightarrow> ('k, 's, 'm) Loop \<Rightarrow> 'm list \<Rightarrow> bool" for faults where
  move_tau: "loop_step l Tau l' \<Longrightarrow> end_move faults l q [] l' q"
| move_send: "loop_step l (Send m) l' \<Longrightarrow> end_move faults l q [m] l' q"
| move_recv: "loop_step l (Recv m) l' \<Longrightarrow> end_move faults l (m # q) [] l' q"
| move_send_fail: "faults \<Longrightarrow> loop_step l (SendFail m e) l' \<Longrightarrow> end_move faults l q [] l' q"
| move_recv_fail: "faults \<Longrightarrow> loop_step l (RecvFail e) l' \<Longrightarrow> end_move faults l q [] l' q"

lemma SendFail_Send: "loop_step l (SendFail m e) l' \<Longrightarrow> \<exists>l''. loop_step l (Send m) l''"
  by (auto elim!: loop_SendFailE intro: loop_step.write_message)

text \<open>How far what is under way to a channel is from its queue.\<close>

definition weight :: "'m session \<Rightarrow> bytes list \<Rightarrow> nat" where
  "weight s pend =
     3 * length pend + (case ss_reader s of ReaderSending r \<Rightarrow> 2 | _ \<Rightarrow> 0) + (case ss_broker s of Delivering c m \<Rightarrow> 1 | _ \<Rightarrow> 0)"

lemma weight_out [simp]: "weight (s\<lparr>ss_out := out\<rparr>) pend = weight s pend"
  by (simp add: weight_def)

lemma weight_step:
  assumes "session_step cd s l t"
  shows "l = Arrived d \<Longrightarrow> weight t pend < weight s (d # pend) \<and> ss_out t = ss_out s"
    and "l = Got c m \<Longrightarrow> weight t pend < weight s pend \<and> ss_out t = ss_out s"
    and "l = Handed c m \<Longrightarrow> weight t pend = weight s pend \<and> ss_out t = ss_out s"
  using assms by (cases; simp add: weight_def split: option.split)+

lemma weight_request:
  assumes "ss_broker s = Select" and "ss_reader s = ReaderSending r"
  shows "weight (broker_request cd (s\<lparr>ss_reader := ReaderReading\<rparr>) r) pend < weight s pend"
  using assms
  by (auto simp: weight_def broker_defs split: request.splits option.splits sum.splits prod.splits)

text \<open>
  Either the loop moves, and at most one payload is written, or the session brings what is under way closer to its channel;
  in that case, without faults, nothing is written.
\<close>

definition simulated ::
  "bool \<Rightarrow> 'm codec \<Rightarrow> 'm channelHandle \<Rightarrow> ('k, 's, 'm) Loop \<Rightarrow> 'm session \<Rightarrow> 'm list \<Rightarrow> bytes list \<Rightarrow> nat \<Rightarrow>
   ('k, 's, 'm) Loop \<Rightarrow> 'm list \<Rightarrow> nat \<Rightarrow> bool" where
  "simulated faults cd h l s q ps w l' q' w' \<longleftrightarrow>
     end_move (faults \<or> \<not> open_channel h s) l q (concat (map (payload_messages cd h) ps)) l' q' \<and> length ps \<le> 1 \<and> w' = w \<or>
     l' = l \<and> q' = q \<and> concat (map (payload_messages cd h) ps) = [] \<and> (\<not> faults \<longrightarrow> ps = [] \<and> w' < w)"

lemma end_simulates:
  fixes pend
  assumes "end_step faults cd (h_id h) (l, s) i (l', s')"
    and "registered h s" and "callers_ok cd s" and "session_codec cd"
    and send: "\<forall>m l'. loop_step l (Send m) l' \<longrightarrow> can_write faults cd h m"
    and c: "carries cd h s (case i of None \<Rightarrow> pend | Some d \<Rightarrow> d # pend) q"
  shows "\<exists>ps q'. ss_out s' = ss_out s @ ps \<and> carries cd h s' pend q' \<and>
    simulated faults cd h l s q ps (weight s (case i of None \<Rightarrow> pend | Some d \<Rightarrow> d # pend)) l' q' (weight s' pend)"
  using assms(1)
proof cases
  case end_tau
  then show ?thesis using c by (intro exI [of _ "[]"] exI [of _ q]) (auto simp: simulated_def intro: end_move.move_tau)
next
  case (end_send m ch out)
  have "ch_handle ch = h" using end_send assms(2) by (simp add: registered_def)
  then obtain bs where bs: "payload_messages cd h bs = [m]" "out = ss_out s @ [bs]"
    using send end_send by (fastforce simp: channel_Write_def elim: can_write_cases split: if_split_asm)
  with end_send c show ?thesis
    by (intro exI [of _ "[bs]"] exI [of _ q]) (simp add: simulated_def end_move.move_send)
next
  case (end_send_fail m e ch werr out)
  have "can_write faults cd h m" using SendFail_Send [of l m e l'] end_send_fail send by blast
  moreover have "ch_handle ch = h" using end_send_fail assms(2) by (simp add: registered_def)
  ultimately have "out = ss_out s" "faults \<or> ch_done ch"
    using end_send_fail by (auto simp: channel_Write_def elim!: can_write_cases split: if_split_asm)
  then show ?thesis using end_send_fail c
    by (intro exI [of _ "[]"] exI [of _ q]) (auto simp: simulated_def open_channel_def intro: end_move.move_send_fail)
next
  case (end_send_panic m l1 ch p)
  have "can_write faults cd h m" using send end_send_panic by blast
  moreover have "ch_handle ch = h" using end_send_panic assms(2) by (simp add: registered_def)
  ultimately show ?thesis using end_send_panic by (auto simp: channel_Write_def elim!: can_write_cases split: if_split_asm)
next
  case (end_recv m)
  then obtain q' where "q = m # q'" "carries cd h s' pend q'"
    using carries_step(5) [OF end_recv(3) assms(2) refl] c by auto
  then show ?thesis using end_recv(1,2) weight_step(3) [OF end_recv(3) refl]
    by (intro exI [of _ "[]"] exI [of _ q']) (auto simp: simulated_def intro: end_move.move_recv)
next
  case (end_recv_closed ch)
  then have "\<not> open_channel h s" by (simp add: open_channel_def)
  then show ?thesis using end_recv_closed c
    by (intro exI [of _ "[]"] exI [of _ q]) (auto simp: simulated_def intro: end_move.move_recv_fail)
next
  case (end_arrives d)
  then show ?thesis using carries_step(3) [OF end_arrives(3) assms(2) refl] weight_step(1) [OF end_arrives(3) refl] c
    by (intro exI [of _ "[]"] exI [of _ q]) (simp add: simulated_def)
next
  case (end_request r)
  then have "session_step cd s Silent s'" by (auto intro: session_step.broker_read)
  then show ?thesis using carries_step(1) [OF _ assms(2) refl] c end_request weight_request [of s r cd pend]
    by (intro exI [of _ "[]"] exI [of _ q]) (simp add: simulated_def)
next
  case (end_delivers c' m)
  then show ?thesis using carries_step(2) [OF end_delivers(3) assms(2) refl] weight_step(2) [OF end_delivers(3) refl] c
    by (intro exI [of _ "[]"] exI [of _ q]) (simp add: simulated_def)
next
  case end_session
  obtain ps where "ss_out s' = ss_out s @ ps" "concat (map (payload_messages cd h) ps) = []"
    using step_writes_control [OF end_session(4) assms(3,4)] by blast
  then show ?thesis using carries_step(1) [OF end_session(4) assms(2) refl] c end_session
    by (intro exI [of _ ps] exI [of _ q]) (simp del: concat_eq_Nil_conv add: simulated_def)
next
  case (end_other c' m)
  then show ?thesis using carries_step(4) [OF end_other(4) assms(2) refl] weight_step(3) [OF end_other(4) refl] c
    by (intro exI [of _ "[]"] exI [of _ q]) (simp add: simulated_def)
qed

lemma end_keeps:
  assumes "end_step faults cd cid (l, s) i (l', s')"
  shows "registered h s \<Longrightarrow> registered h s'" and "callers_ok cd s \<Longrightarrow> callers_ok cd s'"
proof -
  have "(\<exists>lab. session_step cd s lab s') \<or> (\<exists>out. s' = s\<lparr>ss_out := out\<rparr>) \<or> s' = s"
    using assms
  proof cases
    case (end_request r)
    then show ?thesis by (auto intro: session_step.broker_read)
  qed blast+
  then consider lab where "session_step cd s lab s'" | out where "s' = s\<lparr>ss_out := out\<rparr>" | "s' = s" by blast
  then have "(registered h s \<longrightarrow> registered h s') \<and> (callers_ok cd s \<longrightarrow> callers_ok cd s')"
  proof cases
    case (1 lab)
    then show ?thesis by (blast dest: step_keeps_handle step_callers_ok)
  qed (simp_all add: registered_def callers_ok_def)
  then show "registered h s \<Longrightarrow> registered h s'" and "callers_ok cd s \<Longrightarrow> callers_ok cd s'" by blast+
qed

section \<open>The two sides\<close>

text \<open>
  The payloads that one session writes are read by the other in the same order (theory \<open>Secure\<close>); the numbers say how many of
  them each side has read.
\<close>

record ('k, 's, 't, 'm) stack =
  sk_left :: "('k, 's, 'm) Loop \<times> 'm session"
  sk_right :: "('k, 't, 'm) Loop \<times> 'm session"
  sk_left_read :: nat
  sk_right_read :: nat

definition to_left :: "('k, 's, 't, 'm) stack \<Rightarrow> bytes list" where
  "to_left k = drop (sk_left_read k) (ss_out (snd (sk_right k)))"

definition to_right :: "('k, 's, 't, 'm) stack \<Rightarrow> bytes list" where
  "to_right k = drop (sk_right_read k) (ss_out (snd (sk_left k)))"

inductive stack_step :: "bool \<Rightarrow> 'm codec \<Rightarrow> ChannelId \<Rightarrow> ('k, 's, 't, 'm) stack \<Rightarrow> ('k, 's, 't, 'm) stack \<Rightarrow> bool"
  for faults cd cid where
  stack_left: "end_step faults cd cid (sk_left k) None e \<Longrightarrow> stack_step faults cd cid k (k\<lparr>sk_left := e\<rparr>)"
| stack_left_reads: "to_left k = d # ds \<Longrightarrow> end_step faults cd cid (sk_left k) (Some d) e \<Longrightarrow>
    stack_step faults cd cid k (k\<lparr>sk_left := e, sk_left_read := Suc (sk_left_read k)\<rparr>)"
| stack_right: "end_step faults cd cid (sk_right k) None e \<Longrightarrow> stack_step faults cd cid k (k\<lparr>sk_right := e\<rparr>)"
| stack_right_reads: "to_right k = d # ds \<Longrightarrow> end_step faults cd cid (sk_right k) (Some d) e \<Longrightarrow>
    stack_step faults cd cid k (k\<lparr>sk_right := e, sk_right_read := Suc (sk_right_read k)\<rparr>)"

inductive stack_run ::
  "bool \<Rightarrow> 'm codec \<Rightarrow> ChannelId \<Rightarrow> nat \<Rightarrow> ('k, 's, 't, 'm) stack \<Rightarrow> ('k, 's, 't, 'm) stack \<Rightarrow> bool" for faults cd cid where
  stack_refl: "stack_run faults cd cid 0 k k"
| stack_trans: "stack_run faults cd cid n k k' \<Longrightarrow> stack_step faults cd cid k' k'' \<Longrightarrow> stack_run faults cd cid (Suc n) k k''"

text \<open>The pair of loops that a stack stands for.\<close>

definition stands_for :: "'m codec \<Rightarrow> 'm channelHandle \<Rightarrow> ('k, 's, 't, 'm) stack \<Rightarrow> ('k, 's, 't, 'm) pair \<Rightarrow> bool" where
  "stands_for cd h k p \<longleftrightarrow>
     p_left p = fst (sk_left k) \<and> p_right p = fst (sk_right k) \<and>
     sk_left_read k \<le> length (ss_out (snd (sk_right k))) \<and> sk_right_read k \<le> length (ss_out (snd (sk_left k))) \<and>
     registered h (snd (sk_left k)) \<and> callers_ok cd (snd (sk_left k)) \<and>
     registered h (snd (sk_right k)) \<and> callers_ok cd (snd (sk_right k)) \<and>
     carries cd h (snd (sk_left k)) (to_left k) (p_left_in p) \<and> carries cd h (snd (sk_right k)) (to_right k) (p_right_in p)"

lemma drop_ConsD:
  assumes "drop n xs = d # ds"
  shows "n < length xs" and "drop (Suc n) xs = ds"
proof -
  show "n < length xs" using assms by (metis drop_eq_Nil list.distinct(1) not_le)
  show "drop (Suc n) xs = ds" using assms by (simp add: drop_Suc flip: tl_drop)
qed

lemma left_move:
  assumes "end_move faults (p_left p) (p_left_in p) out l' q'"
  shows "pair_step faults p (p\<lparr>p_left := l', p_left_in := q', p_right_in := p_right_in p @ out\<rparr>)"
  using assms
proof cases
  case (move_recv m)
  then show ?thesis using pair_step.left_recv [of p m l' q' faults] by simp
next
  case (move_send m)
  then show ?thesis using pair_step.left_send [of p m l' faults] by simp
next
  case move_tau
  then show ?thesis using pair_step.left_tau [of p l' faults] by simp
next
  case (move_send_fail m e)
  then show ?thesis using pair_step.left_send_fail [of faults p m e l'] by simp
next
  case (move_recv_fail e)
  then show ?thesis using pair_step.left_recv_fail [of faults p e l'] by simp
qed

lemma right_move:
  assumes "end_move faults (p_right p) (p_right_in p) out r' q'"
  shows "pair_step faults p (p\<lparr>p_right := r', p_right_in := q', p_left_in := p_left_in p @ out\<rparr>)"
  using assms
proof cases
  case (move_recv m)
  then show ?thesis using pair_step.right_recv [of p m r' q' faults] by simp
next
  case (move_send m)
  then show ?thesis using pair_step.right_send [of p m r' faults] by simp
next
  case move_tau
  then show ?thesis using pair_step.right_tau [of p r' faults] by simp
next
  case (move_send_fail m e)
  then show ?thesis using pair_step.right_send_fail [of faults p m e r'] by simp
next
  case (move_recv_fail e)
  then show ?thesis using pair_step.right_recv_fail [of faults p e r'] by simp
qed

definition stack_weight :: "('k, 's, 't, 'm) stack \<Rightarrow> nat" where
  "stack_weight k = weight (snd (sk_left k)) (to_left k) + weight (snd (sk_right k)) (to_right k)"

lemma weight_append: "weight s (pend @ ps) = weight s pend + 3 * length ps"
  by (simp add: weight_def)

text \<open>A step of one side keeps what the stack stands for, whatever it reads.\<close>

definition follows ::
  "bool \<Rightarrow> 'm codec \<Rightarrow> 'm channelHandle \<Rightarrow> ('k, 's, 't, 'm) stack \<Rightarrow> ('k, 's, 't, 'm) pair \<Rightarrow> bool \<Rightarrow> ('k, 's, 't, 'm) stack \<Rightarrow> bool" where
  "follows faults cd h k p op k' \<longleftrightarrow>
     (\<exists>p'. stands_for cd h k' p' \<and>
       (pair_step (faults \<or> \<not> op) p p' \<and> stack_weight k' \<le> stack_weight k + 3 \<or>
        p' = p \<and> (\<not> faults \<longrightarrow> stack_weight k' < stack_weight k)))"

lemma left_follows:
  assumes st: "stands_for cd h k p" and "session_codec cd"
    and step: "end_step faults cd (h_id h) (sk_left k) i e"
    and i: "i = None \<and> left_read = sk_left_read k \<or> (\<exists>d ds. i = Some d \<and> to_left k = d # ds \<and> left_read = Suc (sk_left_read k))"
    and send: "\<forall>m l'. loop_step (p_left p) (Send m) l' \<longrightarrow> can_write faults cd h m"
  shows "follows faults cd h k p (open_channel h (snd (sk_left k))) (k\<lparr>sk_left := e, sk_left_read := left_read\<rparr>)"
proof -
  obtain l s where k: "sk_left k = (l, s)" by fastforce
  obtain l' s' where e: "e = (l', s')" by fastforce
  let ?rest = "drop left_read (ss_out (snd (sk_right k)))" and ?k = "k\<lparr>sk_left := e, sk_left_read := left_read\<rparr>"
  have pend: "to_left k = (case i of None \<Rightarrow> ?rest | Some d \<Rightarrow> d # ?rest)" and le: "left_read \<le> length (ss_out (snd (sk_right k)))"
    using i st by (auto simp: to_left_def stands_for_def dest: drop_ConsD)
  have l: "p_left p = l" and c: "carries cd h s (to_left k) (p_left_in p)"
    using st k by (simp_all add: stands_for_def)
  obtain ps q' where ps: "ss_out s' = ss_out s @ ps" "carries cd h s' ?rest q'"
    "simulated faults cd h l s (p_left_in p) ps (weight s (to_left k)) l' q' (weight s' ?rest)"
    using end_simulates [OF step [unfolded k e] _ _ assms(2) send [unfolded l] c [unfolded pend], folded pend] st k
    by (auto simp: stands_for_def)
  let ?p = "p\<lparr>p_left := l', p_left_in := q', p_right_in := p_right_in p @ concat (map (payload_messages cd h) ps)\<rparr>"
  have right: "to_right ?k = to_right k @ ps" and left: "to_left ?k = ?rest"
    using ps(1) st k e by (simp_all add: to_right_def to_left_def stands_for_def)
  have sf: "stands_for cd h ?k ?p"
    using st ps(1,2) le k e right left end_keeps [OF step [unfolded k e]] carries_more [of cd h "snd (sk_right k)" "to_right k" "p_right_in p" ps]
    by (auto simp: stands_for_def)
  have w: "stack_weight ?k + weight s (to_left k) = stack_weight k + weight s' ?rest + 3 * length ps"
    using right left k e by (simp add: stack_weight_def weight_append)
  from ps(3) consider
    "end_move (faults \<or> \<not> open_channel h s) l (p_left_in p) (concat (map (payload_messages cd h) ps)) l' q'"
      "length ps \<le> 1" "weight s' ?rest = weight s (to_left k)"
    | "l' = l" "q' = p_left_in p" "concat (map (payload_messages cd h) ps) = []"
      "\<not> faults \<longrightarrow> ps = [] \<and> weight s' ?rest < weight s (to_left k)"
    unfolding simulated_def by blast
  then show ?thesis
  proof cases
    case 1
    then have "pair_step (faults \<or> \<not> open_channel h s) p ?p" using left_move l by blast
    then show ?thesis using sf w 1 k by (auto simp: follows_def)
  next
    case 2
    then have "?p = p" using l by (simp del: concat_eq_Nil_conv)
    then show ?thesis using sf w 2(4) by (auto simp: follows_def)
  qed
qed

lemma right_follows:
  assumes st: "stands_for cd h k p" and "session_codec cd"
    and step: "end_step faults cd (h_id h) (sk_right k) i e"
    and i: "i = None \<and> right_read = sk_right_read k \<or> (\<exists>d ds. i = Some d \<and> to_right k = d # ds \<and> right_read = Suc (sk_right_read k))"
    and send: "\<forall>m l'. loop_step (p_right p) (Send m) l' \<longrightarrow> can_write faults cd h m"
  shows "follows faults cd h k p (open_channel h (snd (sk_right k))) (k\<lparr>sk_right := e, sk_right_read := right_read\<rparr>)"
proof -
  obtain l s where k: "sk_right k = (l, s)" by fastforce
  obtain l' s' where e: "e = (l', s')" by fastforce
  let ?rest = "drop right_read (ss_out (snd (sk_left k)))" and ?k = "k\<lparr>sk_right := e, sk_right_read := right_read\<rparr>"
  have pend: "to_right k = (case i of None \<Rightarrow> ?rest | Some d \<Rightarrow> d # ?rest)" and le: "right_read \<le> length (ss_out (snd (sk_left k)))"
    using i st by (auto simp: to_right_def stands_for_def dest: drop_ConsD)
  have l: "p_right p = l" and c: "carries cd h s (to_right k) (p_right_in p)"
    using st k by (simp_all add: stands_for_def)
  obtain ps q' where ps: "ss_out s' = ss_out s @ ps" "carries cd h s' ?rest q'"
    "simulated faults cd h l s (p_right_in p) ps (weight s (to_right k)) l' q' (weight s' ?rest)"
    using end_simulates [OF step [unfolded k e] _ _ assms(2) send [unfolded l] c [unfolded pend], folded pend] st k
    by (auto simp: stands_for_def)
  let ?p = "p\<lparr>p_right := l', p_right_in := q', p_left_in := p_left_in p @ concat (map (payload_messages cd h) ps)\<rparr>"
  have left: "to_left ?k = to_left k @ ps" and right: "to_right ?k = ?rest"
    using ps(1) st k e by (simp_all add: to_right_def to_left_def stands_for_def)
  have sf: "stands_for cd h ?k ?p"
    using st ps(1,2) le k e right left end_keeps [OF step [unfolded k e]] carries_more [of cd h "snd (sk_left k)" "to_left k" "p_left_in p" ps]
    by (auto simp: stands_for_def)
  have w: "stack_weight ?k + weight s (to_right k) = stack_weight k + weight s' ?rest + 3 * length ps"
    using right left k e by (simp add: stack_weight_def weight_append)
  from ps(3) consider
    "end_move (faults \<or> \<not> open_channel h s) l (p_right_in p) (concat (map (payload_messages cd h) ps)) l' q'"
      "length ps \<le> 1" "weight s' ?rest = weight s (to_right k)"
    | "l' = l" "q' = p_right_in p" "concat (map (payload_messages cd h) ps) = []"
      "\<not> faults \<longrightarrow> ps = [] \<and> weight s' ?rest < weight s (to_right k)"
    unfolding simulated_def by blast
  then show ?thesis
  proof cases
    case 1
    then have "pair_step (faults \<or> \<not> open_channel h s) p ?p" using right_move l by blast
    then show ?thesis using sf w 1 k by (auto simp: follows_def)
  next
    case 2
    then have "?p = p" using l by (simp del: concat_eq_Nil_conv)
    then show ?thesis using sf w 2(4) by (auto simp: follows_def)
  qed
qed

section \<open>Progress\<close>

text \<open>A session that only carries data: nobody waits for a channel, none has been closed, and its goroutines run.\<close>

definition flowing :: "'m session \<Rightarrow> bool" where
  "flowing s \<longleftrightarrow>
     ss_opens s = Map.empty \<and> (\<forall>c ch. ss_channels s c = Some ch \<longrightarrow> ch_running ch \<and> \<not> ch_done ch) \<and>
     (case ss_broker s of Select \<Rightarrow> True | Delivering c m \<Rightarrow> ss_channels s c \<noteq> None | _ \<Rightarrow> False) \<and>
     (case ss_reader s of ReaderReading \<Rightarrow> True | ReaderSending r \<Rightarrow> True | _ \<Rightarrow> False)"

lemma flowing_step:
  assumes "session_step cd s l t" and "flowing s" and "l \<noteq> Silent"
  shows "flowing t"
  using assms
  by cases (auto simp: flowing_def handler_in_def handler_next_def split: option.split if_split_asm list.split_asm broker_pc.split_asm)

lemma flowing_request:
  assumes "flowing s" and "ss_broker s = Select"
  shows "flowing (broker_request cd (s\<lparr>ss_reader := ReaderReading\<rparr>) r)"
  using assms
  by (auto simp: flowing_def broker_defs split: request.split option.split sum.split prod.split)

lemma flowing_out [simp]: "flowing (s\<lparr>ss_out := out\<rparr>) = flowing s"
  by (cases "ss_broker s") (simp_all add: flowing_def)

lemma flowing_end:
  assumes "end_step False cd cid (l, s) i (l', s')" and "flowing s"
  shows "flowing s'"
  using assms
proof cases
  case (end_request r)
  then show ?thesis using flowing_request assms(2) by blast
qed (auto intro: flowing_step)

lemma flowing_open: "flowing s \<Longrightarrow> registered h s \<Longrightarrow> open_channel h s"
  by (auto simp: flowing_def registered_def open_channel_def)

text \<open>A flowing session can move whatever is under way.\<close>

lemma flowing_moves:
  assumes f: "flowing s" and "registered h s" and "carries cd h s pend (m # q)"
  shows "(\<exists>s'. session_step cd s (Handed (h_id h) m) s') \<or> (\<exists>s'. end_step False cd cid (l, s) None (l, s')) \<or>
    (\<exists>d ds s'. pend = d # ds \<and> end_step False cd cid (l, s) (Some d) (l, s'))"
proof -
  obtain ch where ch: "ss_channels s (h_id h) = Some ch" "ch_running ch"
    using assms(1,2) by (auto simp: registered_def flowing_def)
  show ?thesis
  proof (cases "ch_queue ch")
    case (Cons x xs)
    then have "x = m" using assms(3) ch by (simp add: carries_def pending_messages_def)
    then have "handler_next ch = Some (m, ch\<lparr>ch_queue := xs\<rparr>)" using Cons ch by (simp add: handler_next_def)
    from session_step.channel_read [OF ch(1) this, of cd] show ?thesis by (intro disjI1 exI)
  next
    case Nil
    have alive: "broker_alive s" using f by (auto simp: flowing_def broker_alive_def split: broker_pc.splits)
    have tr: "transit cd h s pend = m # q"
      using assms(3) alive ch Nil by (auto simp: carries_def pending_messages_def)
    show ?thesis
    proof (cases "ss_broker s")
      case (Delivering c x)
      then obtain ch' where c: "ss_channels s c = Some ch'" "ch_running ch'" using f by (auto simp: flowing_def)
      then have "handler_in ch' x = Some (ch'\<lparr>ch_queue := ch_queue ch' @ [x]\<rparr>)" by (simp add: handler_in_def)
      from end_step.end_delivers [OF session_step.broker_deliver [OF Delivering c(1) this], of False cd cid l]
      show ?thesis by (intro disjI2 disjI1 exI)
    next
      case Select
      show ?thesis
      proof (cases "ss_reader s")
        case (ReaderSending r)
        from end_step.end_request [OF Select ReaderSending, of False cd cid l] show ?thesis by (intro disjI2 disjI1 exI)
      next
        case ReaderReading
        then obtain d ds where "pend = d # ds"
          using tr Select by (cases pend) (simp_all add: transit_def broker_messages_def reader_messages_def)
        with end_step.end_arrives [OF session_step.read_bytes [OF ReaderReading], of False cd cid l d] show ?thesis
          by (intro disjI2 exI conjI)
      qed (use f in \<open>simp_all add: flowing_def\<close>)
    qed (use f in \<open>simp_all add: flowing_def\<close>)
  qed
qed

definition stack_stuck :: "'m codec \<Rightarrow> ChannelId \<Rightarrow> ('k, 's, 't, 'm) stack \<Rightarrow> bool" where
  "stack_stuck cd cid k \<longleftrightarrow> (\<forall>k'. \<not> stack_step False cd cid k k')"

definition stack_flows :: "('k, 's, 't, 'm) stack \<Rightarrow> bool" where
  "stack_flows k \<longleftrightarrow> flowing (snd (sk_left k)) \<and> flowing (snd (sk_right k))"

lemma end_sends:
  assumes "loop_step l (Send m) l'" and "sendable cd h m" and "open_channel h s"
  shows "\<exists>s'. end_step False cd (h_id h) (l, s) None (l', s')"
proof -
  obtain ch where ch: "ss_channels s (h_id h) = Some ch" "ch_handle ch = h" "\<not> ch_done ch"
    using assms(3) by (auto simp: open_channel_def)
  obtain bs where "MarshalMessage cd h m = Return (Inr bs)" using assms(2) by (auto simp: sendable_def)
  then have "channel_Write cd ch (\<lambda>out d. (None, out @ [d])) (ss_out s) m = Return (None, ss_out s @ [bs])"
    using ch by (simp add: channel_Write_def)
  from end_step.end_send [OF assms(1) ch(1) this] show ?thesis by blast
qed

text \<open>One side of a stack that is stuck: its loop cannot move in the pair, either.\<close>

lemma end_stuck:
  assumes "flowing s" and "registered h s" and "carries cd h s pend q"
    and quiet: "\<And>e. \<not> end_step False cd (h_id h) (l, s) None e" and reads: "\<And>d ds e. pend = d # ds \<Longrightarrow> \<not> end_step False cd (h_id h) (l, s) (Some d) e"
    and "\<forall>m l'. loop_step l (Send m) l' \<longrightarrow> sendable cd h m"
  shows "\<not> loop_step l Tau l'" and "\<not> loop_step l (Send m) l'" and "q = m # q' \<Longrightarrow> \<not> loop_step l (Recv m) l'"
proof -
  show "\<not> loop_step l Tau l'" using quiet end_step.end_tau by blast
  show "\<not> loop_step l (Send m) l'"
    using quiet end_sends [of l m l' cd h s] assms(6) flowing_open [OF assms(1,2)] by blast
  show "\<not> loop_step l (Recv m) l'" if "q = m # q'"
  proof
    assume rc: "loop_step l (Recv m) l'"
    have "(\<exists>s'. session_step cd s (Handed (h_id h) m) s')"
      using flowing_moves [OF assms(1,2) assms(3) [unfolded that], of "h_id h" l] quiet reads by blast
    then show False using quiet end_step.end_recv [OF rc] by blast
  qed
qed

lemma pair_step_mono: "pair_step f p q \<Longrightarrow> (f \<longrightarrow> g) \<Longrightarrow> pair_step g p q"
  by (erule pair_step.cases) (auto intro: pair_step.intros)

lemma stack_flows_step:
  assumes "stack_step False cd cid k k'" and "stack_flows k"
  shows "stack_flows k'"
  using assms
proof cases
  case (stack_left e)
  then show ?thesis using assms(2) flowing_end [of cd cid "fst (sk_left k)" "snd (sk_left k)" None "fst e" "snd e"] by (simp add: stack_flows_def)
next
  case (stack_left_reads d ds e)
  then show ?thesis using assms(2) flowing_end [of cd cid "fst (sk_left k)" "snd (sk_left k)" "Some d" "fst e" "snd e"] by (simp add: stack_flows_def)
next
  case (stack_right e)
  then show ?thesis using assms(2) flowing_end [of cd cid "fst (sk_right k)" "snd (sk_right k)" None "fst e" "snd e"] by (simp add: stack_flows_def)
next
  case (stack_right_reads d ds e)
  then show ?thesis using assms(2) flowing_end [of cd cid "fst (sk_right k)" "snd (sk_right k)" "Some d" "fst e" "snd e"] by (simp add: stack_flows_def)
qed

lemma follows_mono:
  assumes "follows faults cd h k p op k'" and "op' \<longrightarrow> op"
  shows "follows faults cd h k p op' k'"
proof -
  obtain p' where p': "stands_for cd h k' p'"
    "pair_step (faults \<or> \<not> op) p p' \<and> stack_weight k' \<le> stack_weight k + 3 \<or> p' = p \<and> (\<not> faults \<longrightarrow> stack_weight k' < stack_weight k)"
    using assms(1) unfolding follows_def by blast
  have "pair_step (faults \<or> \<not> op) p p' \<Longrightarrow> pair_step (faults \<or> \<not> op') p p'"
    by (erule pair_step_mono) (use assms(2) in blast)
  with p' show ?thesis unfolding follows_def by blast
qed

lemma stack_simulates:
  assumes st: "stands_for cd h k p" and "session_codec cd"
    and send: "\<forall>x l'. loop_step (p_left p) (Send x) l' \<longrightarrow> can_write faults cd h x"
      "\<forall>x l'. loop_step (p_right p) (Send x) l' \<longrightarrow> can_write faults cd h x"
    and step: "stack_step faults cd (h_id h) k k'"
  shows "follows faults cd h k p (open_channel h (snd (sk_left k)) \<and> open_channel h (snd (sk_right k))) k'"
  using step
proof cases
  case (stack_left e)
  have "follows faults cd h k p (open_channel h (snd (sk_left k))) (k\<lparr>sk_left := e, sk_left_read := sk_left_read k\<rparr>)"
    by (rule left_follows [OF st assms(2) stack_left(2) _ send(1)]) simp
  then have "follows faults cd h k p (open_channel h (snd (sk_left k))) k'" using stack_left(1) by simp
  then show ?thesis by (rule follows_mono) simp
next
  case (stack_left_reads d ds e)
  have "follows faults cd h k p (open_channel h (snd (sk_left k))) (k\<lparr>sk_left := e, sk_left_read := Suc (sk_left_read k)\<rparr>)"
    by (rule left_follows [OF st assms(2) stack_left_reads(3) _ send(1)]) (simp add: stack_left_reads(2))
  then show ?thesis unfolding stack_left_reads(1) by (rule follows_mono) simp
next
  case (stack_right e)
  have "follows faults cd h k p (open_channel h (snd (sk_right k))) (k\<lparr>sk_right := e, sk_right_read := sk_right_read k\<rparr>)"
    by (rule right_follows [OF st assms(2) stack_right(2) _ send(2)]) simp
  then have "follows faults cd h k p (open_channel h (snd (sk_right k))) k'" using stack_right(1) by simp
  then show ?thesis by (rule follows_mono) simp
next
  case (stack_right_reads d ds e)
  have "follows faults cd h k p (open_channel h (snd (sk_right k))) (k\<lparr>sk_right := e, sk_right_read := Suc (sk_right_read k)\<rparr>)"
    by (rule right_follows [OF st assms(2) stack_right_reads(3) _ send(2)]) (simp add: stack_right_reads(2))
  then show ?thesis unfolding stack_right_reads(1) by (rule follows_mono) simp
qed

section \<open>Conversations over a session\<close>

context conversation
begin

lemma conversation_sends:
  assumes "pair_at n i m j p" and "\<forall>x\<in>set us \<union> set vs. W x"
  shows "\<forall>x l'. loop_step (p_left p) (Send x) l' \<longrightarrow> W x"
    and "\<forall>x l'. loop_step (p_right p) (Send x) l' \<longrightarrow> W x"
proof -
  have at: "L.loop_at n i (p_left p)" "R.loop_at m j (p_right p)" using assms(1) by (simp_all add: pair_at_def)
  show "\<forall>x l'. loop_step (p_left p) (Send x) l' \<longrightarrow> W x"
    using L.send_ok [OF at(1)] assms(2) nth_mem by blast
  show "\<forall>x l'. loop_step (p_right p) (Send x) l' \<longrightarrow> W x"
    using R.send_ok [OF at(2)] assms(2) nth_mem by blast
qed

lemma stack_follows:
  assumes st: "stands_for cd h k p" and at: "pair_at n i m j p" and "session_codec cd"
    and ms: "\<forall>x\<in>set us \<union> set vs. can_write faults cd h x" and step: "stack_step faults cd (h_id h) k k'"
  shows "follows faults cd h k p (open_channel h (snd (sk_left k)) \<and> open_channel h (snd (sk_right k))) k'"
  by (rule stack_simulates [OF st assms(3) conversation_sends [OF at ms] step])

lemma stack_run_follows:
  assumes run: "stack_run faults cd (h_id h) t k k'" and st: "stands_for cd h k p" and at: "pair_at n i m j p" and "session_codec cd"
    and ms: "\<forall>x\<in>set us \<union> set vs. can_write faults cd h x" and fl: "\<not> faults \<longrightarrow> stack_flows k"
  shows "\<exists>a p'. pair_run faults a p p' \<and> stands_for cd h k' p' \<and>
    (\<not> faults \<longrightarrow> stack_flows k' \<and> t + stack_weight k' \<le> 4 * a + stack_weight k)"
  using assms
proof (induction rule: stack_run.induct)
  case (stack_refl k)
  then show ?case using pair_run.run_refl [of faults p] by fastforce
next
  case (stack_trans t k k' k'')
  then obtain a q where q: "pair_run faults a p q" "stands_for cd h k' q"
    and w: "\<not> faults \<longrightarrow> stack_flows k' \<and> t + stack_weight k' \<le> 4 * a + stack_weight k" by blast
  obtain n' i' m' j' where at': "pair_at n' i' m' j' q" using run_at [OF q(1) stack_trans.prems(2)] by blast
  let ?op = "open_channel h (snd (sk_left k')) \<and> open_channel h (snd (sk_right k'))"
  have flows: "\<not> faults \<longrightarrow> stack_flows k''" using w stack_flows_step [of cd "h_id h" k' k''] stack_trans.hyps(2) by auto
  have op: "\<not> faults \<longrightarrow> ?op" using w q(2) flowing_open by (auto simp: stack_flows_def stands_for_def)
  obtain q' where q': "stands_for cd h k'' q'"
    and mv: "pair_step (faults \<or> \<not> ?op) q q' \<and> stack_weight k'' \<le> stack_weight k' + 3 \<or>
      q' = q \<and> (\<not> faults \<longrightarrow> stack_weight k'' < stack_weight k')"
    using stack_follows [OF q(2) at' stack_trans.prems(3,4) stack_trans.hyps(2)] unfolding follows_def by blast
  have eq: "(faults \<or> \<not> ?op) = faults" using op by blast
  from mv [unfolded eq] consider "pair_step faults q q'" "stack_weight k'' \<le> stack_weight k' + 3"
    | "q' = q" "\<not> faults \<longrightarrow> stack_weight k'' < stack_weight k'" by blast
  then show ?case
  proof cases
    case 1
    have "pair_run faults (Suc a) p q'" by (rule pair_run.run_step [OF q(1) 1(1)])
    then show ?thesis using q' flows w 1(2) by (intro exI [of _ "Suc a"] exI [of _ q']) auto
  next
    case 2
    then show ?thesis using q(1) q' flows w by (intro exI [of _ a] exI [of _ q]) auto
  qed
qed

lemma stuck_stack_pair:
  assumes st: "stands_for cd h k p" and at: "pair_at n i m j p" and fl: "stack_flows k"
    and ms: "\<forall>x\<in>set us \<union> set vs. sendable cd h x" and stk: "stack_stuck cd (h_id h) k"
  shows "stuck p"
proof -
  note send = conversation_sends [OF at ms]
  obtain l s r u where k: "sk_left k = (l, s)" "sk_right k = (r, u)" by fastforce
  have p: "p_left p = l" "p_right p = r" and c: "carries cd h s (to_left k) (p_left_in p)" "carries cd h u (to_right k) (p_right_in p)"
    and reg: "registered h s" "registered h u" and f: "flowing s" "flowing u"
    using st fl k by (simp_all add: stands_for_def stack_flows_def)
  have no: "\<not> stack_step False cd (h_id h) k k'" for k' using stk by (simp add: stack_stuck_def)
  have quiet: "\<not> end_step False cd (h_id h) (l, s) None e" "\<not> end_step False cd (h_id h) (r, u) None e'" for e e'
    using no stack_step.stack_left [of False cd "h_id h" k e] stack_step.stack_right [of False cd "h_id h" k e'] k by auto
  have reads: "to_left k = d # ds \<Longrightarrow> \<not> end_step False cd (h_id h) (l, s) (Some d) e"
    "to_right k = d # ds \<Longrightarrow> \<not> end_step False cd (h_id h) (r, u) (Some d) e'" for d ds e e'
    using no stack_step.stack_left_reads [of k d ds False cd "h_id h" e] stack_step.stack_right_reads [of k d ds False cd "h_id h" e'] k by auto
  note left = end_stuck [OF f(1) reg(1) c(1) quiet(1) reads(1) send(1) [unfolded p]]
    and right = end_stuck [OF f(2) reg(2) c(2) quiet(2) reads(2) send(2) [unfolded p]]
  have "\<not> pair_step False p q" for q
  proof
    assume "pair_step False p q"
    then show False
    proof cases
      case (left_recv m l' ms)
      then show ?thesis using left(3) p by simp
    next
      case (right_recv m r' ms)
      then show ?thesis using right(3) p by simp
    qed (use left(1,2) right(1,2) p in simp_all)
  qed
  then show ?thesis by (simp add: stuck_def)
qed

end

end
