(* ===== verification/Late_Start.thy ===== *)
theory Late_Start
  imports Session_Link
begin

text \<open>
  The start of the two loops. \<open>OpenChannel\<close> returns as soon as the acceptance has arrived, which the other side has sent before it
  registers the channel: the initiator's loop may already be writing while the messages of that channel are still dropped by the
  other broker. Here is what can have happened until \<open>AcceptChannel\<close> returns, and that a loop that has missed its first message does no harm.
\<close>

section \<open>What a session has read\<close>

fun arrived :: "'m session_label list \<Rightarrow> bytes list" where
  "arrived [] = []"
| "arrived (l # ls) = (case l of Arrived d \<Rightarrow> d # arrived ls | _ \<Rightarrow> arrived ls)"

lemma arrived_append: "arrived (xs @ ys) = arrived xs @ arrived ys"
  by (induction xs) (auto split: session_label.split)

text \<open>A session gets to a state having read the given payloads.\<close>

definition gets_to :: "'m codec \<Rightarrow> 'm session \<Rightarrow> bytes list \<Rightarrow> 'm session \<Rightarrow> bool" where
  "gets_to cd s ds t \<longleftrightarrow> (\<exists>ls. session_run cd s ls t \<and> arrived ls = ds)"

lemma gets_to_start: "gets_to cd s [] s"
  by (auto simp: gets_to_def intro: session_run.session_refl exI [of _ "[]"])

lemma gets_to_silent: "gets_to cd r ds s \<Longrightarrow> session_step cd s Silent t \<Longrightarrow> t = u \<Longrightarrow> gets_to cd r ds u"
  unfolding gets_to_def by (force intro: session_run.session_trans simp: arrived_append)

lemma gets_to_arrived: "gets_to cd r ds s \<Longrightarrow> session_step cd s (Arrived d) t \<Longrightarrow> t = u \<Longrightarrow> ds' = ds @ [d] \<Longrightarrow> gets_to cd r ds' u"
  unfolding gets_to_def by (force intro: session_run.session_trans simp: arrived_append)

text \<open>The read handler holds nothing, or what it has read last.\<close>

lemma step_reader:
  assumes "session_step cd s l t"
  shows "l = Arrived d \<Longrightarrow> reader_messages cd h (ss_reader t) = payload_messages cd h d"
    and "\<forall>d. l \<noteq> Arrived d \<Longrightarrow> ss_reader t = ss_reader s \<or> reader_messages cd h (ss_reader t) = []"
proof -
  have "(l = Arrived d \<longrightarrow> reader_messages cd h (ss_reader t) = payload_messages cd h d) \<and>
    ((\<forall>d. l \<noteq> Arrived d) \<longrightarrow> ss_reader t = ss_reader s \<or> reader_messages cd h (ss_reader t) = [])"
    using assms
  proof cases
    case (broker_read r)
    then have "ss_reader t = ReaderReading"
      by (auto simp: broker_defs split: request.split option.split sum.split prod.split)
    then show ?thesis using broker_read by (simp add: reader_messages_def)
  next
    case close_call
    then show ?thesis by (auto simp: session_Close_def split: if_split_asm)
  qed (auto simp: reader_messages_def payload_messages_def read_failure_def split: option.split)
  then show "l = Arrived d \<Longrightarrow> reader_messages cd h (ss_reader t) = payload_messages cd h d"
    and "\<forall>d. l \<noteq> Arrived d \<Longrightarrow> ss_reader t = ss_reader s \<or> reader_messages cd h (ss_reader t) = []"
    by blast+
qed

lemma run_reader:
  fixes cd :: "'m codec"
  assumes "session_run cd (NewSession i) ls s"
  shows "\<exists>lost. concat (map (payload_messages cd h) (arrived ls)) = lost @ reader_messages cd h (ss_reader s)"
  using assms
proof (induction "NewSession i :: 'm session" ls s rule: session_run.induct)
  case session_refl
  then show ?case by (simp add: NewSession_def reader_messages_def)
next
  case (session_trans ls s l t)
  note st = step_reader [OF session_trans.hyps(3), where h = h]
  show ?case
  proof (cases "\<exists>d. l = Arrived d")
    case True
    then show ?thesis using st(1) by (auto simp: arrived_append)
  next
    case False
    then have "arrived (ls @ [l]) = arrived ls" by (cases l) (simp_all add: arrived_append)
    then show ?thesis using st(2) False session_trans.hyps(2) by fastforce
  qed
qed

text \<open>A session itself writes no data.\<close>

lemma run_writes_control:
  fixes cd :: "'m codec"
  assumes "session_run cd (NewSession i) ls s" and "session_codec cd"
  shows "callers_ok cd s" and "concat (map (payload_messages cd h) (ss_out s)) = []"
proof -
  have "callers_ok cd s \<and> concat (map (payload_messages cd h) (ss_out s)) = []"
    using assms(1)
  proof (induction "NewSession i :: 'm session" ls s rule: session_run.induct)
    case session_refl
    then show ?case by (simp add: NewSession_def callers_ok_def)
  next
    case (session_trans ls s l t)
    then show ?case
      using step_callers_ok [OF session_trans.hyps(3)] step_writes_control [OF session_trans.hyps(3) _ assms(2), of h] by auto
  qed
  then show "callers_ok cd s" and "concat (map (payload_messages cd h) (ss_out s)) = []" by blast+
qed

section \<open>One side alone\<close>

text \<open>The steps of one side, with the payloads that it reads.\<close>

inductive side_run ::
  "'m codec \<Rightarrow> ChannelId \<Rightarrow> ('k, 's, 'm) Loop \<times> 'm session \<Rightarrow> bytes list \<Rightarrow> ('k, 's, 'm) Loop \<times> 'm session \<Rightarrow> bool" for cd cid e where
  side_refl: "side_run cd cid e [] e"
| side_step: "side_run cd cid e ds f \<Longrightarrow> end_step True cd cid f None g \<Longrightarrow> side_run cd cid e ds g"
| side_reads: "side_run cd cid e ds f \<Longrightarrow> end_step True cd cid f (Some d) g \<Longrightarrow> side_run cd cid e (ds @ [d]) g"

text \<open>
  The moment at which \<open>AcceptChannel\<close> returns on the right, with the channel \<open>h\<close>. Its session has come here from its start, by any
  steps, and has read any number of the payloads of the left one. The left side has run since \<open>OpenChannel\<close> returned, at \<open>e\<close>, and has
  read payloads of the right one since then.
\<close>

definition accept_returns ::
  "'m codec \<Rightarrow> 'm channelHandle \<Rightarrow> ('k, 's, 'm) Loop \<times> 'm session \<Rightarrow> ('k, 't, 'm) Loop \<Rightarrow> ('k, 's, 't, 'm) stack \<Rightarrow> bool" where
  "accept_returns cd h e r k \<longleftrightarrow>
     (\<exists>i s call a.
        gets_to cd (NewSession i) (take (sk_right_read k) (ss_out (snd (sk_left k)))) s \<and>
        ss_broker s = Select \<and> ss_callers s call = Some (Register h) \<and> ss_channels s (h_id h) = None \<and>
        sk_right k = (r, broker_channel (set_caller call (CallReturned h) s) h) \<and>
        side_run cd (h_id h) e (drop a (take (sk_left_read k) (ss_out s))) (sk_left k) \<and>
        sk_left_read k \<le> length (ss_out s) \<and> sk_right_read k \<le> length (ss_out (snd (sk_left k))))"

lemma carries_silent:
  assumes "carries cd h s [] q" and "concat (map (payload_messages cd h) ps) = []"
  shows "carries cd h s ps q"
  using carries_more [OF assms(1), of ps] assms(2) by simp

lemma accepted_carries:
  assumes run: "session_run cd (NewSession i) ls s" and cd: "session_codec cd" and "ss_broker s = Select" and "ss_channels s (h_id h) = None"
    and u_def: "u = broker_channel (set_caller call (CallReturned h) s) h"
  shows "registered h u" and "callers_ok cd u" and "ss_out u = ss_out s"
    and "carries cd h u pend (reader_messages cd h (ss_reader s) @ concat (map (payload_messages cd h) pend))"
proof -
  have u: "ss_out u = ss_out s" "ss_reader u = ss_reader s" "ss_broker u = Select" "ss_channels u (h_id h) = Some (new_channel h)"
    "ss_callers u = (ss_callers s)(call \<mapsto> CallReturned h)"
    using assms(3,4) by (simp_all add: u_def broker_channel_def)
  show "ss_out u = ss_out s" "registered h u" using u by (simp_all add: registered_def new_channel_def)
  show "callers_ok cd u" using u(5) run_writes_control(1) [OF run cd] by (auto simp: callers_ok_def)
  show "carries cd h u pend (reader_messages cd h (ss_reader s) @ concat (map (payload_messages cd h) pend))"
    using u by (simp add: carries_def pending_messages_def new_channel_def transit_def broker_messages_def)
qed

section \<open>A loop that has missed its first message\<close>

context conversation
begin

definition alone :: "nat \<Rightarrow> ('k, 's, 'm) Loop \<Rightarrow> bool" where
  "alone n l \<longleftrightarrow> L.loop_at n 0 l \<and> offered l = [] \<and> n \<le> length us"

lemma alone_step:
  assumes "alone n l" and "end_move faults l [] out l' q"
  shows "\<exists>n'\<ge>n. alone n' l' \<and> q = [] \<and> take n' us = take n us @ out"
  using assms(2)
proof cases
  case move_tau
  then show ?thesis using L.tau_ok(1) [OF _ move_tau(3)] assms(1) by (fastforce simp: alone_def offered_def)
next
  case (move_send m)
  have "n < length us \<and> m = us ! n \<and> L.loop_at (Suc n) 0 l' \<and> lp_reader l' = lp_reader l"
    using L.send_ok [OF _ move_send(3), of n 0] assms(1) by (simp add: alone_def)
  then show ?thesis using move_send assms(1)
    by (intro exI [of _ "Suc n"]) (auto simp: alone_def offered_def take_Suc_conv_app_nth)
next
  case (move_send_fail m e)
  then show ?thesis using L.send_fail_ok [OF _ move_send_fail(4)] assms(1) by (auto simp: alone_def offered_def)
next
  case (move_recv_fail e)
  then show ?thesis using L.recv_fail_ok [OF _ move_recv_fail(4)] assms(1) by (auto simp: alone_def)
qed

text \<open>What the left side does alone is a run of the pair in which the right loop has not moved yet.\<close>

definition left_alone ::
  "'m codec \<Rightarrow> 'm channelHandle \<Rightarrow> ('k, 's, 't, 'm) pair \<Rightarrow> 'm session \<Rightarrow> nat \<Rightarrow> ('k, 's, 't, 'm) pair \<Rightarrow> ('k, 's, 'm) Loop \<times> 'm session \<Rightarrow> bool" where
  "left_alone cd h start sl n p e \<longleftrightarrow>
     (\<exists>a. pair_run True a start p) \<and> p_left p = fst e \<and> p_right p = p_right start \<and> p_left_in p = [] \<and>
     alone n (fst e) \<and> p_right_in p = take n us \<and>
     (\<exists>ps. ss_out (snd e) = ss_out sl @ ps \<and> take n us = concat (map (payload_messages cd h) ps)) \<and>
     registered h (snd e) \<and> callers_ok cd (snd e) \<and> carries cd h (snd e) [] []"

lemma left_alone_step:
  assumes f: "left_alone cd h start sl n p f" and step: "end_step True cd (h_id h) f j g" and "\<forall>d. j = Some d \<longrightarrow> payload_messages cd h d = []"
    and cd: "session_codec cd" and ms: "\<forall>x\<in>set us. can_write True cd h x"
  shows "\<exists>n' p'. left_alone cd h start sl n' p' g"
proof -
  have c0: "carries cd h (snd f) [] []" and al: "alone n (fst f)" and ok: "registered h (snd f)" "callers_ok cd (snd f)"
    using f by (simp_all add: left_alone_def)
  have c: "carries cd h (snd f) (case j of None \<Rightarrow> [] | Some d \<Rightarrow> [d]) []"
    using carries_silent [OF c0, of "[_]"] c0 assms(3) by (cases j) simp_all
  have send: "\<forall>m l'. loop_step (fst f) (Send m) l' \<longrightarrow> can_write True cd h m"
    using L.send_ok al ms nth_mem by (fastforce simp: alone_def)
  have st: "end_step True cd (h_id h) (fst f, snd f) j (fst g, snd g)" using step by simp
  obtain ps q where g: "ss_out (snd g) = ss_out (snd f) @ ps" "carries cd h (snd g) [] q"
    "end_move True (fst f) [] (concat (map (payload_messages cd h) ps)) (fst g) q \<or>
     fst g = fst f \<and> q = [] \<and> concat (map (payload_messages cd h) ps) = []"
    using end_simulates [OF st ok cd send, of "[]" "[]"] c unfolding simulated_def by auto
  have keep: "registered h (snd g)" "callers_ok cd (snd g)" using end_keeps [OF st] ok by auto
  from g(3) show ?thesis
  proof
    assume mv: "end_move True (fst f) [] (concat (map (payload_messages cd h) ps)) (fst g) q"
    obtain n' where n': "alone n' (fst g)" "q = []" "take n' us = take n us @ concat (map (payload_messages cd h) ps)"
      using alone_step [OF al mv] by blast
    let ?p = "p\<lparr>p_left := fst g, p_left_in := [], p_right_in := take n' us\<rparr>"
    have "pair_step True p ?p" using left_move [of True p _ "fst g" q] mv f n'(2,3) by (simp add: left_alone_def)
    then have "\<exists>a. pair_run True a start ?p" using f pair_run.run_step by (fastforce simp: left_alone_def)
    then show ?thesis using n' f g(1,2) keep by (intro exI [of _ n'] exI [of _ ?p]) (auto simp: left_alone_def)
  next
    assume "fst g = fst f \<and> q = [] \<and> concat (map (payload_messages cd h) ps) = []"
    then show ?thesis using f g(1,2) keep by (intro exI [of _ n] exI [of _ p]) (auto simp: left_alone_def)
  qed
qed

lemma side_run_alone:
  assumes "side_run cd (h_id h) (NewLoop c s, sl) ds e" and inv: "invL 0 0 c s" and cd: "session_codec cd"
    and ms: "\<forall>x\<in>set us. can_write True cd h x" and "\<forall>d\<in>set ds. payload_messages cd h d = []"
    and sl: "registered h sl" "callers_ok cd sl" "carries cd h sl [] []"
  shows "\<exists>n p. left_alone cd h (start_pair c s d t) sl n p e"
  using assms(1,5)
proof (induction rule: side_run.induct)
  case side_refl
  have "left_alone cd h (start_pair c s d t) sl 0 (start_pair c s d t) (NewLoop c s, sl)"
    using L.loop_at_start [OF inv] sl pair_run.run_refl
    by (auto simp: left_alone_def start_pair_def alone_def) (simp add: NewLoop_def)
  then show ?case by blast
next
  case (side_step ds f g)
  then show ?case using left_alone_step [OF _ side_step.hyps(2) _ cd ms] by force
next
  case (side_reads ds f d g)
  then show ?case using left_alone_step [OF _ side_reads.hyps(2) _ cd ms] by force
qed

text \<open>
  A loop on the right that has missed its first message: whatever it takes is an error, and it sends nothing. The left one is
  never answered.
\<close>

definition deaf :: "('k, 't, 'm) Client \<Rightarrow> 't \<Rightarrow> ('k, 't, 'm) Loop \<Rightarrow> bool" where
  "deaf d t l \<longleftrightarrow> lp_pc l = Running \<and> lp_client l = d \<and> lp_data l = t \<or> (\<exists>e. lp_pc l = Returned (Some e))"

definition rejects_rest :: "('k, 't, 'm) Client \<Rightarrow> 't \<Rightarrow> bool" where
  "rejects_rest d t \<longleftrightarrow> invR 0 0 d t \<and> us \<noteq> [] \<and> (\<forall>x\<in>set (tl us). \<exists>d' t' e. Client_ReadMessage d t x = Return (d', t', Some e))"

lemma deaf_step:
  assumes "rejects_rest d t" and "deaf d t l" and "set (offered l) \<subseteq> set (tl us)" and step: "loop_step l a l'"
  shows "deaf d t l' \<and> (\<forall>m. a \<noteq> Send m) \<and> set (offered l') \<subseteq> set (offered l) \<union> (case a of Recv m \<Rightarrow> {m} | _ \<Rightarrow> {})"
proof -
  have inv: "invR 0 0 d t" and "us \<noteq> []" using assms(1) by (simp_all add: rejects_rest_def)
  then have flags: "\<not> Client_IsDone d" "\<not> Client_CanWrite d" "\<not> Client_MustWrite d"
    using R.is_done [OF inv] R.can_write [OF inv] R.must_write [OF inv] by simp_all
  have err: "\<exists>d' t' e. Client_ReadMessage d t x = Return (d', t', Some e)" if "lp_reader l = Offering x" for x
    using that assms(1,3) by (auto simp: rejects_rest_def)
  from step show ?thesis
    by cases (use assms(2) flags err in \<open>fastforce simp: deaf_def at_write_def at_select_def offered_def\<close>)+
qed

definition lost_pair :: "nat \<Rightarrow> ('k, 't, 'm) Client \<Rightarrow> 't \<Rightarrow> ('k, 's, 't, 'm) pair \<Rightarrow> bool" where
  "lost_pair n d t p \<longleftrightarrow>
     0 < n \<and> alone n (p_left p) \<and> p_left_in p = [] \<and> deaf d t (p_right p) \<and>
     set (offered (p_right p)) \<subseteq> set (tl us) \<and> set (p_right_in p) \<subseteq> set (tl us)"

lemma lost_pair_left:
  assumes p: "lost_pair n d t p" and mv: "end_move faults (p_left p) [] out l q"
  shows "\<exists>n'. lost_pair n' d t (p\<lparr>p_left := l, p_right_in := p_right_in p @ out\<rparr>)"
proof -
  have al: "alone n (p_left p)" "0 < n" using p by (simp_all add: lost_pair_def)
  obtain n' where n': "n \<le> n'" "alone n' l" "take n' us = take n us @ out" using alone_step [OF al(1) mv] by blast
  have "us \<noteq> []" using al by (auto simp: alone_def)
  then have "tl (take n' us) = tl (take n us) @ out" using al(2) n'(3) by (cases us; cases n) auto
  then have "set out \<subseteq> set (tl (take n' us))" by simp
  also have "\<dots> \<subseteq> set (tl us)" by (metis set_take_subset tl_take)
  finally show ?thesis using p n'(1,2) by (intro exI [of _ n']) (simp add: lost_pair_def)
qed

lemma lost_pair_right:
  assumes p: "lost_pair n d t p" and d: "rejects_rest d t" and step: "loop_step (p_right p) a r"
  shows "a = Recv m \<Longrightarrow> p_right_in p = m # ms \<Longrightarrow> lost_pair n d t (p\<lparr>p_right := r, p_right_in := ms\<rparr>)"
    and "\<forall>m. a \<noteq> Recv m \<Longrightarrow> lost_pair n d t (p\<lparr>p_right := r\<rparr>)" and "a \<noteq> Send m"
  using deaf_step [OF d _ _ step] p by (auto simp: lost_pair_def split: label.splits)

lemma lost_pair_step:
  assumes p: "lost_pair n d t p" and d: "rejects_rest d t" and step: "pair_step faults p p'"
  shows "\<exists>n'. lost_pair n' d t p'"
  using step
proof cases
  case (left_tau l)
  then show ?thesis using lost_pair_left [OF p end_move.move_tau [where faults = faults]] by simp
next
  case (left_send m l)
  then show ?thesis using lost_pair_left [OF p end_move.move_send [where faults = faults]] by simp
next
  case (left_recv m l ms)
  then show ?thesis using p by (simp add: lost_pair_def)
next
  case (left_send_fail m e l)
  then show ?thesis using lost_pair_left [OF p end_move.move_send_fail [of faults]] by simp
next
  case (left_recv_fail e l)
  then show ?thesis using lost_pair_left [OF p end_move.move_recv_fail [of faults]] by simp
qed (use lost_pair_right [OF p d] in blast)+

lemma lost_pair_harmless:
  assumes "lost_pair n d t p"
  shows "lp_pc (p_left p) \<noteq> Crashed x \<and> lp_pc (p_left p) \<noteq> Returned None \<and> lp_pc (p_right p) \<noteq> Crashed x \<and> lp_pc (p_right p) \<noteq> Returned None"
  using assms same_length
  by (auto simp: lost_pair_def alone_def deaf_def L.loop_at_def L.finished_def)

section \<open>The sessions\<close>

text \<open>A pair of loops that comes from the start without a loss, or one whose right loop has missed its first message.\<close>

definition late_pair :: "('k, 's, 'm) Client \<Rightarrow> 's \<Rightarrow> ('k, 't, 'm) Client \<Rightarrow> 't \<Rightarrow> ('k, 's, 't, 'm) pair \<Rightarrow> bool" where
  "late_pair c s d t p \<longleftrightarrow> (\<exists>a. pair_run True a (start_pair c s d t) p) \<or> (\<exists>n. lost_pair n d t p)"

lemma late_pair_step:
  assumes "late_pair c s d t p" and "rejects_rest d t" and "pair_step True p p'"
  shows "late_pair c s d t p'"
  using assms lost_pair_step pair_run.run_step unfolding late_pair_def by metis

lemma late_pair_sends:
  assumes p: "late_pair c s d t p" and inv: "invL 0 0 c s" and d: "rejects_rest d t" and ms: "\<forall>x\<in>set us \<union> set vs. W x"
  shows "\<forall>x l'. loop_step (p_left p) (Send x) l' \<longrightarrow> W x" and "\<forall>x l'. loop_step (p_right p) (Send x) l' \<longrightarrow> W x"
proof -
  have "(\<forall>x l'. loop_step (p_left p) (Send x) l' \<longrightarrow> W x) \<and> (\<forall>x l'. loop_step (p_right p) (Send x) l' \<longrightarrow> W x)"
    using p unfolding late_pair_def
  proof (elim disjE exE)
    fix a assume "pair_run True a (start_pair c s d t) p"
    moreover have "invR 0 0 d t" using d by (simp add: rejects_rest_def)
    ultimately obtain n i m j where "pair_at n i m j p" using run_at pair_at_start [OF inv] by blast
    from conversation_sends [OF this ms] show ?thesis by blast
  next
    fix n assume n: "lost_pair n d t p"
    then have "L.loop_at n 0 (p_left p)" by (simp add: lost_pair_def alone_def)
    then show ?thesis using L.send_ok ms nth_mem lost_pair_right(3) [OF n d] by blast
  qed
  then show "\<forall>x l'. loop_step (p_left p) (Send x) l' \<longrightarrow> W x" and "\<forall>x l'. loop_step (p_right p) (Send x) l' \<longrightarrow> W x" by blast+
qed

lemma late_stack_run:
  assumes "stack_run True cd (h_id h) n k k'" and "stands_for cd h k p" and "late_pair c s d t p"
    and inv: "invL 0 0 c s" and d: "rejects_rest d t" and cd: "session_codec cd" and ms: "\<forall>x\<in>set us \<union> set vs. can_write True cd h x"
  shows "\<exists>p'. stands_for cd h k' p' \<and> late_pair c s d t p'"
  using assms(1,2)
proof (induction rule: stack_run.induct)
  case (stack_refl k)
  then show ?case using assms(3) by blast
next
  case (stack_trans n k k' k'')
  then obtain q where q: "stands_for cd h k' q" "late_pair c s d t q" by blast
  from stack_simulates [OF q(1) cd late_pair_sends [OF q(2) inv d ms] stack_trans.hyps(2)]
  obtain q' where "stands_for cd h k'' q'" "pair_step True q q' \<or> q' = q" unfolding follows_def by auto
  then show ?case using late_pair_step [OF q(2) d] q(2) by blast
qed

text \<open>When \<open>AcceptChannel\<close> returns.\<close>

lemma late_pair_start:
  assumes p: "left_alone cd h (start_pair c s d t) sl n p e" and q: "take n us = lost @ q"
  shows "late_pair c s d t (p\<lparr>p_right_in := q\<rparr>)"
proof (cases lost)
  case Nil
  then have "p\<lparr>p_right_in := q\<rparr> = p" using p q by (simp add: left_alone_def)
  then show ?thesis using p by (auto simp: left_alone_def late_pair_def)
next
  case (Cons x xs)
  then have "0 < n" "tl (take n us) = xs @ q" using q by (cases n; simp)+
  then have "set q \<subseteq> set (tl us)" by (metis Un_subset_iff set_append set_take_subset tl_take)
  moreover have "deaf d t (NewLoop d t)" "offered (NewLoop d t) = []" by (simp_all add: deaf_def NewLoop_def offered_def)
  ultimately have "lost_pair n d t (p\<lparr>p_right_in := q\<rparr>)"
    using p \<open>0 < n\<close> by (simp add: left_alone_def lost_pair_def start_pair_def)
  then show ?thesis by (auto simp: late_pair_def)
qed

lemma accept_returns_stands:
  assumes start: "accept_returns cd h (NewLoop c s, sl) (NewLoop d t) k" and sl: "gets_to cd (NewSession i) ds sl" "registered h sl" "carries cd h sl [] []"
    and inv: "invL 0 0 c s" and cd: "session_codec cd" and ms: "\<forall>x\<in>set us. can_write True cd h x"
  shows "\<exists>p. stands_for cd h k p \<and> late_pair c s d t p"
proof -
  let ?P = "\<lambda>xs. concat (map (payload_messages cd h) xs)"
  obtain i' s' call a ls where r: "session_run cd (NewSession i') ls s'" "arrived ls = take (sk_right_read k) (ss_out (snd (sk_left k)))"
    "ss_broker s' = Select" "ss_channels s' (h_id h) = None" "sk_right k = (NewLoop d t, broker_channel (set_caller call (CallReturned h) s') h)"
    "side_run cd (h_id h) (NewLoop c s, sl) (drop a (take (sk_left_read k) (ss_out s'))) (sk_left k)"
    "sk_left_read k \<le> length (ss_out s')" "sk_right_read k \<le> length (ss_out (snd (sk_left k)))"
    using start unfolding accept_returns_def gets_to_def by blast
  note ctl = run_writes_control(1) [OF r(1) cd] run_writes_control(2) [OF r(1) cd, of h]
  have "set (drop a (take (sk_left_read k) (ss_out s'))) \<subseteq> set (ss_out s')" by (meson order_trans set_drop_subset set_take_subset)
  then have quiet: "\<forall>x\<in>set (drop a (take (sk_left_read k) (ss_out s'))). payload_messages cd h x = []" using ctl(2) by auto
  have sl': "callers_ok cd sl" "?P (ss_out sl) = []" using sl(1) run_writes_control [OF _ cd] unfolding gets_to_def by blast+
  obtain n p where p: "left_alone cd h (start_pair c s d t) sl n p (sk_left k)"
    using side_run_alone [OF r(6) inv cd ms quiet sl(2) sl'(1) sl(3), of d t] by blast
  define q where "q = reader_messages cd h (ss_reader s') @ ?P (to_right k)"
  obtain lost where "?P (arrived ls) = lost @ reader_messages cd h (ss_reader s')" using run_reader [OF r(1), of h] by blast
  moreover have "take n us = ?P (ss_out (snd (sk_left k)))" using p sl'(2) by (auto simp: left_alone_def)
  moreover have "\<dots> = ?P (arrived ls) @ ?P (to_right k)"
    unfolding r(2) to_right_def by (metis append_take_drop_id concat_append map_append)
  ultimately have lost: "take n us = lost @ q" by (simp add: q_def)
  note right = accepted_carries [OF r(1) cd r(3,4) refl, of call] and left = p [unfolded left_alone_def]
  have "?P (to_left k) = []"
    using ctl(2) set_drop_subset [of "sk_left_read k" "ss_out s'"] right(3) r(5) by (auto simp: to_left_def)
  then have "carries cd h (snd (sk_left k)) (to_left k) []" using carries_silent left by blast
  then have "stands_for cd h k (p\<lparr>p_right_in := q\<rparr>)"
    using left r(5,7,8) right by (simp add: stands_for_def start_pair_def q_def)
  then show ?thesis using late_pair_start [OF p lost] by blast
qed

end

end
