(* ===== verification/Transfer_Session.thy ===== *)
theory Transfer_Session
  imports Late_Start
begin

text \<open>
  The file transfer over a session: the messages fit into payloads and survive the way through the channel, or are refused; the two sessions can
  open the channel; from there the transfer is correct, by the simulation of theory \<open>Session_Link\<close>, and it is safe from any moment at which the receiver
  may start (theory \<open>Late_Start\<close>).
\<close>

section \<open>The messages of the file transfer\<close>

text \<open>The bytes of a message that depend on the file and its name.\<close>

definition message_size :: "message \<Rightarrow> nat" where
  "message_size m =
     (case m of
        BlockMsg (Some b) \<Rightarrow> length (b_Data b) + length (b_Checksum b)
      | HeaderMsg hdr \<Rightarrow> (case hd_Metadata hdr of None \<Rightarrow> 0 | Some md \<Rightarrow> length (md_Filename md))
      | DataSentMsg checksum \<Rightarrow> length checksum
      | _ \<Rightarrow> 0)"

text \<open>
  The strings of Protobuf are UTF-8, as \<open>utf8.ValidString\<close> checks it before a message is encoded. For every first byte the table has
  the ranges of the bytes that follow; it is that of RFC 3629.
\<close>

definition utf8_ranges :: "byte \<Rightarrow> (byte \<times> byte) list option" where
  "utf8_ranges b =
     (if b \<le> 0x7F then Some []
      else if b < 0xC2 then None
      else if b \<le> 0xDF then Some [(0x80, 0xBF)]
      else if b = 0xE0 then Some [(0xA0, 0xBF), (0x80, 0xBF)]
      else if b = 0xED then Some [(0x80, 0x9F), (0x80, 0xBF)]
      else if b \<le> 0xEF then Some [(0x80, 0xBF), (0x80, 0xBF)]
      else if b = 0xF0 then Some [(0x90, 0xBF), (0x80, 0xBF), (0x80, 0xBF)]
      else if b \<le> 0xF3 then Some [(0x80, 0xBF), (0x80, 0xBF), (0x80, 0xBF)]
      else if b = 0xF4 then Some [(0x80, 0x8F), (0x80, 0xBF), (0x80, 0xBF)]
      else None)"

fun valid_utf8 :: "bytes \<Rightarrow> bool" where
  "valid_utf8 [] = True"
| "valid_utf8 (b # bs) =
     (case utf8_ranges b of
        None \<Rightarrow> False
      | Some rs \<Rightarrow>
          list_all2 (\<lambda>(lo, hi) x. lo \<le> x \<and> x \<le> hi) rs (take (length rs) bs) \<and> valid_utf8 (drop (length rs) bs))"

lemma ascii_valid_utf8: "\<forall>b\<in>set bs. b \<le> 0x7F \<Longrightarrow> valid_utf8 bs"
  by (induction bs) (simp_all add: utf8_ranges_def)

lemma utf8_examples: "valid_utf8 [0x61, 0xC3, 0xA9]" "\<not> valid_utf8 [0x61, 0xE9]" "\<not> valid_utf8 [0xED, 0xA0, 0x80]"
  by (simp_all add: utf8_ranges_def)

definition named_in_utf8 :: "message \<Rightarrow> bool" where
  "named_in_utf8 m \<longleftrightarrow>
     (case m of HeaderMsg hdr \<Rightarrow> (case hd_Metadata hdr of None \<Rightarrow> True | Some md \<Rightarrow> valid_utf8 (md_Filename md)) | _ \<Rightarrow> True)"

definition proper :: "message \<Rightarrow> bool" where
  "proper m \<longleftrightarrow> m \<noteq> ForeignMsg \<and> m \<noteq> BlockMsg None \<and> named_in_utf8 m \<and> message_size m \<le> PayloadMaxSize"

text \<open>
  What is relied on in Protobuf. First, as far as it encodes messages, they decode to themselves into a new message of their
  type; that is enough for safety. Second, it does not encode a string that is not UTF-8, and it does encode a proper message with at most 64 bytes
  beside its data, and the messages of the session with a payload that is not too long.
\<close>

definition transfer_roundtrip :: "message codec \<Rightarrow> bool" where
  "transfer_roundtrip cd \<longleftrightarrow>
     session_codec cd \<and>
     (\<forall>m t blank p. m \<noteq> BlockMsg None \<longrightarrow> RawTypeOf m = Return t \<longrightarrow> NewMessage t = Inr blank \<longrightarrow> Marshal_m cd m = Inr p \<longrightarrow>
        Unmarshal_m cd p blank = (None, m))"

definition transfer_codec :: "message codec \<Rightarrow> bool" where
  "transfer_codec cd \<longleftrightarrow>
     transfer_roundtrip cd \<and>
     (\<forall>m. \<not> named_in_utf8 m \<longrightarrow> (\<exists>e. Marshal_m cd m = Inl e)) \<and>
     (\<forall>m. proper m \<longrightarrow> (\<exists>p. Marshal_m cd m = Inr p \<and> length p \<le> message_size m + 64)) \<and>
     (\<forall>d. length (dt_Payload d) \<le> PayloadMaxSize \<longrightarrow>
        (\<exists>bs. Marshal cd (Some (Message_Data d)) = Inr bs \<and> length bs \<le> length (dt_Payload d) + 64))"

lemma message_type:
  assumes "m \<noteq> ForeignMsg"
  obtains t blank where "RawTypeOf m = Return t" "NewMessage t = Inr blank"
  using assms by (cases m) (auto simp: RawTypeOf_def NewMessage_def)

text \<open>A message that is encoded at all arrives; one that is not is refused.\<close>

lemma encoded_sendable:
  assumes cd: "transfer_roundtrip cd" and m: "m \<noteq> ForeignMsg" "m \<noteq> BlockMsg None"
    and bs: "MarshalMessage cd (NewChannelHandle transfer_protocol cid) m = Return (Inr bs)"
  shows "payload_messages cd (NewChannelHandle transfer_protocol cid) bs = [m]"
proof -
  obtain t blank where t: "RawTypeOf m = Return t" "NewMessage t = Inr blank" using message_type [OF m(1)] .
  obtain p where p: "Marshal_m cd m = Inr p"
    "Marshal cd (Some (Message_Data \<lparr>dt_ChannelId = cid, dt_MessageType = t, dt_Payload = p\<rparr>)) = Inr bs"
    using bs t(1) by (auto simp: MarshalMessage_def WrapMessage_def NewChannelHandle_def transfer_protocol_def split: sum.split_asm if_split_asm)
  have "Unmarshal cd bs = Inr (Some (Message_Data \<lparr>dt_ChannelId = cid, dt_MessageType = t, dt_Payload = p\<rparr>))"
    "Unmarshal_m cd p blank = (None, m)"
    using cd p t m unfolding transfer_roundtrip_def session_codec_def by blast+
  then show ?thesis using t(2)
    by (simp add: payload_messages_def request_messages_def read_dispatch_def UnmarshalMessage_def IsData_def NewChannelHandle_def
        transfer_protocol_def)
qed

lemma MarshalMessage_returns:
  assumes "m \<noteq> ForeignMsg"
  shows "\<exists>r. MarshalMessage cd (NewChannelHandle transfer_protocol cid) m = Return r"
proof -
  obtain t where "RawTypeOf m = Return t" using message_type [OF assms] .
  then show ?thesis
    by (simp add: MarshalMessage_def WrapMessage_def NewChannelHandle_def transfer_protocol_def split: sum.split)
qed

lemma message_can_write:
  assumes "transfer_roundtrip cd" and "m \<noteq> ForeignMsg" and "m \<noteq> BlockMsg None"
  shows "can_write True cd (NewChannelHandle transfer_protocol cid) m"
proof -
  obtain r where "MarshalMessage cd (NewChannelHandle transfer_protocol cid) m = Return r" using MarshalMessage_returns [OF assms(2)] ..
  then show ?thesis using encoded_sendable [OF assms, of cid] by (cases r) (auto simp: can_write_def sendable_def refused_def)
qed

lemma invalid_name_refused:
  assumes "transfer_codec cd" and "\<not> valid_utf8 (md_Filename md)" and "hd_Metadata hdr = Some md"
  shows "refused cd h (HeaderMsg hdr)"
proof -
  have "\<not> named_in_utf8 (HeaderMsg hdr)" using assms(2,3) by (simp add: named_in_utf8_def)
  then obtain e where "Marshal_m cd (HeaderMsg hdr) = Inl e" using assms(1) unfolding transfer_codec_def by blast
  then show ?thesis by (simp add: refused_def MarshalMessage_def WrapMessage_def)
qed

lemma proper_sendable:
  assumes cd: "transfer_codec cd" and "proper m" and "message_size m \<le> 65000"
  shows "sendable cd (NewChannelHandle transfer_protocol cid) m"
proof -
  let ?h = "NewChannelHandle transfer_protocol cid"
  have m: "m \<noteq> ForeignMsg" "m \<noteq> BlockMsg None" using assms(2) by (simp_all add: proper_def)
  obtain t where t: "RawTypeOf m = Return t" using message_type [OF m(1)] .
  obtain p where p: "Marshal_m cd m = Inr p" "length p \<le> message_size m + 64"
    using cd assms(2) unfolding transfer_codec_def by blast
  have data: "\<exists>bs. Marshal cd (Some (Message_Data d)) = Inr bs \<and> length bs \<le> length (dt_Payload d) + 64"
    if "length (dt_Payload d) \<le> PayloadMaxSize" for d using cd that unfolding transfer_codec_def by blast
  let ?d = "\<lparr>dt_ChannelId = cid, dt_MessageType = t, dt_Payload = p\<rparr>"
  have "length p \<le> 65064" using p(2) assms(3) by simp
  then obtain bs where bs: "Marshal cd (Some (Message_Data ?d)) = Inr bs" using data [of ?d] by (auto simp: secure_consts)
  obtain top where "Marshal cd (Some (Message_Data max_data)) = Inr top" "length top \<le> PayloadMaxSize + 64"
    using data [of max_data] by (auto simp: max_data_def)
  with \<open>length p \<le> 65064\<close> have "\<not> ComputePayloadMaxSize cd < int (length p)"
    by (simp add: ComputePayloadMaxSize_def Let_def secure_consts)
  then have "MarshalMessage cd ?h m = Return (Inr bs)"
    using p(1) t bs by (simp add: MarshalMessage_def WrapMessage_def NewChannelHandle_def transfer_protocol_def)
  moreover have "transfer_roundtrip cd" using cd by (simp add: transfer_codec_def)
  ultimately show ?thesis using encoded_sendable [OF _ m] by (auto simp: sendable_def)
qed

lemma script_messages:
  assumes "m \<in> set (sender_script (Some md) xs bs) \<union> set (receiver_script n)"
  shows "m \<noteq> ForeignMsg" and "m \<noteq> BlockMsg None" and "valid_utf8 (md_Filename md) \<Longrightarrow> named_in_utf8 m"
    and "unat bs \<le> 64000 \<Longrightarrow> length (md_Filename md) \<le> 64000 \<Longrightarrow> message_size m \<le> 65000"
  using assms
  by (auto simp: sender_script_def receiver_script_def message_size_def named_in_utf8_def length_slice ComputeChecksum_def)

lemma scripts_sendable:
  assumes "transfer_codec cd" and "unat bs \<le> 64000" and "length (md_Filename md) \<le> 64000" and "valid_utf8 (md_Filename md)"
  shows "\<forall>m\<in>set (sender_script (Some md) xs bs) \<union> set (receiver_script n). sendable cd (NewChannelHandle transfer_protocol cid) m"
proof
  fix m assume m: "m \<in> set (sender_script (Some md) xs bs) \<union> set (receiver_script n)"
  have "message_size m \<le> 65000" by (rule script_messages(4) [OF m assms(2,3)])
  with script_messages(1-3) [OF m] assms(4) have "proper m" by (simp add: proper_def secure_consts)
  with \<open>message_size m \<le> 65000\<close> show "sendable cd (NewChannelHandle transfer_protocol cid) m"
    by (intro proper_sendable [OF assms(1)])
qed

lemma scripts_can_write:
  assumes "transfer_roundtrip cd"
  shows "\<forall>m\<in>set (sender_script (Some md) xs bs) \<union> set (receiver_script n). can_write True cd (NewChannelHandle transfer_protocol cid) m"
  using message_can_write [OF assms] script_messages(1,2) by blast

section \<open>Opening the channel\<close>

text \<open>A session after a call has returned the channel \<open>h\<close>, before anything is sent over it.\<close>

definition joined :: "'m codec \<Rightarrow> 'm channelHandle \<Rightarrow> 'm session \<Rightarrow> bool" where
  "joined cd h s \<longleftrightarrow>
     ss_channels s = [h_id h \<mapsto> new_channel h] \<and> ss_opens s = Map.empty \<and> ss_broker s = Select \<and> ss_reader s = ReaderReading \<and>
     (\<exists>call. ss_callers s = [call \<mapsto> CallReturned h])"

lemma joined_facts:
  assumes "joined cd h s"
  shows "registered h s" and "callers_ok cd s" and "flowing s" and "carries cd h s [] []" and "weight s [] = 0"
  using assms
  by (auto simp: joined_def registered_def callers_ok_def flowing_def new_channel_def carries_def pending_messages_def transit_def
      broker_messages_def reader_messages_def weight_def split: if_split_asm)

lemma inOpen_dispatch:
  assumes "session_codec cd" and "Marshal cd (Some (Message_Open cid t)) = Inr bs"
  shows "read_dispatch cd bs = Some (InOpen cid 1)"
  using assms by (simp add: session_codec_def read_dispatch_def UnmarshalMessage_def IsData_def OpensChannel_def)

lemma inAccept_dispatch:
  assumes "session_codec cd" and "Marshal cd (Some (Message_Accept cid)) = Inr bs"
  shows "read_dispatch cd bs = Some (InAccept cid)"
  using assms by (simp add: session_codec_def read_dispatch_def UnmarshalMessage_def IsData_def OpensChannel_def AcceptsChannel_def)

lemmas joining_defs =
  NewSession_def OpenChannel_def AcceptChannel_def accept_opened_def CreateChannelHandle_def NewChannelFactory_def Let_def
  firstChannelId_def channelIdIncrement_def NewChannelHandle_def OpenMessage_def AcceptMessage_def handle_Type_def broker_defs

lemma initiator_joins:
  assumes "session_codec cd" and ob: "Marshal cd (Some (Message_Open 1 (pr_Id pr))) = Inr ob"
    and ab: "Marshal cd (Some (Message_Accept 1)) = Inr ab"
  shows "\<exists>s. gets_to cd (NewSession True) [ab] s \<and> ss_out s = [ob] \<and> joined cd (NewChannelHandle pr 1) s"
proof -
  let ?h = "NewChannelHandle pr 1"
  let ?s = "\<lambda>c acc rd out ac ch. \<lparr>ss_factory = \<lparr>cf_nextId = 3\<rparr>, ss_channels = ch, ss_opens = Map.empty, ss_accepts = acc,
    ss_broker = Select, ss_reader = rd, ss_done = False, ss_accepted = ac, ss_callers = [0 \<mapsto> c], ss_out = out\<rparr>"
  have "gets_to cd (NewSession True) [] (?s (OpenSend ?h ob) Map.empty ReaderReading [] [] Map.empty)"
    by (rule gets_to_silent [OF gets_to_start session_step.open_call [where call = 0 and p = pr]]) (simp_all add: joining_defs ob)
  then have "gets_to cd (NewSession True) [] (?s (OpenWrite ?h ob) [1 \<mapsto> 0] ReaderReading [] [] Map.empty)"
    by (rule gets_to_silent [OF _ session_step.broker_open_send [where call = 0 and h = ?h and bs = ob]]) (simp_all add: joining_defs)
  then have "gets_to cd (NewSession True) [] (?s (OpenWait ?h) [1 \<mapsto> 0] ReaderReading [ob] [] Map.empty)"
    by (rule gets_to_silent [OF _ session_step.open_write [where call = 0 and h = ?h and bs = ob]]) (simp_all add: joining_defs)
  then have "gets_to cd (NewSession True) [ab] (?s (OpenWait ?h) [1 \<mapsto> 0] (ReaderSending (InAccept 1)) [ob] [] Map.empty)"
    by (rule gets_to_arrived [OF _ session_step.read_bytes]) (simp_all add: inAccept_dispatch [OF assms(1) ab])
  then have "gets_to cd (NewSession True) [ab] (?s (OpenWait ?h) Map.empty ReaderReading [ob] [0] Map.empty)"
    by (rule gets_to_silent [OF _ session_step.broker_read [where r = "InAccept 1"]]) (simp_all add: joining_defs)
  then have "gets_to cd (NewSession True) [ab] (?s (Register ?h) Map.empty ReaderReading [ob] [0] Map.empty)"
    by (rule gets_to_silent [OF _ session_step.open_accepted [where call = 0 and h = ?h]]) (simp_all add: joining_defs)
  then have "gets_to cd (NewSession True) [ab] (?s (CallReturned ?h) Map.empty ReaderReading [ob] [0] [1 \<mapsto> new_channel ?h])"
    by (rule gets_to_silent [OF _ session_step.broker_register [where call = 0 and h = ?h]]) (simp_all add: joining_defs)
  then show ?thesis by (intro exI conjI) (auto simp: joined_def NewChannelHandle_def)
qed

text \<open>The acceptor joins when its protocol has the id 1, the number that the read handler takes from every open request.\<close>

lemma acceptor_accepts:
  assumes "session_codec cd" and ob: "Marshal cd (Some (Message_Open 1 (pr_Id pr))) = Inr ob"
    and ab: "Marshal cd (Some (Message_Accept 1)) = Inr ab" and pr: "pr_Id pr = 1"
  shows "\<exists>s. gets_to cd (NewSession False) [ob] s \<and> ss_out s = [ab] \<and> ss_broker s = Select \<and>
    ss_callers s 0 = Some (Register (NewChannelHandle pr 1)) \<and> ss_channels s 1 = None \<and>
    joined cd (NewChannelHandle pr 1) (broker_channel (set_caller 0 (CallReturned (NewChannelHandle pr 1)) s) (NewChannelHandle pr 1))"
proof -
  let ?h = "NewChannelHandle pr 1"
  let ?s = "\<lambda>c opens rd br out. \<lparr>ss_factory = \<lparr>cf_nextId = 2\<rparr>, ss_channels = Map.empty, ss_opens = opens, ss_accepts = Map.empty,
    ss_broker = br, ss_reader = rd, ss_done = False, ss_accepted = [], ss_callers = [0 \<mapsto> c], ss_out = out\<rparr>"
  have "gets_to cd (NewSession False) [] (?s (AcceptSend pr) Map.empty ReaderReading Select [])"
    by (rule gets_to_silent [OF gets_to_start session_step.accept_call [where call = 0 and p = pr]]) (simp_all add: joining_defs)
  then have "gets_to cd (NewSession False) [] (?s (AcceptWait pr) [1 \<mapsto> 0] ReaderReading Select [])"
    by (rule gets_to_silent [OF _ session_step.broker_accept_send [where call = 0 and p = pr]]) (simp_all add: joining_defs pr)
  then have "gets_to cd (NewSession False) [ob] (?s (AcceptWait pr) [1 \<mapsto> 0] (ReaderSending (InOpen 1 1)) Select [])"
    by (rule gets_to_arrived [OF _ session_step.read_bytes]) (simp_all add: inOpen_dispatch [OF assms(1) ob])
  then have "gets_to cd (NewSession False) [ob] (?s (AcceptWait pr) [1 \<mapsto> 0] ReaderReading (SendOpened 0 1 1) [])"
    by (rule gets_to_silent [OF _ session_step.broker_read [where r = "InOpen 1 1"]]) (simp_all add: joining_defs)
  then have "gets_to cd (NewSession False) [ob] (?s (AcceptWrite ?h ab) Map.empty ReaderReading Select [])"
    by (rule gets_to_silent [OF _ session_step.accept_opened [where call = 0 and p = pr and channelId = 1 and protocolId = 1]])
      (simp_all add: joining_defs ab)
  then have "gets_to cd (NewSession False) [ob] (?s (Register ?h) Map.empty ReaderReading Select [ab])"
    by (rule gets_to_silent [OF _ session_step.accept_write [where call = 0 and h = ?h and bs = ab]]) (simp_all add: joining_defs)
  then show ?thesis by (intro exI conjI) (auto simp: joined_def NewChannelHandle_def broker_channel_def)
qed


section \<open>The file transfer over a session\<close>

definition start_stack ::
  "('k, 's, 'm) Client \<Rightarrow> 's \<Rightarrow> ('k, 't, 'm) Client \<Rightarrow> 't \<Rightarrow> 'm session \<Rightarrow> 'm session \<Rightarrow> ('k, 's, 't, 'm) stack" where
  "start_stack c s d t sl sr =
     \<lparr>sk_left = (NewLoop c s, sl), sk_right = (NewLoop d t, sr), sk_left_read = length (ss_out sr), sk_right_read = length (ss_out sl)\<rparr>"

lemma start_stack_stands:
  assumes "joined cd h sl" and "joined cd h sr"
  shows "stands_for cd h (start_stack c s d t sl sr) (start_pair c s d t)" and "stack_flows (start_stack c s d t sl sr)"
    and "stack_weight (start_stack c s d t sl sr) = 0"
  using joined_facts [OF assms(1)] joined_facts [OF assms(2)]
  by (simp_all add: stands_for_def start_stack_def start_pair_def stack_flows_def stack_weight_def to_left_def to_right_def)

text \<open>\<open>AcceptChannel\<close> may return at once, before the other side has sent anything.\<close>

lemma start_accept_returns:
  assumes "gets_to cd (NewSession i) (ss_out sl) s" and "ss_broker s = Select" and "ss_callers s call = Some (Register h)"
    and "ss_channels s (h_id h) = None"
  shows "accept_returns cd h (NewLoop c x, sl) (NewLoop d t) (start_stack c x d t sl (broker_channel (set_caller call (CallReturned h) s) h))"
  unfolding accept_returns_def
  by (intro exI [of _ i] exI [of _ s] exI [of _ call] exI [of _ "length (ss_out s)"])
    (use assms in \<open>simp add: start_stack_def side_run.side_refl\<close>)

context file_transfer
begin

text \<open>A receiver that has not had the header takes nothing else.\<close>

lemma receiver_rejects_rest:
  assumes "rinv 0 0 d t"
  shows "talk.rejects_rest d t"
proof -
  have c: "client_of (Receiver_protocolDefinition wops fac) d" and st: "c_state d = initialized"
    using assms by (simp_all add: receiver_inv_def Let_def receiver_state_def)
  have "Client_ReadMessage d t (BlockMsg (Some b)) = Return (d, t, Some (ProtocolError UnexpectedMessage))"
    "Client_ReadMessage d t (DataSentMsg ys) = Return (d, t, Some (ProtocolError UnexpectedMessage))" for b ys
    using st by (simp_all add: Receiver_ReadMessage [OF c] read_entry_def Receiver_protocolDefinition_def run_simps state_defs)
  then show ?thesis using assms unfolding talk.rejects_rest_def by (auto simp: sender_script_def)
qed

lemma stack_never_wrong:
  assumes inv: "sinv 0 0 c s" "rinv 0 0 d t" and cd: "session_codec cd"
    and ms: "\<forall>m\<in>set (sender_script (Some md) xs bs) \<union> set (receiver_script N). can_write True cd h m"
    and sl: "joined cd h sl" "gets_to cd (NewSession i) ds sl" and start: "accept_returns cd h (NewLoop c s, sl) (NewLoop d t) k0"
    and run: "stack_run True cd (h_id h) n k0 k"
  shows "lp_pc (fst (sk_left k)) \<noteq> Crashed x \<and> lp_pc (fst (sk_right k)) \<noteq> Crashed x \<and>
    (lp_pc (fst (sk_left k)) = Returned None \<or> lp_pc (fst (sk_right k)) = Returned None \<longrightarrow>
      has_received wcontent md xs (lp_data (fst (sk_right k))))"
proof -
  note facts = joined_facts [OF sl(1)]
  obtain p0 where p0: "stands_for cd h k0 p0" "talk.late_pair c s d t p0"
    using talk.accept_returns_stands [OF start sl(2) facts(1,4) inv(1) cd] ms by blast
  obtain p where p: "stands_for cd h k p" "talk.late_pair c s d t p"
    using talk.late_stack_run [OF run p0 inv(1) receiver_rejects_rest [OF inv(2)] cd ms] by blast
  have "lp_pc (p_left p) \<noteq> Crashed x \<and> lp_pc (p_right p) \<noteq> Crashed x \<and>
    (lp_pc (p_left p) = Returned None \<or> lp_pc (p_right p) = Returned None \<longrightarrow> has_received wcontent md xs (lp_data (p_right p)))"
    using p(2) transfer_never_wrong [OF inv, where x = x] talk.lost_pair_harmless [where x = x] unfolding talk.late_pair_def by metis
  then show ?thesis using p(1) by (simp add: stands_for_def)
qed

lemma stack_ends:
  assumes inv: "sinv 0 0 c s" "rinv 0 0 d t" and cd: "session_codec cd"
    and ms: "\<forall>m\<in>set (sender_script (Some md) xs bs) \<union> set (receiver_script N). sendable cd h m"
    and j: "joined cd h sl" "joined cd h sr" and run: "stack_run False cd (h_id h) n (start_stack c s d t sl sr) k"
  shows "n \<le> 24 * N + 56" and "stack_stuck cd (h_id h) k \<Longrightarrow>
    lp_pc (fst (sk_left k)) = Returned None \<and> lp_pc (fst (sk_right k)) = Returned None \<and>
    has_received wcontent md xs (lp_data (fst (sk_right k)))"
proof -
  have cw: "\<forall>m\<in>set (sender_script (Some md) xs bs) \<union> set (receiver_script N). can_write False cd h m"
    using ms by (simp add: can_write_def)
  let ?start = "start_stack c s d t sl sr"
  have flows: "\<not> False \<longrightarrow> stack_flows ?start" by (simp add: start_stack_stands(2) [OF j])
  obtain a p where p: "pair_run False a (start_pair c s d t) p" "stands_for cd h k p" "stack_flows k"
    and w: "n + stack_weight k \<le> 4 * a + stack_weight ?start"
    using talk.stack_run_follows [OF run start_stack_stands(1) [OF j] talk.pair_at_start [OF inv] cd cw flows] by blast
  have n: "n \<le> 4 * a" using w by (simp add: start_stack_stands(3) [OF j])
  note ends = transfer_ends [OF inv p(1)]
  show "n \<le> 24 * N + 56" using n ends(1) by simp
  assume stk: "stack_stuck cd (h_id h) k"
  obtain n' i' m' j' where "talk.pair_at n' i' m' j' p" using talk.run_at [OF p(1) talk.pair_at_start [OF inv]] by blast
  from talk.stuck_stack_pair [OF p(2) this p(3) ms stk] have "stuck p" .
  moreover have "fst (sk_left k) = p_left p" "fst (sk_right k) = p_right p" using p(2) by (simp_all add: stands_for_def)
  ultimately show "lp_pc (fst (sk_left k)) = Returned None \<and> lp_pc (fst (sk_right k)) = Returned None \<and>
    has_received wcontent md xs (lp_data (fst (sk_right k)))"
    using ends(2) by simp
qed

end


section \<open>An encoding\<close>

text \<open>For the witnesses: an encoding of all messages with fixed overheads. Names that are not UTF-8 and checksums longer than a payload are refused.\<close>

definition wire_codec :: "message codec" where
  "wire_codec =
     \<lparr>Marshal = (\<lambda>m. case m of
        None \<Rightarrow> Inr []
      | Some (Message_Open cid t) \<Rightarrow> Inr (1 # PutUint64 cid @ PutUint32 t)
      | Some (Message_Accept cid) \<Rightarrow> Inr (2 # PutUint64 cid)
      | Some (Message_Close cid) \<Rightarrow> Inr (3 # PutUint64 cid)
      | Some (Message_Data d) \<Rightarrow> Inr (4 # PutUint64 (dt_ChannelId d) @ PutUint32 (dt_MessageType d) @ dt_Payload d)
      | Some Message_Unknown \<Rightarrow> Inl (ErrorString ''unsupported'')),
      Unmarshal = (\<lambda>bs. case bs of
        [] \<Rightarrow> Inr None
      | k # r \<Rightarrow> Inr (Some (
          if k = 1 then Message_Open (get_be (take 8 r)) (get_be (drop 8 r))
          else if k = 2 then Message_Accept (get_be r)
          else if k = 3 then Message_Close (get_be r)
          else Message_Data \<lparr>dt_ChannelId = get_be (take 8 r), dt_MessageType = get_be (take 4 (drop 8 r)), dt_Payload = drop 12 r\<rparr>))),
      Marshal_m = (\<lambda>m. case m of
        HeaderMsg hdr \<Rightarrow> if \<not> named_in_utf8 m then Inl (ErrorString ''invalid UTF-8'') else Inr (PutUint64 (hd_TotalSize hdr) @ PutUint64 (hd_BlockSize hdr) @
          (case hd_Metadata hdr of None \<Rightarrow> [] | Some md \<Rightarrow> 1 # md_Filename md))
      | BlockMsg (Some b) \<Rightarrow>
          if PayloadMaxSize < length (b_Checksum b) then Inl (ErrorString ''checksum too long'')
          else Inr (PutUint64 (b_Index b) @ PutUint64 (of_nat (length (b_Checksum b))) @ b_Checksum b @ b_Data b)
      | BlockReceivedMsg i \<Rightarrow> Inr (PutUint64 i)
      | RedoBlockMsg i \<Rightarrow> Inr (PutUint64 i)
      | DataSentMsg checksum \<Rightarrow> Inr checksum
      | AbortMsg code \<Rightarrow> Inr (PutUint32 code)
      | AcknowledgeMsg \<Rightarrow> Inr []
      | DataReceivedMsg \<Rightarrow> Inr []
      | _ \<Rightarrow> Inl (ErrorString ''unsupported'')),
      Unmarshal_m = (\<lambda>bs blank. (None, case blank of
        HeaderMsg _ \<Rightarrow> HeaderMsg \<lparr>hd_Metadata = (case drop 16 bs of [] \<Rightarrow> None | _ # name \<Rightarrow> Some \<lparr>md_Filename = name\<rparr>),
          hd_TotalSize = get_be (take 8 bs), hd_BlockSize = get_be (take 8 (drop 8 bs))\<rparr>
      | BlockMsg _ \<Rightarrow>
          (let n = unat (get_be (take 8 (drop 8 bs)) :: uint64) in
           BlockMsg (Some \<lparr>b_Index = get_be (take 8 bs), b_Data = drop n (drop 16 bs), b_Checksum = take n (drop 16 bs)\<rparr>))
      | BlockReceivedMsg _ \<Rightarrow> BlockReceivedMsg (get_be bs)
      | RedoBlockMsg _ \<Rightarrow> RedoBlockMsg (get_be bs)
      | DataSentMsg _ \<Rightarrow> DataSentMsg bs
      | AbortMsg _ \<Rightarrow> AbortMsg (get_be bs)
      | other \<Rightarrow> other))\<rparr>"

lemma wire_codec_session: "session_codec wire_codec"
  by (auto simp: session_codec_def wire_codec_def split: option.splits content.splits)

lemma wire_codec_decodes:
  assumes "RawTypeOf m = Return t" and "NewMessage t = Inr blank" and "Marshal_m wire_codec m = Inr p"
  shows "Unmarshal_m wire_codec p blank = (None, m)"
proof (cases m)
  case (BlockMsg mb)
  then obtain b where b: "m = BlockMsg (Some b)" "length (b_Checksum b) \<le> PayloadMaxSize"
    using assms(3) by (auto simp: wire_codec_def split: option.split_asm if_split_asm)
  then have "unat (of_nat (length (b_Checksum b)) :: uint64) = length (b_Checksum b)"
    by (simp add: unat_of_nat_64 secure_consts)
  then show ?thesis using assms b by (auto simp: wire_codec_def RawTypeOf_def NewMessage_def Let_def)
next
  case (HeaderMsg hdr)
  then show ?thesis using assms
    by (cases hdr) (auto simp: wire_codec_def RawTypeOf_def NewMessage_def split: option.split if_split_asm)
qed (use assms in \<open>auto simp: wire_codec_def RawTypeOf_def NewMessage_def\<close>)

lemma wire_codec_encodes:
  assumes "proper m"
  shows "\<exists>p. Marshal_m wire_codec m = Inr p \<and> length p \<le> message_size m + 64"
  using assms
  by (auto simp: wire_codec_def message_size_def proper_def split: message.split option.split)

lemma wire_codec_roundtrip: "transfer_roundtrip wire_codec"
  unfolding transfer_roundtrip_def using wire_codec_session wire_codec_decodes by blast

lemma wire_codec_transfer: "transfer_codec wire_codec"
  unfolding transfer_codec_def
proof (intro conjI allI impI)
  show "\<exists>e. Marshal_m wire_codec m = Inl e" if "\<not> named_in_utf8 m" for m
    using that by (cases m) (simp_all add: wire_codec_def named_in_utf8_def)
qed (use wire_codec_roundtrip wire_codec_encodes in \<open>simp_all add: wire_codec_def\<close>)


section \<open>The loops of sender and receiver\<close>

lemma session_loops_end:
  assumes rd: "read_file rops rcontent rpos rready" and wr: "write_file wops wcontent wpos wready"
    and ok: "transferable xs bs" and fac: "creates_file fac wcontent wready md (length xs)"
    and f: "rready f" "rcontent f = xs" and sizes: "unat bs \<le> 64000" "length (md_Filename md) \<le> 64000" "valid_utf8 (md_Filename md)"
    and cd: "transfer_codec cd" and j: "joined cd (NewChannelHandle transfer_protocol cid) sl" "joined cd (NewChannelHandle transfer_protocol cid) sr"
    and c: "NewSender rops (Some md) (NewBlockReader f (of_nat (length xs)) bs) = Return (c, s)"
    and d: "NewReceiver wops fac = Return (d, t)"
  shows "(\<exists>n k. stack_run False cd cid n (start_stack c s d t sl sr) k \<and> stack_stuck cd cid k) \<and>
    (\<forall>n k. stack_run False cd cid n (start_stack c s d t sl sr) k \<longrightarrow>
       n \<le> 24 * block_count (length xs) (unat bs) + 56 \<and>
       (stack_stuck cd cid k \<longrightarrow>
          lp_pc (fst (sk_left k)) = Returned None \<and> lp_pc (fst (sk_right k)) = Returned None \<and>
          has_received wcontent md xs (lp_data (fst (sk_right k)))))"
proof -
  let ?h = "NewChannelHandle transfer_protocol cid"
  have h: "h_id ?h = cid" by (simp add: NewChannelHandle_def)
  have ft: "file_transfer rops rcontent rpos rready wops wcontent wpos wready"
    using rd wr by (simp add: file_transfer_def)
  have inv: "sender_inv rops rcontent rready (Some md) xs bs 0 0 c s" "receiver_inv wops fac wcontent wready md xs bs 0 0 d t"
    using file_transfer.NewSender_inv [OF ft ok f, of md] file_transfer.NewReceiver_inv [OF ft ok fac] c d by auto
  have sc: "session_codec cd" using cd by (simp add: transfer_codec_def transfer_roundtrip_def)
  note ends = file_transfer.stack_ends [OF ft inv sc scripts_sendable [OF cd sizes] j, unfolded h]
  have bound: "n \<le> 24 * block_count (length xs) (unat bs) + 56" if "stack_run False cd cid n (start_stack c s d t sl sr) k" for n k
    by (rule ends(1) [OF that])
  have "\<exists>n k. stack_run False cd cid n (start_stack c s d t sl sr) k \<and> (\<forall>k'. \<not> stack_step False cd cid k k')"
    by (rule bounded_run_ends [OF stack_run.stack_refl bound stack_run.stack_trans])
  then show ?thesis unfolding stack_stuck_def [symmetric] using bound ends(2) by blast
qed

lemma session_loops_safe:
  assumes rd: "read_file rops rcontent rpos rready" and wr: "write_file wops wcontent wpos wready"
    and ok: "transferable xs bs" and fac: "creates_file fac wcontent wready md (length xs)"
    and f: "rready f" "rcontent f = xs" and cd: "transfer_roundtrip cd"
    and sl: "joined cd (NewChannelHandle transfer_protocol cid) sl" "gets_to cd (NewSession i) ds sl"
    and c: "NewSender rops (Some md) (NewBlockReader f (of_nat (length xs)) bs) = Return (c, s)"
    and d: "NewReceiver wops fac = Return (d, t)"
    and start: "accept_returns cd (NewChannelHandle transfer_protocol cid) (NewLoop c s, sl) (NewLoop d t) k0"
    and run: "stack_run True cd cid n k0 k"
  shows "lp_pc (fst (sk_left k)) \<noteq> Crashed x \<and> lp_pc (fst (sk_right k)) \<noteq> Crashed x \<and>
    (lp_pc (fst (sk_left k)) = Returned None \<or> lp_pc (fst (sk_right k)) = Returned None \<longrightarrow>
      has_received wcontent md xs (lp_data (fst (sk_right k))))"
proof -
  let ?h = "NewChannelHandle transfer_protocol cid"
  have h: "h_id ?h = cid" by (simp add: NewChannelHandle_def)
  have ft: "file_transfer rops rcontent rpos rready wops wcontent wpos wready"
    using rd wr by (simp add: file_transfer_def)
  have inv: "sender_inv rops rcontent rready (Some md) xs bs 0 0 c s" "receiver_inv wops fac wcontent wready md xs bs 0 0 d t"
    using file_transfer.NewSender_inv [OF ft ok f, of md] file_transfer.NewReceiver_inv [OF ft ok fac] c d by auto
  have sc: "session_codec cd" using cd by (simp add: transfer_roundtrip_def)
  show ?thesis
    by (rule file_transfer.stack_never_wrong [OF ft inv sc scripts_can_write [OF cd] sl start, unfolded h, OF run])
qed

section \<open>Properties\<close>

text \<open>
  C1. Total correctness of the file transfer as the programs run it, over one channel of a session on each side. The conditions: the file is not
  empty (the sender panics on an empty one, \<open>Sender_empty_file_panics\<close>) and not larger than what can be allocated, the name is UTF-8, name and
  block size have at most 64000 bytes, Protobuf encodes such messages (\<open>transfer_codec\<close>), nothing else uses the sessions, nothing fails, and both \<open>OpenChannel\<close> and
  \<open>AcceptChannel\<close> have returned before the sender writes (otherwise its messages may be lost, \<open>accept_race_loses_message\<close>). Then every
  schedule of all goroutines (loops, channels, brokers and read handlers of both sides) comes to an end within a bound that is linear in the
  number of blocks, there is such a complete run, and whenever nothing can move any more both loops have returned without an error and
  the receiver has the sender's file and its metadata.
\<close>

theorem session_transfer_completes:
  assumes rd: "read_file rops rcontent rpos rready" and wr: "write_file wops wcontent wpos wready"
    and ok: "transferable xs bs" and fac: "creates_file fac wcontent wready md (length xs)"
    and f: "rready f" "rcontent f = xs" and sizes: "unat bs \<le> 64000" "length (md_Filename md) \<le> 64000" "valid_utf8 (md_Filename md)"
    and cd: "transfer_codec cd" and j: "joined cd (NewChannelHandle transfer_protocol cid) sl" "joined cd (NewChannelHandle transfer_protocol cid) sr"
    and c: "NewSender rops (Some md) (NewBlockReader f (of_nat (length xs)) bs) = Return (c, s)"
    and d: "NewReceiver wops fac = Return (d, t)"
  shows "(\<exists>n k. stack_run False cd cid n (start_stack c s d t sl sr) k \<and> stack_stuck cd cid k) \<and>
    (\<forall>n k. stack_run False cd cid n (start_stack c s d t sl sr) k \<longrightarrow>
       n \<le> 24 * block_count (length xs) (unat bs) + 56 \<and>
       (stack_stuck cd cid k \<longrightarrow>
          lp_pc (fst (sk_left k)) = Returned None \<and> lp_pc (fst (sk_right k)) = Returned None \<and>
          has_received wcontent md xs (lp_data (fst (sk_right k)))))"
  by (rule session_loops_end [OF assms])

text \<open>
  C2. Safety of the file transfer over a session, for every file that is not empty, whatever else happens. The sender starts when \<open>OpenChannel\<close> has
  returned, and \<open>AcceptChannel\<close> returns at any later moment, with any number of the sender's messages lost before that; the name need not
  be UTF-8 and the blocks may be too large to be sent (the loop then returns the error); the connection may fail, other
  channels may be opened, accepted and used, this channel and the session may be closed at any moment. Neither loop ever panics, and as soon as one of the two returns without an error the
  receiver has the sender's file and its metadata. Of Protobuf only the round trip of what it encodes is relied on.
\<close>

theorem session_transfer_safe:
  assumes rd: "read_file rops rcontent rpos rready" and wr: "write_file wops wcontent wpos wready"
    and ok: "transferable xs bs" and fac: "creates_file fac wcontent wready md (length xs)"
    and f: "rready f" "rcontent f = xs" and cd: "transfer_roundtrip cd"
    and sl: "joined cd (NewChannelHandle transfer_protocol cid) sl" "gets_to cd (NewSession i) ds sl"
    and c: "NewSender rops (Some md) (NewBlockReader f (of_nat (length xs)) bs) = Return (c, s)"
    and d: "NewReceiver wops fac = Return (d, t)"
    and start: "accept_returns cd (NewChannelHandle transfer_protocol cid) (NewLoop c s, sl) (NewLoop d t) k0"
    and run: "stack_run True cd cid n k0 k"
  shows "lp_pc (fst (sk_left k)) \<noteq> Crashed x \<and> lp_pc (fst (sk_right k)) \<noteq> Crashed x \<and>
    (lp_pc (fst (sk_left k)) = Returned None \<or> lp_pc (fst (sk_right k)) = Returned None \<longrightarrow>
      has_received wcontent md xs (lp_data (fst (sk_right k))))"
  by (rule session_loops_safe [OF assms])


lemma wire_codec_opens:
  "Marshal wire_codec (Some (Message_Open 1 (pr_Id transfer_protocol))) = Inr (1 # PutUint64 1 @ PutUint32 (pr_Id transfer_protocol))"
  "Marshal wire_codec (Some (Message_Accept 1)) = Inr (2 # PutUint64 1)"
  by (simp_all add: wire_codec_def)


lemma joined_sessions:
  obtains sl ds s where "joined wire_codec (NewChannelHandle transfer_protocol 1) sl" "gets_to wire_codec (NewSession True) ds sl"
    "gets_to wire_codec (NewSession False) (ss_out sl) s" "ss_broker s = Select"
    "ss_callers s 0 = Some (Register (NewChannelHandle transfer_protocol 1))" "ss_channels s (h_id (NewChannelHandle transfer_protocol 1)) = None"
    "joined wire_codec (NewChannelHandle transfer_protocol 1)
      (broker_channel (set_caller 0 (CallReturned (NewChannelHandle transfer_protocol 1)) s) (NewChannelHandle transfer_protocol 1))"
proof -
  have one: "pr_Id transfer_protocol = 1" "h_id (NewChannelHandle transfer_protocol 1) = 1"
    by (simp_all add: transfer_protocol_def Protocol_Id_def ChannelTypeTransfer_def NewChannelHandle_def)
  show thesis
    using initiator_joins [OF wire_codec_session wire_codec_opens] acceptor_accepts [OF wire_codec_session wire_codec_opens one(1)] one(2) that
    by metis
qed

text \<open>For the witnesses: a file of three bytes and its two ends.\<close>

lemma small_transfer:
  "transferable [1, 2, 3 :: byte] 2" "creates_file receive_factory buf_Data buf_ready \<lparr>md_Filename = [97]\<rparr> (length [1, 2, 3 :: byte])"
  "\<exists>c s. NewSender buffer_rsc (Some \<lparr>md_Filename = [97]\<rparr>) (NewBlockReader (NewBuffer [1, 2, 3]) (of_nat (length [1, 2, 3 :: byte])) 2) = Return (c, s)"
  "\<exists>d t. NewReceiver buffer_wsc receive_factory = Return (d, t)"
proof -
  show ok: "transferable [1, 2, 3 :: byte] 2" by (simp add: transferable_def maxAlloc_def)
  show fac: "creates_file receive_factory buf_Data buf_ready \<lparr>md_Filename = [97]\<rparr> (length [1, 2, 3 :: byte])"
    by (rule receive_factory_creates) (simp add: maxAlloc_def)
  show "\<exists>c s. NewSender buffer_rsc (Some \<lparr>md_Filename = [97]\<rparr>) (NewBlockReader (NewBuffer [1, 2, 3]) (of_nat (length [1, 2, 3 :: byte])) 2) = Return (c, s)"
    using buffer_transfer.NewSender_inv [where md = "\<lparr>md_Filename = [97]\<rparr>", OF ok, of "NewBuffer [1, 2, 3]"] by auto
  show "\<exists>d t. NewReceiver buffer_wsc receive_factory = Return (d, t)"
    using buffer_transfer.NewReceiver_inv [OF ok fac] by auto
qed

theorem session_transfer_completes_witness:
  "\<exists>c s d t sl sr n k. NewSender buffer_rsc (Some \<lparr>md_Filename = [97]\<rparr>) (NewBlockReader (NewBuffer [1, 2, 3]) 3 2) = Return (c, s) \<and>
    NewReceiver buffer_wsc receive_factory = Return (d, t) \<and>
    stack_run False wire_codec 1 n (start_stack c s d t sl sr) k \<and> lp_pc (fst (sk_left k)) = Returned None \<and>
    has_received buf_Data \<lparr>md_Filename = [97]\<rparr> [1, 2, 3] (lp_data (fst (sk_right k)))"
proof -
  obtain c s d t where c: "NewSender buffer_rsc (Some \<lparr>md_Filename = [97]\<rparr>)
      (NewBlockReader (NewBuffer [1, 2, 3]) (of_nat (length [1, 2, 3 :: byte])) 2) = Return (c, s)"
    and d: "NewReceiver buffer_wsc receive_factory = Return (d, t)" using small_transfer(3,4) by blast
  obtain sl sr where j: "joined wire_codec (NewChannelHandle transfer_protocol 1) sl" "joined wire_codec (NewChannelHandle transfer_protocol 1) sr"
    by (rule joined_sessions)
  show ?thesis
    using session_transfer_completes [OF buffer_reader.read_file_axioms buffer_writer.write_file_axioms small_transfer(1,2) _ _ _ _ _
        wire_codec_transfer j c d] c d by (simp add: utf8_ranges_def) blast
qed

theorem session_transfer_safe_witness:
  "\<exists>c s d t sl sr ds. NewSender buffer_rsc (Some \<lparr>md_Filename = [97]\<rparr>) (NewBlockReader (NewBuffer [1, 2, 3]) 3 2) = Return (c, s) \<and>
    NewReceiver buffer_wsc receive_factory = Return (d, t) \<and>
    gets_to wire_codec (NewSession True) ds sl \<and>
    (\<forall>n k. stack_run True wire_codec 1 n (start_stack c s d t sl sr) k \<longrightarrow>
       lp_pc (fst (sk_left k)) \<noteq> Crashed (RuntimePanic IndexOutOfRange))"
proof -
  obtain c s d t where c: "NewSender buffer_rsc (Some \<lparr>md_Filename = [97]\<rparr>)
      (NewBlockReader (NewBuffer [1, 2, 3]) (of_nat (length [1, 2, 3 :: byte])) 2) = Return (c, s)"
    and d: "NewReceiver buffer_wsc receive_factory = Return (d, t)" using small_transfer(3,4) by blast
  obtain sl ds u where j: "joined wire_codec (NewChannelHandle transfer_protocol 1) sl" "gets_to wire_codec (NewSession True) ds sl"
    and u: "gets_to wire_codec (NewSession False) (ss_out sl) u" "ss_broker u = Select"
      "ss_callers u 0 = Some (Register (NewChannelHandle transfer_protocol 1))" "ss_channels u (h_id (NewChannelHandle transfer_protocol 1)) = None"
    by (rule joined_sessions)
  note start = start_accept_returns [OF u, of c s d t]
  show ?thesis
    using session_transfer_safe [OF buffer_reader.read_file_axioms buffer_writer.write_file_axioms small_transfer(1,2) _ _
        wire_codec_roundtrip j c d start] c d j(2) by simp blast
qed

end
