(* ===== verification/Relay_Protocol.thy ===== *)
theory Relay_Protocol
  imports Device Packet
begin

text \<open>
  \<open>lib/relay/protocol.go\<close> and \<open>lib/relay/protocol_client_session.go\<close>: the messages between a relay
  server and its clients, their encoding, and the authentication of a session client. The lemmas
  show that every message survives wrapping and unwrapping, and what \<open>Authenticate\<close> returns for
  each answer of the server.
\<close>

section \<open>Messages (relay.proto)\<close>

record SessionDescription =
  sd_Key :: bytes
  sd_Port :: uint32

datatype Error =
    ErrorNone
  | ErrorTargetUnavailable
  | ErrorSessionExists
  | ErrorUnknownSession
  | ErrorSessionAlreadyAccepted
  | ErrorInitiatorUnavailable
  | ErrorOther

text \<open>A pointer to a description may be nil in a message from the network.\<close>

datatype relay_message =
    Connected
  | AlreadyConnected
  | RequestSession Identity bytes
  | SessionFailed Error Identity
  | SessionCreated "SessionDescription option" Identity
  | SessionInvitation "SessionDescription option" Identity bytes
  | AcceptSession Identity bytes
  | SessionAccepted Identity bytes
  | SessionEstablished Identity

datatype SessionState =
    SessionStateInvalid
  | SessionStateConnected
  | SessionStateAlreadyConnected
  | SessionStateInvalidKey
  | SessionStateOther

text \<open>
  Protobuf is third-party code. \<open>Unmarshal\<close> of a content gets the empty message that \<open>NewMessage\<close>
  made; the root message is its type and its content.
\<close>

record relay_codec =
  Marshal_content :: "relay_message \<Rightarrow> error + bytes"
  Unmarshal_content :: "bytes \<Rightarrow> relay_message \<Rightarrow> error + relay_message"
  Marshal_root :: "uint32 \<times> bytes \<Rightarrow> error + bytes"
  Unmarshal_root :: "bytes \<Rightarrow> error + (uint32 \<times> bytes)"
  Marshal_auth :: "bytes \<Rightarrow> error + bytes"
  Unmarshal_auth :: "bytes \<Rightarrow> error + bytes"
  Marshal_response :: "SessionState \<Rightarrow> error + bytes"
  Unmarshal_response :: "bytes \<Rightarrow> error + SessionState"

section \<open>Protocol\<close>

definition relay_Id :: uint32 where
  "relay_Id = 1"

fun relay_TypeOf :: "relay_message \<Rightarrow> uint32" where
  "relay_TypeOf Connected = 1"
| "relay_TypeOf AlreadyConnected = 2"
| "relay_TypeOf (RequestSession _ _) = 3"
| "relay_TypeOf (SessionFailed _ _) = 4"
| "relay_TypeOf (SessionCreated _ _) = 5"
| "relay_TypeOf (SessionInvitation _ _ _) = 6"
| "relay_TypeOf (AcceptSession _ _) = 7"
| "relay_TypeOf (SessionAccepted _ _) = 8"
| "relay_TypeOf (SessionEstablished _) = 9"

definition relay_RawTypeOf :: "relay_message \<Rightarrow> uint32" where
  "relay_RawTypeOf message = relay_TypeOf message"

definition relay_NewMessage :: "uint32 \<Rightarrow> error + relay_message" where
  "relay_NewMessage messageType =
     (if messageType = 1 then Inr Connected
      else if messageType = 2 then Inr AlreadyConnected
      else if messageType = 3 then Inr (RequestSession [] [])
      else if messageType = 4 then Inr (SessionFailed ErrorNone [])
      else if messageType = 5 then Inr (SessionCreated None [])
      else if messageType = 6 then Inr (SessionInvitation None [] [])
      else if messageType = 7 then Inr (AcceptSession [] [])
      else if messageType = 8 then Inr (SessionAccepted [] [])
      else if messageType = 9 then Inr (SessionEstablished [])
      else Inl (ProtocolError IllegalMessageType))"

definition relay_WrapMessage :: "relay_codec \<Rightarrow> relay_message \<Rightarrow> error + bytes" where
  "relay_WrapMessage cd message =
     (case Marshal_content cd message of
        Inl e \<Rightarrow> Inl e
      | Inr content \<Rightarrow> Marshal_root cd (relay_RawTypeOf message, content))"

definition relay_UnwrapMessage :: "relay_codec \<Rightarrow> bytes \<Rightarrow> error + relay_message" where
  "relay_UnwrapMessage cd wrapped =
     (case Unmarshal_root cd wrapped of
        Inl e \<Rightarrow> Inl e
      | Inr (t, content) \<Rightarrow>
          (case relay_NewMessage t of
             Inl e \<Rightarrow> Inl e
           | Inr blank \<Rightarrow> Unmarshal_content cd content blank))"

section \<open>Session clients\<close>

definition sessionStateToError :: "SessionState \<Rightarrow> error outcome" where
  "sessionStateToError st =
     (case st of
        SessionStateAlreadyConnected \<Rightarrow> Return (RelayError ErrSessionAlreadyConnected)
      | SessionStateInvalidKey \<Rightarrow> Return (RelayError ErrSessionKeyInvalid)
      | SessionStateConnected \<Rightarrow> Panic (PanicString ''connected is not an error'')
      | _ \<Rightarrow> Return (ProtocolError UnexpectedMessage))"

text \<open>The result is the error, or none and the connection that is returned.\<close>

definition Authenticate :: "relay_codec \<Rightarrow> conn \<Rightarrow> bytes \<Rightarrow> (error option \<times> conn) outcome" where
  "Authenticate cd c key =
     (case Marshal_auth cd key of
        Inl e \<Rightarrow> Return (Some e, c)
      | Inr data \<Rightarrow>
          obind (Packet_WriteTo conn_Write (Packet_New data) c) (\<lambda>(_, err, c1).
            case err of
              Some e \<Rightarrow> Return (Some e, c1)
            | None \<Rightarrow>
                obind (DecodeFrom conn_Read c1) (\<lambda>(result, err, c2).
                  case err of
                    Some e \<Rightarrow> Return (Some e, c2)
                  | None \<Rightarrow>
                      (case Unmarshal_response cd result of
                         Inl e \<Rightarrow> Return (Some e, c2)
                       | Inr st \<Rightarrow>
                           if st \<noteq> SessionStateConnected
                           then obind (sessionStateToError st) (\<lambda>e. Return (Some e, c2))
                           else Return (None, c2)))))"

definition writeSessionResponse :: "relay_codec \<Rightarrow> conn \<Rightarrow> SessionState \<Rightarrow> (error option \<times> conn) outcome" where
  "writeSessionResponse cd c st =
     (case Marshal_response cd st of
        Inl e \<Rightarrow> Return (Some e, c)
      | Inr data \<Rightarrow> obind (Packet_WriteTo conn_Write (Packet_New data) c) (\<lambda>(_, err, c1). Return (err, c1)))"

text \<open>
  The functions \<open>write\<close> of client and server, when no other goroutine writes meanwhile: a packet is written, and the deferred function closes the
  connection when that failed.
\<close>

definition protocol_write :: "relay_codec \<Rightarrow> relay_message \<Rightarrow> conn \<Rightarrow> (bool \<times> conn) outcome" where
  "protocol_write cd message c =
     (case relay_WrapMessage cd message of
        Inl err \<Rightarrow> Return (False, snd (conn_Close c))
      | Inr data \<Rightarrow>
          obind (Packet_WriteTo conn_Write (Packet_New data) c) (\<lambda>(_, err, c1).
            Return (if err \<noteq> None then (False, snd (conn_Close c1)) else (True, c1))))"

definition writeAndClose :: "relay_codec \<Rightarrow> relay_message \<Rightarrow> conn \<Rightarrow> conn outcome" where
  "writeAndClose cd message c = obind (protocol_write cd message c) (\<lambda>(ok, c1). Return (if ok then snd (conn_Close c1) else c1))"

section \<open>Round trips\<close>

text \<open>What protobuf promises: a message that was marshalled is unmarshalled to itself.\<close>

definition relay_codec_roundtrip :: "relay_codec \<Rightarrow> bool" where
  "relay_codec_roundtrip cd \<longleftrightarrow>
     (\<forall>m bs blank. Marshal_content cd m = Inr bs \<longrightarrow> relay_NewMessage (relay_TypeOf m) = Inr blank \<longrightarrow>
        Unmarshal_content cd bs blank = Inr m) \<and>
     (\<forall>r bs. Marshal_root cd r = Inr bs \<longrightarrow> Unmarshal_root cd bs = Inr r) \<and>
     (\<forall>k bs. Marshal_auth cd k = Inr bs \<longrightarrow> Unmarshal_auth cd bs = Inr k) \<and>
     (\<forall>st bs. Marshal_response cd st = Inr bs \<longrightarrow> Unmarshal_response cd bs = Inr st)"

lemma relay_NewMessage_TypeOf: "\<exists>blank. relay_NewMessage (relay_TypeOf m) = Inr blank \<and> relay_TypeOf blank = relay_TypeOf m"
  by (cases m) (simp_all add: relay_NewMessage_def)

text \<open>
  Every relay message that can be wrapped is unwrapped to itself, and the messages that
  \<open>NewMessage\<close> makes have the type they were made for.
\<close>

theorem relay_wrap_roundtrip:
  assumes "relay_codec_roundtrip cd" and "relay_WrapMessage cd m = Inr bs"
  shows "relay_UnwrapMessage cd bs = Inr m"
proof -
  obtain content where "Marshal_content cd m = Inr content" "Marshal_root cd (relay_TypeOf m, content) = Inr bs"
    using assms(2) by (auto simp: relay_WrapMessage_def relay_RawTypeOf_def split: sum.split_asm)
  moreover obtain blank where "relay_NewMessage (relay_TypeOf m) = Inr blank"
    using relay_NewMessage_TypeOf by blast
  ultimately have "Unmarshal_root cd bs = Inr (relay_TypeOf m, content)" "Unmarshal_content cd content blank = Inr m"
    "relay_NewMessage (relay_TypeOf m) = Inr blank"
    using assms(1) unfolding relay_codec_roundtrip_def by blast+
  then show ?thesis by (simp add: relay_UnwrapMessage_def)
qed

text \<open>The answer of the server decides what \<open>Authenticate\<close> returns; it never panics.\<close>

fun auth_result :: "SessionState \<Rightarrow> error option" where
  "auth_result SessionStateConnected = None"
| "auth_result SessionStateAlreadyConnected = Some (RelayError ErrSessionAlreadyConnected)"
| "auth_result SessionStateInvalidKey = Some (RelayError ErrSessionKeyInvalid)"
| "auth_result _ = Some (ProtocolError UnexpectedMessage)"

lemma Authenticate_answer:
  assumes "conn_healthy c" and "Marshal_auth cd key = Inr data" and "length data \<le> MaxLength"
    and "conn_pending c = frame answer @ rest" and "length answer \<le> MaxLength"
    and "Unmarshal_response cd answer = Inr st"
  shows "\<exists>c'. Authenticate cd c key = Return (auth_result st, c') \<and>
    c_out c' = c_out c @ frame data \<and> conn_pending c' = rest"
proof -
  obtain c1 where c1: "Packet_WriteTo conn_Write data c = Return (Packet_Size data, None, c1)"
    "c_out c1 = c_out c @ frame data"
    using net_sink.Packet_WriteTo_healthy [OF assms(1,3)] by blast
  have "conn_pending c1 = conn_pending c"
    using c1(1) by (rule Packet_WriteTo_input)
  then obtain c2 where c2: "DecodeFrom conn_Read c1 = Return (answer, None, c2)" "conn_pending c2 = rest"
    using net_stream.DecodeFrom_frame [of c1 answer rest] assms(4,5) by auto
  have "c_out c2 = c_out c1" using c2(1) by (rule DecodeFrom_output(1))
  with c1 c2 assms(2,6) show ?thesis
    by (cases st) (simp_all add: Authenticate_def Packet_New_def sessionStateToError_def)
qed

text \<open>
  On a connection that takes writes and delivers the server's answer, in whatever segments,
  \<open>Authenticate\<close> sends the key as one packet, reads exactly the answer and succeeds if and only if
  the server has connected the client; what follows the answer is left for the session.
\<close>

theorem Authenticate_follows_answer:
  assumes "conn_healthy c" and "Marshal_auth cd key = Inr data" and "length data \<le> MaxLength"
    and "conn_pending c = frame answer @ rest" and "length answer \<le> MaxLength"
    and "Unmarshal_response cd answer = Inr st"
  shows "\<exists>c'. Authenticate cd c key = Return (auth_result st, c') \<and>
    c_out c' = c_out c @ frame data \<and> conn_pending c' = rest"
  using assms by (rule Authenticate_answer)

text \<open>For the witnesses: a codec for the messages with an identity of one byte.\<close>

definition short_codec :: relay_codec where
  "short_codec =
     \<lparr>Marshal_content = (\<lambda>m. case m of
        Connected \<Rightarrow> Inr []
      | AlreadyConnected \<Rightarrow> Inr []
      | RequestSession [i] d \<Rightarrow> Inr (i # d)
      | AcceptSession [i] d \<Rightarrow> Inr (i # d)
      | SessionAccepted [i] d \<Rightarrow> Inr (i # d)
      | SessionEstablished i \<Rightarrow> Inr i
      | _ \<Rightarrow> Inl (ErrorString ''unsupported'')),
      Unmarshal_content = (\<lambda>bs blank. case blank of
        RequestSession _ _ \<Rightarrow> Inr (RequestSession (take 1 bs) (drop 1 bs))
      | AcceptSession _ _ \<Rightarrow> Inr (AcceptSession (take 1 bs) (drop 1 bs))
      | SessionAccepted _ _ \<Rightarrow> Inr (SessionAccepted (take 1 bs) (drop 1 bs))
      | SessionEstablished _ \<Rightarrow> Inr (SessionEstablished bs)
      | m \<Rightarrow> Inr m),
      Marshal_root = (\<lambda>(t, content). Inr (PutUint32 t @ content)),
      Unmarshal_root = (\<lambda>bs. Inr (get_be (take 4 bs), drop 4 bs)),
      Marshal_auth = Inr, Unmarshal_auth = Inr,
      Marshal_response = (\<lambda>st. case st of SessionStateConnected \<Rightarrow> Inr [1] | SessionStateInvalidKey \<Rightarrow> Inr [2]
        | _ \<Rightarrow> Inl (ErrorString ''unsupported'')),
      Unmarshal_response = (\<lambda>bs. if bs = [1] then Inr SessionStateConnected else Inr SessionStateInvalidKey)\<rparr>"

lemma short_codec_roundtrip: "relay_codec_roundtrip short_codec"
  unfolding relay_codec_roundtrip_def
proof (intro conjI allI impI)
  fix m bs blank
  assume "Marshal_content short_codec m = Inr bs" "relay_NewMessage (relay_TypeOf m) = Inr blank"
  then show "Unmarshal_content short_codec bs blank = Inr m"
    by (cases m) (auto simp: short_codec_def relay_NewMessage_def split: list.split_asm)
next
  fix st bs
  assume "Marshal_response short_codec st = Inr bs"
  then show "Unmarshal_response short_codec bs = Inr st"
    by (cases st) (auto simp: short_codec_def)
qed (auto simp: short_codec_def)

lemma short_codec_request: "relay_WrapMessage short_codec (RequestSession [5] [7, 8]) = Inr [0, 0, 0, 3, 5, 7, 8]"
  by (simp add: relay_WrapMessage_def relay_RawTypeOf_def short_codec_def PutUint_eval)

theorem relay_wrap_roundtrip_witness:
  "relay_UnwrapMessage short_codec [0, 0, 0, 3, 5, 7, 8] = Inr (RequestSession [5] [7, 8])"
  by (rule relay_wrap_roundtrip [OF short_codec_roundtrip short_codec_request])

definition answered_conn :: conn where
  "answered_conn = \<lparr>c_in = [[0], [1, 1, 9]], c_end = IOError EOF, c_out = [], c_werr = None, c_closed = False\<rparr>"

theorem Authenticate_follows_answer_witness:
  "\<exists>c'. Authenticate short_codec answered_conn [4, 4] = Return (None, c') \<and>
     c_out c' = [0, 2, 4, 4] \<and> conn_pending c' = [9]"
proof -
  have "frame [1] = [0, 1, 1]" "frame [4, 4] = [0, 2, 4, 4]" by (simp_all add: frame_def PutUint_eval)
  moreover have "conn_healthy answered_conn" "conn_pending answered_conn = [0, 1, 1] @ [9]" "c_out answered_conn = []"
    by (simp_all add: conn_healthy_def conn_pending_def answered_conn_def)
  moreover have "Marshal_auth short_codec [4, 4] = Inr [4, 4]" "Unmarshal_response short_codec [1] = Inr SessionStateConnected"
    by (simp_all add: short_codec_def)
  ultimately show ?thesis
    using Authenticate_follows_answer [of answered_conn short_codec "[4, 4]" "[4, 4]" "[1]" "[9]" SessionStateConnected]
    by (simp add: packet_consts)
qed

end
