(* ===== verification/Relay_Server.thy ===== *)
theory Relay_Server
  imports Relay_Protocol
begin

text \<open>
  \<open>lib/relay/protocol_server.go\<close>: the relay server with its two handler goroutines, which own the
  maps of clients, sessions and session keys, and with one goroutine per client, session, session
  client, direction of a session and write. The goroutines are interleaved by a step relation.
  The connections are a store, indexed by numbers. A call that a handler answers is one step,
  since nothing else can happen between the request and the answer.
\<close>

section \<open>Identifiers\<close>

text \<open>\<open>hex.EncodeToString\<close>.\<close>

definition hexDigit :: "nat \<Rightarrow> char" where
  "hexDigit n = ''0123456789abcdef'' ! n"

definition EncodeToString :: "bytes \<Rightarrow> string" where
  "EncodeToString src = concat (map (\<lambda>b. [hexDigit (unat b div 16), hexDigit (unat b mod 16)]) src)"

definition SessionKeySize :: nat where
  "SessionKeySize = 16"

text \<open>
  A new key: what \<open>rand.Read\<close> puts into a slice of zeros and its error. An error ends the process.
\<close>

definition newSessionKey :: "bytes \<times> error option \<Rightarrow> string + bytes" where
  "newSessionKey rnd =
     (case rnd of
        (rs, err) \<Rightarrow>
          let key = take SessionKeySize rs @ replicate (SessionKeySize - length rs) 0 in
          if err \<noteq> None then Inl ''failed to create new session key'' else Inr key)"

lemma newSessionKey_length: "newSessionKey rnd = Inr key \<Longrightarrow> length key = SessionKeySize"
  by (auto simp: newSessionKey_def Let_def split: prod.split_asm if_split_asm)

definition newSessionIdentifier :: "Identity \<Rightarrow> Identity \<Rightarrow> string" where
  "newSessionIdentifier id1 id2 = EncodeToString id1 @ EncodeToString id2"

section \<open>State\<close>

text \<open>The channel \<open>accepted\<close> of a session is identified by the number of its goroutine.\<close>

record sessionHandle =
  sh_initiatorIdentity :: Identity
  sh_targetIdentity :: Identity
  sh_keys :: "bytes \<times> bytes"
  sh_accepted :: nat

text \<open>The channel of a key is that of the first or the second client of a session goroutine.\<close>

record sessionKeyHandle =
  sk_id :: string
  sk_goroutine :: nat
  sk_first :: bool

record sessionOutput =
  so_initiatorDescription :: "SessionDescription option"
  so_targetDescription :: "SessionDescription option"
  so_error :: Error

text \<open>What a goroutine does after \<open>s.write\<close>.\<close>

datatype after_write = Finish | CloseAfter | HandleAfter Identity

text \<open>
  Where \<open>handleClient\<close> is: at the next packet, in \<open>handleSessionRequest\<close> or \<open>handleSessionAccept\<close>
  before one of their requests to a handler, or in its deferred function.
\<close>

datatype client_pc =
    ReadPacket
  | GetTarget Identity bytes
  | CreateSession Identity bytes nat
  | MarkAccepted Identity bytes
  | GetInitiator Identity bytes
  | DeleteClient

text \<open>One of the two goroutines of the errgroup in \<open>handleSession\<close>.\<close>

datatype slot =
    SlotStart
  | SlotWaiting
  | SlotGot nat
  | SlotOk nat
  | SlotFailed "nat option"

datatype session_pc =
    Joining slot slot
  | AwaitAccept nat nat
  | Relaying nat nat bool bool
  | DeleteSession nat nat

datatype join_pc =
    JoinRead
  | JoinLookup bytes
  | JoinOffer nat bool

datatype goroutine =
    AddingClient Identity nat
  | Writing nat relay_message after_write
  | WritingBody nat bytes after_write
  | HandlingClient Identity nat client_pc
  | HandlingSession string session_pc
  | RelayRead nat bool nat nat
  | RelayWrite nat bool nat nat bytes
  | RelayCheck nat bool nat nat
  | JoiningSession nat join_pc

datatype handler_pc = HandlerRunning | HandlerReturned | HandlerPanicked string

text \<open>\<open>sv_err\<close> is the variable \<open>err\<close> of each \<open>handleSession\<close>, by the number of its goroutine: both goroutines that relay assign and read it.\<close>

record server =
  sv_sessionPort :: int
  sv_clients :: "string \<rightharpoonup> Identity \<times> nat"
  sv_sessions :: "string \<rightharpoonup> sessionHandle"
  sv_keys :: "string \<rightharpoonup> sessionKeyHandle"
  sv_accepted :: "nat list"
  sv_clientHandler :: handler_pc
  sv_sessionHandler :: handler_pc
  sv_done :: bool
  sv_conns :: "nat \<Rightarrow> conn"
  sv_err :: "nat \<Rightarrow> error option"
  sv_go :: "nat \<rightharpoonup> goroutine"
  sv_next :: nat

text \<open>After \<open>NewServerProtocol\<close> and \<open>Start\<close>.\<close>

definition NewServerProtocol :: "int \<Rightarrow> (nat \<Rightarrow> conn) \<Rightarrow> server" where
  "NewServerProtocol sessionPort conns =
     \<lparr>sv_sessionPort = sessionPort, sv_clients = Map.empty, sv_sessions = Map.empty, sv_keys = Map.empty,
      sv_accepted = [], sv_clientHandler = HandlerRunning, sv_sessionHandler = HandlerRunning, sv_done = False,
      sv_conns = conns, sv_err = (\<lambda>_. None), sv_go = Map.empty, sv_next = 0\<rparr>"

definition spawn :: "goroutine \<Rightarrow> server \<Rightarrow> server" where
  "spawn g s = s\<lparr>sv_go := (sv_go s)(sv_next s \<mapsto> g), sv_next := Suc (sv_next s)\<rparr>"

definition set_go :: "nat \<Rightarrow> goroutine \<Rightarrow> server \<Rightarrow> server" where
  "set_go n g s = s\<lparr>sv_go := (sv_go s)(n \<mapsto> g)\<rparr>"

definition end_go :: "nat \<Rightarrow> server \<Rightarrow> server" where
  "end_go n s = s\<lparr>sv_go := (sv_go s)(n := None)\<rparr>"

definition set_conn :: "nat \<Rightarrow> conn \<Rightarrow> server \<Rightarrow> server" where
  "set_conn k c s = s\<lparr>sv_conns := (sv_conns s)(k := c)\<rparr>"

definition close_conn :: "nat \<Rightarrow> server \<Rightarrow> server" where
  "close_conn k s = set_conn k (snd (conn_Close (sv_conns s k))) s"

section \<open>Writing\<close>

text \<open>One \<open>Write\<close> on a connection, which always returns.\<close>

definition conn_put :: "nat \<Rightarrow> bytes \<Rightarrow> server \<Rightarrow> error option \<times> server" where
  "conn_put k p s =
     (case conn_Write (sv_conns s k) p of Return (_, err, c) \<Rightarrow> (err, set_conn k c s) | _ \<Rightarrow> (None, s))"

text \<open>The end of \<open>s.write\<close>: on an error its deferred function closes the connection.\<close>

definition write_done :: "nat \<Rightarrow> nat \<Rightarrow> after_write \<Rightarrow> bool \<Rightarrow> server \<Rightarrow> server" where
  "write_done n k after ok s =
     (let s1 = end_go n (if ok then s else close_conn k s) in
      case after of
        Finish \<Rightarrow> s1
      | CloseAfter \<Rightarrow> close_conn k s1
      | HandleAfter identity \<Rightarrow> if ok then spawn (HandlingClient identity k ReadPacket) s1 else s1)"

text \<open>
  \<open>s.write\<close> wraps the message and writes a packet, which is two writes on the connection: the
  header and the payload. Each is a step of its own.
\<close>

definition write_header :: "relay_codec \<Rightarrow> nat \<Rightarrow> nat \<Rightarrow> relay_message \<Rightarrow> after_write \<Rightarrow> server \<Rightarrow> server" where
  "write_header cd n k message after s =
     (case relay_WrapMessage cd message of
        Inl e \<Rightarrow> write_done n k after False s
      | Inr data \<Rightarrow>
          (case LengthOf (Packet_New data) of
             Inl e \<Rightarrow> write_done n k after False s
           | Inr l \<Rightarrow>
               (case conn_put k (Length_Bytes l) s of
                  (Some e, s1) \<Rightarrow> write_done n k after False s1
                | (None, s1) \<Rightarrow> set_go n (WritingBody k data after) s1)))"

definition write_body :: "nat \<Rightarrow> nat \<Rightarrow> bytes \<Rightarrow> after_write \<Rightarrow> server \<Rightarrow> server" where
  "write_body n k data after s =
     (case conn_put k data s of (err, s1) \<Rightarrow> write_done n k after (err = None) s1)"

section \<open>The handler of clients\<close>

definition handler_newClient :: "server \<Rightarrow> Identity \<Rightarrow> nat \<Rightarrow> server" where
  "handler_newClient s identity k =
     (let sid = EncodeToString identity in
      if sv_clients s sid \<noteq> None then spawn (Writing k AlreadyConnected CloseAfter) s
      else spawn (Writing k Connected (HandleAfter identity)) (s\<lparr>sv_clients := (sv_clients s)(sid \<mapsto> (identity, k))\<rparr>))"

definition handler_getClient :: "server \<Rightarrow> Identity \<Rightarrow> nat option" where
  "handler_getClient s identity = map_option snd (sv_clients s (EncodeToString identity))"

definition handler_deleteClient :: "server \<Rightarrow> Identity \<Rightarrow> server" where
  "handler_deleteClient s identity =
     (let sid = EncodeToString identity in
      if sv_clients s sid = None
      then s\<lparr>sv_clientHandler := HandlerPanicked ''attempting to delete a client that does not exist''\<rparr>
      else s\<lparr>sv_clients := (sv_clients s)(sid := None)\<rparr>)"

section \<open>The handler of sessions\<close>

definition createSessionDescription :: "server \<Rightarrow> bytes \<Rightarrow> SessionDescription" where
  "createSessionDescription s key = \<lparr>sd_Key = key, sd_Port = of_int (sv_sessionPort s)\<rparr>"

definition handler_newSession ::
  "server \<Rightarrow> Identity \<Rightarrow> Identity \<Rightarrow> bytes \<Rightarrow> bytes \<Rightarrow> sessionOutput \<times> server" where
  "handler_newSession s initiatorIdentity targetIdentity key1 key2 =
     (let sid = newSessionIdentifier initiatorIdentity targetIdentity in
      if sv_sessions s sid \<noteq> None
      then (\<lparr>so_initiatorDescription = None, so_targetDescription = None, so_error = ErrorSessionExists\<rparr>, s)
      else
        let g = sv_next s;
            keys = (sv_keys s)
              (EncodeToString key1 \<mapsto> \<lparr>sk_id = sid, sk_goroutine = g, sk_first = True\<rparr>,
               EncodeToString key2 \<mapsto> \<lparr>sk_id = sid, sk_goroutine = g, sk_first = False\<rparr>);
            handle = \<lparr>sh_initiatorIdentity = initiatorIdentity, sh_targetIdentity = targetIdentity,
              sh_keys = (key1, key2), sh_accepted = g\<rparr>
        in (\<lparr>so_initiatorDescription = Some (createSessionDescription s key1),
             so_targetDescription = Some (createSessionDescription s key2), so_error = ErrorNone\<rparr>,
            spawn (HandlingSession sid (Joining SlotStart SlotStart))
              (s\<lparr>sv_keys := keys, sv_sessions := (sv_sessions s)(sid \<mapsto> handle)\<rparr>)))"

definition handler_acceptSession :: "server \<Rightarrow> Identity \<Rightarrow> Identity \<Rightarrow> Error \<times> server" where
  "handler_acceptSession s initiatorIdentity targetIdentity =
     (case sv_sessions s (newSessionIdentifier initiatorIdentity targetIdentity) of
        None \<Rightarrow> (ErrorUnknownSession, s)
      | Some handle \<Rightarrow>
          if sh_accepted handle \<in> set (sv_accepted s) then (ErrorSessionAlreadyAccepted, s)
          else (ErrorNone, s\<lparr>sv_accepted := sh_accepted handle # sv_accepted s\<rparr>))"

definition handler_deleteSession :: "server \<Rightarrow> string \<Rightarrow> server" where
  "handler_deleteSession s sid =
     (case sv_sessions s sid of
        None \<Rightarrow> s\<lparr>sv_sessionHandler := HandlerPanicked ''attempting to delete a session that does not exist''\<rparr>
      | Some handle \<Rightarrow>
          s\<lparr>sv_keys := (sv_keys s)(EncodeToString (fst (sh_keys handle)) := None,
               EncodeToString (snd (sh_keys handle)) := None),
            sv_sessions := (sv_sessions s)(sid := None)\<rparr>)"

definition handler_getSessionChan :: "server \<Rightarrow> bytes \<Rightarrow> sessionKeyHandle option" where
  "handler_getSessionChan s key = sv_keys s (EncodeToString key)"

section \<open>Clients\<close>

definition server_handleMessage :: "relay_message \<Rightarrow> client_pc" where
  "server_handleMessage message =
     (case message of
        RequestSession targetIdentity additionalData \<Rightarrow> GetTarget targetIdentity additionalData
      | AcceptSession initiatorIdentity additionalData \<Rightarrow> MarkAccepted initiatorIdentity additionalData
      | _ \<Rightarrow> DeleteClient)"

text \<open>What \<open>handleClient\<close> does with the result of \<open>packet.DecodeFrom\<close>.\<close>

definition handleClient :: "relay_codec \<Rightarrow> bool \<Rightarrow> bytes \<Rightarrow> error option \<Rightarrow> client_pc" where
  "handleClient cd done data err =
     (if err \<noteq> None then DeleteClient
      else if done then DeleteClient
      else case relay_UnwrapMessage cd data of
          Inl e \<Rightarrow> DeleteClient
        | Inr message \<Rightarrow> server_handleMessage message)"

definition request_target :: "server \<Rightarrow> nat \<Rightarrow> Identity \<Rightarrow> nat \<Rightarrow> Identity \<Rightarrow> bytes \<Rightarrow> server" where
  "request_target s n identity k target data =
     (case handler_getClient s target of
        None \<Rightarrow> spawn (Writing k (SessionFailed ErrorTargetUnavailable target) Finish)
          (set_go n (HandlingClient identity k ReadPacket) s)
      | Some targetConn \<Rightarrow> set_go n (HandlingClient identity k (CreateSession target data targetConn)) s)"

definition request_create ::
  "server \<Rightarrow> nat \<Rightarrow> Identity \<Rightarrow> nat \<Rightarrow> Identity \<Rightarrow> bytes \<Rightarrow> nat \<Rightarrow> bytes \<Rightarrow> bytes \<Rightarrow> server" where
  "request_create s n identity k target data targetConn key1 key2 =
     (case handler_newSession s identity target key1 key2 of
        (session, s1) \<Rightarrow>
          let s2 = set_go n (HandlingClient identity k ReadPacket) s1 in
          if so_error session \<noteq> ErrorNone
          then spawn (Writing k (SessionFailed (so_error session) target) Finish) s2
          else spawn (Writing targetConn (SessionInvitation (so_targetDescription session) identity data) Finish)
             (spawn (Writing k (SessionCreated (so_initiatorDescription session) target) Finish) s2))"

definition accept_mark :: "server \<Rightarrow> nat \<Rightarrow> Identity \<Rightarrow> nat \<Rightarrow> Identity \<Rightarrow> bytes \<Rightarrow> server" where
  "accept_mark s n identity k initiator data =
     (case handler_acceptSession s initiator identity of
        (error, s1) \<Rightarrow>
          if error \<noteq> ErrorNone
          then spawn (Writing k (SessionFailed error initiator) Finish) (set_go n (HandlingClient identity k ReadPacket) s1)
          else set_go n (HandlingClient identity k (GetInitiator initiator data)) s1)"

definition accept_initiator :: "server \<Rightarrow> nat \<Rightarrow> Identity \<Rightarrow> nat \<Rightarrow> Identity \<Rightarrow> bytes \<Rightarrow> server" where
  "accept_initiator s n identity k initiator data =
     (let s1 = set_go n (HandlingClient identity k ReadPacket) s in
      case handler_getClient s initiator of
        None \<Rightarrow> spawn (Writing k (SessionFailed ErrorInitiatorUnavailable initiator) Finish) s1
      | Some initiatorConn \<Rightarrow>
          spawn (Writing k (SessionEstablished initiator) Finish)
            (spawn (Writing initiatorConn (SessionAccepted identity data) Finish) s1))"

section \<open>Sessions\<close>

definition SessionBufSize :: nat where
  "SessionBufSize = 1024"

fun get_slot :: "bool \<Rightarrow> session_pc \<Rightarrow> slot option" where
  "get_slot first (Joining a b) = Some (if first then a else b)"
| "get_slot first _ = None"

fun set_slot :: "bool \<Rightarrow> slot \<Rightarrow> session_pc \<Rightarrow> session_pc" where
  "set_slot first x (Joining a b) = (if first then Joining x b else Joining a x)"
| "set_slot first x pc = pc"

fun slot_conn :: "slot \<Rightarrow> nat option" where
  "slot_conn (SlotOk k) = Some k"
| "slot_conn (SlotFailed c) = c"
| "slot_conn _ = None"

fun slot_finished :: "slot \<Rightarrow> bool" where
  "slot_finished (SlotOk k) = True"
| "slot_finished (SlotFailed c) = True"
| "slot_finished _ = False"

definition slot_respond :: "relay_codec \<Rightarrow> server \<Rightarrow> nat \<Rightarrow> slot \<times> server" where
  "slot_respond cd s k =
     (case writeSessionResponse cd (sv_conns s k) SessionStateConnected of
        Return (err, c) \<Rightarrow> ((if err = None then SlotOk k else SlotFailed (Some k)), set_conn k c s)
      | _ \<Rightarrow> (SlotFailed (Some k), s))"

definition close_slot :: "slot \<Rightarrow> server \<Rightarrow> server" where
  "close_slot x s = (case slot_conn x of None \<Rightarrow> s | Some k \<Rightarrow> close_conn k s)"

text \<open>After \<open>eg.Wait\<close>: an error closes what was connected and ends the goroutine.\<close>

definition session_joined :: "server \<Rightarrow> nat \<Rightarrow> string \<Rightarrow> slot \<Rightarrow> slot \<Rightarrow> server" where
  "session_joined s n sid a b =
     (case (a, b) of
        (SlotOk k1, SlotOk k2) \<Rightarrow> set_go n (HandlingSession sid (AwaitAccept k1 k2)) s
      | _ \<Rightarrow> end_go n (close_slot b (close_slot a s)))"

text \<open>No error so far: \<open>eg.Wait\<close> has returned none.\<close>

definition session_relay :: "server \<Rightarrow> nat \<Rightarrow> string \<Rightarrow> nat \<Rightarrow> nat \<Rightarrow> server" where
  "session_relay s n sid k1 k2 =
     spawn (RelayRead n False k2 k1) (spawn (RelayRead n True k1 k2)
       (set_go n (HandlingSession sid (Relaying k1 k2 False False)) (s\<lparr>sv_err := (sv_err s)(n := None)\<rparr>)))"

definition session_close :: "server \<Rightarrow> nat \<Rightarrow> nat \<Rightarrow> nat \<Rightarrow> server" where
  "session_close s n k1 k2 = end_go n (close_conn k2 (close_conn k1 s))"

text \<open>\<open>close(done)\<close> in the function \<open>relay\<close>.\<close>

definition relay_close_done :: "nat \<Rightarrow> bool \<Rightarrow> server \<Rightarrow> server" where
  "relay_close_done n first s =
     (case sv_go s n of
        Some (HandlingSession sid (Relaying k1 k2 d1 d2)) \<Rightarrow>
          set_go n (HandlingSession sid (Relaying k1 k2 (d1 \<or> first) (d2 \<or> \<not> first))) s
      | _ \<Rightarrow> s)"

definition relay_read :: "server \<Rightarrow> nat \<Rightarrow> nat \<Rightarrow> bool \<Rightarrow> nat \<Rightarrow> nat \<Rightarrow> server" where
  "relay_read s r n first src dst =
     (case conn_Read (sv_conns s src) SessionBufSize of
        Return (data, e, c) \<Rightarrow>
          (if e \<noteq> None then end_go r (relay_close_done n first (set_conn src c s))
           else if sv_done s then end_go r (set_conn src c s)
           else set_go r (RelayWrite n first src dst data) (set_conn src c s))
      | _ \<Rightarrow> s)"

text \<open>
  The write assigns the \<open>err\<close> that both directions share, and the test of it comes after: in between, the other direction may assign it.
\<close>

definition relay_write :: "server \<Rightarrow> nat \<Rightarrow> nat \<Rightarrow> bool \<Rightarrow> nat \<Rightarrow> nat \<Rightarrow> bytes \<Rightarrow> server" where
  "relay_write s r n first src dst data =
     (case conn_put dst data s of
        (err, s1) \<Rightarrow> set_go r (RelayCheck n first src dst) (s1\<lparr>sv_err := (sv_err s1)(n := err)\<rparr>))"

definition relay_check :: "server \<Rightarrow> nat \<Rightarrow> nat \<Rightarrow> bool \<Rightarrow> nat \<Rightarrow> nat \<Rightarrow> server" where
  "relay_check s r n first src dst =
     (if sv_err s n \<noteq> None then end_go r (relay_close_done n first s)
      else if sv_done s then end_go r s
      else set_go r (RelayRead n first src dst) s)"

section \<open>Session clients\<close>

definition respond_session :: "relay_codec \<Rightarrow> server \<Rightarrow> nat \<Rightarrow> SessionState \<Rightarrow> server" where
  "respond_session cd s k st =
     (case writeSessionResponse cd (sv_conns s k) st of Return (_, c) \<Rightarrow> set_conn k c s | _ \<Rightarrow> s)"

definition join_read :: "relay_codec \<Rightarrow> server \<Rightarrow> nat \<Rightarrow> nat \<Rightarrow> server" where
  "join_read cd s n k =
     (case DecodeFrom conn_Read (sv_conns s k) of
        Return (data, err, c) \<Rightarrow>
          (let s1 = set_conn k c s in
           if err \<noteq> None then end_go n s1
           else case Unmarshal_auth cd data of
               Inl e \<Rightarrow> end_go n s1
             | Inr key \<Rightarrow> set_go n (JoiningSession k (JoinLookup key)) s1)
      | _ \<Rightarrow> s)"

definition join_lookup :: "relay_codec \<Rightarrow> server \<Rightarrow> nat \<Rightarrow> nat \<Rightarrow> bytes \<Rightarrow> server" where
  "join_lookup cd s n k key =
     (case handler_getSessionChan s key of
        None \<Rightarrow> end_go n (respond_session cd s k SessionStateInvalidKey)
      | Some handle \<Rightarrow> set_go n (JoiningSession k (JoinOffer (sk_goroutine handle) (sk_first handle))) s)"

text \<open>A send with a default case: it succeeds if the goroutine of the session waits for it.\<close>

definition join_offer :: "relay_codec \<Rightarrow> server \<Rightarrow> nat \<Rightarrow> nat \<Rightarrow> nat \<Rightarrow> bool \<Rightarrow> server" where
  "join_offer cd s n k g first =
     (case sv_go s g of
        Some (HandlingSession sid pc) \<Rightarrow>
          if get_slot first pc = Some SlotWaiting
          then end_go n (set_go g (HandlingSession sid (set_slot first (SlotGot k) pc)) s)
          else end_go n (respond_session cd s k SessionStateAlreadyConnected)
      | _ \<Rightarrow> end_go n (respond_session cd s k SessionStateAlreadyConnected))"

section \<open>The public calls\<close>

definition AddClient :: "server \<Rightarrow> Identity \<Rightarrow> nat \<Rightarrow> server" where
  "AddClient s identity k = spawn (AddingClient identity k) s"

definition AddSessionClient :: "server \<Rightarrow> nat \<Rightarrow> server" where
  "AddSessionClient s k = spawn (JoiningSession k JoinRead) s"

definition server_Close :: "server \<Rightarrow> server outcome" where
  "server_Close s =
     (if sv_done s then Panic (RuntimePanic CloseOfClosedChannel) else Return (s\<lparr>sv_done := True\<rparr>))"

section \<open>Runs\<close>

inductive server_step :: "relay_codec \<Rightarrow> server \<Rightarrow> server \<Rightarrow> bool" for cd where
  add_client: "server_step cd s (AddClient s identity k)"
| add_session_client: "server_step cd s (AddSessionClient s k)"
| close_server: "server_Close s = Return t \<Longrightarrow> server_step cd s t"
| new_client: "sv_clientHandler s = HandlerRunning \<Longrightarrow> sv_go s n = Some (AddingClient identity k) \<Longrightarrow>
    server_step cd s (handler_newClient (end_go n s) identity k)"
| step_header: "sv_go s n = Some (Writing k message after) \<Longrightarrow>
    server_step cd s (write_header cd n k message after s)"
| step_body: "sv_go s n = Some (WritingBody k data after) \<Longrightarrow> server_step cd s (write_body n k data after s)"
| client_packet: "sv_go s n = Some (HandlingClient identity k ReadPacket) \<Longrightarrow>
    DecodeFrom conn_Read (sv_conns s k) = Return (data, err, c) \<Longrightarrow>
    server_step cd s (set_go n (HandlingClient identity k (handleClient cd (sv_done s) data err)) (set_conn k c s))"
| client_target: "sv_go s n = Some (HandlingClient identity k (GetTarget target data)) \<Longrightarrow>
    sv_clientHandler s = HandlerRunning \<Longrightarrow> server_step cd s (request_target s n identity k target data)"
| client_create: "sv_go s n = Some (HandlingClient identity k (CreateSession target data targetConn)) \<Longrightarrow>
    sv_sessionHandler s = HandlerRunning \<Longrightarrow> newSessionKey rnd1 = Inr key1 \<Longrightarrow> newSessionKey rnd2 = Inr key2 \<Longrightarrow>
    server_step cd s (request_create s n identity k target data targetConn key1 key2)"
| client_accept: "sv_go s n = Some (HandlingClient identity k (MarkAccepted initiator data)) \<Longrightarrow>
    sv_sessionHandler s = HandlerRunning \<Longrightarrow> server_step cd s (accept_mark s n identity k initiator data)"
| client_initiator: "sv_go s n = Some (HandlingClient identity k (GetInitiator initiator data)) \<Longrightarrow>
    sv_clientHandler s = HandlerRunning \<Longrightarrow> server_step cd s (accept_initiator s n identity k initiator data)"
| client_delete: "sv_go s n = Some (HandlingClient identity k DeleteClient) \<Longrightarrow>
    sv_clientHandler s = HandlerRunning \<Longrightarrow>
    server_step cd s (end_go n (close_conn k (handler_deleteClient s identity)))"
| slot_wait: "sv_go s n = Some (HandlingSession sid pc) \<Longrightarrow> get_slot first pc = Some SlotStart \<Longrightarrow>
    server_step cd s (set_go n (HandlingSession sid (set_slot first SlotWaiting pc)) s)"
| slot_timeout: "sv_go s n = Some (HandlingSession sid pc) \<Longrightarrow> get_slot first pc = Some SlotWaiting \<Longrightarrow>
    server_step cd s (set_go n (HandlingSession sid (set_slot first (SlotFailed None) pc)) s)"
| slot_write: "sv_go s n = Some (HandlingSession sid pc) \<Longrightarrow> get_slot first pc = Some (SlotGot k) \<Longrightarrow>
    slot_respond cd s k = (x, s1) \<Longrightarrow> server_step cd s (set_go n (HandlingSession sid (set_slot first x pc)) s1)"
| step_joined: "sv_go s n = Some (HandlingSession sid (Joining a b)) \<Longrightarrow> slot_finished a \<Longrightarrow> slot_finished b \<Longrightarrow>
    server_step cd s (session_joined s n sid a b)"
| step_accepted: "sv_go s n = Some (HandlingSession sid (AwaitAccept k1 k2)) \<Longrightarrow> n \<in> set (sv_accepted s) \<Longrightarrow>
    server_step cd s (session_relay s n sid k1 k2)"
| step_relay_read: "sv_go s r = Some (RelayRead n first src dst) \<Longrightarrow> server_step cd s (relay_read s r n first src dst)"
| step_relay_write: "sv_go s r = Some (RelayWrite n first src dst data) \<Longrightarrow>
    server_step cd s (relay_write s r n first src dst data)"
| step_relay_check: "sv_go s r = Some (RelayCheck n first src dst) \<Longrightarrow> server_step cd s (relay_check s r n first src dst)"
| session_ended: "sv_go s n = Some (HandlingSession sid (Relaying k1 k2 d1 d2)) \<Longrightarrow> d1 \<or> d2 \<Longrightarrow>
    server_step cd s (set_go n (HandlingSession sid (DeleteSession k1 k2)) s)"
| session_delete: "sv_go s n = Some (HandlingSession sid (DeleteSession k1 k2)) \<Longrightarrow>
    sv_sessionHandler s = HandlerRunning \<Longrightarrow> server_step cd s (session_close (handler_deleteSession s sid) n k1 k2)"
| session_done: "sv_go s n = Some (HandlingSession sid (Relaying k1 k2 d1 d2)) \<Longrightarrow> sv_done s \<Longrightarrow>
    server_step cd s (session_close s n k1 k2)"
| step_join_read: "sv_go s n = Some (JoiningSession k JoinRead) \<Longrightarrow> server_step cd s (join_read cd s n k)"
| step_join_lookup: "sv_go s n = Some (JoiningSession k (JoinLookup key)) \<Longrightarrow>
    sv_sessionHandler s = HandlerRunning \<Longrightarrow> server_step cd s (join_lookup cd s n k key)"
| step_join_offer: "sv_go s n = Some (JoiningSession k (JoinOffer g first)) \<Longrightarrow>
    server_step cd s (join_offer cd s n k g first)"
| client_handler_done: "sv_clientHandler s = HandlerRunning \<Longrightarrow> sv_done s \<Longrightarrow>
    server_step cd s (s\<lparr>sv_clientHandler := HandlerReturned\<rparr>)"
| client_closed: "sv_clientHandler s = HandlerReturned \<Longrightarrow> sv_clients s sid = Some (identity, k) \<Longrightarrow>
    server_step cd s (close_conn k s)"
| session_handler_done: "sv_sessionHandler s = HandlerRunning \<Longrightarrow> sv_done s \<Longrightarrow>
    server_step cd s (s\<lparr>sv_sessionHandler := HandlerReturned\<rparr>)"

abbreviation server_run :: "relay_codec \<Rightarrow> server \<Rightarrow> server \<Rightarrow> bool" where
  "server_run cd \<equiv> (server_step cd)\<^sup>*\<^sup>*"

end
