(* ===== verification/Base.thy ===== *)
theory Base
  imports Block_Reader Relay_Server
begin

text \<open>
  Package \<open>cmd/base\<close>: what the command line programs share. The sizes and the block size are those of the transfer; the keys
  and identities on the command line are hexadecimal. \<open>log.Fatalln\<close> ends the process: an \<open>Inl\<close> with its message.
\<close>

section \<open>Constants and trust\<close>

definition IdentitySize :: nat where "IdentitySize = 32"

definition DeviceKeySize :: nat where "DeviceKeySize = 32"

definition Port :: nat where "Port = 23520"

definition BlockSize :: Size where "BlockSize = push_bit 15 1"

definition TrustAny_IsTrusted :: "Identity \<Rightarrow> bool" where "TrustAny_IsTrusted identity = True"

definition TrustAny_IsX25519Trusted :: "bytes \<Rightarrow> bool" where "TrustAny_IsX25519Trusted identity = True"

definition TrustNone_IsTrusted :: "Identity \<Rightarrow> bool" where "TrustNone_IsTrusted identity = False"

definition TrustNone_IsX25519Trusted :: "bytes \<Rightarrow> bool" where "TrustNone_IsX25519Trusted identity = False"

section \<open>Hexadecimal\<close>

text \<open>
  \<open>hex.DecodeString\<close> of the standard library: two digits of either case give a byte. Beside an error, the bytes before it
  are returned; at an odd length, a last character that is no digit is reported as such.
\<close>

definition hexValue :: "char \<Rightarrow> nat option" where
  "hexValue c =
     (let n = of_char c :: nat in
      if 48 \<le> n \<and> n \<le> 57 then Some (n - 48)
      else if 97 \<le> n \<and> n \<le> 102 then Some (n - 87)
      else if 65 \<le> n \<and> n \<le> 70 then Some (n - 55)
      else None)"

fun DecodeString :: "string \<Rightarrow> bytes \<times> error option" where
  "DecodeString [] = ([], None)"
| "DecodeString [p] =
     ([], Some (ErrorString (if hexValue p = None then ''encoding/hex: invalid byte'' else ''encoding/hex: odd length hex string'')))"
| "DecodeString (p # q # s) =
     (case (hexValue p, hexValue q) of
        (Some a, Some b) \<Rightarrow>
          (case DecodeString s of (bs, err) \<Rightarrow> (of_nat (16 * a + b) # bs, err))
      | _ \<Rightarrow> ([], Some (ErrorString ''encoding/hex: invalid byte'')))"

definition ToHex :: "Identity \<Rightarrow> string" where
  "ToHex identity = EncodeToString identity"

definition FromHex :: "string \<Rightarrow> Identity \<times> error option" where
  "FromHex h = DecodeString h"

definition DecodeHex :: "string \<Rightarrow> nat \<Rightarrow> string + bytes" where
  "DecodeHex hex expectedSize =
     (case FromHex hex of
        (data, err) \<Rightarrow>
          (case err of
             Some e \<Rightarrow> Inl ''failed to decode hex-encoded device identity''
           | None \<Rightarrow> if length data \<noteq> expectedSize then Inl ''identity has a wrong length'' else Inr data))"

section \<open>Keys\<close>

text \<open>
  The key pair and the key for HMACs of one source of randomness; \<open>GenerateKey\<close> is that of the curve and leaves the source
  where the next key starts. The identities are logged at the end, for which the public key is converted.
\<close>

definition GenerateKeys ::
  "('r \<Rightarrow> Identity \<times> Key \<times> error option) \<Rightarrow> ('r \<Rightarrow> 'r) \<Rightarrow> 'r reader \<Rightarrow> (Key \<Rightarrow> X25519Key) \<Rightarrow> (Identity \<Rightarrow> X25519Key option) \<Rightarrow>
   'r \<Rightarrow> (string + KeyPair \<times> HMACKey) outcome" where
  "GenerateKeys GenerateKey after rd EdPrivateKeyToX25519 EdPublicKeyToX25519 randSource =
     (case GenerateKeyPair GenerateKey randSource of
        (identityKey, err) \<Rightarrow>
          if err \<noteq> None then Return (Inl ''failed to generate identity key'')
          else
            obind (GenerateHMACKey rd (after randSource)) (\<lambda>(hmacKey, err, r).
              if err \<noteq> None then Return (Inl ''failed to generate hmac key'')
              else
                obind (KeyPair_Noise EdPrivateKeyToX25519 EdPublicKeyToX25519 identityKey) (\<lambda>keys.
                  Return (Inr (identityKey, hmacKey)))))"

section \<open>Lemmas\<close>

definition toLower :: "char \<Rightarrow> char" where
  "toLower c = (if 65 \<le> (of_char c :: nat) \<and> (of_char c :: nat) \<le> 70 then char_of (of_char c + 32 :: nat) else c)"

lemma of_char_hexDigit:
  assumes "n < 16"
  shows "(of_char (hexDigit n) :: nat) = (if n < 10 then n + 48 else n + 87)"
proof -
  have "list_all (\<lambda>k. (of_char (hexDigit k) :: nat) = (if k < 10 then k + 48 else k + 87)) [0..<16]" by code_simp
  with assms show ?thesis by (simp add: list_all_iff del: upt_Suc)
qed

lemma of_char_toLower: "(of_char (toLower c) :: nat) = (if 65 \<le> (of_char c :: nat) \<and> (of_char c :: nat) \<le> 70 then of_char c + 32 else of_char c)"
  by (simp add: toLower_def)

lemma hexValue_Some_iff: "hexValue c = Some n \<longleftrightarrow> n < 16 \<and> toLower c = hexDigit n"
proof -
  have "toLower c = hexDigit n \<longleftrightarrow> (of_char (toLower c) :: nat) = of_char (hexDigit n)" by simp
  then show ?thesis
    by (cases "n < 16") (auto simp: hexValue_def Let_def of_char_toLower of_char_hexDigit split: if_splits)
qed

lemma toLower_hexDigit [simp]: "n < 16 \<Longrightarrow> toLower (hexDigit n) = hexDigit n"
  by (simp add: toLower_def of_char_hexDigit)

lemma byte_digits:
  assumes "x < 16" and "y < 16"
  shows "b = of_nat (16 * x + y) \<longleftrightarrow> x = unat b div 16 \<and> y = unat (b :: byte) mod 16"
proof -
  have "unat (of_nat (16 * x + y) :: byte) = 16 * x + y" using assms by (simp add: unat_of_nat del: of_nat_add of_nat_mult)
  then have "b = of_nat (16 * x + y) \<longleftrightarrow> unat b = 16 * x + y" by (metis word_unat_eq_iff)
  also have "\<dots> \<longleftrightarrow> x = unat b div 16 \<and> y = unat b mod 16" using assms by auto
  finally show ?thesis .
qed

lemma byte_high_digit: "unat (b :: byte) div 16 < 16"
proof -
  have "unat b < 2 ^ LENGTH(8)" by (rule unsigned_less)
  then show ?thesis by (simp add: less_mult_imp_div_less)
qed

text \<open>Decoding succeeds exactly on what encoding produces, up to the case of the digits.\<close>

lemma DecodeString_None_iff: "DecodeString h = (bs, None) \<longleftrightarrow> map toLower h = EncodeToString bs"
proof (induction h arbitrary: bs rule: DecodeString.induct)
  case (2 p)
  then show ?case by (cases bs) (simp_all add: EncodeToString_def)
next
  case (3 p q s)
  show ?case
  proof (cases bs)
    case (Cons b bs')
    have p: "hexValue p = Some x \<Longrightarrow> x < 16" and q: "hexValue q = Some y \<Longrightarrow> y < 16" for x y
      using hexValue_Some_iff by blast+
    have "DecodeString (p # q # s) = (bs, None) \<longleftrightarrow>
        (\<exists>x y. hexValue p = Some x \<and> hexValue q = Some y \<and> b = of_nat (16 * x + y) \<and> DecodeString s = (bs', None))"
      by (auto simp: Cons split: option.splits prod.splits)
    also have "\<dots> \<longleftrightarrow> hexValue p = Some (unat b div 16) \<and> hexValue q = Some (unat b mod 16) \<and> DecodeString s = (bs', None)"
      using p q byte_digits by metis
    also have "\<dots> \<longleftrightarrow> hexValue p = Some (unat b div 16) \<and> hexValue q = Some (unat b mod 16) \<and> map toLower s = EncodeToString bs'"
      using 3 [OF refl] by auto
    finally show ?thesis
      using hexValue_Some_iff [of p "unat b div 16"] hexValue_Some_iff [of q "unat b mod 16"] byte_high_digit [of b]
      by (simp add: Cons EncodeToString_def)
  qed (auto simp: EncodeToString_def split: option.splits prod.splits)
qed (auto simp: EncodeToString_def)

text \<open>
  C33. The hexadecimal keys of the command line: \<open>DecodeHex\<close> accepts exactly the hexadecimal forms, in digits of either case, of byte strings of the expected
  size, and returns that byte string; in particular it inverts \<open>ToHex\<close>.
\<close>

theorem DecodeHex_inverts_ToHex:
  "(DecodeHex h n = Inr data \<longleftrightarrow> length data = n \<and> map toLower h = ToHex data) \<and>
   DecodeHex (ToHex data) (length data) = Inr data"
proof -
  have iff: "DecodeHex h n = Inr data \<longleftrightarrow> length data = n \<and> map toLower h = ToHex data" for h n
  proof -
    have "DecodeHex h n = Inr data \<longleftrightarrow> length data = n \<and> DecodeString h = (data, None)"
      by (cases "DecodeString h") (auto simp: DecodeHex_def FromHex_def split: option.split)
    then show ?thesis by (simp add: DecodeString_None_iff ToHex_def)
  qed
  have "map toLower (ToHex data) = ToHex data"
    by (induction data) (simp_all add: ToHex_def EncodeToString_def byte_high_digit)
  then show ?thesis by (simp add: iff)
qed

text \<open>Without an error from the source of randomness and with a convertible key, the program has its keys.\<close>

context byte_stream
begin

lemma GenerateKeys_result:
  assumes "GenerateKey src = (pub, priv, None)" and "EdPublicKeyToX25519 pub = Some x" and "HmacKeySize \<le> length (pending (after src))"
  shows "GenerateKeys GenerateKey after rd EdPrivateKeyToX25519 EdPublicKeyToX25519 src =
    Return (Inr (\<lparr>kp_Private = priv, kp_Public = pub\<rparr>, take HmacKeySize (pending (after src))))"
  using GenerateHMACKey_bytes [of "after src"] assms
  by (auto simp: GenerateKeys_def GenerateKeyPair_def KeyPair_Noise_def Identity_X25519_def)

end

end
