(* ===== verification/Relay_Server_Inv.thy ===== *)
theory Relay_Server_Inv
  imports Relay_Server
begin

text \<open>
  Invariants of the relay server of \<open>Relay_Server\<close>: which goroutine will delete a client or a session,
  and what the keys of the sessions point to. The operations are first described by what they
  do to goroutines and by the maps they leave alone; every step then is one of a few changes
  of the maps.
\<close>

section \<open>Invariants\<close>

lemmas go_ops = spawn_def set_go_def end_go_def set_conn_def close_conn_def

text \<open>The goroutine that will delete a client, and the one that will delete a session.\<close>

fun client_owner :: "goroutine \<Rightarrow> string option" where
  "client_owner (Writing k m (HandleAfter i)) = Some (EncodeToString i)"
| "client_owner (WritingBody k p (HandleAfter i)) = Some (EncodeToString i)"
| "client_owner (HandlingClient i k pc) = Some (EncodeToString i)"
| "client_owner _ = None"

fun session_owner :: "goroutine \<Rightarrow> string option" where
  "session_owner (HandlingSession sid pc) = Some sid"
| "session_owner _ = None"

definition owns :: "(goroutine \<Rightarrow> string option) \<Rightarrow> server \<Rightarrow> nat \<Rightarrow> string \<Rightarrow> bool" where
  "owns f s n x \<longleftrightarrow> (\<exists>g. sv_go s n = Some g \<and> f g = Some x)"

definition go_inv :: "server \<Rightarrow> bool" where
  "go_inv s \<longleftrightarrow> (\<forall>n. sv_next s \<le> n \<longrightarrow> sv_go s n = None)"

definition clients_inv :: "server \<Rightarrow> bool" where
  "clients_inv s \<longleftrightarrow>
     (\<forall>n x. owns client_owner s n x \<longrightarrow> sv_clients s x \<noteq> None) \<and>
     (\<forall>n m x. owns client_owner s n x \<longrightarrow> owns client_owner s m x \<longrightarrow> n = m)"

definition sessions_inv :: "server \<Rightarrow> bool" where
  "sessions_inv s \<longleftrightarrow>
     (\<forall>n x. owns session_owner s n x \<longrightarrow> (\<exists>h. sv_sessions s x = Some h \<and> sh_accepted h = n))"

definition keys_inv :: "server \<Rightarrow> bool" where
  "keys_inv s \<longleftrightarrow>
     (\<forall>key h. sv_keys s key = Some h \<longrightarrow>
        (\<exists>sh. sv_sessions s (sk_id h) = Some sh \<and> sh_accepted sh = sk_goroutine h \<and>
           key = EncodeToString (if sk_first h then fst (sh_keys sh) else snd (sh_keys sh))))"

text \<open>What the operations on the state do to the goroutines, and what they leave alone.\<close>

lemma owns_ops [simp]:
  "owns f (spawn g s) n x \<longleftrightarrow> (if n = sv_next s then f g = Some x else owns f s n x)"
  "owns f (set_go m g s) n x \<longleftrightarrow> (if n = m then f g = Some x else owns f s n x)"
  "owns f (end_go m s) n x \<longleftrightarrow> n \<noteq> m \<and> owns f s n x"
  "owns f (set_conn k c s) n x \<longleftrightarrow> owns f s n x"
  "owns f (close_conn k s) n x \<longleftrightarrow> owns f s n x"
  by (auto simp: owns_def go_ops)

lemma owns_update [simp]:
  "owns f (s\<lparr>sv_clients := a\<rparr>) = owns f s" "owns f (s\<lparr>sv_sessions := b\<rparr>) = owns f s"
  "owns f (s\<lparr>sv_keys := d\<rparr>) = owns f s" "owns f (s\<lparr>sv_accepted := e\<rparr>) = owns f s"
  "owns f (s\<lparr>sv_done := q\<rparr>) = owns f s" "owns f (s\<lparr>sv_clientHandler := h\<rparr>) = owns f s"
  "owns f (s\<lparr>sv_sessionHandler := h\<rparr>) = owns f s" "owns f (s\<lparr>sv_err := v\<rparr>) = owns f s"
  by (auto simp: owns_def fun_eq_iff)

lemma owns_Some: "sv_go s n = Some g \<Longrightarrow> owns f s n x \<longleftrightarrow> f g = Some x"
  by (simp add: owns_def)

text \<open>The maps, flags and handlers of a state, which the operations on goroutines and connections keep.\<close>

definition books :: "server \<Rightarrow> (string \<rightharpoonup> Identity \<times> nat) \<times> (string \<rightharpoonup> sessionHandle) \<times> (string \<rightharpoonup> sessionKeyHandle) \<times>
    nat list \<times> handler_pc \<times> handler_pc \<times> bool" where
  "books s = (sv_clients s, sv_sessions s, sv_keys s, sv_accepted s, sv_clientHandler s, sv_sessionHandler s, sv_done s)"

lemma books_eqD:
  "books s = books t \<Longrightarrow> sv_clients s = sv_clients t" "books s = books t \<Longrightarrow> sv_sessions s = sv_sessions t"
  "books s = books t \<Longrightarrow> sv_keys s = sv_keys t" "books s = books t \<Longrightarrow> sv_clientHandler s = sv_clientHandler t"
  "books s = books t \<Longrightarrow> sv_sessionHandler s = sv_sessionHandler t" "books s = books t \<Longrightarrow> sv_done s = sv_done t"
  by (simp_all add: books_def)

lemma books_ops [simp]:
  "books (spawn g s) = books s" "books (set_go m g s) = books s" "books (end_go m s) = books s"
  "books (set_conn k c s) = books s" "books (close_conn k s) = books s" "books (s\<lparr>sv_err := v\<rparr>) = books s"
  by (simp_all add: books_def go_ops)

lemma conn_put_keeps: "conn_put k p s = (err, t) \<Longrightarrow> books t = books s \<and> sv_go t = sv_go s \<and> sv_next t = sv_next s"
  by (auto simp: conn_put_def set_conn_def books_def split: outcome.split_asm)

lemma write_done_books [simp]: "books (write_done n k after ok s) = books s"
  by (simp add: write_done_def Let_def split: after_write.split)

lemma write_books [simp]:
  "books (write_header cd n k m after s) = books s" "books (write_body n k p after s) = books s"
  by (auto simp: write_header_def write_body_def dest: conn_put_keeps split: sum.split prod.split option.split)

lemma session_books [simp]:
  "books (session_joined s n sid a b) = books s" "books (session_relay s n sid k1 k2) = books s"
  "books (session_close s n k1 k2) = books s" "books (relay_close_done n first s) = books s"
  by (simp_all add: session_joined_def close_slot_def session_relay_def session_close_def relay_close_done_def
      split: slot.split option.split goroutine.split session_pc.split)

lemma slot_respond_keeps: "slot_respond cd s k = (x, t) \<Longrightarrow> books t = books s \<and> sv_go t = sv_go s \<and> sv_next t = sv_next s"
  by (auto simp: slot_respond_def set_conn_def books_def split: outcome.split_asm)

lemma relay_books [simp]:
  "books (relay_read s r n first src dst) = books s" "books (relay_write s r n first src dst p) = books s"
  "books (relay_check s r n first src dst) = books s"
  by (auto simp: relay_read_def relay_write_def relay_check_def dest: conn_put_keeps split: outcome.split prod.split option.split)

lemma respond_keeps [simp]:
  "books (respond_session cd s k st) = books s" "sv_go (respond_session cd s k st) = sv_go s"
  "sv_next (respond_session cd s k st) = sv_next s"
  by (simp_all add: respond_session_def set_conn_def books_def split: outcome.split prod.split)

lemma join_books [simp]:
  "books (join_read cd s n k) = books s" "books (join_lookup cd s n k key) = books s"
  "books (join_offer cd s n k g first) = books s"
  by (simp_all add: join_read_def join_lookup_def join_offer_def Let_def
      split: outcome.split prod.split option.split sum.split goroutine.split)

lemma call_books [simp]: "books (AddClient s i k) = books s" "books (AddSessionClient s k) = books s"
  by (simp_all add: AddClient_def AddSessionClient_def)

lemma client_books [simp]:
  "books (request_target s n i k tgt d) = books s" "books (accept_initiator s n i k ini d) = books s"
  by (simp_all add: request_target_def accept_initiator_def Let_def split: option.split)

text \<open>Every step keeps the maps, up to the cases that the handlers are there for.\<close>

inductive book_change :: "server \<Rightarrow> server \<Rightarrow> bool" where
  same_books: "books t = books s \<Longrightarrow> book_change s t"
| registered: "sv_go s n = Some (AddingClient i k) \<Longrightarrow> books t = books (handler_newClient (end_go n s) i k) \<Longrightarrow> book_change s t"
| unregistered: "sv_go s n = Some (HandlingClient i k DeleteClient) \<Longrightarrow> books t = books (handler_deleteClient s i) \<Longrightarrow>
    book_change s t"
| created: "books t = books (snd (handler_newSession s i tgt key1 key2)) \<Longrightarrow> book_change s t"
| accepted: "books t = books (snd (handler_acceptSession s i tgt)) \<Longrightarrow> book_change s t"
| removed: "sv_go s n = Some (HandlingSession sid (DeleteSession k1 k2)) \<Longrightarrow> books t = books (handler_deleteSession s sid) \<Longrightarrow>
    book_change s t"
| closed: "books t = books (s\<lparr>sv_done := True\<rparr>) \<Longrightarrow> book_change s t"
| client_handler_left: "books t = books (s\<lparr>sv_clientHandler := HandlerReturned\<rparr>) \<Longrightarrow> book_change s t"
| session_handler_left: "books t = books (s\<lparr>sv_sessionHandler := HandlerReturned\<rparr>) \<Longrightarrow> book_change s t"

lemma step_book_change:
  assumes "server_step cd s t"
  shows "book_change s t"
  using assms
proof cases
  case (new_client n identity k)
  then show ?thesis by (auto intro: registered)
next
  case (client_delete n identity k)
  then show ?thesis by (auto intro: unregistered)
next
  case (client_create n identity k target data targetConn rnd1 key1 rnd2 key2)
  then show ?thesis
    by (auto intro!: created [of _ _ identity target key1 key2] simp: request_create_def Let_def split: prod.split)
next
  case (client_accept n identity k initiator data)
  then show ?thesis
    by (auto intro!: accepted [of _ _ initiator identity] simp: accept_mark_def split: prod.split)
next
  case (session_delete n sid k1 k2)
  then show ?thesis by (auto intro: removed)
next
  case close_server
  then show ?thesis by (auto simp: server_Close_def intro: closed split: if_split_asm)
next
  case client_handler_done
  then show ?thesis by (auto intro: client_handler_left)
next
  case session_handler_done
  then show ?thesis by (auto intro: session_handler_left)
next
  case (slot_write n sid pc first k x s1)
  then show ?thesis using slot_respond_keeps [OF slot_write(4)] by (auto intro: same_books)
qed (auto intro: same_books)

text \<open>New goroutines get new numbers.\<close>

definition go_grows :: "server \<Rightarrow> server \<Rightarrow> bool" where
  "go_grows s t \<longleftrightarrow> sv_next s \<le> sv_next t \<and> (go_inv s \<longrightarrow> go_inv t)"

lemma go_inv_ops:
  "go_inv s \<Longrightarrow> go_inv (spawn g s)" "go_inv s \<Longrightarrow> sv_go s n \<noteq> None \<Longrightarrow> go_inv (set_go n g s)"
  "go_inv s \<Longrightarrow> go_inv (end_go n s)" "go_inv (set_conn k c s) = go_inv s" "go_inv (close_conn k s) = go_inv s"
  by (auto simp: go_inv_def go_ops)

lemma sv_go_ops [simp]:
  "sv_go (spawn g s) = (sv_go s)(sv_next s \<mapsto> g)" "sv_go (set_go n g s) = (sv_go s)(n \<mapsto> g)"
  "sv_go (end_go n s) = (sv_go s)(n := None)" "sv_go (set_conn k c s) = sv_go s" "sv_go (close_conn k s) = sv_go s"
  by (simp_all add: go_ops)

lemma next_ops [simp]:
  "sv_next (spawn g s) = Suc (sv_next s)" "sv_next (set_go n g s) = sv_next s" "sv_next (end_go n s) = sv_next s"
  "sv_next (set_conn k c s) = sv_next s" "sv_next (close_conn k s) = sv_next s"
  by (simp_all add: go_ops)

lemma field_ops [simp]:
  "sv_clients (spawn g s) = sv_clients s"
  "sv_clients (set_go n g s) = sv_clients s"
  "sv_clients (end_go n s) = sv_clients s"
  "sv_clients (set_conn k c s) = sv_clients s"
  "sv_clients (close_conn k s) = sv_clients s"
  "sv_sessions (spawn g s) = sv_sessions s"
  "sv_sessions (set_go n g s) = sv_sessions s"
  "sv_sessions (end_go n s) = sv_sessions s"
  "sv_sessions (set_conn k c s) = sv_sessions s"
  "sv_sessions (close_conn k s) = sv_sessions s"
  "sv_keys (spawn g s) = sv_keys s"
  "sv_keys (set_go n g s) = sv_keys s"
  "sv_keys (end_go n s) = sv_keys s"
  "sv_keys (set_conn k c s) = sv_keys s"
  "sv_keys (close_conn k s) = sv_keys s"
  "sv_accepted (spawn g s) = sv_accepted s"
  "sv_accepted (set_go n g s) = sv_accepted s"
  "sv_accepted (end_go n s) = sv_accepted s"
  "sv_accepted (set_conn k c s) = sv_accepted s"
  "sv_accepted (close_conn k s) = sv_accepted s"
  "sv_clientHandler (spawn g s) = sv_clientHandler s"
  "sv_clientHandler (set_go n g s) = sv_clientHandler s"
  "sv_clientHandler (end_go n s) = sv_clientHandler s"
  "sv_clientHandler (set_conn k c s) = sv_clientHandler s"
  "sv_clientHandler (close_conn k s) = sv_clientHandler s"
  "sv_sessionHandler (spawn g s) = sv_sessionHandler s"
  "sv_sessionHandler (set_go n g s) = sv_sessionHandler s"
  "sv_sessionHandler (end_go n s) = sv_sessionHandler s"
  "sv_sessionHandler (set_conn k c s) = sv_sessionHandler s"
  "sv_sessionHandler (close_conn k s) = sv_sessionHandler s"
  "sv_done (spawn g s) = sv_done s"
  "sv_done (set_go n g s) = sv_done s"
  "sv_done (end_go n s) = sv_done s"
  "sv_done (set_conn k c s) = sv_done s"
  "sv_done (close_conn k s) = sv_done s"
  by (simp_all add: go_ops)

lemma go_inv_less: "go_inv s \<Longrightarrow> sv_go s n = Some g \<Longrightarrow> n < sv_next s"
  by (metis go_inv_def leI option.distinct(1))

lemma go_inv_update [simp]:
  "go_inv (s\<lparr>sv_clients := a\<rparr>) = go_inv s" "go_inv (s\<lparr>sv_sessions := b\<rparr>) = go_inv s"
  "go_inv (s\<lparr>sv_keys := d\<rparr>) = go_inv s" "go_inv (s\<lparr>sv_accepted := e\<rparr>) = go_inv s"
  "go_inv (s\<lparr>sv_done := q\<rparr>) = go_inv s" "go_inv (s\<lparr>sv_clientHandler := h\<rparr>) = go_inv s"
  "go_inv (s\<lparr>sv_sessionHandler := h\<rparr>) = go_inv s" "go_inv (s\<lparr>sv_err := v\<rparr>) = go_inv s"
  by (simp_all add: go_inv_def)

lemmas op_defs =
  AddClient_def AddSessionClient_def handler_newClient_def write_header_def write_body_def write_done_def
  request_target_def request_create_def handler_newSession_def accept_mark_def handler_acceptSession_def
  accept_initiator_def handler_deleteClient_def session_joined_def close_slot_def session_relay_def
  relay_read_def relay_write_def relay_check_def relay_close_done_def session_close_def handler_deleteSession_def
  join_read_def join_lookup_def join_offer_def server_Close_def

lemmas op_splits = sum.split_asm option.split_asm prod.split_asm outcome.split_asm if_split_asm after_write.split_asm
  slot.split_asm goroutine.split_asm session_pc.split_asm sum.split option.split prod.split outcome.split 
  after_write.split slot.split goroutine.split session_pc.split

lemma go_inv_keeps: "sv_go t = sv_go s \<Longrightarrow> sv_next t = sv_next s \<Longrightarrow> go_inv t = go_inv s"
  by (simp add: go_inv_def)

lemma go_keeps:
  assumes "books t = books s \<and> sv_go t = sv_go s \<and> sv_next t = sv_next s"
  shows "books t = books s \<and> sv_go t = sv_go s \<and> sv_next t = sv_next s \<and> go_inv t = go_inv s \<and> owns f t = owns f s"
  using assms by (simp add: go_inv_def owns_def fun_eq_iff)

lemmas conn_put_all = conn_put_keeps [THEN go_keeps]

lemma respond_owns [simp]: "owns f (respond_session cd s k st) = owns f s" "go_inv (respond_session cd s k st) = go_inv s"
  by (simp_all add: owns_def fun_eq_iff go_inv_def)

lemma step_go_inv:
  assumes "server_step cd s t" and "go_inv s"
  shows "go_inv t"
  using assms
proof cases
  case (slot_write n sid pc first k x s1)
  then show ?thesis using slot_respond_keeps [OF slot_write(4)] go_inv_keeps [of s1 s]
    by (auto simp: go_inv_ops assms(2))
qed (auto simp: op_defs go_inv_ops Let_def dest: conn_put_all split: op_splits)


text \<open>
  Both ways of owning depend only on what a goroutine was started for, and the goroutines that
  relay or join own nothing.
\<close>

definition stable :: "(goroutine \<Rightarrow> string option) \<Rightarrow> bool" where
  "stable f \<longleftrightarrow> (\<forall>sid pc pc'. f (HandlingSession sid pc) = f (HandlingSession sid pc')) \<and>
     (\<forall>n first src dst p. f (RelayRead n first src dst) = None \<and> f (RelayWrite n first src dst p) = None \<and>
       f (RelayCheck n first src dst) = None) \<and>
     (\<forall>k pc. f (JoiningSession k pc) = None)"

lemma stable_owners: "stable client_owner" "stable session_owner"
  by (simp_all add: stable_def)

lemma owns_set_session:
  "stable f \<Longrightarrow> sv_go s n = Some (HandlingSession sid pc) \<Longrightarrow> owns f (set_go n (HandlingSession sid pc') s) = owns f s"
  unfolding stable_def owns_def fun_eq_iff by simp metis

lemma owns_close_slot [simp]: "owns f (close_slot a s) = owns f s"
  by (simp add: close_slot_def fun_eq_iff split: option.split)

lemma owns_joined:
  "stable f \<Longrightarrow> sv_go s n = Some (HandlingSession sid pc) \<Longrightarrow> owns f (session_joined s n sid a b) m x \<Longrightarrow> owns f s m x"
  using owns_set_session [of f s n sid pc] by (auto simp: session_joined_def split: slot.split_asm)

lemma owns_close_done: "stable f \<Longrightarrow> owns f (relay_close_done n first s) = owns f s"
  by (simp add: relay_close_done_def owns_set_session split: option.split goroutine.split session_pc.split)

lemma owns_relay_read:
  assumes "stable f" and "owns f (relay_read s r n first src dst) m x"
  shows "owns f s m x"
proof -
  have "f (RelayWrite n first src dst p) = None" for p using assms(1) by (simp add: stable_def)
  with assms(2) show ?thesis
    by (auto simp: relay_read_def owns_close_done [OF assms(1)] split: outcome.split_asm if_split_asm)
qed

lemma owns_relay_write:
  assumes "stable f" and "owns f (relay_write s r n first src dst p) m x"
  shows "owns f s m x"
proof (cases "conn_put dst p s")
  case (Pair err s1)
  have "f (RelayCheck n first src dst) = None" using assms(1) by (simp add: stable_def)
  with assms(2) Pair conn_put_all [OF Pair, of f] show ?thesis by (auto simp: relay_write_def split: if_split_asm)
qed

lemma owns_relay_check:
  assumes "stable f" and "owns f (relay_check s r n first src dst) m x"
  shows "owns f s m x"
proof -
  have "f (RelayRead n first src dst) = None" using assms(1) by (simp add: stable_def)
  with assms(2) show ?thesis by (auto simp: relay_check_def owns_close_done [OF assms(1)] split: if_split_asm)
qed

lemma owns_joins:
  assumes "stable f"
  shows "owns f (join_read cd s n k) m x \<Longrightarrow> owns f s m x"
    and "owns f (join_lookup cd s n k key) m x \<Longrightarrow> owns f s m x"
    and "owns f (join_offer cd s n k g first) m x \<Longrightarrow> owns f s m x"
proof -
  have none: "f (JoiningSession k pc) = None" for pc using assms by (simp add: stable_def)
  show "owns f (join_read cd s n k) m x \<Longrightarrow> owns f s m x"
    by (auto simp: join_read_def Let_def none split: outcome.split_asm if_split_asm sum.split_asm)
  show "owns f (join_lookup cd s n k key) m x \<Longrightarrow> owns f s m x"
    by (auto simp: join_lookup_def none split: option.split_asm if_split_asm)
  show "owns f (join_offer cd s n k g first) m x \<Longrightarrow> owns f s m x"
    by (auto simp: join_offer_def owns_set_session [OF assms] simp del: owns_ops(2)
        split: option.split_asm goroutine.split_asm if_split_asm)
qed

lemma owns_slot_write:
  assumes "stable f" and "sv_go s n = Some (HandlingSession sid pc)" and "slot_respond cd s k = (a, s1)"
  shows "owns f (set_go n (HandlingSession sid pc') s1) = owns f s"
  using go_keeps [OF slot_respond_keeps [OF assms(3)], of f] owns_set_session [of f s1 n sid pc] assms(1,2) by simp

lemma owns_write_done:
  "owns f (write_done n k after ok s) m x \<longleftrightarrow>
     (case after of HandleAfter i \<Rightarrow> ok \<and> m = sv_next s \<and> f (HandlingClient i k ReadPacket) = Some x \<or>
        (ok \<longrightarrow> m \<noteq> sv_next s) \<and> m \<noteq> n \<and> owns f s m x
      | _ \<Rightarrow> m \<noteq> n \<and> owns f s m x)"
  by (auto simp: write_done_def Let_def split: after_write.split)

lemmas owns_stable = stable_owners [THEN owns_joined] stable_owners [THEN owns_relay_read]
  stable_owners [THEN owns_relay_write] stable_owners [THEN owns_relay_check] stable_owners [THEN owns_joins(1)] stable_owners [THEN owns_joins(2)]
  stable_owners [THEN owns_joins(3)]

lemma step_client_owner:
  assumes "server_step cd s t" and "go_inv s" and "owns client_owner t n x"
  shows "owns client_owner s n x \<or> sv_clients s x = None \<and> sv_clients t x \<noteq> None \<and> n = sv_next s \<or>
    n = sv_next s \<and> sv_clients t x = sv_clients s x \<and> (\<exists>m. owns client_owner s m x \<and> \<not> owns client_owner t m x)"
proof -
  have new: "\<And>f x. owns f s (sv_next s) x = False" using assms(2) by (simp add: owns_def go_inv_def)
  from assms(1) show ?thesis
  proof cases
    case (slot_write m sid pc first k a s1)
    then show ?thesis using owns_slot_write [OF stable_owners(1) slot_write(2,4)] assms(3) by simp
  next
    case (step_header m k message after)
    then show ?thesis using assms(3) new go_inv_less [OF assms(2) step_header(2)]
      by (cases after) (auto simp: write_header_def owns_write_done owns_Some dest!: conn_put_all [where f = client_owner]
          split: sum.split_asm option.split_asm prod.split_asm after_write.split_asm if_split_asm)
  next
    case (step_body m k data after)
    obtain err s1 where put: "conn_put k data s = (err, s1)" by fastforce
    note eqs = conn_put_all [OF put, of client_owner]
    have t: "t = write_done m k after (err = None) s1" using step_body(1) put by (simp add: write_body_def)
    have "\<not> owns client_owner t m x" "sv_clients t x = sv_clients s x"
      using t eqs go_inv_less [OF assms(2) step_body(2)] books_eqD(1) [of t s]
      by (auto simp: owns_write_done split: after_write.split)
    moreover have "owns client_owner s n x \<or> n = sv_next s \<and> owns client_owner s m x"
      using assms(3) t eqs step_body(2) by (auto simp: owns_write_done owns_Some split: after_write.split_asm)
    ultimately show ?thesis by blast
  next
    case (client_create m identity k target data targetConn rnd1 key1 rnd2 key2)
    then show ?thesis using assms(3) go_inv_less [OF assms(2) client_create(2)]
      by (auto simp: request_create_def handler_newSession_def Let_def owns_Some split: if_split_asm)
  qed (use assms(3) in \<open>auto simp: AddClient_def AddSessionClient_def handler_newClient_def request_target_def
      accept_mark_def handler_acceptSession_def accept_initiator_def handler_deleteClient_def session_relay_def
      session_close_def handler_deleteSession_def server_Close_def Let_def owns_Some
      dest: owns_stable split: option.split_asm if_split_asm\<close>)
qed

lemmas kept_books = write_books session_books relay_books join_books call_books client_books books_ops

lemmas kept_clients = kept_books [THEN books_eqD(1)]
lemmas kept_sessions = kept_books [THEN books_eqD(2)]
lemmas kept_keys = kept_books [THEN books_eqD(3)]

lemma step_client_removed:
  assumes "server_step cd s t" and "sv_clients s x \<noteq> None" and "sv_clients t x = None"
  shows "\<exists>m. owns client_owner s m x \<and> \<not> owns client_owner t m x"
  using assms(1)
proof cases
  case (client_delete n identity k)
  then have "\<not> owns client_owner t n x"
    by (simp add: handler_deleteClient_def Let_def)
  moreover have "owns client_owner s n x"
    using client_delete assms(2,3) by (auto simp: handler_deleteClient_def Let_def owns_Some split: if_split_asm)
  ultimately show ?thesis by blast
next
  case (new_client n identity k)
  then show ?thesis using assms(2,3) by (auto simp: handler_newClient_def Let_def split: if_split_asm)
next
  case (client_create n identity k target data targetConn rnd1 key1 rnd2 key2)
  then show ?thesis using assms(2,3) by (auto simp: request_create_def handler_newSession_def Let_def split: if_split_asm)
next
  case (slot_write m sid pc first k a s1)
  then show ?thesis using slot_respond_keeps [OF slot_write(4)] assms(2,3) by (simp add: books_def)
qed (use assms(2,3) in \<open>auto simp: kept_clients accept_mark_def handler_acceptSession_def handler_deleteSession_def
    server_Close_def split: option.split_asm if_split_asm prod.split_asm\<close>)

lemma step_clients_inv:
  assumes "server_step cd s t" and "go_inv s" and "clients_inv s"
  shows "clients_inv t"
proof -
  note own = step_client_owner [OF assms(1,2)] and rem = step_client_removed [OF assms(1)]
  have reg: "owns client_owner s n x \<Longrightarrow> sv_clients s x \<noteq> None"
    and uniq: "owns client_owner s n x \<Longrightarrow> owns client_owner s m x \<Longrightarrow> n = m" for n m x
    using assms(3) unfolding clients_inv_def by blast+
  have "sv_clients t x \<noteq> None" if "owns client_owner t n x" for n x
    using own [OF that] reg uniq rem that by metis
  moreover have "n = m" if "owns client_owner t n x" "owns client_owner t m x" for n m x
    using own [OF that(1)] own [OF that(2)] reg uniq that by metis
  ultimately show ?thesis unfolding clients_inv_def by blast
qed

lemma step_session_owner:
  assumes "server_step cd s t" and "go_inv s" and "sessions_inv s" and "owns session_owner t n x"
  shows "(\<exists>h. sv_sessions t x = Some h \<and> sh_accepted h = n) \<and> (owns session_owner s n x \<or> sv_sessions s x = None)"
proof -
  have new: "\<And>f x. owns f s (sv_next s) x = False" using assms(2) by (simp add: owns_def go_inv_def)
  have inv: "owns session_owner s n x \<Longrightarrow> \<exists>h. sv_sessions s x = Some h \<and> sh_accepted h = n" for n x
    using assms(3) unfolding sessions_inv_def by blast
  from assms(1) show ?thesis
  proof cases
    case (slot_write m sid pc first k a s1)
    then show ?thesis using owns_slot_write [OF stable_owners(2) slot_write(2,4)] assms(4) inv
        slot_respond_keeps [OF slot_write(4)] by (simp add: books_def)
  next
    case (step_header m k message after)
    then have "owns session_owner s n x" using assms(4)
      by (auto simp: write_header_def owns_write_done dest!: conn_put_all [where f = session_owner]
          split: sum.split_asm option.split_asm prod.split_asm after_write.split_asm if_split_asm)
    then show ?thesis using inv step_header(1) by (simp add: kept_sessions)
  next
    case (step_body m k data after)
    then have "owns session_owner s n x" using assms(4)
      by (auto simp: write_body_def owns_write_done dest!: conn_put_all [where f = session_owner]
          split: prod.split_asm after_write.split_asm if_split_asm)
    then show ?thesis using inv step_body(1) by (simp add: kept_sessions)
  next
    case (client_create m identity k target data targetConn rnd1 key1 rnd2 key2)
    then show ?thesis using assms(4) go_inv_less [OF assms(2) client_create(2)] inv [of n x]
      by (auto simp: request_create_def handler_newSession_def Let_def owns_Some split: if_split_asm)
  next
    case (session_delete m sid k1 k2)
    then have "owns session_owner s n x" "n \<noteq> m"
      using assms(4) by (auto simp: session_close_def handler_deleteSession_def split: option.split_asm)
    moreover have "owns session_owner s m sid" using session_delete by (simp add: owns_Some)
    ultimately have "\<exists>h. sv_sessions s x = Some h \<and> sh_accepted h = n" "x \<noteq> sid"
      using inv [of n x] inv [of m sid] by auto
    then show ?thesis using session_delete(1) \<open>owns session_owner s n x\<close>
      by (auto simp: kept_sessions handler_deleteSession_def split: option.split)
  next
    case (step_joined m sid a b)
    then have "owns session_owner s n x" using assms(4) owns_joined [OF stable_owners(2)] by blast
    then show ?thesis using inv step_joined(1) by (simp add: kept_sessions)
  qed (use assms(4) inv [of n x] in \<open>auto simp: kept_sessions AddClient_def AddSessionClient_def handler_newClient_def
      request_target_def accept_mark_def handler_acceptSession_def accept_initiator_def handler_deleteClient_def
      session_relay_def session_close_def server_Close_def Let_def owns_Some
      dest: owns_stable split: option.split_asm if_split_asm\<close>)
qed

lemma keys_inv_cong: "sv_sessions t = sv_sessions s \<Longrightarrow> sv_keys t = sv_keys s \<Longrightarrow> keys_inv t = keys_inv s"
  by (simp add: keys_inv_def)

lemma step_keys_inv:
  assumes "server_step cd s t" and "keys_inv s"
  shows "keys_inv t"
  using step_book_change [OF assms(1)]
proof cases
  case (created i tgt key1 key2)
  let ?id = "newSessionIdentifier i tgt"
  let ?h = "\<lparr>sh_initiatorIdentity = i, sh_targetIdentity = tgt, sh_keys = (key1, key2), sh_accepted = sv_next s\<rparr>"
  show ?thesis
  proof (cases "sv_sessions s ?id")
    case (Some h)
    then show ?thesis using created assms(2) keys_inv_cong [of t s] by (simp add: books_def handler_newSession_def Let_def)
  next
    case None
    then have t: "sv_sessions t = (sv_sessions s)(?id \<mapsto> ?h)" "sv_keys t = (sv_keys s)
        (EncodeToString key1 \<mapsto> \<lparr>sk_id = ?id, sk_goroutine = sv_next s, sk_first = True\<rparr>,
         EncodeToString key2 \<mapsto> \<lparr>sk_id = ?id, sk_goroutine = sv_next s, sk_first = False\<rparr>)"
      using created by (simp_all add: books_def handler_newSession_def Let_def)
    have old: "\<exists>sh. sv_sessions t (sk_id h) = Some sh \<and> sh_accepted sh = sk_goroutine h \<and>
        key = EncodeToString (if sk_first h then fst (sh_keys sh) else snd (sh_keys sh))"
      if k: "sv_keys s key = Some h" for key h
    proof -
      obtain sh where "sv_sessions s (sk_id h) = Some sh" "sh_accepted sh = sk_goroutine h"
        "key = EncodeToString (if sk_first h then fst (sh_keys sh) else snd (sh_keys sh))"
        using assms(2) k unfolding keys_inv_def by blast
      then show ?thesis using None t(1) by (intro exI [of _ sh]) auto
    qed
    show ?thesis unfolding keys_inv_def
    proof (intro allI impI)
      fix key h
      assume k: "sv_keys t key = Some h"
      show "\<exists>sh. sv_sessions t (sk_id h) = Some sh \<and> sh_accepted sh = sk_goroutine h \<and>
        key = EncodeToString (if sk_first h then fst (sh_keys sh) else snd (sh_keys sh))"
      proof (cases "key = EncodeToString key2 \<or> key = EncodeToString key1")
        case True
        then have "h = \<lparr>sk_id = ?id, sk_goroutine = sv_next s, sk_first = (key \<noteq> EncodeToString key2)\<rparr>"
          using k t(2) by (auto split: if_split_asm)
        then show ?thesis using True t(1) by auto
      next
        case False
        then show ?thesis using k t(2) old by simp
      qed
    qed
  qed
next
  case (removed n sid k1 k2)
  show ?thesis
  proof (cases "sv_sessions s sid")
    case None
    then show ?thesis using assms(2) removed(2) keys_inv_cong [of t s] by (simp add: books_def handler_deleteSession_def)
  next
    case (Some h)
    then have t: "sv_sessions t = (sv_sessions s)(sid := None)" "sv_keys t =
        (sv_keys s)(EncodeToString (fst (sh_keys h)) := None, EncodeToString (snd (sh_keys h)) := None)"
      using removed(2) by (simp_all add: books_def handler_deleteSession_def)
    show ?thesis unfolding keys_inv_def
    proof (intro allI impI)
      fix key hd
      assume "sv_keys t key = Some hd"
      then have key: "sv_keys s key = Some hd" "key \<noteq> EncodeToString (fst (sh_keys h))"
        "key \<noteq> EncodeToString (snd (sh_keys h))" unfolding t(2) by (auto split: if_split_asm)
      then obtain sh where sh: "sv_sessions s (sk_id hd) = Some sh" "sh_accepted sh = sk_goroutine hd"
        "key = EncodeToString (if sk_first hd then fst (sh_keys sh) else snd (sh_keys sh))"
        using assms(2) unfolding keys_inv_def by blast
      then have "sk_id hd \<noteq> sid" using Some key(2,3) by (cases "sk_first hd") auto
      then show "\<exists>sh. sv_sessions t (sk_id hd) = Some sh \<and> sh_accepted sh = sk_goroutine hd \<and>
          key = EncodeToString (if sk_first hd then fst (sh_keys sh) else snd (sh_keys sh))"
        using sh t(1) by (intro exI [of _ sh]) simp
    qed
  qed
qed (use assms(2) keys_inv_cong [of t s] in \<open>auto simp: books_def handler_newClient_def handler_deleteClient_def
    handler_acceptSession_def Let_def split: if_split_asm option.split_asm\<close>)

definition server_inv :: "server \<Rightarrow> bool" where
  "server_inv s \<longleftrightarrow> go_inv s \<and> clients_inv s \<and> sessions_inv s \<and> keys_inv s \<and>
     (\<forall>m. sv_clientHandler s \<noteq> HandlerPanicked m \<and> sv_sessionHandler s \<noteq> HandlerPanicked m)"

lemma server_inv_initial: "server_inv (NewServerProtocol port conns)"
  by (simp add: server_inv_def NewServerProtocol_def go_inv_def clients_inv_def sessions_inv_def keys_inv_def owns_def)

lemma step_no_panic:
  assumes "server_step cd s t" and "server_inv s"
  shows "sv_clientHandler t \<noteq> HandlerPanicked m \<and> sv_sessionHandler t \<noteq> HandlerPanicked m"
  using step_book_change [OF assms(1)]
proof cases
  case (unregistered n i k)
  then have "owns client_owner s n (EncodeToString i)" by (simp add: owns_Some)
  then have "sv_clients s (EncodeToString i) \<noteq> None"
    using assms(2) unfolding server_inv_def clients_inv_def by blast
  then show ?thesis using unregistered(2) assms(2)
    by (auto simp: server_inv_def books_def handler_deleteClient_def Let_def)
next
  case (removed n sid k1 k2)
  then have "owns session_owner s n sid" by (simp add: owns_Some)
  then have "sv_sessions s sid \<noteq> None"
    using assms(2) unfolding server_inv_def sessions_inv_def by blast
  then show ?thesis using removed(2) assms(2)
    by (auto simp: server_inv_def books_def handler_deleteSession_def)
qed (use assms(2) in \<open>auto simp: server_inv_def books_def handler_newClient_def handler_newSession_def
    handler_acceptSession_def Let_def split: if_split_asm option.split_asm\<close>)

lemma step_server_inv:
  assumes "server_step cd s t" and "server_inv s"
  shows "server_inv t"
proof -
  have inv: "go_inv s" "clients_inv s" "sessions_inv s" "keys_inv s" using assms(2) by (simp_all add: server_inv_def)
  have "sessions_inv t" using step_session_owner [OF assms(1) inv(1,3)] unfolding sessions_inv_def by blast
  then show ?thesis
    using step_go_inv [OF assms(1) inv(1)] step_clients_inv [OF assms(1) inv(1,2)] step_keys_inv [OF assms(1) inv(4)]
      step_no_panic [OF assms] by (simp add: server_inv_def)
qed

interpretation relay_server: step_invariant "server_step cd" server_inv for cd
  by unfold_locales (rule step_server_inv)

lemma reachable_server_inv: "server_run cd (NewServerProtocol port conns) s \<Longrightarrow> server_inv s"
  using relay_server.run_inv server_inv_initial by blast

section \<open>Entries without an owner\<close>

lemma orphan_session_step:
  assumes "server_step cd s t" and "server_inv s" and "sv_sessions s sid = Some h" and "\<And>n. \<not> owns session_owner s n sid"
  shows "sv_sessions t sid = Some h \<and> (\<forall>n. \<not> owns session_owner t n sid)"
proof -
  have inv: "go_inv s" "sessions_inv s" using assms(2) by (simp_all add: server_inv_def)
  have "\<not> owns session_owner t n sid" for n
    using step_session_owner [OF assms(1) inv, of n sid] assms(3,4) by auto
  moreover have "sv_sessions t sid = Some h"
    using step_book_change [OF assms(1)]
  proof cases
    case (removed n sid' k1 k2)
    then have "sid' \<noteq> sid" using assms(4) [of n] by (auto simp: owns_Some)
    then show ?thesis using removed(2) assms(3) by (auto simp: books_def handler_deleteSession_def split: option.split_asm)
  qed (use assms(3) in \<open>auto simp: books_def handler_newClient_def handler_deleteClient_def handler_newSession_def
      handler_acceptSession_def Let_def split: if_split_asm option.split_asm\<close>)
  ultimately show ?thesis by blast
qed

lemma orphan_client_step:
  assumes "server_step cd s t" and "server_inv s" and "sv_clients s x \<noteq> None" and "\<And>n. \<not> owns client_owner s n x"
  shows "sv_clients t x \<noteq> None \<and> (\<forall>n. \<not> owns client_owner t n x)"
proof -
  have "go_inv s" using assms(2) by (simp add: server_inv_def)
  then have "\<not> owns client_owner t n x" for n
    using step_client_owner [OF assms(1), of n x] assms(3,4) by blast
  moreover have "sv_clients t x \<noteq> None" using step_client_removed [OF assms(1,3)] assms(4) by blast
  ultimately show ?thesis by blast
qed

lemma orphan_session_run:
  assumes "server_run cd s t" and "server_inv s" and "sv_sessions s sid = Some h" and "\<And>n. \<not> owns session_owner s n sid"
  shows "sv_sessions t sid = Some h"
  using relay_server.run_keeps [OF assms(1,2), of "\<lambda>s. sv_sessions s sid = Some h \<and> (\<forall>n. \<not> owns session_owner s n sid)"]
    orphan_session_step assms(3,4) by blast

lemma orphan_client_run:
  assumes "server_run cd s t" and "server_inv s" and "sv_clients s x \<noteq> None" and "\<And>n. \<not> owns client_owner s n x"
  shows "sv_clients t x \<noteq> None"
  using relay_server.run_keeps [OF assms(1,2), of "\<lambda>s. sv_clients s x \<noteq> None \<and> (\<forall>n. \<not> owns client_owner s n x)"]
    orphan_client_step assms(3,4) by blast

end
