(* ===== verification/Relay_Server_Props.thy ===== *)
theory Relay_Server_Props
  imports Relay_Server_Inv
begin

text \<open>
  What the relay server guarantees: its handlers do not panic, a key opens the side of the session it
  was made for, the identifier of a session determines its devices, and sessions relay their
  streams. And where it falls short: entries that nothing removes, and packets that are
  written in pieces.
\<close>

section \<open>Properties\<close>

text \<open>
  C10. In every run of a relay server, whatever its clients send and in whatever order its goroutines
  run, neither handler panics: a client and a session are deleted only by the one goroutine that
  was started for them.
\<close>

theorem server_never_panics:
  assumes "server_run cd (NewServerProtocol port conns) s"
  shows "sv_clientHandler s \<noteq> HandlerPanicked m \<and> sv_sessionHandler s \<noteq> HandlerPanicked m"
  using reachable_server_inv [OF assms] by (simp add: server_inv_def)

lemma hexDigit_inj: "i < 16 \<Longrightarrow> j < 16 \<Longrightarrow> hexDigit i = hexDigit j \<Longrightarrow> i = j"
proof -
  have d: "distinct (''0123456789abcdef'')" by simp
  assume "i < 16" "j < 16" "hexDigit i = hexDigit j"
  with nth_eq_iff_index_eq [OF d, of i j] show ?thesis by (simp add: hexDigit_def)
qed

lemma EncodeToString_inj: "EncodeToString xs = EncodeToString ys \<Longrightarrow> xs = ys"
proof (induction xs arbitrary: ys)
  case Nil
  then show ?case by (cases ys) (simp_all add: EncodeToString_def)
next
  case (Cons x xs)
  then obtain y ys' where ys: "ys = y # ys'" by (cases ys) (auto simp: EncodeToString_def)
  have lt: "unat b div 16 < 16" for b :: byte using unsigned_less [of b, where 'a = nat] by simp
  have "hexDigit (unat x div 16) = hexDigit (unat y div 16)" "hexDigit (unat x mod 16) = hexDigit (unat y mod 16)"
    and tl: "EncodeToString xs = EncodeToString ys'"
    using Cons.prems ys by (simp_all add: EncodeToString_def)
  then have "unat x div 16 = unat y div 16" "unat x mod 16 = unat y mod 16"
    using hexDigit_inj lt by (meson mod_less_divisor zero_less_numeral)+
  then have "unat x = unat y" by (metis div_mult_mod_eq)
  then show ?case using Cons.IH [OF tl] ys by (simp add: word_unat_eq_iff)
qed

lemma EncodeToString_eq [simp]: "EncodeToString xs = EncodeToString ys \<longleftrightarrow> xs = ys"
  using EncodeToString_inj by blast

lemma length_EncodeToString: "length (EncodeToString xs) = 2 * length xs"
  by (induction xs) (simp_all add: EncodeToString_def)

text \<open>
  A session identifier determines the two identities and their order, as long as the identities
  of the targets have one length (as Ed25519 keys have): nobody can accept a session
  for the initiator, or a session of somebody else.
\<close>

theorem newSessionIdentifier_injective:
  assumes "length b = length b'"
  shows "newSessionIdentifier a b = newSessionIdentifier a' b' \<longleftrightarrow> a = a' \<and> b = b'"
  using assms by (auto simp: newSessionIdentifier_def length_EncodeToString)

text \<open>
  C14. A key that the server knows opens exactly one side of one existing session, the side that
  the key was made for.
\<close>

theorem session_key_opens_its_side:
  assumes "server_run cd (NewServerProtocol port conns) s" and "handler_getSessionChan s key = Some h"
  shows "\<exists>sh. sv_sessions s (sk_id h) = Some sh \<and> sh_accepted sh = sk_goroutine h \<and>
    key = (if sk_first h then fst (sh_keys sh) else snd (sh_keys sh))"
proof -
  have "keys_inv s" using reachable_server_inv [OF assms(1)] by (simp add: server_inv_def)
  then obtain sh where "sv_sessions s (sk_id h) = Some sh" "sh_accepted sh = sk_goroutine h"
    "EncodeToString key = EncodeToString (if sk_first h then fst (sh_keys sh) else snd (sh_keys sh))"
    using assms(2) unfolding keys_inv_def handler_getSessionChan_def by blast
  then show ?thesis unfolding EncodeToString_eq by blast
qed

text \<open>
  C39. A session whose clients did not both connect in time is never removed: whatever happens later,
  every further request of the same initiator for a session with the same target is refused as a session that
  exists already. (A request in the other direction has another identifier and is not refused for this session.)
\<close>

theorem expired_session_blocks:
  assumes "server_run cd (NewServerProtocol port conns) s"
    and "sv_go s n = Some (HandlingSession (newSessionIdentifier i j) (Joining a b))"
    and "a = SlotFailed c \<or> b = SlotFailed c"
    and "server_run cd (session_joined s n (newSessionIdentifier i j) a b) t"
    and "slot_finished a" "slot_finished b"
  shows "handler_newSession t i j key1 key2 =
    (\<lparr>so_initiatorDescription = None, so_targetDescription = None, so_error = ErrorSessionExists\<rparr>, t)"
proof -
  let ?u = "session_joined s n (newSessionIdentifier i j) a b"
  have inv: "server_inv s" using reachable_server_inv [OF assms(1)] .
  have step: "server_step cd s ?u" using server_step.step_joined [OF assms(2,5,6)] .
  then have invu: "server_inv ?u" using inv by (rule step_server_inv)
  have "owns session_owner s n (newSessionIdentifier i j)" using assms(2) by (simp add: owns_def)
  then obtain h where h: "sv_sessions s (newSessionIdentifier i j) = Some h" "sh_accepted h = n"
    using inv unfolding server_inv_def sessions_inv_def by blast
  have hu: "sv_sessions ?u (newSessionIdentifier i j) = Some h" using h by (simp add: kept_sessions)
  have gone: "sv_go ?u n = None"
    using assms(3) by (auto simp: session_joined_def split: slot.split)
  have "\<not> owns session_owner ?u m (newSessionIdentifier i j)" for m
  proof
    assume *: "owns session_owner ?u m (newSessionIdentifier i j)"
    then obtain h' where "sv_sessions ?u (newSessionIdentifier i j) = Some h'" "sh_accepted h' = m"
      using invu unfolding server_inv_def sessions_inv_def by blast
    with * gone hu h(2) show False by (simp add: owns_def)
  qed
  then have "sv_sessions t (newSessionIdentifier i j) = Some h"
    using orphan_session_run [OF assms(4) invu hu] by blast
  then show ?thesis by (simp add: handler_newSession_def Let_def)
qed


section \<open>Writing to a connection\<close>

definition conn_append :: "bytes \<Rightarrow> conn \<Rightarrow> conn" where
  "conn_append p c = c\<lparr>c_out := c_out c @ p\<rparr>"

lemma conn_append_simps [simp]:
  "c_out (conn_append p c) = c_out c @ p" "conn_healthy (conn_append p c) = conn_healthy c"
  "conn_pending (conn_append p c) = conn_pending c" "conn_append q (conn_append p c) = conn_append (p @ q) c"
  by (simp_all add: conn_append_def conn_healthy_def conn_pending_def)

lemma sv_conns_ops [simp]:
  "sv_conns (spawn g s) = sv_conns s" "sv_conns (set_go n g s) = sv_conns s" "sv_conns (end_go n s) = sv_conns s"
  "sv_conns (set_conn k c s) = (sv_conns s)(k := c)"
  by (simp_all add: go_ops)

lemma sv_err_ops [simp]:
  "sv_err (spawn g s) = sv_err s" "sv_err (set_go n g s) = sv_err s" "sv_err (end_go n s) = sv_err s" "sv_err (set_conn k c s) = sv_err s"
  by (simp_all add: go_ops)

lemma conn_put_healthy:
  "conn_healthy (sv_conns s k) \<Longrightarrow> conn_put k p s = (None, set_conn k (conn_append p (sv_conns s k)) s)"
  by (simp add: conn_put_def conn_Write_healthy conn_append_def)

lemma conn_put_broken:
  "\<not> conn_healthy (sv_conns s k) \<Longrightarrow> \<exists>e. conn_put k p s = (Some e, s)"
  by (auto simp: conn_put_def conn_Write_def conn_healthy_def set_conn_def split: option.splits)

lemma write_header_healthy:
  assumes "conn_healthy (sv_conns s k)" and "relay_WrapMessage cd m = Inr p" and "length p \<le> MaxLength"
  shows "write_header cd n k m after s =
    set_go n (WritingBody k p after) (set_conn k (conn_append (Length_Bytes (of_nat (length p))) (sv_conns s k)) s)"
  using assms by (simp add: write_header_def Packet_New_def LengthOf_ok conn_put_healthy)

lemma write_body_healthy:
  assumes "conn_healthy (sv_conns s k)"
  shows "write_body n k p after s = write_done n k after True (set_conn k (conn_append p (sv_conns s k)) s)"
  using assms by (simp add: write_body_def conn_put_healthy)

text \<open>
  The server writes to a client from one goroutine per message, and a packet is two writes.
  When two messages are on the way to one client, the header of the second can get between the
  header and the payload of the first. The client then takes the second header for the
  beginning of the first payload.
\<close>

theorem concurrent_writes_corrupt_framing:
  assumes "sv_go s n1 = Some (Writing k m1 Finish)" and "sv_go s n2 = Some (Writing k m2 Finish)" and "n1 \<noteq> n2"
    and "relay_WrapMessage cd m1 = Inr p1" and "relay_WrapMessage cd m2 = Inr p2"
    and "length p1 \<le> MaxLength" and "length p2 \<le> MaxLength" and "conn_healthy (sv_conns s k)"
    and "conn_pending c = Length_Bytes (of_nat (length p1)) @ Length_Bytes (of_nat (length p2)) @ p1 @ p2"
  shows "(\<exists>t. server_run cd s t \<and> sv_go t n1 = None \<and> sv_go t n2 = None \<and>
      c_out (sv_conns t k) = c_out (sv_conns s k) @ conn_pending c) \<and>
    (\<exists>c'. DecodeFrom conn_Read c = Return (take (length p1) (Length_Bytes (of_nat (length p2)) @ p1 @ p2), None, c'))"
proof
  let ?h1 = "Length_Bytes (of_nat (length p1))" and ?h2 = "Length_Bytes (of_nat (length p2))"
  let ?c = "sv_conns s k"
  let ?s1 = "set_go n1 (WritingBody k p1 Finish) (set_conn k (conn_append ?h1 ?c) s)"
  let ?s2 = "set_go n2 (WritingBody k p2 Finish) (set_conn k (conn_append (?h1 @ ?h2) ?c) ?s1)"
  let ?s3 = "end_go n1 (set_conn k (conn_append (?h1 @ ?h2 @ p1) ?c) ?s2)"
  let ?s4 = "end_go n2 (set_conn k (conn_append (?h1 @ ?h2 @ p1 @ p2) ?c) ?s3)"
  have "server_step cd s ?s1"
    using server_step.step_header [OF assms(1), of cd] write_header_healthy [OF assms(8,4,6), of n1 Finish] by simp
  moreover have "server_step cd ?s1 ?s2"
    using server_step.step_header [of ?s1 n2 k m2 Finish cd] write_header_healthy [of ?s1 k cd m2 p2 n2 Finish] assms
    by simp
  moreover have "server_step cd ?s2 ?s3"
    using server_step.step_body [of ?s2 n1 k p1 Finish cd] write_body_healthy [of ?s2 k n1 p1 Finish] assms
    by (simp add: write_done_def)
  moreover have "server_step cd ?s3 ?s4"
    using server_step.step_body [of ?s3 n2 k p2 Finish cd] write_body_healthy [of ?s3 k n2 p2 Finish] assms
    by (simp add: write_done_def)
  ultimately have "server_run cd s ?s4" by (rule run_four)
  then show "\<exists>t. server_run cd s t \<and> sv_go t n1 = None \<and> sv_go t n2 = None \<and>
      c_out (sv_conns t k) = c_out (sv_conns s k) @ conn_pending c"
    using assms(9) by (intro exI [of _ ?s4]) simp
next
  let ?q = "take (length p1) (Length_Bytes (of_nat (length p2)) @ p1 @ p2)"
  have "length ?q = length p1" by simp
  moreover have "conn_pending c = frame ?q @ drop (length p1) (Length_Bytes (of_nat (length p2)) @ p1 @ p2)"
    unfolding frame_def \<open>length ?q = length p1\<close> assms(9) Length_Bytes_def [of "of_nat (length p1)"]
    by (simp only: append_assoc append_take_drop_id)
  ultimately show "\<exists>c'. DecodeFrom conn_Read c = Return (?q, None, c')"
    using net_stream.DecodeFrom_frame [of c ?q] assms(6) by auto
qed

text \<open>
  When the greeting of a new client cannot be written, nothing ever removes the client: from then
  on every connection with its identity is refused as a second one.
\<close>

theorem failed_greeting_locks_out:
  assumes "server_run cd (NewServerProtocol port conns) s" and "sv_go s n = Some (Writing k Connected (HandleAfter i))"
    and "\<not> conn_healthy (sv_conns s k)" and "server_run cd (write_header cd n k Connected (HandleAfter i) s) t"
  shows "handler_newClient t i k' = spawn (Writing k' AlreadyConnected CloseAfter) t"
proof -
  let ?u = "write_header cd n k Connected (HandleAfter i) s"
  have inv: "server_inv s" using reachable_server_inv [OF assms(1)] .
  have invu: "server_inv ?u" using step_server_inv [OF server_step.step_header [OF assms(2)] inv] .
  have u: "?u = write_done n k (HandleAfter i) False s"
  proof (cases "relay_WrapMessage cd Connected")
    case (Inr data)
    show ?thesis
    proof (cases "LengthOf (Packet_New data)")
      case (Inr l)
      then show ?thesis using \<open>relay_WrapMessage cd Connected = Inr data\<close> conn_put_broken [OF assms(3), of "Length_Bytes l"]
        by (auto simp: write_header_def)
    qed (simp add: write_header_def Inr)
  qed (simp add: write_header_def)
  have own: "owns client_owner s n (EncodeToString i)" using assms(2) by (simp add: owns_def)
  then have "sv_clients s (EncodeToString i) \<noteq> None" and uniq: "\<And>m. owns client_owner s m (EncodeToString i) \<Longrightarrow> m = n"
    using inv unfolding server_inv_def clients_inv_def by blast+
  then have "sv_clients ?u (EncodeToString i) \<noteq> None" by (simp add: kept_clients)
  moreover have "\<not> owns client_owner ?u m (EncodeToString i)" for m
    using uniq [of m] by (auto simp: u owns_write_done)
  ultimately have "sv_clients t (EncodeToString i) \<noteq> None" using orphan_client_run [OF assms(4) invu] by blast
  then show ?thesis by (simp add: handler_newClient_def Let_def)
qed

section \<open>Relaying\<close>

text \<open>A write that succeeds, and the test of its error before the other direction assigns it.\<close>

lemma relay_written:
  assumes "sv_go s r = Some (RelayWrite n first src dst p)" and "\<not> sv_done s" and "conn_healthy (sv_conns s dst)"
  shows "server_run cd s
    ((set_go r (RelayRead n first src dst) (set_conn dst (conn_append p (sv_conns s dst)) s))\<lparr>sv_err := (sv_err s)(n := None)\<rparr>)"
proof -
  let ?s1 = "relay_write s r n first src dst p"
  have s1: "?s1 = set_go r (RelayCheck n first src dst) ((set_conn dst (conn_append p (sv_conns s dst)) s)\<lparr>sv_err := (sv_err s)(n := None)\<rparr>)"
    using conn_put_healthy [OF assms(3)] by (simp add: relay_write_def)
  have "server_step cd s ?s1" by (rule server_step.step_relay_write [OF assms(1)])
  moreover have "server_step cd ?s1 (relay_check ?s1 r n first src dst)" by (rule server_step.step_relay_check) (simp add: s1)
  moreover have "relay_check ?s1 r n first src dst =
      (set_go r (RelayRead n first src dst) (set_conn dst (conn_append p (sv_conns s dst)) s))\<lparr>sv_err := (sv_err s)(n := None)\<rparr>"
    using assms(2) by (simp add: s1 relay_check_def go_ops)
  ultimately show ?thesis using run_two by metis
qed

text \<open>
  Since the two directions share the variable, a write that fails in one direction can go unnoticed: when the other direction writes before
  the test, the goroutine goes on to read although its write has failed.
\<close>

lemma shared_err_hides_failure:
  assumes "sv_go s r = Some (RelayWrite n first src dst p)" and "sv_go s q = Some (RelayWrite n other src' dst' p')" and "r \<noteq> q"
    and "\<not> sv_done s" and "\<not> conn_healthy (sv_conns s dst)" and "conn_healthy (sv_conns s dst')"
  shows "\<exists>t. server_run cd s t \<and> sv_go t r = Some (RelayRead n first src dst) \<and> sv_conns t dst = sv_conns s dst"
proof -
  let ?s1 = "relay_write s r n first src dst p"
  let ?s2 = "relay_write ?s1 q n other src' dst' p'"
  have d: "dst \<noteq> dst'" using assms(5,6) by auto
  obtain e where e: "conn_put dst p s = (Some e, s)" using conn_put_broken [OF assms(5)] by blast
  have s1: "?s1 = set_go r (RelayCheck n first src dst) (s\<lparr>sv_err := (sv_err s)(n := Some e)\<rparr>)" by (simp add: relay_write_def e)
  have s2: "?s2 = set_go q (RelayCheck n other src' dst') ((set_conn dst' (conn_append p' (sv_conns s dst')) ?s1)\<lparr>sv_err := (sv_err ?s1)(n := None)\<rparr>)"
    using conn_put_healthy [of ?s1 dst' p'] assms(6) unfolding s1 by (simp add: relay_write_def)
  have f: "sv_go ?s2 r = Some (RelayCheck n first src dst)" "sv_err ?s2 n = None" "\<not> sv_done ?s2" "sv_conns ?s2 dst = sv_conns s dst"
    using assms(3,4) d unfolding s2 by (simp_all add: s1)
  have "server_step cd s ?s1" by (rule server_step.step_relay_write [OF assms(1)])
  moreover have "server_step cd ?s1 ?s2" by (rule server_step.step_relay_write) (use assms(2,3) in \<open>simp add: s1\<close>)
  moreover have "server_step cd ?s2 (relay_check ?s2 r n first src dst)" by (rule server_step.step_relay_check [OF f(1)])
  ultimately have "server_run cd s (relay_check ?s2 r n first src dst)" by (meson rtranclp.rtrancl_into_rtrancl run_two)
  moreover have "relay_check ?s2 r n first src dst = set_go r (RelayRead n first src dst) ?s2"
    using f(2,3) by (simp add: relay_check_def)
  ultimately show ?thesis using f(4) by (intro exI [of _ "set_go r (RelayRead n first src dst) ?s2"]) simp
qed

lemma relay_round:
  assumes "sv_go s r = Some (RelayRead n first src dst)" and "src \<noteq> dst" and "\<not> sv_done s"
    and "conn_healthy (sv_conns s dst)" and "conn_pending (sv_conns s src) \<noteq> []"
  shows "\<exists>t j. server_run cd s t \<and> 0 < j \<and> sv_go t r = Some (RelayRead n first src dst) \<and> \<not> sv_done t \<and>
    sv_conns t dst = conn_append (take j (conn_pending (sv_conns s src))) (sv_conns s dst) \<and>
    conn_pending (sv_conns t src) = drop j (conn_pending (sv_conns s src))"
proof -
  obtain j c where r: "0 < j" "conn_Read (sv_conns s src) SessionBufSize = Return (take j (conn_pending (sv_conns s src)), None, c)"
    "conn_pending c = drop j (conn_pending (sv_conns s src))"
    using conn_Read_some [OF assms(5), of SessionBufSize] by (auto simp: SessionBufSize_def)
  let ?p = "take j (conn_pending (sv_conns s src))"
  let ?s1 = "set_go r (RelayWrite n first src dst ?p) (set_conn src c s)"
  let ?s2 = "(set_go r (RelayRead n first src dst) (set_conn dst (conn_append ?p (sv_conns ?s1 dst)) ?s1))\<lparr>sv_err := (sv_err ?s1)(n := None)\<rparr>"
  have "server_step cd s ?s1"
    using server_step.step_relay_read [OF assms(1), of cd] r(2) assms(3) by (simp add: relay_read_def)
  moreover have "server_run cd ?s1 ?s2" by (rule relay_written) (use assms(2-4) in simp_all)
  ultimately have "server_run cd s ?s2" by (rule converse_rtranclp_into_rtranclp)
  then show ?thesis using r assms(2,3) by (intro exI [of _ ?s2] exI [of _ j]) simp
qed

text \<open>
  A session relays its stream: from a state in which one direction of an established session
  waits for data, the server can go on to write every byte that the one client has sent and will
  send to the other client, in order and none twice, whatever the segments they come in.
\<close>

theorem session_relays_stream:
  assumes "sv_go s r = Some (RelayRead n first src dst)" and "src \<noteq> dst" and "\<not> sv_done s"
    and "conn_healthy (sv_conns s dst)"
  shows "\<exists>t. server_run cd s t \<and> sv_go t r = Some (RelayRead n first src dst) \<and>
    sv_conns t dst = conn_append (conn_pending (sv_conns s src)) (sv_conns s dst) \<and> conn_pending (sv_conns t src) = []"
  using assms
proof (induction "length (conn_pending (sv_conns s src))" arbitrary: s rule: less_induct)
  case less
  show ?case
  proof (cases "conn_pending (sv_conns s src) = []")
    case True
    then show ?thesis using less.prems by (intro exI [of _ s]) (simp add: conn_append_def)
  next
    case False
    then obtain u j where u: "server_run cd s u" "0 < j" "sv_go u r = Some (RelayRead n first src dst)" "\<not> sv_done u"
      "sv_conns u dst = conn_append (take j (conn_pending (sv_conns s src))) (sv_conns s dst)"
      "conn_pending (sv_conns u src) = drop j (conn_pending (sv_conns s src))"
      using relay_round [OF less.prems, of cd] by blast
    have "length (conn_pending (sv_conns u src)) < length (conn_pending (sv_conns s src))"
      using u(2,6) False by simp
    from less.hyps [OF this u(3) assms(2) u(4)] u(5) less.prems(4)
    obtain t where "server_run cd u t" "sv_go t r = Some (RelayRead n first src dst)"
      "sv_conns t dst = conn_append (conn_pending (sv_conns u src)) (sv_conns u dst)" "conn_pending (sv_conns t src) = []"
      by auto
    then show ?thesis using u(1,5,6) by (intro exI [of _ t]) (auto intro: rtranclp_trans)
  qed
qed


section \<open>A run\<close>

text \<open>
  For the witnesses: a client with identity 5 connects on connection 0 and asks for a session with
  itself. Connection 2 takes no writes.
\<close>

definition demo_conns :: "nat \<Rightarrow> conn" where
  "demo_conns k = \<lparr>c_in = (if k = 0 then [[0, 6, 0, 0], [0, 3, 5, 7], [9]] else [[1, 2], [3]]), c_end = IOError EOF, c_out = [],
     c_werr = (if k = 2 then Some (IOError EOF) else None), c_closed = False\<rparr>"

abbreviation demo_start :: server where
  "demo_start \<equiv> NewServerProtocol 23521 demo_conns"

definition demo_added :: "nat \<Rightarrow> server" where
  "demo_added k = handler_newClient (end_go 0 (AddClient demo_start [5] k)) [5] k"

lemma demo_added_run: "server_run cd demo_start (demo_added k)"
proof -
  have "server_step cd demo_start (AddClient demo_start [5] k)" by (rule server_step.add_client)
  moreover have "server_step cd (AddClient demo_start [5] k) (demo_added k)"
    unfolding demo_added_def by (rule server_step.new_client) (simp_all add: AddClient_def NewServerProtocol_def spawn_def)
  ultimately show ?thesis by (rule run_two)
qed

lemma demo_added_state:
  "sv_go (demo_added k) = [1 \<mapsto> Writing k Connected (HandleAfter [5])]" "sv_next (demo_added k) = 2"
  "sv_clients (demo_added k) = [EncodeToString [5] \<mapsto> ([5], k)]" "sv_conns (demo_added k) = demo_conns"
  "sv_sessions (demo_added k) = Map.empty" "sv_keys (demo_added k) = Map.empty" "\<not> sv_done (demo_added k)"
  "sv_clientHandler (demo_added k) = HandlerRunning" "sv_sessionHandler (demo_added k) = HandlerRunning"
  by (simp_all add: demo_added_def handler_newClient_def AddClient_def NewServerProtocol_def spawn_def end_go_def)

lemma short_codec_connected: "relay_WrapMessage short_codec Connected = Inr [0, 0, 0, 1]"
  by (simp add: relay_WrapMessage_def relay_RawTypeOf_def short_codec_def PutUint_eval)

lemma demo_request_decoded: "relay_UnwrapMessage short_codec [0, 0, 0, 3, 5, 7] = Inr (RequestSession [5] [7])"
  by (simp add: relay_UnwrapMessage_def short_codec_def relay_NewMessage_def get_be_def)

lemma demo_client_run:
  "\<exists>s. server_run short_codec demo_start s \<and> sv_go s = [2 \<mapsto> HandlingClient [5] 0 (CreateSession [5] [7] 0)] \<and> sv_next s = 3 \<and>
     sv_sessions s = Map.empty \<and> sv_keys s = Map.empty \<and> sv_sessionHandler s = HandlerRunning"
proof -
  let ?s = "demo_added 0" and ?c = "demo_conns 0" and ?a = "HandleAfter [5]"
  let ?h = "Length_Bytes (of_nat (length [0, 0, 0, 1 :: byte]))"
  have ok: "conn_healthy ?c" by (simp add: conn_healthy_def demo_conns_def)
  let ?s1 = "set_go 1 (WritingBody 0 [0, 0, 0, 1] ?a) (set_conn 0 (conn_append ?h ?c) ?s)"
  let ?c2 = "conn_append (?h @ [0, 0, 0, 1]) ?c"
  let ?s2 = "spawn (HandlingClient [5] 0 ReadPacket) (end_go 1 (set_conn 0 ?c2 ?s1))"
  have "server_step short_codec ?s ?s1"
    using server_step.step_header [of ?s 1 0 Connected ?a short_codec]
      write_header_healthy [of ?s 0 short_codec Connected "[0, 0, 0, 1]" 1 ?a] ok short_codec_connected
    by (simp add: demo_added_state packet_consts)
  moreover have "server_step short_codec ?s1 ?s2"
    using server_step.step_body [of ?s1 1 0 "[0, 0, 0, 1]" ?a short_codec] write_body_healthy [of ?s1 0 1 "[0, 0, 0, 1]" ?a] ok
    by (simp add: write_done_def demo_added_state)
  ultimately have run2: "server_run short_codec ?s ?s2" by (rule run_two)
  have "conn_pending ?c2 = frame [0, 0, 0, 3, 5, 7] @ [9]"
    by (simp add: conn_append_def conn_pending_def demo_conns_def frame_def PutUint_eval)
  then obtain c where c: "DecodeFrom conn_Read ?c2 = Return ([0, 0, 0, 3, 5, 7], None, c)"
    using net_stream.DecodeFrom_frame [of ?c2 "[0, 0, 0, 3, 5, 7]"] by (auto simp: packet_consts)
  let ?s3 = "set_go 2 (HandlingClient [5] 0 (GetTarget [5] [7])) (set_conn 0 c ?s2)"
  let ?s4 = "set_go 2 (HandlingClient [5] 0 (CreateSession [5] [7] 0)) ?s3"
  have "server_step short_codec ?s2 ?s3"
    using server_step.client_packet [of ?s2 2 "[5]" 0 "[0, 0, 0, 3, 5, 7]" None c short_codec] c demo_request_decoded
    by (simp add: demo_added_state handleClient_def server_handleMessage_def)
  moreover have "server_step short_codec ?s3 ?s4"
    using server_step.client_target [of ?s3 2 "[5]" 0 "[5]" "[7]" short_codec]
    by (simp add: demo_added_state request_target_def handler_getClient_def)
  ultimately have "server_run short_codec ?s2 ?s4" by (rule run_two)
  then have "server_run short_codec demo_start ?s4" using demo_added_run run2 by (meson rtranclp_trans)
  then show ?thesis by (intro exI [of _ ?s4]) (simp add: demo_added_state fun_eq_iff)
qed

abbreviation demo_key1 :: bytes where "demo_key1 \<equiv> replicate 16 1"
abbreviation demo_key2 :: bytes where "demo_key2 \<equiv> replicate 16 2"

abbreviation demo_id :: string where "demo_id \<equiv> newSessionIdentifier [5] [5]"

lemma demo_session_run:
  "\<exists>s. server_run short_codec demo_start s \<and> sv_go s 3 = Some (HandlingSession demo_id (Joining SlotStart SlotStart)) \<and>
     handler_getSessionChan s demo_key1 = Some \<lparr>sk_id = demo_id, sk_goroutine = 3, sk_first = True\<rparr>"
proof -
  obtain s where s: "server_run short_codec demo_start s" "sv_go s = [2 \<mapsto> HandlingClient [5] 0 (CreateSession [5] [7] 0)]"
    "sv_next s = 3" "sv_sessions s = Map.empty" "sv_keys s = Map.empty" "sv_sessionHandler s = HandlerRunning"
    using demo_client_run by blast
  let ?t = "request_create s 2 [5] 0 [5] [7] 0 demo_key1 demo_key2"
  have "server_step short_codec s ?t"
    using server_step.client_create [of s 2 "[5]" 0 "[5]" "[7]" 0 "(demo_key1, None)" demo_key1 "(demo_key2, None)" demo_key2 short_codec] s
    by (simp add: newSessionKey_def SessionKeySize_def)
  then have "server_run short_codec demo_start ?t" using s(1) by (rule rtranclp.rtrancl_into_rtrancl [rotated])
  moreover have "demo_key1 \<noteq> demo_key2" by (simp add: numeral_eq_Suc)
  ultimately show ?thesis using s
    by (intro exI [of _ ?t]) (simp add: request_create_def handler_newSession_def handler_getSessionChan_def Let_def)
qed

lemma demo_expired_run:
  "\<exists>s. server_run short_codec demo_start s \<and>
     sv_go s 3 = Some (HandlingSession demo_id (Joining (SlotFailed None) (SlotFailed None)))"
proof -
  obtain s where s: "server_run short_codec demo_start s"
    "sv_go s 3 = Some (HandlingSession demo_id (Joining SlotStart SlotStart))"
    using demo_session_run by blast
  let ?at = "\<lambda>a b s. set_go 3 (HandlingSession demo_id (Joining a b)) s"
  let ?s1 = "?at SlotWaiting SlotStart s" and ?s2 = "?at SlotWaiting SlotWaiting (?at SlotWaiting SlotStart s)"
  let ?s3 = "?at (SlotFailed None) SlotWaiting ?s2"
  let ?s4 = "?at (SlotFailed None) (SlotFailed None) ?s3"
  have "server_step short_codec s ?s1"
    using server_step.slot_wait [OF s(2), of True] by simp
  moreover have "server_step short_codec ?s1 ?s2"
    using server_step.slot_wait [of ?s1 3 demo_id "Joining SlotWaiting SlotStart" False] by simp
  moreover have "server_step short_codec ?s2 ?s3"
    using server_step.slot_timeout [of ?s2 3 demo_id "Joining SlotWaiting SlotWaiting" True] by simp
  moreover have "server_step short_codec ?s3 ?s4"
    using server_step.slot_timeout [of ?s3 3 demo_id "Joining (SlotFailed None) SlotWaiting" False] by simp
  ultimately have "server_run short_codec s ?s4" by (rule run_four)
  with s(1) have "server_run short_codec demo_start ?s4" by (rule rtranclp_trans)
  then show ?thesis by (intro exI [of _ ?s4]) simp
qed

theorem server_never_panics_witness:
  "server_run short_codec demo_start (demo_added 0) \<and> sv_clientHandler (demo_added 0) \<noteq> HandlerPanicked ''x''"
  using server_never_panics [OF demo_added_run [of short_codec 0]] demo_added_run by blast

theorem newSessionIdentifier_injective_witness:
  "newSessionIdentifier [1] [2] = newSessionIdentifier [2] [1] \<longleftrightarrow> [1 :: byte] = [2] \<and> [2 :: byte] = [1]"
  by (rule newSessionIdentifier_injective) simp

theorem session_key_opens_its_side_witness:
  "\<exists>s sh. server_run short_codec demo_start s \<and> sv_sessions s demo_id = Some sh \<and> demo_key1 = fst (sh_keys sh)"
proof -
  obtain s where s: "server_run short_codec demo_start s"
    "handler_getSessionChan s demo_key1 = Some \<lparr>sk_id = demo_id, sk_goroutine = 3, sk_first = True\<rparr>"
    using demo_session_run by blast
  from session_key_opens_its_side [OF this] this show ?thesis by auto
qed

theorem expired_session_blocks_witness:
  "\<exists>t. server_run short_codec demo_start t \<and>
     so_error (fst (handler_newSession t [5] [5] demo_key1 demo_key2)) = ErrorSessionExists"
proof -
  obtain s where s: "server_run short_codec demo_start s"
    "sv_go s 3 = Some (HandlingSession demo_id (Joining (SlotFailed None) (SlotFailed None)))"
    using demo_expired_run by blast
  let ?t = "session_joined s 3 demo_id (SlotFailed None) (SlotFailed None)"
  have "server_run short_codec demo_start ?t"
    using s(1) server_step.step_joined [OF s(2)] by (simp add: rtranclp.rtrancl_into_rtrancl)
  moreover have "so_error (fst (handler_newSession ?t [5] [5] demo_key1 demo_key2)) = ErrorSessionExists"
    using expired_session_blocks [OF s, where c = None, OF disjI1 [OF refl] rtranclp.rtrancl_refl] by simp
  ultimately show ?thesis by blast
qed

theorem failed_greeting_locks_out_witness:
  "\<exists>t. server_run short_codec demo_start t \<and>
     handler_newClient t [5] 4 = spawn (Writing 4 AlreadyConnected CloseAfter) t"
proof -
  let ?t = "write_header short_codec 1 2 Connected (HandleAfter [5]) (demo_added 2)"
  have go: "sv_go (demo_added 2) 1 = Some (Writing 2 Connected (HandleAfter [5]))" by (simp add: demo_added_state)
  have "\<not> conn_healthy (sv_conns (demo_added 2) 2)" by (simp add: demo_added_state demo_conns_def conn_healthy_def)
  with failed_greeting_locks_out [OF demo_added_run go _ rtranclp.rtrancl_refl]
  have "handler_newClient ?t [5] 4 = spawn (Writing 4 AlreadyConnected CloseAfter) ?t" by blast
  moreover have "server_run short_codec demo_start ?t"
    using demo_added_run server_step.step_header [OF go] by (rule rtranclp.rtrancl_into_rtrancl)
  ultimately show ?thesis by blast
qed

definition two_writers :: server where
  "two_writers = demo_start\<lparr>sv_go := [0 \<mapsto> Writing 1 Connected Finish, 1 \<mapsto> Writing 1 (RequestSession [5] [7, 8]) Finish]\<rparr>"

theorem concurrent_writes_corrupt_framing_witness:
  "\<exists>c'. DecodeFrom conn_Read (demo_conns 1\<lparr>c_in := [[0, 4, 0, 7, 0, 0, 0, 1, 0, 0, 0, 3, 5, 7, 8]]\<rparr>) =
     Return ([0, 7, 0, 0], None, c')"
proof -
  let ?c = "demo_conns 1\<lparr>c_in := [[0, 4, 0, 7, 0, 0, 0, 1, 0, 0, 0, 3, 5, 7, 8]]\<rparr>"
  have "conn_healthy (sv_conns two_writers 1)"
    by (simp add: two_writers_def NewServerProtocol_def demo_conns_def conn_healthy_def)
  moreover have "conn_pending ?c = Length_Bytes (of_nat (length [0, 0, 0, 1 :: byte])) @
      Length_Bytes (of_nat (length [0, 0, 0, 3, 5, 7, 8 :: byte])) @ [0, 0, 0, 1] @ [0, 0, 0, 3, 5, 7, 8]"
    by (simp add: conn_pending_def demo_conns_def Length_Bytes_def PutUint_eval)
  ultimately show ?thesis
    using concurrent_writes_corrupt_framing [of two_writers 0 1 Connected 1 "RequestSession [5] [7, 8]" short_codec
        "[0, 0, 0, 1]" "[0, 0, 0, 3, 5, 7, 8]" ?c] short_codec_connected short_codec_request
    by (simp add: two_writers_def packet_consts Length_Bytes_def PutUint_eval)
qed

theorem session_relays_stream_witness:
  "\<exists>t. server_run short_codec (demo_start\<lparr>sv_go := [7 \<mapsto> RelayRead 3 True 1 0]\<rparr>) t \<and>
     c_out (sv_conns t 0) = [1, 2, 3]"
proof -
  let ?s = "demo_start\<lparr>sv_go := [7 \<mapsto> RelayRead 3 True 1 0]\<rparr>"
  have "conn_healthy (sv_conns ?s 0)" "conn_pending (sv_conns ?s 1) = [1, 2, 3]" "c_out (sv_conns ?s 0) = []" "\<not> sv_done ?s"
    by (simp_all add: NewServerProtocol_def demo_conns_def conn_healthy_def conn_pending_def)
  then show ?thesis using session_relays_stream [of ?s 7 3 True 1 0 short_codec] by fastforce
qed

section \<open>The function write\<close>

text \<open>Without a step of another goroutine between them, the two steps are \<open>write\<close>.\<close>

definition write_both :: "relay_codec \<Rightarrow> nat \<Rightarrow> nat \<Rightarrow> relay_message \<Rightarrow> after_write \<Rightarrow> server \<Rightarrow> server" where
  "write_both cd n k message after s =
     (let s1 = write_header cd n k message after s in
      case sv_go s1 n of Some (WritingBody j data a) \<Rightarrow> write_body n j data a s1 | _ \<Rightarrow> s1)"

lemma write_uninterrupted:
  assumes "sv_go s n = Some (Writing k message Finish)" and "protocol_write cd message (sv_conns s k) = Return (ok, c)"
  shows "sv_conns (write_both cd n k message Finish s) = (sv_conns s)(k := c) \<and> sv_go (write_both cd n k message Finish s) n = None"
proof (cases "relay_WrapMessage cd message")
  case (Inl e)
  then show ?thesis using assms
    by (auto simp: protocol_write_def write_both_def write_header_def write_done_def close_conn_def set_conn_def end_go_def Let_def)
next
  case (Inr data)
  show ?thesis
  proof (cases "LengthOf (Packet_New data)")
    case Inl': (Inl e)
    then show ?thesis using assms Inr
      by (auto simp: protocol_write_def Packet_WriteTo_def write_both_def write_header_def write_done_def close_conn_def set_conn_def end_go_def Let_def)
  next
    case Inr': (Inr l)
    then show ?thesis using assms Inr
      by (auto simp: protocol_write_def Packet_WriteTo_def Packet_New_def conn_Write_def conn_put_def write_both_def write_header_def write_body_def
          write_done_def close_conn_def set_conn_def set_go_def end_go_def Let_def split: if_split_asm option.split_asm option.split)
  qed
qed

end
