(* ===== verification/Relay_Client.thy ===== *)
theory Relay_Client
  imports Relay_Server_Props
begin

text \<open>
  \<open>lib/relay/protocol_client.go\<close>: the client of a relay server with its goroutines: the message handler,
  which reads from the connection, the request handler and the session handler, which own the
  maps of the calls that wait for an answer, and the calls themselves. As in \<open>Relay_Server\<close> a send
  on a channel and its receipt are one step, and a packet is written in two.
\<close>

section \<open>State\<close>

record SessionInfo =
  si_Description :: "SessionDescription option"
  si_PeerIdentity :: Identity

definition reasonToError :: "Error \<Rightarrow> error" where
  "reasonToError reason =
     (case reason of
        ErrorTargetUnavailable \<Rightarrow> RelayError ErrTargetUnavailable
      | ErrorSessionExists \<Rightarrow> RelayError ErrSessionExists
      | ErrorUnknownSession \<Rightarrow> RelayError ErrUnknownSession
      | ErrorSessionAlreadyAccepted \<Rightarrow> RelayError ErrSessionAlreadyAccepted
      | ErrorInitiatorUnavailable \<Rightarrow> RelayError ErrInitiatorUnavailable
      | _ \<Rightarrow> ErrorString ''received an invalid error response from server'')"

text \<open>A \<open>requestOutput\<close>: its error, or its description.\<close>

type_synonym requestOutput = "error + SessionDescription option"

datatype establishedOrFailed = Established Identity | Failed Error Identity

text \<open>
  Where a call or a writing goroutine is. \<open>Request\<close>: at \<open>newRequest\<close>, on its way to its \<open>select\<close>, in it,
  at \<open>deleteRequest\<close>, returned. \<open>ReadAccept\<close>, \<open>ReadInvitation\<close> and \<open>Accept\<close> are alike. The
  channel \<open>out\<close> of a call is identified by the number of the call. \<open>Close\<close>: at its \<open>select\<close>, at \<open>close(c.done)\<close>, at \<open>conn.Close\<close>, returned, or
  stopped by the panic of closing \<open>done\<close> twice; \<open>handleConnErr\<close> does the first two of these.
\<close>

datatype call =
    RequestSend Identity bytes
  | RequestEnter Identity
  | RequestWait Identity
  | RequestDelete Identity "error + SessionInfo"
  | RequestReturned Identity "error + SessionInfo"
  | RequestWriting Identity bytes nat
  | RequestWritingBody bytes nat
  | ReadAcceptSend Identity
  | ReadAcceptWait Identity
  | ReadAcceptReturned Identity "error + bytes"
  | InvitationWait
  | InvitationReturned "error + SessionInfo \<times> bytes"
  | AcceptSend Identity bytes
  | AcceptWriting Identity bytes
  | AcceptWritingBody Identity bytes
  | AcceptWait Identity
  | AcceptReturned Identity "error option"
  | CloseSelect bool
  | CloseDone bool
  | CloseConn
  | CloseReturned "error option"
  | ClosePanicked

datatype request_handler = RequestSelect | RequestOffer nat requestOutput | RequestStopped | RequestPanicked string

datatype session_handler =
    SessionSelect
  | SessionSendAccept nat Identity bytes
  | SessionSendResult nat Identity establishedOrFailed
  | SessionPanicked string

text \<open>The sends to the handlers that \<open>handleMessage\<close> has still to do.\<close>

datatype handler_send =
    SendResponse Identity requestOutput
  | SendAccept Identity bytes
  | SendInvitation "SessionDescription option" Identity bytes
  | SendResult establishedOrFailed

datatype message_handler = MessageRead | MessageSend "handler_send list" | MessageClose | MessageStopped

text \<open>\<open>rc_log\<close> records the messages that the message handler has handled; no code reads it.\<close>

record rclient =
  rc_conn :: conn
  rc_requests :: "string \<rightharpoonup> nat"
  rc_accepts :: "string \<rightharpoonup> nat"
  rc_results :: "string \<rightharpoonup> nat"
  rc_requestHandler :: request_handler
  rc_sessionHandler :: session_handler
  rc_messageHandler :: message_handler
  rc_done :: bool
  rc_calls :: "nat \<rightharpoonup> call"
  rc_log :: "relay_message list"

text \<open>After a \<open>Start\<close> that has succeeded.\<close>

definition NewClientProtocol :: "conn \<Rightarrow> rclient" where
  "NewClientProtocol serverConn =
     \<lparr>rc_conn = serverConn, rc_requests = Map.empty, rc_accepts = Map.empty, rc_results = Map.empty,
      rc_requestHandler = RequestSelect, rc_sessionHandler = SessionSelect, rc_messageHandler = MessageRead,
      rc_done = False, rc_calls = Map.empty, rc_log = []\<rparr>"

abbreviation set_call :: "nat \<Rightarrow> call \<Rightarrow> rclient \<Rightarrow> rclient" where
  "set_call n x c \<equiv> c\<lparr>rc_calls := (rc_calls c)(n \<mapsto> x)\<rparr>"

text \<open>
  \<open>Start\<close> reads the first message. A context that is done while it reads closes the connection;
  \<open>ctxErr\<close> is its error when the packet was read.
\<close>

definition client_Start :: "relay_codec \<Rightarrow> conn \<Rightarrow> error option \<Rightarrow> (error option \<times> conn) outcome" where
  "client_Start cd c ctxErr =
     obind (DecodeFrom conn_Read c) (\<lambda>(data, err, c1).
       case err of
         Some e \<Rightarrow> Return (Some e, c1)
       | None \<Rightarrow>
           (case ctxErr of
              Some e \<Rightarrow> Return (Some e, c1)
            | None \<Rightarrow>
                (case relay_UnwrapMessage cd data of
                   Inl e \<Rightarrow> Return (Some e, c1)
                 | Inr Connected \<Rightarrow> Return (None, c1)
                 | Inr AlreadyConnected \<Rightarrow> Return (Some (RelayError ErrAlreadyConnected), c1)
                 | Inr _ \<Rightarrow> Return (Some (ProtocolError UnexpectedMessage), c1))))"

section \<open>Closing\<close>

text \<open>
  The test of \<open>done\<close> and its closing are two steps: between them another goroutine may close it. A panic ends the process; that the other
  goroutines are not stopped here only allows more runs.
\<close>

definition client_Close :: "nat \<Rightarrow> rclient \<Rightarrow> rclient" where
  "client_Close n c = set_call n (CloseSelect True) c"

text \<open>The goroutine \<open>w\<close> whose write has failed.\<close>

definition handleConnErr :: "nat \<Rightarrow> error \<Rightarrow> rclient \<Rightarrow> rclient" where
  "handleConnErr w err c = (if err = IOError NetErrClosed then set_call w (CloseSelect False) c else c)"

definition close_end :: "nat \<Rightarrow> bool \<Rightarrow> rclient \<Rightarrow> rclient" where
  "close_end n closing c = (if closing then set_call n CloseConn c else c\<lparr>rc_calls := (rc_calls c)(n := None)\<rparr>)"

definition close_select :: "nat \<Rightarrow> bool \<Rightarrow> rclient \<Rightarrow> rclient" where
  "close_select n closing c = (if rc_done c then close_end n closing c else set_call n (CloseDone closing) c)"

definition close_done :: "nat \<Rightarrow> bool \<Rightarrow> rclient \<Rightarrow> rclient" where
  "close_done n closing c =
     (if rc_done c then set_call n ClosePanicked c else close_end n closing (c\<lparr>rc_done := True\<rparr>))"

definition close_connection :: "nat \<Rightarrow> rclient \<Rightarrow> rclient" where
  "close_connection n c =
     (case conn_Close (rc_conn c) of (err, conn) \<Rightarrow> set_call n (CloseReturned err) (c\<lparr>rc_conn := conn\<rparr>))"

section \<open>The message handler\<close>

definition client_handleMessage :: "relay_message \<Rightarrow> handler_send list option" where
  "client_handleMessage message =
     (case message of
        SessionFailed reason peer \<Rightarrow> Some [SendResponse peer (Inl (reasonToError reason)), SendResult (Failed reason peer)]
      | SessionCreated session target \<Rightarrow> Some [SendResponse target (Inr session)]
      | SessionAccepted target additionalData \<Rightarrow> Some [SendAccept target additionalData]
      | SessionInvitation session initiator additionalData \<Rightarrow> Some [SendInvitation session initiator additionalData]
      | SessionEstablished initiator \<Rightarrow> Some [SendResult (Established initiator)]
      | _ \<Rightarrow> None)"

definition message_packet :: "relay_codec \<Rightarrow> rclient \<Rightarrow> bytes \<Rightarrow> error option \<Rightarrow> rclient" where
  "message_packet cd c data err =
     (if err \<noteq> None then c\<lparr>rc_messageHandler := MessageClose\<rparr>
      else if rc_done c then c\<lparr>rc_messageHandler := MessageClose\<rparr>
      else case relay_UnwrapMessage cd data of
          Inl e \<Rightarrow> c\<lparr>rc_messageHandler := MessageClose\<rparr>
        | Inr message \<Rightarrow>
            (case client_handleMessage message of
               None \<Rightarrow> c\<lparr>rc_messageHandler := MessageClose\<rparr>
             | Some sends \<Rightarrow> c\<lparr>rc_messageHandler := MessageSend sends, rc_log := message # rc_log c\<rparr>))"

section \<open>The request handler\<close>

definition offerRequestOutput :: "nat \<Rightarrow> requestOutput \<Rightarrow> rclient \<Rightarrow> rclient" where
  "offerRequestOutput n output c =
     (case rc_calls c n of
        Some (RequestWait target) \<Rightarrow>
          set_call n (RequestDelete target
            (case output of Inl e \<Rightarrow> Inl e | Inr d \<Rightarrow> Inr \<lparr>si_Description = d, si_PeerIdentity = target\<rparr>)) c
      | _ \<Rightarrow> c)"

definition handle_newRequest :: "nat \<Rightarrow> nat \<Rightarrow> Identity \<Rightarrow> bytes \<Rightarrow> rclient \<Rightarrow> rclient" where
  "handle_newRequest n w target additionalData c =
     (let sid = EncodeToString target; c1 = set_call n (RequestEnter target) c in
      if rc_requests c1 sid \<noteq> None
      then c1\<lparr>rc_requestHandler := RequestOffer n (Inl (RelayError ErrAlreadyRequested))\<rparr>
      else set_call w (RequestWriting target additionalData n) (c1\<lparr>rc_requests := (rc_requests c1)(sid \<mapsto> n)\<rparr>))"

definition handle_response :: "Identity \<Rightarrow> requestOutput \<Rightarrow> rclient \<Rightarrow> rclient" where
  "handle_response target output c =
     (case rc_requests c (EncodeToString target) of
        None \<Rightarrow> c
      | Some n \<Rightarrow> c\<lparr>rc_requestHandler := RequestOffer n output\<rparr>)"

definition handle_deleteRequest :: "Identity \<Rightarrow> rclient \<Rightarrow> rclient" where
  "handle_deleteRequest target c =
     (let sid = EncodeToString target in
      if rc_requests c sid = None
      then c\<lparr>rc_requestHandler := RequestPanicked ''attempting to close a request which does not exist''\<rparr>
      else c\<lparr>rc_requests := (rc_requests c)(sid := None)\<rparr>)"

text \<open>\<open>writeRequest\<close>, for the call \<open>n\<close>.\<close>

definition write_failed :: "nat \<Rightarrow> nat \<Rightarrow> string \<Rightarrow> rclient \<Rightarrow> rclient" where
  "write_failed w n what c = offerRequestOutput n (Inl (ErrorString what)) (c\<lparr>rc_calls := (rc_calls c)(w := None)\<rparr>)"

definition client_put :: "bytes \<Rightarrow> rclient \<Rightarrow> error option \<times> rclient" where
  "client_put p c =
     (case conn_Write (rc_conn c) p of Return (_, err, conn) \<Rightarrow> (err, c\<lparr>rc_conn := conn\<rparr>) | _ \<Rightarrow> (None, c))"

definition writeRequest :: "relay_codec \<Rightarrow> nat \<Rightarrow> Identity \<Rightarrow> bytes \<Rightarrow> nat \<Rightarrow> rclient \<Rightarrow> rclient" where
  "writeRequest cd w target additionalData n c =
     (case relay_WrapMessage cd (RequestSession target additionalData) of
        Inl e \<Rightarrow> write_failed w n ''failed to wrap request message'' c
      | Inr data \<Rightarrow>
          (case LengthOf (Packet_New data) of
             Inl e \<Rightarrow> handleConnErr w e (write_failed w n ''failed to write request message'' c)
           | Inr l \<Rightarrow>
               (case client_put (Length_Bytes l) c of
                  (Some e, c1) \<Rightarrow> handleConnErr w e (write_failed w n ''failed to write request message'' c1)
                | (None, c1) \<Rightarrow> set_call w (RequestWritingBody data n) c1)))"

definition writeRequest_body :: "nat \<Rightarrow> bytes \<Rightarrow> nat \<Rightarrow> rclient \<Rightarrow> rclient" where
  "writeRequest_body w data n c =
     (case client_put data c of
        (Some e, c1) \<Rightarrow> handleConnErr w e (write_failed w n ''failed to write request message'' c1)
      | (None, c1) \<Rightarrow> c1\<lparr>rc_calls := (rc_calls c1)(w := None)\<rparr>)"

section \<open>The session handler\<close>

definition handle_waitAccept :: "nat \<Rightarrow> Identity \<Rightarrow> rclient \<Rightarrow> rclient" where
  "handle_waitAccept n target c =
     (let sid = EncodeToString target; c1 = set_call n (ReadAcceptWait target) c in
      if rc_accepts c1 sid \<noteq> None
      then c1\<lparr>rc_sessionHandler := SessionPanicked ''already waiting for an accept for this identity''\<rparr>
      else c1\<lparr>rc_accepts := (rc_accepts c1)(sid \<mapsto> n)\<rparr>)"

definition handle_waitResult :: "nat \<Rightarrow> Identity \<Rightarrow> bytes \<Rightarrow> rclient \<Rightarrow> rclient" where
  "handle_waitResult n initiator additionalData c =
     (let sid = EncodeToString initiator; c1 = set_call n (AcceptWriting initiator additionalData) c in
      if rc_results c1 sid \<noteq> None
      then c1\<lparr>rc_sessionHandler := SessionPanicked ''already waiting for a result for this identity''\<rparr>
      else c1\<lparr>rc_results := (rc_results c1)(sid \<mapsto> n)\<rparr>)"

definition handle_newAccept :: "Identity \<Rightarrow> bytes \<Rightarrow> rclient \<Rightarrow> rclient" where
  "handle_newAccept target additionalData c =
     (case rc_accepts c (EncodeToString target) of
        None \<Rightarrow> c
      | Some n \<Rightarrow> c\<lparr>rc_sessionHandler := SessionSendAccept n target additionalData\<rparr>)"

fun result_identity :: "establishedOrFailed \<Rightarrow> Identity" where
  "result_identity (Established initiator) = initiator"
| "result_identity (Failed reason peer) = peer"

definition handle_newResult :: "establishedOrFailed \<Rightarrow> rclient \<Rightarrow> rclient" where
  "handle_newResult result c =
     (case rc_results c (EncodeToString (result_identity result)) of
        None \<Rightarrow> c
      | Some n \<Rightarrow> c\<lparr>rc_sessionHandler := SessionSendResult n (result_identity result) result\<rparr>)"

definition sent_accept :: "nat \<Rightarrow> Identity \<Rightarrow> Identity \<Rightarrow> bytes \<Rightarrow> rclient \<Rightarrow> rclient" where
  "sent_accept n target accepted additionalData c =
     (set_call n (ReadAcceptReturned target (Inr additionalData)) c)
       \<lparr>rc_accepts := (rc_accepts c)(EncodeToString accepted := None), rc_sessionHandler := SessionSelect\<rparr>"

definition sent_result :: "nat \<Rightarrow> Identity \<Rightarrow> Identity \<Rightarrow> establishedOrFailed \<Rightarrow> rclient \<Rightarrow> rclient" where
  "sent_result n initiator peer result c =
     (set_call n (AcceptReturned initiator
        (case result of Failed reason _ \<Rightarrow> Some (reasonToError reason) | Established _ \<Rightarrow> None)) c)
       \<lparr>rc_results := (rc_results c)(EncodeToString peer := None), rc_sessionHandler := SessionSelect\<rparr>"

section \<open>Accept\<close>

definition accept_write :: "relay_codec \<Rightarrow> nat \<Rightarrow> Identity \<Rightarrow> bytes \<Rightarrow> rclient \<Rightarrow> rclient" where
  "accept_write cd n initiator additionalData c =
     (case relay_WrapMessage cd (AcceptSession initiator additionalData) of
        Inl e \<Rightarrow> set_call n (AcceptReturned initiator (Some e)) c
      | Inr data \<Rightarrow>
          (case LengthOf (Packet_New data) of
             Inl e \<Rightarrow> set_call n (AcceptReturned initiator (Some e)) c
           | Inr l \<Rightarrow>
               (case client_put (Length_Bytes l) c of
                  (Some e, c1) \<Rightarrow> set_call n (AcceptReturned initiator (Some e)) c1
                | (None, c1) \<Rightarrow> set_call n (AcceptWritingBody initiator data) c1)))"

definition accept_write_body :: "nat \<Rightarrow> Identity \<Rightarrow> bytes \<Rightarrow> rclient \<Rightarrow> rclient" where
  "accept_write_body n initiator data c =
     (case client_put data c of
        (Some e, c1) \<Rightarrow> set_call n (AcceptReturned initiator (Some e)) c1
      | (None, c1) \<Rightarrow> set_call n (AcceptWait initiator) c1)"

section \<open>Runs\<close>

text \<open>
  The error of a context is one of two. The deferred \<open>Close\<close> of the message handler goes on as a call of its own.
  A call of \<open>ReadInvitation\<close> may not have got to its \<open>select\<close> yet, so that an invitation can be discarded
  even when there is such a call.
\<close>

inductive client_step :: "relay_codec \<Rightarrow> rclient \<Rightarrow> rclient \<Rightarrow> bool" for cd where
  call_Request: "rc_calls c n = None \<Longrightarrow> client_step cd c (set_call n (RequestSend target data) c)"
| call_ReadAccept: "rc_calls c n = None \<Longrightarrow> client_step cd c (set_call n (ReadAcceptSend target) c)"
| call_ReadInvitation: "rc_calls c n = None \<Longrightarrow> client_step cd c (set_call n InvitationWait c)"
| call_Accept: "rc_calls c n = None \<Longrightarrow> client_step cd c (set_call n (AcceptSend initiator data) c)"
| call_Close: "rc_calls c n = None \<Longrightarrow> client_step cd c (client_Close n c)"
| close_selects: "rc_calls c n = Some (CloseSelect closing) \<Longrightarrow> client_step cd c (close_select n closing c)"
| close_closes: "rc_calls c n = Some (CloseDone closing) \<Longrightarrow> client_step cd c (close_done n closing c)"
| close_conns: "rc_calls c n = Some CloseConn \<Longrightarrow> client_step cd c (close_connection n c)"
| new_request: "rc_requestHandler c = RequestSelect \<Longrightarrow> rc_calls c n = Some (RequestSend target data) \<Longrightarrow>
    rc_calls c w = None \<Longrightarrow> client_step cd c (handle_newRequest n w target data c)"
| request_enters: "rc_calls c n = Some (RequestEnter target) \<Longrightarrow> client_step cd c (set_call n (RequestWait target) c)"
| request_offer: "rc_requestHandler c = RequestOffer n output \<Longrightarrow>
    client_step cd c (offerRequestOutput n output (c\<lparr>rc_requestHandler := RequestSelect\<rparr>))"
| request_context: "rc_calls c n = Some (RequestWait target) \<Longrightarrow> e = IOError ContextCanceled \<or> e = IOError DeadlineExceeded \<Longrightarrow>
    client_step cd c (set_call n (RequestDelete target (Inl e)) c)"
| request_delete: "rc_requestHandler c = RequestSelect \<Longrightarrow> rc_calls c n = Some (RequestDelete target r) \<Longrightarrow>
    client_step cd c (handle_deleteRequest target (set_call n (RequestReturned target r) c))"
| request_stops: "rc_requestHandler c = RequestSelect \<Longrightarrow> rc_done c \<Longrightarrow>
    client_step cd c (c\<lparr>rc_requestHandler := RequestStopped\<rparr>)"
| request_writes: "rc_calls c w = Some (RequestWriting target data n) \<Longrightarrow>
    client_step cd c (writeRequest cd w target data n c)"
| request_writes_body: "rc_calls c w = Some (RequestWritingBody data n) \<Longrightarrow>
    client_step cd c (writeRequest_body w data n c)"
| wait_accept: "rc_sessionHandler c = SessionSelect \<Longrightarrow> rc_calls c n = Some (ReadAcceptSend target) \<Longrightarrow>
    client_step cd c (handle_waitAccept n target c)"
| wait_result: "rc_sessionHandler c = SessionSelect \<Longrightarrow> rc_calls c n = Some (AcceptSend initiator data) \<Longrightarrow>
    client_step cd c (handle_waitResult n initiator data c)"
| accept_arrives: "rc_sessionHandler c = SessionSendAccept n accepted data \<Longrightarrow>
    rc_calls c n = Some (ReadAcceptWait target) \<Longrightarrow> client_step cd c (sent_accept n target accepted data c)"
| result_arrives: "rc_sessionHandler c = SessionSendResult n peer result \<Longrightarrow>
    rc_calls c n = Some (AcceptWait initiator) \<Longrightarrow> client_step cd c (sent_result n initiator peer result c)"
| accept_closed: "rc_calls c n = Some (ReadAcceptWait target) \<Longrightarrow> rc_done c \<Longrightarrow>
    client_step cd c (set_call n (ReadAcceptReturned target (Inl (IOError NetErrClosed))) c)"
| invitation_closed: "rc_calls c n = Some InvitationWait \<Longrightarrow> rc_done c \<Longrightarrow>
    client_step cd c (set_call n (InvitationReturned (Inl (IOError NetErrClosed))) c)"
| result_closed: "rc_calls c n = Some (AcceptWait initiator) \<Longrightarrow> rc_done c \<Longrightarrow>
    client_step cd c (set_call n (AcceptReturned initiator (Some (IOError NetErrClosed))) c)"
| accept_writes: "rc_calls c n = Some (AcceptWriting initiator data) \<Longrightarrow>
    client_step cd c (accept_write cd n initiator data c)"
| accept_writes_body: "rc_calls c n = Some (AcceptWritingBody initiator data) \<Longrightarrow>
    client_step cd c (accept_write_body n initiator data c)"
| message_reads: "rc_messageHandler c = MessageRead \<Longrightarrow> DecodeFrom conn_Read (rc_conn c) = Return (data, err, conn) \<Longrightarrow>
    client_step cd c (message_packet cd (c\<lparr>rc_conn := conn\<rparr>) data err)"
| message_response: "rc_messageHandler c = MessageSend (SendResponse target output # sends) \<Longrightarrow>
    rc_requestHandler c = RequestSelect \<Longrightarrow>
    client_step cd c (handle_response target output (c\<lparr>rc_messageHandler := MessageSend sends\<rparr>))"
| message_accept: "rc_messageHandler c = MessageSend (SendAccept target data # sends) \<Longrightarrow>
    rc_sessionHandler c = SessionSelect \<Longrightarrow>
    client_step cd c (handle_newAccept target data (c\<lparr>rc_messageHandler := MessageSend sends\<rparr>))"
| message_result: "rc_messageHandler c = MessageSend (SendResult result # sends) \<Longrightarrow>
    rc_sessionHandler c = SessionSelect \<Longrightarrow>
    client_step cd c (handle_newResult result (c\<lparr>rc_messageHandler := MessageSend sends\<rparr>))"
| message_invitation: "rc_messageHandler c = MessageSend (SendInvitation session initiator data # sends) \<Longrightarrow>
    rc_calls c n = Some InvitationWait \<Longrightarrow>
    client_step cd c (set_call n (InvitationReturned (Inr (\<lparr>si_Description = session, si_PeerIdentity = initiator\<rparr>, data)))
      (c\<lparr>rc_messageHandler := MessageSend sends\<rparr>))"
| message_discarded: "rc_messageHandler c = MessageSend (SendInvitation session initiator data # sends) \<Longrightarrow>
    client_step cd c (c\<lparr>rc_messageHandler := MessageSend sends\<rparr>)"
| message_sent: "rc_messageHandler c = MessageSend [] \<Longrightarrow> client_step cd c (c\<lparr>rc_messageHandler := MessageRead\<rparr>)"
| message_closes: "rc_messageHandler c = MessageClose \<Longrightarrow> rc_calls c n = None \<Longrightarrow>
    client_step cd c ((client_Close n c)\<lparr>rc_messageHandler := MessageStopped\<rparr>)"

abbreviation client_run :: "relay_codec \<Rightarrow> rclient \<Rightarrow> rclient \<Rightarrow> bool" where
  "client_run cd \<equiv> (client_step cd)\<^sup>*\<^sup>*"

end
