(* ===== verification/Relay_Client_Props.thy ===== *)
theory Relay_Client_Props
  imports Relay_Client
begin

text \<open>
  What the relay client of \<open>Relay_Client\<close> guarantees to its callers: an answer comes from the server and
  belongs to the call. The invariants say what kind of call each entry of a map belongs to and
  which message of the server backs what a goroutine is about to hand on. Two properties show
  where calls of \<open>Request\<close> go wrong.
\<close>

section \<open>What the answers are based on\<close>

datatype call_sort = KRequest Identity | KAccept Identity | KResult Identity | KOther

fun kind :: "call \<Rightarrow> call_sort" where
  "kind (RequestSend t d) = KRequest t"
| "kind (RequestEnter t) = KRequest t"
| "kind (RequestWait t) = KRequest t"
| "kind (RequestDelete t r) = KRequest t"
| "kind (RequestReturned t r) = KRequest t"
| "kind (ReadAcceptSend t) = KAccept t"
| "kind (ReadAcceptWait t) = KAccept t"
| "kind (ReadAcceptReturned t r) = KAccept t"
| "kind (AcceptSend i d) = KResult i"
| "kind (AcceptWriting i d) = KResult i"
| "kind (AcceptWritingBody i d) = KResult i"
| "kind (AcceptWait i) = KResult i"
| "kind (AcceptReturned i r) = KResult i"
| "kind _ = KOther"

definition kind_in :: "(nat \<rightharpoonup> call) \<Rightarrow> nat \<Rightarrow> call_sort" where
  "kind_in calls n = (case calls n of None \<Rightarrow> KOther | Some x \<Rightarrow> kind x)"

lemma kind_in_upd [simp]:
  "kind_in (f(m \<mapsto> x)) n = (if n = m then kind x else kind_in f n)"
  "kind_in (f(m := None)) n = (if n = m then KOther else kind_in f n)"
  by (simp_all add: kind_in_def)

lemma kind_in_Some: "f n = Some x \<Longrightarrow> kind_in f n = kind x"
  by (simp add: kind_in_def)

lemma kind_in_None: "f n = None \<Longrightarrow> kind_in f n = KOther"
  by (simp add: kind_in_def)

abbreviation call_kind :: "rclient \<Rightarrow> nat \<Rightarrow> call_sort" where
  "call_kind c \<equiv> kind_in (rc_calls c)"

text \<open>
  A result of a call, and a send of the message handler, is backed by a message of the server. An error is that of a failure the server has reported for the same
  peer, or of what went wrong on this side: another request in progress, the context, a message that could not be made or written, or the end of the client.
\<close>

definition reported :: "relay_message set \<Rightarrow> Identity \<Rightarrow> error \<Rightarrow> bool" where
  "reported L t e \<longleftrightarrow> (\<exists>reason. SessionFailed reason t \<in> L \<and> e = reasonToError reason)"

definition request_error :: "relay_message set \<Rightarrow> Identity \<Rightarrow> error \<Rightarrow> bool" where
  "request_error L t e \<longleftrightarrow>
     reported L t e \<or> e = RelayError ErrAlreadyRequested \<or> e = IOError ContextCanceled \<or> e = IOError DeadlineExceeded \<or>
     e = ErrorString ''failed to wrap request message'' \<or> e = ErrorString ''failed to write request message''"

definition accept_error :: "relay_codec \<Rightarrow> bool \<Rightarrow> relay_message set \<Rightarrow> Identity \<Rightarrow> error \<Rightarrow> bool" where
  "accept_error cd closed L i e \<longleftrightarrow>
     reported L i e \<or> closed \<and> e = IOError NetErrClosed \<or>
     (\<exists>data. relay_WrapMessage cd (AcceptSession i data) = Inl e) \<or> (\<exists>data. LengthOf data = Inl e) \<or>
     (\<exists>conn data n conn'. conn_Write conn data = Return (n, Some e, conn'))"

fun backed :: "relay_codec \<Rightarrow> bool \<Rightarrow> relay_message set \<Rightarrow> call \<Rightarrow> bool" where
  "backed cd closed L (RequestDelete t (Inr info)) \<longleftrightarrow> si_PeerIdentity info = t \<and> SessionCreated (si_Description info) t \<in> L"
| "backed cd closed L (RequestDelete t (Inl e)) \<longleftrightarrow> request_error L t e"
| "backed cd closed L (RequestReturned t (Inr info)) \<longleftrightarrow> si_PeerIdentity info = t \<and> SessionCreated (si_Description info) t \<in> L"
| "backed cd closed L (RequestReturned t (Inl e)) \<longleftrightarrow> request_error L t e"
| "backed cd closed L (ReadAcceptReturned t (Inr d)) \<longleftrightarrow> SessionAccepted t d \<in> L"
| "backed cd closed L (ReadAcceptReturned t (Inl e)) \<longleftrightarrow> closed \<and> e = IOError NetErrClosed"
| "backed cd closed L (InvitationReturned (Inr (info, d))) \<longleftrightarrow> SessionInvitation (si_Description info) (si_PeerIdentity info) d \<in> L"
| "backed cd closed L (InvitationReturned (Inl e)) \<longleftrightarrow> closed \<and> e = IOError NetErrClosed"
| "backed cd closed L (AcceptReturned i None) \<longleftrightarrow> SessionEstablished i \<in> L"
| "backed cd closed L (AcceptReturned i (Some e)) \<longleftrightarrow> accept_error cd closed L i e"
| "backed cd closed L _ \<longleftrightarrow> True"

fun result_message :: "establishedOrFailed \<Rightarrow> relay_message" where
  "result_message (Established i) = SessionEstablished i"
| "result_message (Failed r p) = SessionFailed r p"

fun backed_send :: "relay_message set \<Rightarrow> handler_send \<Rightarrow> bool" where
  "backed_send L (SendResponse t (Inr d)) \<longleftrightarrow> SessionCreated d t \<in> L"
| "backed_send L (SendResponse t (Inl e)) \<longleftrightarrow> reported L t e"
| "backed_send L (SendAccept t d) \<longleftrightarrow> SessionAccepted t d \<in> L"
| "backed_send L (SendInvitation s i d) \<longleftrightarrow> SessionInvitation s i d \<in> L"
| "backed_send L (SendResult r) \<longleftrightarrow> result_message r \<in> L"

text \<open>What the request handler may offer to a call for a target.\<close>

fun backed_output :: "relay_message set \<Rightarrow> Identity \<Rightarrow> requestOutput \<Rightarrow> bool" where
  "backed_output L t (Inr d) \<longleftrightarrow> SessionCreated d t \<in> L"
| "backed_output L t (Inl e) \<longleftrightarrow> request_error L t e"

definition sends_inv :: "rclient \<Rightarrow> bool" where
  "sends_inv c \<longleftrightarrow>
     (\<forall>sends. rc_messageHandler c = MessageSend sends \<longrightarrow> (\<forall>x\<in>set sends. backed_send (set (rc_log c)) x))"

definition maps_inv :: "rclient \<Rightarrow> bool" where
  "maps_inv c \<longleftrightarrow>
     (\<forall>t n. rc_requests c (EncodeToString t) = Some n \<longrightarrow> call_kind c n = KRequest t) \<and>
     (\<forall>t n. rc_accepts c (EncodeToString t) = Some n \<longrightarrow> call_kind c n = KAccept t) \<and>
     (\<forall>t n. rc_results c (EncodeToString t) = Some n \<longrightarrow> call_kind c n = KResult t)"

definition handlers_inv :: "rclient \<Rightarrow> bool" where
  "handlers_inv c \<longleftrightarrow>
     (\<forall>n output. rc_requestHandler c = RequestOffer n output \<longrightarrow>
        (\<exists>t. call_kind c n = KRequest t \<and> backed_output (set (rc_log c)) t output)) \<and>
     (\<forall>n t d. rc_sessionHandler c = SessionSendAccept n t d \<longrightarrow>
        call_kind c n = KAccept t \<and> SessionAccepted t d \<in> set (rc_log c)) \<and>
     (\<forall>n p r. rc_sessionHandler c = SessionSendResult n p r \<longrightarrow>
        p = result_identity r \<and> call_kind c n = KResult p \<and> result_message r \<in> set (rc_log c))"

definition calls_inv :: "relay_codec \<Rightarrow> rclient \<Rightarrow> bool" where
  "calls_inv cd c \<longleftrightarrow> (\<forall>n x. rc_calls c n = Some x \<longrightarrow> backed cd (rc_done c) (set (rc_log c)) x)"

lemmas close_defs = client_Close_def close_select_def close_done_def close_end_def close_connection_def

lemmas client_defs =
  close_defs handle_newRequest_def offerRequestOutput_def handle_deleteRequest_def writeRequest_def
  writeRequest_body_def write_failed_def handleConnErr_def handle_waitAccept_def handle_waitResult_def
  sent_accept_def sent_result_def accept_write_def accept_write_body_def message_packet_def handle_response_def
  handle_newAccept_def handle_newResult_def Let_def

lemma client_put_keeps:
  "client_put p c = (err, c') \<Longrightarrow> rc_requests c' = rc_requests c \<and> rc_accepts c' = rc_accepts c \<and> rc_results c' = rc_results c \<and>
     rc_requestHandler c' = rc_requestHandler c \<and> rc_sessionHandler c' = rc_sessionHandler c \<and>
     rc_messageHandler c' = rc_messageHandler c \<and> rc_calls c' = rc_calls c \<and> rc_log c' = rc_log c"
  by (auto simp: client_put_def split: outcome.split_asm)

text \<open>The operations that write change nothing but calls, the connection and \<open>done\<close>.\<close>

definition duties :: "rclient \<Rightarrow> (string \<rightharpoonup> nat) \<times> (string \<rightharpoonup> nat) \<times> (string \<rightharpoonup> nat) \<times> request_handler \<times> session_handler \<times>
    message_handler \<times> relay_message list" where
  "duties c = (rc_requests c, rc_accepts c, rc_results c, rc_requestHandler c, rc_sessionHandler c, rc_messageHandler c, rc_log c)"

lemma duties_eqD:
  assumes "duties c = duties d"
  shows "rc_requests c = rc_requests d" "rc_accepts c = rc_accepts d" "rc_results c = rc_results d"
    "rc_requestHandler c = rc_requestHandler d" "rc_sessionHandler c = rc_sessionHandler d"
    "rc_messageHandler c = rc_messageHandler d" "rc_log c = rc_log d"
  using assms by (simp_all add: duties_def)

lemma offer_duties: "duties (offerRequestOutput n output c) = duties c"
  by (simp add: offerRequestOutput_def duties_def split: option.split call.split)

lemma client_put_duties: "client_put p c = (err, c') \<Longrightarrow> duties c' = duties c"
  using client_put_keeps [of p c err c'] by (simp add: duties_def)

lemma upd_duties [simp]: "duties (c\<lparr>rc_calls := x\<rparr>) = duties c" "duties (handleConnErr w e c) = duties c"
  by (simp_all add: duties_def handleConnErr_def)

lemma close_duties:
  "duties (client_Close n c) = duties c" "duties (close_select n b c) = duties c" "duties (close_done n b c) = duties c"
  "duties (close_connection n c) = duties c"
  by (simp_all add: close_defs duties_def split: prod.split)

lemma write_duties:
  "duties (writeRequest cd w t d n c) = duties c" "duties (writeRequest_body w p n c) = duties c"
  "duties (accept_write cd n i d c) = duties c" "duties (accept_write_body n i p c) = duties c"
  by (auto simp: writeRequest_def writeRequest_body_def write_failed_def accept_write_def accept_write_body_def
      offer_duties dest: client_put_duties split: sum.split prod.split option.split)

lemmas kept_duties = write_duties offer_duties close_duties
lemmas kept_log = kept_duties [THEN duties_eqD(7)]

lemma step_log:
  assumes "client_step cd c c'"
  shows "set (rc_log c) \<subseteq> set (rc_log c')"
  using assms
  by cases (auto simp: kept_log handle_newRequest_def handle_deleteRequest_def handle_waitAccept_def
      handle_waitResult_def sent_accept_def sent_result_def message_packet_def handle_response_def
      handle_newAccept_def handle_newResult_def Let_def split: option.split sum.split)

lemma offer_kind: "call_kind (offerRequestOutput n output c) m = call_kind c m"
  by (auto simp: offerRequestOutput_def kind_in_Some split: option.split call.split)

lemma handleConnErr_kind: "call_kind c w = KOther \<Longrightarrow> call_kind (handleConnErr w e c) m = call_kind c m"
  by (simp add: handleConnErr_def)

lemma close_kind:
  "call_kind c n = KOther \<Longrightarrow> call_kind (client_Close n c) m = call_kind c m"
  "call_kind c n = KOther \<Longrightarrow> call_kind (close_select n b c) m = call_kind c m"
  "call_kind c n = KOther \<Longrightarrow> call_kind (close_done n b c) m = call_kind c m"
  "call_kind c n = KOther \<Longrightarrow> call_kind (close_connection n c) m = call_kind c m"
  by (simp_all add: close_defs split: prod.split)

lemma write_kind:
  assumes "call_kind c m \<noteq> KOther"
  shows "call_kind c w = KOther \<Longrightarrow> call_kind (writeRequest cd w t d n c) m = call_kind c m"
    and "call_kind c w = KOther \<Longrightarrow> call_kind (writeRequest_body w p n c) m = call_kind c m"
    and "call_kind c w = KResult i \<Longrightarrow> call_kind (accept_write cd w i d c) m = call_kind c m"
    and "call_kind c w = KResult i \<Longrightarrow> call_kind (accept_write_body w i p c) m = call_kind c m"
  using assms
  by (auto simp: writeRequest_def writeRequest_body_def write_failed_def accept_write_def accept_write_body_def
      offer_kind handleConnErr_kind dest!: client_put_keeps
      split: sum.split prod.split option.split)

lemma step_kind:
  assumes "client_step cd c c'" and "call_kind c n \<noteq> KOther"
  shows "call_kind c' n = call_kind c n"
  using assms(1)
proof cases
  case (request_offer m res)
  then show ?thesis by (simp add: offer_kind)
next
  case (request_writes w target data m)
  then show ?thesis using write_kind(1) [OF assms(2)] by (simp add: kind_in_Some)
next
  case (request_writes_body w data m)
  then show ?thesis using write_kind(2) [OF assms(2)] by (simp add: kind_in_Some)
next
  case (accept_writes m initiator data)
  then show ?thesis using write_kind(3) [OF assms(2), of m initiator] by (simp add: kind_in_Some)
next
  case (accept_writes_body m initiator data)
  then show ?thesis using write_kind(4) [OF assms(2), of m initiator] by (simp add: kind_in_Some)
qed (use assms(2) in \<open>auto simp: kind_in_Some kind_in_None close_kind handle_newRequest_def handle_deleteRequest_def handle_waitAccept_def
      handle_waitResult_def sent_accept_def sent_result_def message_packet_def handle_response_def
      handle_newAccept_def handle_newResult_def Let_def split: option.split sum.split\<close>)

lemmas handler_defs =
  handle_newRequest_def handle_deleteRequest_def handle_waitAccept_def handle_waitResult_def
  sent_accept_def sent_result_def handle_response_def handle_newAccept_def handle_newResult_def Let_def

lemmas kept_fields = kept_duties [THEN duties_eqD(1)] kept_duties [THEN duties_eqD(2)] kept_duties [THEN duties_eqD(3)]
  kept_duties [THEN duties_eqD(4)] kept_duties [THEN duties_eqD(5)] kept_duties [THEN duties_eqD(6)]
  kept_duties [THEN duties_eqD(7)]

lemma step_maps:
  assumes "client_step cd c c'"
  shows "rc_requests c' x = Some n \<Longrightarrow> rc_requests c x = Some n \<or> (\<exists>t. x = EncodeToString t \<and> call_kind c n = KRequest t)"
    and "rc_accepts c' x = Some n \<Longrightarrow> rc_accepts c x = Some n \<or> (\<exists>t. x = EncodeToString t \<and> call_kind c n = KAccept t)"
    and "rc_results c' x = Some n \<Longrightarrow> rc_results c x = Some n \<or> (\<exists>t. x = EncodeToString t \<and> call_kind c n = KResult t)"
  using assms
  by (cases, auto simp: kept_fields handler_defs message_packet_def kind_in_Some split: option.split_asm sum.split_asm if_split_asm)+

lemma step_maps_inv:
  assumes "client_step cd c c'" and "maps_inv c"
  shows "maps_inv c'"
proof -
  note keep = step_kind [OF assms(1)] and inv = assms(2) [unfolded maps_inv_def]
  have "call_kind c' n = KRequest t" if "rc_requests c' (EncodeToString t) = Some n" for n t
    using step_maps(1) [OF assms(1) that] inv keep [of n] by auto
  moreover have "call_kind c' n = KAccept t" if "rc_accepts c' (EncodeToString t) = Some n" for n t
    using step_maps(2) [OF assms(1) that] inv keep [of n] by auto
  moreover have "call_kind c' n = KResult t" if "rc_results c' (EncodeToString t) = Some n" for n t
    using step_maps(3) [OF assms(1) that] inv keep [of n] by auto
  ultimately show ?thesis unfolding maps_inv_def by blast
qed

lemma reportedI: "SessionFailed reason t \<in> L \<Longrightarrow> reported L t (reasonToError reason)"
  by (auto simp: reported_def)

lemma reported_mono: "reported L t e \<Longrightarrow> L \<subseteq> L' \<Longrightarrow> reported L' t e"
  by (auto simp: reported_def)

lemma request_error_mono: "request_error L t e \<Longrightarrow> L \<subseteq> L' \<Longrightarrow> request_error L' t e"
  by (auto simp: request_error_def reported_mono)

lemma accept_error_mono: "accept_error cd closed L t e \<Longrightarrow> L \<subseteq> L' \<Longrightarrow> closed \<longrightarrow> closed' \<Longrightarrow> accept_error cd closed' L' t e"
  unfolding accept_error_def using reported_mono by blast

lemma backed_send_mono: "backed_send L x \<Longrightarrow> L \<subseteq> L' \<Longrightarrow> backed_send L' x"
  by (induction L x rule: backed_send.induct) (auto simp: reported_mono)

lemma backed_output_mono: "backed_output L t x \<Longrightarrow> L \<subseteq> L' \<Longrightarrow> backed_output L' t x"
  by (induction L t x rule: backed_output.induct) (auto simp: request_error_mono)

lemma backed_mono: "backed cd closed L x \<Longrightarrow> L \<subseteq> L' \<Longrightarrow> closed \<longrightarrow> closed' \<Longrightarrow> backed cd closed' L' x"
  by (induction cd closed L x rule: backed.induct) (auto simp: request_error_mono intro: accept_error_mono)

lemma client_put_done: "client_put p c = (err, c') \<Longrightarrow> rc_done c' = rc_done c"
  by (auto simp: client_put_def split: outcome.split_asm)

lemma offer_done [simp]: "rc_done (offerRequestOutput n output c) = rc_done c" "rc_done (handleConnErr w e c) = rc_done c"
  "rc_done (write_failed w n what c) = rc_done c"
  by (simp_all add: offerRequestOutput_def write_failed_def handleConnErr_def split: option.split call.split)

lemma write_done_kept [simp]:
  "rc_done (writeRequest cd w t d n c) = rc_done c" "rc_done (writeRequest_body w p n c) = rc_done c"
  "rc_done (accept_write cd n i d c) = rc_done c" "rc_done (accept_write_body n i p c) = rc_done c"
  by (auto simp: writeRequest_def writeRequest_body_def accept_write_def accept_write_body_def dest: client_put_done
      split: sum.split prod.split option.split)

lemma client_step_done: "client_step cd c c' \<Longrightarrow> rc_done c \<Longrightarrow> rc_done c'"
  by (erule client_step.cases)
    (simp_all add: close_defs handler_defs message_packet_def split: option.split sum.split prod.split)

lemma handleMessage_backed:
  "client_handleMessage m = Some sends \<Longrightarrow> x \<in> set sends \<Longrightarrow> m \<in> L \<Longrightarrow> backed_send L x"
  by (auto simp: client_handleMessage_def reportedI split: relay_message.split_asm)

lemma step_sends:
  assumes "client_step cd c c'" and "rc_messageHandler c' = MessageSend sends"
  shows "(\<exists>more. rc_messageHandler c = MessageSend (more @ sends)) \<or>
    (\<exists>m. m \<in> set (rc_log c') \<and> client_handleMessage m = Some sends)"
  using assms(1)
  by cases (use assms(2) in \<open>auto simp: kept_fields handler_defs message_packet_def split: option.split_asm sum.split_asm
      if_split_asm intro: exI [of _ "[]"] exI [of _ "[x]" for x]\<close>)

lemma step_sends_inv:
  assumes "client_step cd c c'" and "sends_inv c"
  shows "sends_inv c'"
  unfolding sends_inv_def
proof (intro allI impI ballI)
  fix sends x assume sends: "rc_messageHandler c' = MessageSend sends" and x: "x \<in> set sends"
  from step_sends [OF assms(1) sends] show "backed_send (set (rc_log c')) x"
  proof
    assume "\<exists>more. rc_messageHandler c = MessageSend (more @ sends)"
    then have "backed_send (set (rc_log c)) x" using assms(2) x unfolding sends_inv_def by auto
    then show ?thesis using step_log [OF assms(1)] by (rule backed_send_mono)
  qed (use handleMessage_backed x in blast)
qed

lemma step_handlers:
  assumes "client_step cd c c'"
  shows "rc_requestHandler c' = RequestOffer n res \<Longrightarrow> rc_requestHandler c = RequestOffer n res \<or>
      (\<exists>t. call_kind c n = KRequest t \<and> res = Inl (RelayError ErrAlreadyRequested)) \<or>
      (\<exists>t sends. rc_messageHandler c = MessageSend (SendResponse t res # sends) \<and> rc_requests c (EncodeToString t) = Some n)"
    and "rc_sessionHandler c' = SessionSendAccept n t a \<Longrightarrow> rc_sessionHandler c = SessionSendAccept n t a \<or>
      (\<exists>sends. rc_messageHandler c = MessageSend (SendAccept t a # sends) \<and> rc_accepts c (EncodeToString t) = Some n)"
    and "rc_sessionHandler c' = SessionSendResult n p r \<Longrightarrow> rc_sessionHandler c = SessionSendResult n p r \<or>
      p = result_identity r \<and>
      (\<exists>sends. rc_messageHandler c = MessageSend (SendResult r # sends) \<and> rc_results c (EncodeToString p) = Some n)"
  using assms
  by (cases, auto simp: kept_fields handler_defs message_packet_def kind_in_Some split: option.split_asm sum.split_asm if_split_asm)+

lemma backed_response: "backed_send L (SendResponse t res) \<Longrightarrow> backed_output L t res"
  by (cases res) (simp_all add: request_error_def)

lemma step_handlers_inv:
  assumes "client_step cd c c'" and "sends_inv c" and "maps_inv c" and "handlers_inv c"
  shows "handlers_inv c'"
proof -
  note keep = step_kind [OF assms(1)] and log = step_log [OF assms(1)]
  note inv = assms(4) [unfolded handlers_inv_def] and maps = assms(3) [unfolded maps_inv_def]
  have send: "backed_send (set (rc_log c)) x" if "rc_messageHandler c = MessageSend (x # sends)" for x sends
    using assms(2) that unfolding sends_inv_def by auto
  have "\<exists>t. call_kind c' n = KRequest t \<and> backed_output (set (rc_log c')) t res" if "rc_requestHandler c' = RequestOffer n res" for n res
  proof -
    have "\<exists>t. call_kind c n = KRequest t \<and> backed_output (set (rc_log c)) t res"
      using step_handlers(1) [OF assms(1) that]
    proof (elim disjE exE conjE)
      fix t sends assume "rc_messageHandler c = MessageSend (SendResponse t res # sends)" "rc_requests c (EncodeToString t) = Some n"
      then show ?thesis using maps send backed_response by fastforce
    qed (use inv in \<open>auto simp: request_error_def\<close>)
    then obtain t where t: "call_kind c n = KRequest t" "backed_output (set (rc_log c)) t res" by blast
    then have "call_kind c' n = KRequest t" using keep [of n] by simp
    then show ?thesis using backed_output_mono [OF t(2) log] by blast
  qed
  moreover have "call_kind c' n = KAccept t \<and> SessionAccepted t d \<in> set (rc_log c')"
    if "rc_sessionHandler c' = SessionSendAccept n t d" for n t d
  proof -
    have "call_kind c n = KAccept t \<and> SessionAccepted t d \<in> set (rc_log c)"
      using step_handlers(2) [OF assms(1) that] inv maps send by fastforce
    then show ?thesis using keep [of n] log by auto
  qed
  moreover have "p = result_identity r \<and> call_kind c' n = KResult p \<and> result_message r \<in> set (rc_log c')"
    if "rc_sessionHandler c' = SessionSendResult n p r" for n p r
  proof -
    have "p = result_identity r \<and> call_kind c n = KResult p \<and> result_message r \<in> set (rc_log c)"
      using step_handlers(3) [OF assms(1) that] inv maps send by fastforce
    then show ?thesis using keep [of n] log by auto
  qed
  ultimately show ?thesis unfolding handlers_inv_def by blast
qed

lemma offer_calls:
  "rc_calls (offerRequestOutput n res c) m = Some x \<Longrightarrow> rc_calls c m = Some x \<or>
     (\<exists>t. m = n \<and> rc_calls c n = Some (RequestWait t) \<and> x = RequestDelete t
        (case res of Inl e \<Rightarrow> Inl e | Inr d \<Rightarrow> Inr \<lparr>si_Description = d, si_PeerIdentity = t\<rparr>))"
  by (auto simp: offerRequestOutput_def split: option.split_asm call.split_asm if_split_asm)

lemma client_put_error: "client_put p c = (Some e, c') \<Longrightarrow> \<exists>conn data n conn'. conn_Write conn data = Return (n, Some e, conn')"
  by (auto simp: client_put_def split: outcome.split_asm)

lemma handleConnErr_calls: "rc_calls (handleConnErr w e c) m = Some x \<Longrightarrow> rc_calls c m = Some x \<or> x = CloseSelect False"
  by (auto simp: handleConnErr_def split: if_split_asm)

lemma write_failed_backed:
  assumes "\<And>n x. rc_calls c n = Some x \<Longrightarrow> backed cd closed L x" and "rc_calls (write_failed w n what c) m = Some x"
    and "what = ''failed to wrap request message'' \<or> what = ''failed to write request message''"
  shows "backed cd closed L x"
  using assms by (auto simp: write_failed_def request_error_def dest!: offer_calls split: if_split_asm)

lemma write_backed:
  assumes "\<And>n x. rc_calls c n = Some x \<Longrightarrow> backed cd closed L x"
  shows "rc_calls (writeRequest cd w t d n c) m = Some x \<Longrightarrow> backed cd closed L x"
    and "rc_calls (writeRequest_body w p n c) m = Some x \<Longrightarrow> backed cd closed L x"
    and "rc_calls (accept_write cd n i d c) m = Some x \<Longrightarrow> backed cd closed L x"
    and "rc_calls (accept_write_body n i p c) m = Some x \<Longrightarrow> backed cd closed L x"
proof -
  have put: "backed cd closed L x" if "client_put p c = (err, c1)" "rc_calls c1 m = Some x" for p err c1 m x
    using client_put_keeps [OF that(1)] that(2) assms by simp
  note failed = write_failed_backed [where cd = cd and closed = closed and L = L]
  show "backed cd closed L x" if x: "rc_calls (writeRequest cd w t d n c) m = Some x"
  proof (cases "relay_WrapMessage cd (RequestSession t d)")
    case (Inl e)
    then have "rc_calls (write_failed w n ''failed to wrap request message'' c) m = Some x" using x by (simp add: writeRequest_def)
    then show ?thesis by (rule write_failed_backed [rotated]) (use assms in simp_all)
  next
    case (Inr data)
    then show ?thesis using x assms
      by (auto simp: writeRequest_def dest!: handleConnErr_calls intro: failed [OF assms] failed [OF put] put
          split: sum.split_asm prod.split_asm option.split_asm if_split_asm)
  qed
  show "backed cd closed L x" if "rc_calls (writeRequest_body w p n c) m = Some x"
    using that
    by (auto simp: writeRequest_body_def dest!: handleConnErr_calls intro: failed [OF put] put split: prod.split_asm option.split_asm if_split_asm)
  show "backed cd closed L x" if "rc_calls (accept_write cd n i d c) m = Some x"
    using that assms by (auto simp: accept_write_def accept_error_def dest: client_put_error put
        split: sum.split_asm prod.split_asm option.split_asm if_split_asm)
  show "backed cd closed L x" if "rc_calls (accept_write_body n i p c) m = Some x"
    using that by (auto simp: accept_write_body_def accept_error_def dest: client_put_error put split: prod.split_asm option.split_asm if_split_asm)
qed

lemma close_calls:
  "rc_calls (client_Close n c) m = Some x \<Longrightarrow> rc_calls c m = Some x \<or> (\<forall>cd closed L. backed cd closed L x)"
  "rc_calls (close_select n b c) m = Some x \<Longrightarrow> rc_calls c m = Some x \<or> (\<forall>cd closed L. backed cd closed L x)"
  "rc_calls (close_done n b c) m = Some x \<Longrightarrow> rc_calls c m = Some x \<or> (\<forall>cd closed L. backed cd closed L x)"
  "rc_calls (close_connection n c) m = Some x \<Longrightarrow> rc_calls c m = Some x \<or> (\<forall>cd closed L. backed cd closed L x)"
  by (auto simp: close_defs split: if_split_asm prod.split_asm)

lemma step_calls_inv:
  assumes "client_step cd c c'" and "sends_inv c" and "handlers_inv c" and "calls_inv cd c"
  shows "calls_inv cd c'"
proof -
  have inv: "backed cd (rc_done c) (set (rc_log c)) x" if "rc_calls c n = Some x" for n x using assms(4) that by (simp add: calls_inv_def)
  have "backed cd (rc_done c) (set (rc_log c)) x \<or> backed cd (rc_done c') (set (rc_log c')) x" if x: "rc_calls c' n = Some x" for n x
    using assms(1)
  proof cases
    case (request_offer m res)
    obtain t where t: "call_kind c m = KRequest t" "backed_output (set (rc_log c)) t res" using request_offer assms(3) unfolding handlers_inv_def by blast
    then show ?thesis using request_offer x inv by (cases res) (fastforce simp: kind_in_Some dest!: offer_calls)+
  next
    case (request_writes w target data m)
    then show ?thesis using x write_backed(1) [OF inv] by simp
  next
    case (request_writes_body w data m)
    then show ?thesis using x write_backed(2) [OF inv] by simp
  next
    case (accept_writes m initiator data)
    then show ?thesis using x write_backed(3) [OF inv] by simp
  next
    case (accept_writes_body m initiator data)
    then show ?thesis using x write_backed(4) [OF inv] by simp
  next
    case (request_delete m target r)
    then show ?thesis using x inv inv [OF request_delete(3)]
      by (cases r) (auto simp: handle_deleteRequest_def Let_def split: if_split_asm)
  next
    case (accept_arrives m accepted data target)
    then show ?thesis using x inv assms(3)
      by (auto simp: sent_accept_def handlers_inv_def kind_in_Some split: if_split_asm)
  next
    case (result_arrives m peer result initiator)
    then show ?thesis using x inv assms(3)
      by (cases result) (auto simp: sent_result_def handlers_inv_def kind_in_Some accept_error_def reported_def split: if_split_asm)
  next
    case (call_Close m)
    then show ?thesis using x close_calls(1) inv by blast
  next
    case (close_selects m b)
    then show ?thesis using x close_calls(2) inv by blast
  next
    case (close_closes m b)
    then show ?thesis using x close_calls(3) inv by blast
  next
    case (close_conns m)
    then show ?thesis using x close_calls(4) inv by blast
  next
    case (message_closes m)
    then show ?thesis using x close_calls(1) [of m c n x] inv by auto
  next
    case (message_invitation session initiator data sends m)
    then show ?thesis using x inv assms(2) by (auto simp: sends_inv_def split: if_split_asm)
  qed (use x inv in \<open>auto simp: request_error_def accept_error_def handle_newRequest_def handle_waitAccept_def handle_waitResult_def
      handle_response_def handle_newAccept_def handle_newResult_def message_packet_def Let_def
      split: option.split_asm sum.split_asm if_split_asm\<close>)
  then show ?thesis using step_log [OF assms(1)] client_step_done [OF assms(1)] unfolding calls_inv_def by (meson backed_mono)
qed

definition client_inv :: "relay_codec \<Rightarrow> rclient \<Rightarrow> bool" where
  "client_inv cd c \<longleftrightarrow> sends_inv c \<and> maps_inv c \<and> handlers_inv c \<and> calls_inv cd c"

lemma client_inv_initial: "client_inv cd (NewClientProtocol conn)"
  by (simp add: client_inv_def NewClientProtocol_def sends_inv_def maps_inv_def handlers_inv_def calls_inv_def)

interpretation relay_client: step_invariant "client_step cd" "client_inv cd" for cd
  by unfold_locales (auto simp: client_inv_def intro: step_sends_inv step_maps_inv step_handlers_inv step_calls_inv)

section \<open>Properties\<close>

text \<open>
  C13. What the calls of the relay client return, in every run and whatever other calls run at the same time. A session that
  \<open>Request\<close> returns is one that the server has said to have created for its target, and the data of \<open>ReadAccept\<close>, the invitation of \<open>ReadInvitation\<close> and the
  success of \<open>Accept\<close> are those of a message that the server has sent for the same peer. An error of \<open>Request\<close> or \<open>Accept\<close> is that of a failure
  which the server has reported for this peer, or one of this side: the context, another request in progress, a message that could
  not be made or written, or the end of the client; \<open>ReadAccept\<close> and \<open>ReadInvitation\<close> fail only when the client has ended. Messages are told apart by the
  peer only, so that the message may be the answer to an earlier call for the same peer (\<open>stale_session_returned\<close>).
\<close>

theorem client_answers_are_authentic:
  assumes "client_run cd (NewClientProtocol conn) c" and "rc_calls c n = Some x"
  shows "(x = RequestReturned t (Inr info) \<longrightarrow>
      si_PeerIdentity info = t \<and> SessionCreated (si_Description info) t \<in> set (rc_log c)) \<and>
    (x = RequestReturned t (Inl e) \<longrightarrow>
      (\<exists>reason. SessionFailed reason t \<in> set (rc_log c) \<and> e = reasonToError reason) \<or> e = RelayError ErrAlreadyRequested \<or>
      e = IOError ContextCanceled \<or> e = IOError DeadlineExceeded \<or>
      e = ErrorString ''failed to wrap request message'' \<or> e = ErrorString ''failed to write request message'') \<and>
    (x = ReadAcceptReturned t (Inr d) \<longrightarrow> SessionAccepted t d \<in> set (rc_log c)) \<and>
    (x = ReadAcceptReturned t (Inl e) \<longrightarrow> rc_done c \<and> e = IOError NetErrClosed) \<and>
    (x = InvitationReturned (Inr (info, d)) \<longrightarrow>
      SessionInvitation (si_Description info) (si_PeerIdentity info) d \<in> set (rc_log c)) \<and>
    (x = InvitationReturned (Inl e) \<longrightarrow> rc_done c \<and> e = IOError NetErrClosed) \<and>
    (x = AcceptReturned t None \<longrightarrow> SessionEstablished t \<in> set (rc_log c)) \<and>
    (x = AcceptReturned t (Some e) \<longrightarrow>
      (\<exists>reason. SessionFailed reason t \<in> set (rc_log c) \<and> e = reasonToError reason) \<or> rc_done c \<and> e = IOError NetErrClosed \<or>
      (\<exists>data. relay_WrapMessage cd (AcceptSession t data) = Inl e) \<or> (\<exists>data. LengthOf data = Inl e) \<or>
      (\<exists>conn data k conn'. conn_Write conn data = Return (k, Some e, conn')))"
proof -
  have "calls_inv cd c" using relay_client.run_inv [OF assms(1) client_inv_initial] by (simp add: client_inv_def)
  then have b: "backed cd (rc_done c) (set (rc_log c)) x" using assms(2) by (simp add: calls_inv_def)
  show ?thesis by (intro conjI impI; insert b; simp add: request_error_def accept_error_def reported_def)
qed

text \<open>
  A second \<open>Request\<close> for the same target, while the first is still waiting, is refused, but its
  cleanup removes the entry of the first one. When the first \<open>Request\<close> ends, the request
  handler panics.
\<close>

theorem overlapping_requests_panic:
  assumes "rc_requestHandler c = RequestSelect" and "rc_requests c (EncodeToString t) = Some m"
    and "rc_calls c m = Some (RequestWait t)" and "rc_calls c n = Some (RequestSend t d)" and "n \<noteq> m" and "rc_calls c w = None"
  shows "\<exists>c'. client_run cd c c' \<and> rc_calls c' n = Some (RequestReturned t (Inl (RelayError ErrAlreadyRequested))) \<and>
    rc_requestHandler c' = RequestPanicked ''attempting to close a request which does not exist''"
proof -
  let ?e = "Inl (RelayError ErrAlreadyRequested)"
  let ?c1 = "(set_call n (RequestEnter t) c)\<lparr>rc_requestHandler := RequestOffer n ?e\<rparr>"
  let ?c2 = "set_call n (RequestWait t) ?c1"
  let ?c3 = "set_call n (RequestDelete t ?e) (?c2\<lparr>rc_requestHandler := RequestSelect\<rparr>)"
  let ?c4 = "(set_call n (RequestReturned t ?e) ?c3)\<lparr>rc_requests := (rc_requests c)(EncodeToString t := None)\<rparr>"
  let ?c5 = "set_call m (RequestDelete t (Inl (IOError ContextCanceled))) ?c4"
  let ?c6 = "(set_call m (RequestReturned t (Inl (IOError ContextCanceled))) ?c5)
    \<lparr>rc_requestHandler := RequestPanicked ''attempting to close a request which does not exist''\<rparr>"
  have "client_step cd c ?c1"
    using client_step.new_request [OF assms(1,4,6), of cd] assms(2) by (simp add: handle_newRequest_def Let_def)
  moreover have "client_step cd ?c1 ?c2"
    using client_step.request_enters [of ?c1 n t cd] by simp
  moreover have "client_step cd ?c2 ?c3"
    using client_step.request_offer [of ?c2 n ?e cd] by (simp add: offerRequestOutput_def)
  moreover have "client_step cd ?c3 ?c4"
    using client_step.request_delete [of ?c3 n t ?e cd] assms(2) by (simp add: handle_deleteRequest_def Let_def)
  ultimately have "client_run cd c ?c4" by (rule run_four)
  moreover have "client_step cd ?c4 ?c5"
    using client_step.request_context [of ?c4 m t "IOError ContextCanceled" cd] assms(3,5) by simp
  moreover have "client_step cd ?c5 ?c6"
    using client_step.request_delete [of ?c5 m t "Inl (IOError ContextCanceled)" cd]
    by (simp add: handle_deleteRequest_def Let_def)
  ultimately have "client_run cd c ?c6" by (meson rtranclp.rtrancl_into_rtrancl)
  then show ?thesis using assms(5) by (intro exI [of _ ?c6]) simp
qed

text \<open>
  An answer that comes too late goes to the next call: when a \<open>Request\<close> is given up before its answer is handled, and another one for the same target has been
  registered by then, the other one returns the session of the first.
\<close>

lemma stale_session_returned:
  assumes "rc_messageHandler c = MessageSend [SendResponse t (Inr session)]" and "rc_requestHandler c = RequestSelect"
    and "rc_requests c (EncodeToString t) = Some n" and "rc_calls c n = Some (RequestWait t)"
    and "rc_calls c m = None" and "rc_calls c w = None" and "m \<noteq> w"
  shows "\<exists>c'. client_run cd c c' \<and> rc_calls c' n = Some (RequestReturned t (Inl (IOError DeadlineExceeded))) \<and>
    rc_calls c' m = Some (RequestReturned t (Inr \<lparr>si_Description = session, si_PeerIdentity = t\<rparr>))"
proof -
  let ?e = "Inl (IOError DeadlineExceeded)" and ?s = "EncodeToString t"
  let ?c1 = "set_call n (RequestDelete t ?e) c"
  let ?c2 = "(set_call n (RequestReturned t ?e) c)\<lparr>rc_requests := (rc_requests c)(?s := None)\<rparr>"
  let ?c3 = "set_call m (RequestSend t d) ?c2"
  let ?c4 = "set_call w (RequestWriting t d m) ((set_call m (RequestEnter t) ?c3)\<lparr>rc_requests := (rc_requests c)(?s \<mapsto> m)\<rparr>)"
  let ?c5 = "set_call m (RequestWait t) ?c4"
  let ?c6 = "?c5\<lparr>rc_messageHandler := MessageSend [], rc_requestHandler := RequestOffer m (Inr session)\<rparr>"
  let ?r = "Inr \<lparr>si_Description = session, si_PeerIdentity = t\<rparr>"
  let ?c7 = "set_call m (RequestDelete t ?r) (?c6\<lparr>rc_requestHandler := RequestSelect\<rparr>)"
  let ?c8 = "(set_call m (RequestReturned t ?r) ?c7)\<lparr>rc_requests := (rc_requests c)(?s := None)\<rparr>"
  have nm: "n \<noteq> m" "n \<noteq> w" using assms(4-6) by auto
  have "client_step cd c ?c1" using client_step.request_context [OF assms(4), of "IOError DeadlineExceeded" cd] by simp
  moreover have "client_step cd ?c1 ?c2"
    using client_step.request_delete [of ?c1 n t ?e cd] assms(2,3) by (simp add: handle_deleteRequest_def Let_def)
  moreover have "client_step cd ?c2 ?c3" using client_step.call_Request [of ?c2 m cd t d] assms(5) nm by simp
  moreover have "client_step cd ?c3 ?c4"
    using client_step.new_request [of ?c3 m t d w cd] assms(2,6,7) nm by (simp add: handle_newRequest_def Let_def)
  ultimately have "client_run cd c ?c4" by (rule run_four)
  moreover have "client_step cd ?c4 ?c5" using client_step.request_enters [of ?c4 m t cd] assms(7) by simp
  moreover have "client_step cd ?c5 ?c6"
    using client_step.message_response [of ?c5 t "Inr session" "[]" cd] assms(1,2) by (simp add: handle_response_def)
  moreover have "client_step cd ?c6 ?c7"
    using client_step.request_offer [of ?c6 m "Inr session" cd] by (simp add: offerRequestOutput_def)
  moreover have "client_step cd ?c7 ?c8"
    using client_step.request_delete [of ?c7 m t ?r cd] by (simp add: handle_deleteRequest_def Let_def)
  ultimately have "client_run cd c ?c8" by (meson rtranclp.rtrancl_into_rtrancl)
  then show ?thesis using nm assms(7) by (intro exI [of _ ?c8]) simp
qed

text \<open>Two goroutines that close the client, one of them perhaps the message handler, can both find it open; the second one panics.\<close>

lemma concurrent_closes_panic:
  assumes "\<not> rc_done c" and "rc_calls c n = Some (CloseSelect a)" and "rc_calls c m = Some (CloseSelect b)" and "n \<noteq> m"
  shows "\<exists>c'. client_run cd c c' \<and> rc_calls c' m = Some ClosePanicked"
proof -
  let ?c1 = "close_select n a c"
  let ?c2 = "close_select m b ?c1"
  let ?c3 = "close_done n a ?c2"
  let ?c4 = "close_done m b ?c3"
  have "client_step cd c ?c1" by (rule client_step.close_selects [OF assms(2)])
  moreover have "client_step cd ?c1 ?c2" by (rule client_step.close_selects) (use assms in \<open>simp add: close_select_def\<close>)
  moreover have "client_step cd ?c2 ?c3" by (rule client_step.close_closes) (use assms in \<open>simp add: close_select_def\<close>)
  moreover have "client_step cd ?c3 ?c4" by (rule client_step.close_closes) (use assms in \<open>simp add: close_select_def close_done_def close_end_def\<close>)
  ultimately have "client_run cd c ?c4" by (rule run_four)
  moreover have "rc_calls ?c4 m = Some ClosePanicked" using assms by (simp add: close_select_def close_done_def close_end_def)
  ultimately show ?thesis by blast
qed

lemma failed_returned:
  "rc_calls (handleConnErr w e c) m = Some (RequestReturned i r) \<Longrightarrow> rc_calls c m = Some (RequestReturned i r)"
  "rc_calls (write_failed w n what c) m = Some (RequestReturned i r) \<Longrightarrow> rc_calls c m = Some (RequestReturned i r)"
  by (auto simp: write_failed_def dest!: handleConnErr_calls offer_calls split: if_split_asm)

lemma put_returned:
  "client_put p c = (err, c') \<Longrightarrow> rc_calls c' m = Some (RequestReturned i r) \<Longrightarrow> rc_calls c m = Some (RequestReturned i r)"
  using client_put_keeps by fastforce

lemma write_returned:
  "rc_calls (writeRequest cd w t d n c) m = Some (RequestReturned i r) \<Longrightarrow> rc_calls c m = Some (RequestReturned i r)"
  "rc_calls (writeRequest_body w p n c) m = Some (RequestReturned i r) \<Longrightarrow> rc_calls c m = Some (RequestReturned i r)"
  "rc_calls (accept_write cd n j d c) m = Some (RequestReturned i r) \<Longrightarrow> rc_calls c m = Some (RequestReturned i r)"
  "rc_calls (accept_write_body n j p c) m = Some (RequestReturned i r) \<Longrightarrow> rc_calls c m = Some (RequestReturned i r)"
  by (auto simp: writeRequest_def writeRequest_body_def accept_write_def accept_write_body_def dest: put_returned dest!: failed_returned
      split: sum.split_asm prod.split_asm option.split_asm if_split_asm)

lemma close_returned:
  "rc_calls (client_Close n c) m = Some (RequestReturned i r) \<Longrightarrow> rc_calls c m = Some (RequestReturned i r)"
  "rc_calls (close_select n b c) m = Some (RequestReturned i r) \<Longrightarrow> rc_calls c m = Some (RequestReturned i r)"
  "rc_calls (close_done n b c) m = Some (RequestReturned i r) \<Longrightarrow> rc_calls c m = Some (RequestReturned i r)"
  "rc_calls (close_connection n c) m = Some (RequestReturned i r) \<Longrightarrow> rc_calls c m = Some (RequestReturned i r)"
  by (auto simp: close_defs split: if_split_asm prod.split_asm)

lemma step_stopped:
  assumes "client_step cd c c'" and "rc_requestHandler c = RequestStopped"
  shows "rc_requestHandler c' = RequestStopped"
    and "rc_calls c' n = Some (RequestReturned t r) \<Longrightarrow> rc_calls c n = Some (RequestReturned t r)"
  using assms
  by (cases, auto simp: kept_fields handler_defs message_packet_def dest: write_returned close_returned
      split: option.split_asm sum.split_asm if_split_asm option.split sum.split)+

text \<open>
  When the client was closed while \<open>Request\<close> is running, so that the request handler has
  stopped, this call never returns: it does not watch \<open>done\<close>, and not even its context helps, since
  it still has to hand its cleanup to the handler.
\<close>

theorem closed_client_hangs_Request:
  assumes "client_run cd c c'" and "rc_requestHandler c = RequestStopped" and "rc_calls c n = Some x"
    and "x = RequestSend t data \<or> x = RequestEnter t \<or> x = RequestWait t \<or> x = RequestDelete t res"
  shows "\<forall>r. rc_calls c' n \<noteq> Some (RequestReturned t r)"
proof -
  have "rc_requestHandler c' = RequestStopped \<and> (\<forall>r. rc_calls c' n \<noteq> Some (RequestReturned t r))"
    using assms(1)
  proof (induction rule: rtranclp_induct)
    case base
    show ?case using assms(2-4) by auto
  next
    case (step d e)
    then show ?case using step_stopped [of cd d e] by blast
  qed
  then show ?thesis by blast
qed

section \<open>A run\<close>

definition asked :: rclient where
  "asked = (NewClientProtocol answered_conn)\<lparr>rc_requests := [EncodeToString [5] \<mapsto> 0],
     rc_calls := [0 \<mapsto> RequestWait [5], 1 \<mapsto> RequestSend [5] [7]]\<rparr>"

definition accepting_conn :: conn where
  "accepting_conn = answered_conn\<lparr>c_in := [[0, 6, 0], [0, 0, 8, 5, 7]]\<rparr>"

lemma accepting_run:
  "\<exists>c. client_run short_codec (NewClientProtocol accepting_conn) c \<and>
     rc_calls c 0 = Some (ReadAcceptReturned [5] (Inr [7]))"
proof -
  let ?c0 = "NewClientProtocol accepting_conn"
  let ?c1 = "set_call 0 (ReadAcceptSend [5]) ?c0"
  let ?c2 = "handle_waitAccept 0 [5] ?c1"
  have "conn_pending accepting_conn = frame [0, 0, 0, 8, 5, 7] @ []"
    by (simp add: accepting_conn_def answered_conn_def conn_pending_def frame_def PutUint_eval)
  then obtain conn where conn: "DecodeFrom conn_Read accepting_conn = Return ([0, 0, 0, 8, 5, 7], None, conn)"
    using net_stream.DecodeFrom_frame [of accepting_conn "[0, 0, 0, 8, 5, 7]" "[]"] by (auto simp: packet_consts)
  have unwrap: "relay_UnwrapMessage short_codec [0, 0, 0, 8, 5, 7] = Inr (SessionAccepted [5] [7])"
    by (simp add: relay_UnwrapMessage_def short_codec_def relay_NewMessage_def get_be_def)
  let ?c3 = "?c2\<lparr>rc_conn := conn, rc_messageHandler := MessageSend [SendAccept [5] [7]], rc_log := [SessionAccepted [5] [7]]\<rparr>"
  let ?c4 = "handle_newAccept [5] [7] (?c3\<lparr>rc_messageHandler := MessageSend []\<rparr>)"
  have "client_step short_codec ?c0 ?c1"
    by (rule client_step.call_ReadAccept) (simp add: NewClientProtocol_def)
  moreover have "client_step short_codec ?c1 ?c2"
    by (rule client_step.wait_accept) (simp_all add: NewClientProtocol_def)
  moreover have "client_step short_codec ?c2 ?c3"
    using client_step.message_reads [of ?c2 "[0, 0, 0, 8, 5, 7]" None conn short_codec] conn unwrap
    by (simp add: NewClientProtocol_def handle_waitAccept_def message_packet_def client_handleMessage_def Let_def)
  moreover have "client_step short_codec ?c3 ?c4"
    by (rule client_step.message_accept) (simp_all add: NewClientProtocol_def handle_waitAccept_def Let_def)
  ultimately have "client_run short_codec ?c0 ?c4" by (rule run_four)
  moreover have "client_step short_codec ?c4 (sent_accept 0 [5] [5] [7] ?c4)"
    by (rule client_step.accept_arrives) (simp_all add: NewClientProtocol_def handle_waitAccept_def handle_newAccept_def Let_def)
  ultimately have "client_run short_codec ?c0 (sent_accept 0 [5] [5] [7] ?c4)" by (rule rtranclp.rtrancl_into_rtrancl)
  then show ?thesis by (intro exI [of _ "sent_accept 0 [5] [5] [7] ?c4"]) (simp add: sent_accept_def)
qed

theorem client_answers_are_authentic_witness:
  "\<exists>c. client_run short_codec (NewClientProtocol accepting_conn) c \<and> SessionAccepted [5] [7] \<in> set (rc_log c)"
proof -
  obtain c where c: "client_run short_codec (NewClientProtocol accepting_conn) c"
    "rc_calls c 0 = Some (ReadAcceptReturned [5] (Inr [7]))"
    using accepting_run by blast
  from client_answers_are_authentic [OF this] this show ?thesis by blast
qed

theorem overlapping_requests_panic_witness:
  "\<exists>c'. client_run short_codec asked c' \<and>
     rc_requestHandler c' = RequestPanicked ''attempting to close a request which does not exist''"
  using overlapping_requests_panic [of asked "[5]" 0 1 "[7]" 2 short_codec]
  by (auto simp: asked_def NewClientProtocol_def)

theorem closed_client_hangs_Request_witness:
  "\<forall>r. rc_calls (asked\<lparr>rc_requestHandler := RequestStopped\<rparr>) 0 \<noteq> Some (RequestReturned [5] r)"
  using closed_client_hangs_Request [of short_codec "asked\<lparr>rc_requestHandler := RequestStopped\<rparr>"
      "asked\<lparr>rc_requestHandler := RequestStopped\<rparr>" 0 "RequestWait [5]" "[5]"]
  by (simp add: asked_def)

end
