(* ===== verification/Noise.thy ===== *)
theory Noise
  imports Secure
begin

text \<open>
  \<open>lib/secure/patterns.go\<close>, the interface of the Noise library (\<open>github.com/flynn/noise\<close>) that the relay client
  and the local client use for their handshakes, as a record of functions, and the sequencing of
  calls that may fail.
\<close>

section \<open>The Noise library\<close>

datatype MessagePattern =
  MessagePatternS | MessagePatternE | MessagePatternDHEE | MessagePatternDHES | MessagePatternDHSE | MessagePatternDHSS | MessagePatternPSK

record HandshakePattern =
  hp_Name :: string
  hp_InitiatorPreMessages :: "MessagePattern list"
  hp_ResponderPreMessages :: "MessagePattern list"
  hp_Messages :: "MessagePattern list list"

definition HandshakeXK1fallback :: HandshakePattern where
  "HandshakeXK1fallback = \<lparr>
     hp_Name = ''XK1fallback'',
     hp_InitiatorPreMessages = [MessagePatternS],
     hp_ResponderPreMessages = [MessagePatternE],
     hp_Messages = [
       [MessagePatternE, MessagePatternDHEE, MessagePatternDHSE],
       [MessagePatternS, MessagePatternDHES]]\<rparr>"

text \<open>The pattern of the relay client is one of the library's own.\<close>

datatype pattern = HandshakeKK | Pattern HandshakePattern

text \<open>
  The fields of \<open>noise.Config\<close> that differ between the handshakes of the program. The state of a
  handshake yields its two ciphers with the last message, before that they are nil.
\<close>

record NoiseConfig =
  cfg_Pattern :: pattern
  cfg_Initiator :: bool
  cfg_Prologue :: bytes
  cfg_StaticKeypair :: "X25519Key \<times> X25519Key"
  cfg_EphemeralKeypair :: "(X25519Key \<times> X25519Key) option"
  cfg_PeerStatic :: "X25519Key option"
  cfg_PeerEphemeral :: "bytes option"

record ('h, 'c) noise =
  NewHandshakeState :: "NoiseConfig \<Rightarrow> error + 'h"
  WriteMessage :: "'h \<Rightarrow> error + bytes \<times> 'c option \<times> 'c option \<times> 'h"
  ReadMessage :: "'h \<Rightarrow> bytes \<Rightarrow> error + 'c option \<times> 'c option \<times> 'h"
  PeerStatic :: "'h \<Rightarrow> X25519Key option"
  EdPrivateKeyToX25519 :: "Key \<Rightarrow> X25519Key"
  EdPublicKeyToX25519 :: "Identity \<Rightarrow> X25519Key option"

text \<open>A call that returns a value or an error, followed by the usual \<open>if err != nil { return }\<close>.\<close>

definition ebind :: "('e + 'a) outcome \<Rightarrow> ('a \<Rightarrow> ('e + 'b) outcome) \<Rightarrow> ('e + 'b) outcome" where
  "ebind m f = obind m (\<lambda>r. case r of Inl e \<Rightarrow> Return (Inl e) | Inr x \<Rightarrow> f x)"

lemma ebind_simps [simp]:
  "ebind (Return (Inl e)) f = Return (Inl e)" "ebind (Return (Inr x)) f = f x"
  "ebind (Panic p) f = Panic p" "ebind Diverge f = Diverge"
  by (simp_all add: ebind_def)

lemma ebind_eq_Inr: "ebind m f = Return (Inr y) \<longleftrightarrow> (\<exists>x. m = Return (Inr x) \<and> f x = Return (Inr y))"
  by (cases m) (auto simp: ebind_def split: sum.split_asm)

end
