(* ===== verification/Net_Addr.thy ===== *)
theory Net_Addr
  imports Prelude
begin

text \<open>Addresses as package \<open>net\<close> of the standard library writes and reads them: a host, possibly in brackets, a colon and a port.\<close>

definition JoinHostPort :: "string \<Rightarrow> string \<Rightarrow> string" where
  "JoinHostPort host port =
     (if CHR '':'' \<in> set host then CHR ''['' # host @ CHR '']'' # CHR '':'' # port else host @ CHR '':'' # port)"

definition lastIndex :: "char \<Rightarrow> string \<Rightarrow> nat option" where
  "lastIndex c s = (if c \<in> set s then Some (length s - 1 - length (takeWhile (\<lambda>x. x \<noteq> c) (rev s))) else None)"

definition firstIndex :: "char \<Rightarrow> string \<Rightarrow> nat option" where
  "firstIndex c s = (if c \<in> set s then Some (length (takeWhile (\<lambda>x. x \<noteq> c) s)) else None)"

text \<open>\<open>SplitHostPort\<close>: the port begins after the last colon.\<close>

definition split_rest :: "string \<Rightarrow> string \<Rightarrow> nat \<Rightarrow> nat \<Rightarrow> nat \<Rightarrow> error + string \<times> string" where
  "split_rest hostport host i j k =
     (if CHR ''['' \<in> set (drop j hostport) then Inl (ErrorString ''unexpected '[' in address'')
      else if CHR '']'' \<in> set (drop k hostport) then Inl (ErrorString ''unexpected ']' in address'')
      else Inr (host, drop (i + 1) hostport))"

definition SplitHostPort :: "string \<Rightarrow> error + string \<times> string" where
  "SplitHostPort hostport =
     (case lastIndex CHR '':'' hostport of
        None \<Rightarrow> Inl (ErrorString ''missing port in address'')
      | Some i \<Rightarrow>
          if hd hostport = CHR ''['' then
            (case firstIndex CHR '']'' hostport of
               None \<Rightarrow> Inl (ErrorString ''missing ']' in address'')
             | Some e \<Rightarrow>
                 if e + 1 = length hostport then Inl (ErrorString ''missing port in address'')
                 else if e + 1 = i then split_rest hostport (take (e - 1) (drop 1 hostport)) i 1 (e + 1)
                 else if hostport ! (e + 1) = CHR '':'' then Inl (ErrorString ''too many colons in address'')
                 else Inl (ErrorString ''missing port in address''))
          else if CHR '':'' \<in> set (take i hostport) then Inl (ErrorString ''too many colons in address'')
          else split_rest hostport (take i hostport) i 0 0)"

lemma SplitHostPort_Nil: "SplitHostPort [] = Inl (ErrorString ''missing port in address'')"
  by (simp add: SplitHostPort_def lastIndex_def)

lemma takeWhile_until: "c \<notin> set xs \<Longrightarrow> takeWhile (\<lambda>x. x \<noteq> c) (xs @ c # ys) = xs"
  by (induction xs) auto

lemma lastIndex_append: "c \<notin> set ys \<Longrightarrow> lastIndex c (xs @ c # ys) = Some (length xs)"
  using takeWhile_until [of c "rev ys" "rev xs"] by (simp add: lastIndex_def)

lemma firstIndex_append: "c \<notin> set xs \<Longrightarrow> firstIndex c (xs @ c # ys) = Some (length xs)"
  by (simp add: firstIndex_def takeWhile_until)

text \<open>An address that was joined is split into the same host and port.\<close>

lemma SplitHostPort_JoinHostPort:
  assumes "CHR '':'' \<notin> set port" and "CHR ''['' \<notin> set host \<union> set port" and "CHR '']'' \<notin> set host \<union> set port"
  shows "SplitHostPort (JoinHostPort host port) = Inr (host, port)"
proof (cases "CHR '':'' \<in> set host")
  case True
  let ?a = "(CHR ''['' # host @ [CHR '']'']) @ CHR '':'' # port"
  have "lastIndex CHR '':'' ?a = Some (length host + 2)" using lastIndex_append [OF assms(1), of "CHR ''['' # host @ [CHR '']'']"] by simp
  moreover have "firstIndex CHR '']'' ?a = Some (length host + 1)"
    using firstIndex_append [of "CHR '']''" "CHR ''['' # host" "CHR '':'' # port"] assms(3) by simp
  ultimately show ?thesis using True assms by (simp add: SplitHostPort_def JoinHostPort_def split_rest_def)
next
  case False
  have "hd (host @ CHR '':'' # port) \<noteq> CHR ''[''" using assms(2) by (cases host) auto
  then show ?thesis using False assms lastIndex_append [OF assms(1), of host]
    by (simp add: SplitHostPort_def JoinHostPort_def split_rest_def)
qed

end
