(* ===== verification/Relay_Dial.thy ===== *)
theory Relay_Dial
  imports Relay_Client_Props Noise Net_Addr
begin

text \<open>
  \<open>lib/relay/client.go\<close> and \<open>lib/relay/server.go\<close>: the calls that join the relay protocol, the Noise
  handshake and the encrypted connection, and the listeners of the server. The Noise library,
  the curve conversions and dialling are parameters. The lemmas show with whom a connection is
  made and that both ends use the same two ciphers.
\<close>

section \<open>The client\<close>

record relay_Client =
  cl_host :: string
  cl_protocol :: rclient
  cl_key :: KeyPair

text \<open>\<open>Dial\<close>, given the certificate of the key pair. The context of \<open>Start\<close> is never done.\<close>

definition Dial ::
  "relay_codec \<Rightarrow> (KeyPair \<Rightarrow> error + 'cert) \<Rightarrow> (string \<Rightarrow> 'cert \<Rightarrow> error + conn) \<Rightarrow> KeyPair \<Rightarrow> string \<Rightarrow> string \<Rightarrow> (error + relay_Client) outcome" where
  "Dial cd certificate tls_Dial key host port =
     ebind (Return (certificate key)) (\<lambda>cert.
     let addr = JoinHostPort host port in
     ebind (Return (tls_Dial addr cert)) (\<lambda>conn.
     obind (client_Start cd conn None) (\<lambda>(err, conn').
       case err of
         Some e \<Rightarrow> Return (Inl e)
       | None \<Rightarrow> Return (Inr \<lparr>cl_host = host, cl_protocol = NewClientProtocol conn', cl_key = key\<rparr>))))"

definition kk_config :: "('h, 'c) noise \<Rightarrow> bool \<Rightarrow> KeyPair \<Rightarrow> Identity \<Rightarrow> NoiseConfig outcome" where
  "kk_config nz initiator key peer =
     obind (KeyPair_Noise (EdPrivateKeyToX25519 nz) (EdPublicKeyToX25519 nz) key) (\<lambda>static.
       obind (Identity_X25519 (EdPublicKeyToX25519 nz) peer) (\<lambda>peerStatic.
         Return \<lparr>cfg_Pattern = HandshakeKK, cfg_Initiator = initiator, cfg_Prologue = [], cfg_StaticKeypair = static,
           cfg_EphemeralKeypair = None, cfg_PeerStatic = Some peerStatic, cfg_PeerEphemeral = None\<rparr>))"

text \<open>\<open>info.Description\<close> may be nil, and reading its port then panics.\<close>

definition join_session ::
  "relay_codec \<Rightarrow> (uint32 \<Rightarrow> error + conn) \<Rightarrow> SessionInfo \<Rightarrow> (error + conn) outcome" where
  "join_session cd dial info =
     (case si_Description info of
        None \<Rightarrow> Panic (RuntimePanic NilDereference)
      | Some description \<Rightarrow>
          ebind (Return (dial (sd_Port description))) (\<lambda>sessConn.
            obind (Authenticate cd sessConn (sd_Key description)) (\<lambda>(err, clientConn).
              case err of Some e \<Rightarrow> Return (Inl e) | None \<Rightarrow> Return (Inr clientConn))))"

text \<open>
  \<open>Request\<close>, given the results of \<open>ClientProtocol.Request\<close> and \<open>ReadAccept\<close> and of dialling. The error of
  \<open>ReadAccept\<close> is overwritten before it is looked at.
\<close>

definition Client_Request ::
  "('h, 'c) noise \<Rightarrow> relay_codec \<Rightarrow> KeyPair \<Rightarrow> (Identity \<Rightarrow> bytes \<Rightarrow> error + SessionInfo) \<Rightarrow>
   (Identity \<Rightarrow> bytes \<times> error option) \<Rightarrow> (uint32 \<Rightarrow> error + conn) \<Rightarrow> Identity \<Rightarrow> (error + 'c option noiseConn) outcome" where
  "Client_Request nz cd key request readAccept dial targetIdentity =
     obind (kk_config nz True key targetIdentity) (\<lambda>config.
       ebind (Return (NewHandshakeState nz config)) (\<lambda>hs.
         ebind (Return (WriteMessage nz hs)) (\<lambda>(message, _, _, hs).
           ebind (Return (request targetIdentity message)) (\<lambda>info.
             if targetIdentity \<noteq> si_PeerIdentity info then Return (Inl (ErrorString ''unexpected peer identity''))
             else
               let (ad, err) = readAccept targetIdentity in
               ebind (Return (ReadMessage nz hs ad)) (\<lambda>(c1, c2, hs).
                 ebind (join_session cd dial info) (\<lambda>clientConn.
                   Return (Inr (WrapConn (kp_Public key) (si_PeerIdentity info) clientConn c1 c2))))))))"

text \<open>\<open>Accept\<close> reads invitations until one is from a trusted peer; it blocks when none is left.\<close>

fun Client_Accept ::
  "('h, 'c) noise \<Rightarrow> relay_codec \<Rightarrow> KeyPair \<Rightarrow> (Identity \<Rightarrow> bool) \<Rightarrow> (Identity \<Rightarrow> bytes \<Rightarrow> error option) \<Rightarrow>
   (uint32 \<Rightarrow> error + conn) \<Rightarrow> (error + SessionInfo \<times> bytes) list \<Rightarrow> (error + 'c option noiseConn) outcome" where
  "Client_Accept nz cd key IsTrusted accept dial [] = Diverge"
| "Client_Accept nz cd key IsTrusted accept dial (Inl e # rest) = Return (Inl e)"
| "Client_Accept nz cd key IsTrusted accept dial (Inr (info, ad) # rest) =
     (if \<not> IsTrusted (si_PeerIdentity info) then Client_Accept nz cd key IsTrusted accept dial rest
      else
        obind (kk_config nz False key (si_PeerIdentity info)) (\<lambda>config.
          ebind (Return (NewHandshakeState nz config)) (\<lambda>hs.
            ebind (Return (ReadMessage nz hs ad)) (\<lambda>(_, _, hs).
              ebind (Return (WriteMessage nz hs)) (\<lambda>(message, c1, c2, hs).
                (case accept (si_PeerIdentity info) message of
                   Some e \<Rightarrow> Return (Inl e)
                 | None \<Rightarrow>
                     ebind (join_session cd dial info) (\<lambda>clientConn.
                       Return (Inr (WrapConn (kp_Public key) (si_PeerIdentity info) clientConn c2 c1)))))))))"

section \<open>The server\<close>

text \<open>The listeners are values of any type; they are nil until \<open>Listen\<close> has succeeded.\<close>

record 'l Server =
  srv_port :: int
  srv_sessionPort :: int
  srv_listener :: "'l option"
  srv_sessionListener :: "'l option"

definition NewServer :: "int \<Rightarrow> int \<Rightarrow> 'l Server outcome" where
  "NewServer port sessionPort =
     (if port = sessionPort then Panic (PanicString ''server and session port must be different'')
      else Return \<lparr>srv_port = port, srv_sessionPort = sessionPort, srv_listener = None, srv_sessionListener = None\<rparr>)"

definition Server_Listen ::
  "(int \<Rightarrow> error + 'l) \<Rightarrow> (int \<Rightarrow> error + 'l) \<Rightarrow> 'l Server \<Rightarrow> (error option \<times> 'l Server) outcome" where
  "Server_Listen tlsListen netListen s =
     (case tlsListen (srv_port s) of
        Inl e \<Rightarrow> Return (Some e, s)
      | Inr listener \<Rightarrow>
          (case netListen (srv_sessionPort s) of
             Inl e \<Rightarrow> (case srv_listener s of None \<Rightarrow> Panic (RuntimePanic NilDereference) | Some _ \<Rightarrow> Return (Some e, s))
           | Inr sessionListener \<Rightarrow>
               Return (None, s\<lparr>srv_listener := Some listener, srv_sessionListener := Some sessionListener\<rparr>)))"

definition Server_Close :: "('l \<Rightarrow> error option) \<Rightarrow> 'l Server \<Rightarrow> error option outcome" where
  "Server_Close close s =
     (case srv_listener s of
        None \<Rightarrow> Panic (RuntimePanic NilDereference)
      | Some l \<Rightarrow>
          (case close l of
             Some e \<Rightarrow> Return (Some e)
           | None \<Rightarrow>
               (case srv_sessionListener s of
                  None \<Rightarrow> Panic (RuntimePanic NilDereference)
                | Some m \<Rightarrow> Return (close m))))"

text \<open>
  \<open>handleConn\<close>, given the result of the TLS handshake and the public keys of the peer's certificates (a key
  that is not an Ed25519 key is none): the identity that is added as a client, or the error
  with which the connection is closed.
\<close>

definition handleConn :: "error option \<Rightarrow> Identity option list \<Rightarrow> error + Identity" where
  "handleConn handshakeErr certKeys =
     (case handshakeErr of
        Some e \<Rightarrow> Inl e
      | None \<Rightarrow>
          (case certKeys of
             [key] \<Rightarrow> (case key of None \<Rightarrow> Inl (ErrorString ''not an Ed25519 public key'') | Some publicKey \<Rightarrow> Inr publicKey)
           | _ \<Rightarrow> Inl (ErrorString ''expected exactly one client certificate'')))"

text \<open>The goroutines that accept connections, by what the listeners return: the connections that are handed on, until an error.\<close>

fun Server_handler :: "(error + 'n) list \<Rightarrow> 'n list" where
  "Server_handler [] = []"
| "Server_handler (Inl e # rest) = []"
| "Server_handler (Inr conn # rest) = conn # Server_handler rest"

fun Server_sessionHandler :: "(error + 'n) list \<Rightarrow> 'n list" where
  "Server_sessionHandler [] = []"
| "Server_sessionHandler (Inl e # rest) = []"
| "Server_sessionHandler (Inr conn # rest) = conn # Server_sessionHandler rest"

section \<open>Properties\<close>

text \<open>A failed accept, for any reason, ends the server's listening: no later connection is handled.\<close>

lemma Server_handler_stops: "Server_handler (map Inr conns @ Inl e # rest) = conns"
  and Server_sessionHandler_stops: "Server_sessionHandler (map Inr conns @ Inl e # rest) = conns"
  by (induction conns) auto

text \<open>\<open>Dial\<close> succeeds only if the first packet of the server tells that the client is connected.\<close>

lemma Dial_connected:
  assumes "Dial cd certificate tls_Dial key host port = Return (Inr client)"
  obtains cert conn data conn' where "certificate key = Inr cert" "tls_Dial (JoinHostPort host port) cert = Inr conn"
    "DecodeFrom conn_Read conn = Return (data, None, conn')" "relay_UnwrapMessage cd data = Inr Connected"
    "client = \<lparr>cl_host = host, cl_protocol = NewClientProtocol conn', cl_key = key\<rparr>"
  using assms
  by (auto simp: Dial_def client_Start_def Let_def ebind_eq_Inr obind_eq_Return split: option.split_asm sum.split_asm relay_message.split_asm)

text \<open>The server adds a client that presents the certificate of its key pair under the identity of this key pair.\<close>

lemma certificate_gives_identity:
  assumes "certifies x publicKey key" and "randomSerialNumber rand_Int = Inr n" and "KeyPair_Certificate x rand_Int now now' key = Inr cert"
  shows "handleConn None [publicKey cert] = Inr (kp_Public key)"
  using Certificate_has_identity [OF assms(1,2), of now now'] assms(3) by (auto simp: handleConn_def)

lemma Client_Request_Inr:
  assumes "Client_Request nz cd key request readAccept dial target = Return (Inr conn)"
  obtains config hs message c3 c4 hs1 info c1 c2 hs2 clientConn where
    "kk_config nz True key target = Return config" "NewHandshakeState nz config = Inr hs"
    "WriteMessage nz hs = Inr (message, c3, c4, hs1)" "request target message = Inr info" "si_PeerIdentity info = target"
    "ReadMessage nz hs1 (fst (readAccept target)) = Inr (c1, c2, hs2)"
    "conn = WrapConn (kp_Public key) target clientConn c1 c2"
  using assms
  by (auto simp: Client_Request_def obind_eq_Return ebind_eq_Inr split: if_split_asm prod.split_asm)

lemma Client_Accept_Inr:
  assumes "Client_Accept nz cd key IsTrusted accept dial invitations = Return (Inr conn)"
  shows "\<exists>info ad config hs c3 c4 hs1 message c1 c2 hs2 clientConn. Inr (info, ad) \<in> set invitations \<and>
    IsTrusted (si_PeerIdentity info) \<and> kk_config nz False key (si_PeerIdentity info) = Return config \<and>
    NewHandshakeState nz config = Inr hs \<and> ReadMessage nz hs ad = Inr (c3, c4, hs1) \<and>
    WriteMessage nz hs1 = Inr (message, c1, c2, hs2) \<and> accept (si_PeerIdentity info) message = None \<and>
    conn = WrapConn (kp_Public key) (si_PeerIdentity info) clientConn c2 c1"
  using assms
proof (induction invitations)
  case (Cons x rest)
  show ?case
  proof (cases "\<exists>info ad. x = Inr (info, ad) \<and> IsTrusted (si_PeerIdentity info)")
    case True
    then obtain info ad where x: "x = Inr (info, ad)" "IsTrusted (si_PeerIdentity info)" by blast
    then obtain config hs c3 c4 hs1 message c1 c2 hs2 clientConn where
      "kk_config nz False key (si_PeerIdentity info) = Return config" "NewHandshakeState nz config = Inr hs"
      "ReadMessage nz hs ad = Inr (c3, c4, hs1)" "WriteMessage nz hs1 = Inr (message, c1, c2, hs2)"
      "accept (si_PeerIdentity info) message = None"
      "conn = WrapConn (kp_Public key) (si_PeerIdentity info) clientConn c2 c1"
      using Cons.prems by (auto simp: obind_eq_Return ebind_eq_Inr split: option.split_asm)
    with x show ?thesis by (metis list.set_intros(1))
  next
    case False
    then have "Client_Accept nz cd key IsTrusted accept dial rest = Return (Inr conn)"
      using Cons.prems by (cases x) auto
    then show ?thesis using Cons.IH by (meson list.set_intros(2))
  qed
qed simp

text \<open>\<open>Accept\<close> connects with trusted peers only.\<close>

lemma Client_Accept_trusted:
  "Client_Accept nz cd key IsTrusted accept dial invitations = Return (Inr conn) \<Longrightarrow> IsTrusted (RemoteIdentity conn)"
  using Client_Accept_Inr by (fastforce simp: WrapConn_def RemoteIdentity_def)

text \<open>A failure of \<open>ReadAccept\<close> is not seen: \<open>Request\<close> goes on with the data, which is nil then.\<close>

lemma Client_Request_ignores_error:
  assumes "fst (readAccept target) = fst (readAccept' target)"
  shows "Client_Request nz cd key request readAccept dial target = Client_Request nz cd key request readAccept' dial target"
  unfolding Client_Request_def case_prod_unfold Let_def by (simp only: assms)

text \<open>
  What the documentation of the Noise library promises for a pattern of two messages: the ciphers that the
  responder gets when it writes the second message are those that the initiator gets when it reads it.
\<close>

definition ciphers_agree :: "('h, 'c) noise \<Rightarrow> NoiseConfig \<Rightarrow> NoiseConfig \<Rightarrow> bool" where
  "ciphers_agree nz initiator responder \<longleftrightarrow>
     (\<forall>hi hr m1 a b hi1 c d hr1 m2 c1 c2 hr2 d1 d2 hi2.
        NewHandshakeState nz initiator = Inr hi \<longrightarrow> NewHandshakeState nz responder = Inr hr \<longrightarrow>
        WriteMessage nz hi = Inr (m1, a, b, hi1) \<longrightarrow> ReadMessage nz hr m1 = Inr (c, d, hr1) \<longrightarrow>
        WriteMessage nz hr1 = Inr (m2, c1, c2, hr2) \<longrightarrow> ReadMessage nz hi1 m2 = Inr (d1, d2, hi2) \<longrightarrow>
        d1 = c1 \<and> d2 = c2)"

text \<open>
  C25. The two ends of a relayed connection fit together: when a server relays the data of \<open>Request\<close> into the
  invitation and the data of \<open>Accept\<close> into the answer, then each end writes with the cipher that
  the other reads with, and each knows the other's identity.
\<close>

theorem relay_ends_fit_together:
  assumes "kk_config nz True keyA (kp_Public keyB) = Return configA" and "kk_config nz False keyB (kp_Public keyA) = Return configB"
    and "ciphers_agree nz configA configB"
    and "Client_Request nz cd keyA request readAccept dialA (kp_Public keyB) = Return (Inr connA)"
    and "Client_Accept nz cd keyB IsTrusted accept dialB [Inr (info, ad)] = Return (Inr connB)"
    and "si_PeerIdentity info = kp_Public keyA"
    and "\<And>m i. request (kp_Public keyB) m = Inr i \<Longrightarrow> ad = m"
    and "\<And>m. accept (kp_Public keyA) m = None \<Longrightarrow> fst (readAccept (kp_Public keyB)) = m"
  shows "nc_writeCipher connA = nc_readCipher connB \<and> nc_readCipher connA = nc_writeCipher connB \<and>
    RemoteIdentity connA = LocalIdentity connB \<and> RemoteIdentity connB = LocalIdentity connA"
proof -
  obtain hs m1 x y hs1 i c1 c2 hs2 cc where a: "NewHandshakeState nz configA = Inr hs"
    "WriteMessage nz hs = Inr (m1, x, y, hs1)" "request (kp_Public keyB) m1 = Inr i"
    "ReadMessage nz hs1 (fst (readAccept (kp_Public keyB))) = Inr (c1, c2, hs2)"
    "connA = WrapConn (kp_Public keyA) (kp_Public keyB) cc c1 c2"
    using Client_Request_Inr [OF assms(4)] assms(1) by (metis outcome.inject)
  obtain hr u v hr1 m2 d1 d2 hr2 cd' where b: "NewHandshakeState nz configB = Inr hr"
    "ReadMessage nz hr ad = Inr (u, v, hr1)" "WriteMessage nz hr1 = Inr (m2, d1, d2, hr2)"
    "accept (kp_Public keyA) m2 = None" "connB = WrapConn (kp_Public keyB) (kp_Public keyA) cd' d2 d1"
    using Client_Accept_Inr [OF assms(5)] assms(2,6) by auto
  have "ad = m1" "fst (readAccept (kp_Public keyB)) = m2" using assms(7) [OF a(3)] assms(8) [OF b(4)] by auto
  then have "c1 = d1 \<and> c2 = d2"
    using assms(3) a(1,2,4) b(1,2,3) unfolding ciphers_agree_def by blast
  then show ?thesis using a(5) b(5) by (simp add: WrapConn_def RemoteIdentity_def LocalIdentity_def)
qed

text \<open>A library for the witness: the state of a handshake counts its messages, and each end gets ciphers 1 and 2.\<close>

definition toy_noise :: "(nat, nat) noise" where
  "toy_noise = \<lparr>NewHandshakeState = (\<lambda>_. Inr 0),
     WriteMessage = (\<lambda>h. Inr ([of_nat h], if h = 0 then None else Some 1, if h = 0 then None else Some 2, Suc h)),
     ReadMessage = (\<lambda>h m. Inr (if h = 0 then None else Some 1, if h = 0 then None else Some 2, Suc h)),
     PeerStatic = (\<lambda>h. None), EdPrivateKeyToX25519 = (\<lambda>k. k), EdPublicKeyToX25519 = Some\<rparr>"

abbreviation toy_key :: "byte \<Rightarrow> KeyPair" where
  "toy_key b \<equiv> \<lparr>kp_Private = [b], kp_Public = [b]\<rparr>"

abbreviation toy_info :: "byte \<Rightarrow> SessionInfo" where
  "toy_info b \<equiv> \<lparr>si_Description = Some \<lparr>sd_Key = [4, 4], sd_Port = 1\<rparr>, si_PeerIdentity = [b]\<rparr>"

lemma toy_join: "\<exists>c. join_session short_codec (\<lambda>_. Inr answered_conn) (toy_info b) = Return (Inr c)"
proof -
  have "frame [1] = [0, 1, 1]" by (simp add: frame_def PutUint_eval)
  moreover have "conn_healthy answered_conn" "conn_pending answered_conn = [0, 1, 1] @ [9]"
    by (simp_all add: conn_healthy_def conn_pending_def answered_conn_def)
  moreover have "Marshal_auth short_codec [4, 4] = Inr [4, 4]" "Unmarshal_response short_codec [1] = Inr SessionStateConnected"
    by (simp_all add: short_codec_def)
  ultimately have "\<exists>c. Authenticate short_codec answered_conn [4, 4] = Return (None, c)"
    using Authenticate_answer [of answered_conn short_codec "[4, 4]" "[4, 4]" "[1]" "[9]" SessionStateConnected] by (auto simp: packet_consts)
  then show ?thesis by (auto simp: join_session_def)
qed

theorem relay_ends_fit_together_witness:
  "\<exists>connA connB. Client_Request toy_noise short_codec (toy_key 5) (\<lambda>i m. if m = [0] then Inr (toy_info 6) else Inl (IOError EOF))
       (\<lambda>i. ([1], None)) (\<lambda>_. Inr answered_conn) [6] = Return (Inr connA) \<and>
     Client_Accept toy_noise short_codec (toy_key 6) (\<lambda>i. i = [5]) (\<lambda>i m. if m = [1] then None else Some (IOError EOF))
       (\<lambda>_. Inr answered_conn) [Inr (toy_info 5, [0])] = Return (Inr connB) \<and>
     nc_writeCipher connA = nc_readCipher connB"
proof -
  obtain c where c: "join_session short_codec (\<lambda>_. Inr answered_conn) (toy_info 6) = Return (Inr c)" using toy_join by blast
  obtain d where d: "join_session short_codec (\<lambda>_. Inr answered_conn) (toy_info 5) = Return (Inr d)" using toy_join by blast
  let ?A = "WrapConn [5] [6] c (Some (1 :: nat)) (Some 2)" and ?B = "WrapConn [6] [5] d (Some (2 :: nat)) (Some 1)"
  have A: "Client_Request toy_noise short_codec (toy_key 5) (\<lambda>i m. if m = [0] then Inr (toy_info 6) else Inl (IOError EOF))
       (\<lambda>i. ([1], None)) (\<lambda>_. Inr answered_conn) (kp_Public (toy_key 6)) = Return (Inr ?A)"
    using c by (simp add: Client_Request_def kk_config_def KeyPair_Noise_def Identity_X25519_def Key_X25519_def toy_noise_def)
  have B: "Client_Accept toy_noise short_codec (toy_key 6) (\<lambda>i. i = [5]) (\<lambda>i m. if m = [1] then None else Some (IOError EOF))
       (\<lambda>_. Inr answered_conn) [Inr (toy_info 5, [0])] = Return (Inr ?B)"
    using d by (simp add: kk_config_def KeyPair_Noise_def Identity_X25519_def Key_X25519_def toy_noise_def)
  have agree: "ciphers_agree toy_noise ca cb" for ca cb by (auto simp: ciphers_agree_def toy_noise_def)
  have config: "\<exists>config. kk_config toy_noise init (toy_key a) (kp_Public (toy_key b)) = Return config" for init a b
    by (simp add: kk_config_def KeyPair_Noise_def Identity_X25519_def Key_X25519_def toy_noise_def)
  obtain ca cb where "kk_config toy_noise True (toy_key 5) (kp_Public (toy_key 6)) = Return ca"
    "kk_config toy_noise False (toy_key 6) (kp_Public (toy_key 5)) = Return cb" using config by metis
  moreover have "[0 :: byte] = m" if "(if m = [0] then Inr (toy_info 6) else Inl (IOError EOF)) = Inr i" for m :: bytes and i
    using that by (simp split: if_split_asm)
  moreover have "fst ([1 :: byte], None :: error option) = m" if "(if m = [1] then None else Some (IOError EOF)) = None" for m :: bytes
    using that by (simp split: if_split_asm)
  ultimately have "nc_writeCipher ?A = nc_readCipher ?B"
    using relay_ends_fit_together [OF _ _ agree A B] by simp
  then show ?thesis using A B by auto
qed

end
