(* ===== verification/Programs.thy ===== *)
theory Programs
  imports Transfer_Session Base Relay_Dial
begin

text \<open>
  The programs \<open>cmd/send\<close>, \<open>cmd/receive\<close> and \<open>cmd/server\<close>. The results of the calls that open files, wait for the network or run a loop
  are arguments, given by name; what the programs make of them is defined here. An exit by \<open>log.Fatalln\<close> or \<open>os.Exit\<close> is the value \<open>Inl\<close> with
  its message. The goroutines of \<open>cmd/receive\<close> that accept connections are a step relation.
\<close>

section \<open>The standard library\<close>

text \<open>\<open>filepath.Base\<close> for paths with slashes.\<close>

definition filepath_Base :: "bytes \<Rightarrow> bytes" where
  "filepath_Base path =
     (if path = [] then [46]
      else
        (let stem = dropWhile (\<lambda>b. b = 47) (rev path) in
         if stem = [] then [47] else rev (takeWhile (\<lambda>b. b \<noteq> 47) stem)))"

section \<open>Sequencing\<close>

definition fatal_on :: "string \<Rightarrow> error + 'a \<Rightarrow> (string + 'a) outcome" where
  "fatal_on msg r = Return (case r of Inl e \<Rightarrow> Inl msg | Inr x \<Rightarrow> Inr x)"

definition fatal_if :: "string \<Rightarrow> error option \<Rightarrow> (string + unit) outcome" where
  "fatal_if msg err = Return (if err \<noteq> None then Inl msg else Inr ())"

lemma fatal_on_Return: "fatal_on msg r = Return (Inr x) \<longleftrightarrow> r = Inr x"
  by (auto simp: fatal_on_def split: sum.split)

lemma fatal_if_Return: "fatal_if msg err = Return (Inr x) \<longleftrightarrow> err = None"
  by (auto simp: fatal_if_def)

lemmas program_simps = ebind_eq_Inr fatal_on_Return fatal_if_Return

section \<open>Flags\<close>

text \<open>\<open>flag.String\<close> gives a pointer, to the value of the flag or to its default.\<close>

definition flag_String :: "(string \<rightharpoonup> string) \<Rightarrow> string \<Rightarrow> string \<Rightarrow> string option" where
  "flag_String given name dflt = Some (case given name of None \<Rightarrow> dflt | Some v \<Rightarrow> v)"

text \<open>What \<open>*p\<close> is for such a pointer.\<close>

definition deref :: "'a option \<Rightarrow> 'a outcome" where
  "deref p = (case p of None \<Rightarrow> Panic (RuntimePanic NilDereference) | Some v \<Rightarrow> Return v)"

section \<open>The send program\<close>

record ('f, 'r, 'c, 'ch) send_calls =
  call_Open :: "bytes \<Rightarrow> error + 'f"
  call_Stat :: "'f \<Rightarrow> error + int"
  call_GenerateKeys :: "(string + KeyPair \<times> HMACKey) outcome"
  call_Listen :: "KeyPair \<Rightarrow> HMACKey \<Rightarrow> error option"
  call_Connect :: "KeyPair \<Rightarrow> Identity \<Rightarrow> HMACKey \<Rightarrow> error + 'c"
  call_Dial :: "KeyPair \<Rightarrow> string \<Rightarrow> string \<Rightarrow> error + 'r"
  call_Request :: "'r \<Rightarrow> Identity \<Rightarrow> error + 'c"
  call_OpenChannel :: "'c \<Rightarrow> error + 'ch"
  call_Run :: "(MessageType, 'f Sender, message) Loop \<Rightarrow> 'ch \<Rightarrow> error option outcome"
  call_session_Close :: "'c \<Rightarrow> error option"
  call_client_Close :: "error option"

text \<open>The connection: locally, and otherwise through the server.\<close>

definition send_connect ::
  "('f, 'r, 'c, 'ch, 'z) send_calls_scheme \<Rightarrow> string option \<Rightarrow> KeyPair \<Rightarrow> Identity \<Rightarrow> HMACKey \<Rightarrow> (string + 'c) outcome" where
  "send_connect w argServer keyPair targetIdentity targetHmacKey =
     (case call_Connect w keyPair targetIdentity targetHmacKey of
        Inr conn \<Rightarrow> Return (Inr conn)
      | Inl err \<Rightarrow>
          if argServer = None then Return (Inl ''exit status 1'')
          else
            obind (deref argServer) (\<lambda>server.
            ebind (fatal_on ''failed to split server address into host and port'' (SplitHostPort server)) (\<lambda>(serverHost, serverPort).
            ebind (fatal_on ''failed to dial server'' (call_Dial w keyPair serverHost serverPort)) (\<lambda>client.
            fatal_on ''failed to connect to device'' (call_Request w client targetIdentity)))))"

definition send_loop :: "'f ReadSeekCloser \<Rightarrow> bytes \<Rightarrow> 'f \<Rightarrow> int \<Rightarrow> (MessageType, 'f Sender, message) Loop outcome" where
  "send_loop rops path file sz =
     obind (NewSender rops (Some \<lparr>md_Filename = filepath_Base path\<rparr>) (NewBlockReader file (of_int sz) BlockSize)) (\<lambda>(client, data).
       Return (NewLoop client data))"

text \<open>The program up to the message of success, and to its end, where the deferred calls run.\<close>

definition send_transfer ::
  "('f, 'r, 'c, 'ch, 'z) send_calls_scheme \<Rightarrow> 'f ReadSeekCloser \<Rightarrow> bytes \<Rightarrow> 'f \<Rightarrow> int \<Rightarrow> 'c \<Rightarrow> (string + unit) outcome" where
  "send_transfer w rops path file sz conn =
     ebind (fatal_on ''failed to open channel'' (call_OpenChannel w conn)) (\<lambda>channel.
     obind (send_loop rops path file sz) (\<lambda>loop.
     obind (call_Run w loop channel) (\<lambda>err.
     fatal_if ''failed to execute protocol'' err)))"

definition send_reports ::
  "('f, 'r, 'c, 'ch, 'z) send_calls_scheme \<Rightarrow> 'f ReadSeekCloser \<Rightarrow> (string \<rightharpoonup> string) \<Rightarrow> bytes list \<Rightarrow> (string + 'c) outcome" where
  "send_reports w rops flags args =
     ebind (Return (if length args \<noteq> 1 then Inl ''expected a file name argument'' else Inr (hd args))) (\<lambda>argFilePath.
     obind (deref (flag_String flags ''identity'' [])) (\<lambda>argIdentity.
     ebind (Return (DecodeHex argIdentity IdentitySize)) (\<lambda>targetIdentity.
     obind (deref (flag_String flags ''key'' [])) (\<lambda>argKey.
     ebind (Return (DecodeHex argKey DeviceKeySize)) (\<lambda>targetHmacKey.
     ebind (fatal_on ''failed to open file'' (call_Open w argFilePath)) (\<lambda>file.
     ebind (fatal_on ''failed to stat file'' (call_Stat w file)) (\<lambda>sz.
     ebind (call_GenerateKeys w) (\<lambda>(keyPair, hmacKey).
     ebind (fatal_if ''failed to listen'' (call_Listen w keyPair hmacKey)) (\<lambda>_.
     ebind (send_connect w (flag_String flags ''server'' []) keyPair targetIdentity targetHmacKey) (\<lambda>conn.
     ebind (send_transfer w rops argFilePath file sz conn) (\<lambda>_.
     Return (Inr conn))))))))))))"

definition send_main ::
  "('f, 'r, 'c, 'ch, 'z) send_calls_scheme \<Rightarrow> 'f ReadSeekCloser \<Rightarrow> (string \<rightharpoonup> string) \<Rightarrow> bytes list \<Rightarrow> (string + unit) outcome" where
  "send_main w rops flags args =
     ebind (send_reports w rops flags args) (\<lambda>conn.
     ebind (fatal_if ''failed to close session'' (call_session_Close w conn)) (\<lambda>_.
     fatal_if ''failed to close client'' (call_client_Close w)))"

section \<open>The receive program\<close>

datatype 'c accept_pc = Accepting | AcceptSend 'c | AcceptSent

datatype 'c main_pc = MainWaiting | MainConnected 'c | MainExited string

record 'c receiving =
  rp_server :: "'c accept_pc"
  rp_local :: "'c accept_pc"
  rp_main :: "'c main_pc"

record ('r, 'c, 'ch) receive_calls =
  rcall_GenerateKeys :: "(string + KeyPair \<times> HMACKey) outcome"
  rcall_Dial :: "KeyPair \<Rightarrow> string \<Rightarrow> string \<Rightarrow> error + 'r"
  rcall_Listen :: "KeyPair \<Rightarrow> HMACKey \<Rightarrow> error option"
  rcall_AcceptChannel :: "'c \<Rightarrow> error + 'ch"
  rcall_Run :: "(MessageType, Buffer Receiver, message) Loop \<Rightarrow> 'ch \<Rightarrow> (error option \<times> (MessageType, Buffer Receiver, message) Loop) outcome"
  rcall_session_Close :: "'c \<Rightarrow> error option"

text \<open>Up to the wait for a connection. The connection to the server is made if there is one.\<close>

definition receive_start ::
  "('r, 'c, 'ch, 'z) receive_calls_scheme \<Rightarrow> (string \<rightharpoonup> string) \<Rightarrow> (string + 'c receiving) outcome" where
  "receive_start w flags =
     ebind (rcall_GenerateKeys w) (\<lambda>(keyPair, hmacKey).
     ebind
       (if flag_String flags ''server'' [] \<noteq> None then
          obind (deref (flag_String flags ''server'' [])) (\<lambda>serverAddr.
          ebind (fatal_on ''failed to split server address into host and port'' (SplitHostPort serverAddr)) (\<lambda>(serverHost, serverPort).
          ebind (fatal_on ''failed to dial server'' (rcall_Dial w keyPair serverHost serverPort)) (\<lambda>client.
          Return (Inr Accepting))))
        else Return (Inr AcceptSent)) (\<lambda>server.
     ebind (fatal_if ''failed to listen'' (rcall_Listen w keyPair hmacKey)) (\<lambda>_.
     Return (Inr \<lparr>rp_server = server, rp_local = Accepting, rp_main = MainWaiting\<rparr>))))"

text \<open>The two goroutines that accept, and the main function. \<open>log.Fatalln\<close> in any of them ends the process.\<close>

abbreviation alive :: "'c receiving \<Rightarrow> bool" where
  "alive p \<equiv> (\<forall>m. rp_main p \<noteq> MainExited m)"

inductive receive_step :: "'c receiving \<Rightarrow> 'c receiving \<Rightarrow> bool" where
  server_accepts: "alive p \<Longrightarrow> rp_server p = Accepting \<Longrightarrow> receive_step p (p\<lparr>rp_server := AcceptSend c\<rparr>)"
| server_fails: "alive p \<Longrightarrow> rp_server p = Accepting \<Longrightarrow>
    receive_step p (p\<lparr>rp_main := MainExited ''failed to accept server connection''\<rparr>)"
| local_accepts: "alive p \<Longrightarrow> rp_local p = Accepting \<Longrightarrow> receive_step p (p\<lparr>rp_local := AcceptSend c\<rparr>)"
| local_fails: "alive p \<Longrightarrow> rp_local p = Accepting \<Longrightarrow>
    receive_step p (p\<lparr>rp_main := MainExited ''failed to accept connection''\<rparr>)"
| server_sends: "rp_server p = AcceptSend c \<Longrightarrow> rp_main p = MainWaiting \<Longrightarrow>
    receive_step p (p\<lparr>rp_server := AcceptSent, rp_main := MainConnected c\<rparr>)"
| local_sends: "rp_local p = AcceptSend c \<Longrightarrow> rp_main p = MainWaiting \<Longrightarrow>
    receive_step p (p\<lparr>rp_local := AcceptSent, rp_main := MainConnected c\<rparr>)"

text \<open>
  From a connection on. The closure that makes the file keeps the metadata and the data of the buffer for the report: those of the header that
  was accepted and of the writer.
\<close>

definition receive_loop :: "(MessageType, Buffer Receiver, message) Loop outcome" where
  "receive_loop =
     obind (NewReceiver buffer_wsc receive_factory) (\<lambda>(client, data). Return (NewLoop client data))"

definition receive_output :: "Buffer Receiver \<Rightarrow> (bytes \<times> bytes) outcome" where
  "receive_output s =
     (case v_header s of
        None \<Rightarrow> Panic (RuntimePanic NilDereference)
      | Some header \<Rightarrow>
          (case hd_Metadata header of
             None \<Rightarrow> Panic (RuntimePanic NilDereference)
           | Some metadata \<Rightarrow>
               Return (md_Filename metadata, case v_writer s of None \<Rightarrow> [] | Some w \<Rightarrow> buf_Data (w_writer w))))"

definition receive_reports :: "('r, 'c, 'ch, 'z) receive_calls_scheme \<Rightarrow> 'c \<Rightarrow> (string + bytes \<times> bytes) outcome" where
  "receive_reports w conn =
     ebind (fatal_on ''failed to accept channel'' (rcall_AcceptChannel w conn)) (\<lambda>channel.
     obind receive_loop (\<lambda>loop.
     obind (rcall_Run w loop channel) (\<lambda>(err, loop').
     ebind (fatal_if ''failed to execute protocol'' err) (\<lambda>_.
     obind (receive_output (lp_data loop')) (\<lambda>output_data. Return (Inr output_data))))))"

definition receive_main :: "('r, 'c, 'ch, 'z) receive_calls_scheme \<Rightarrow> 'c \<Rightarrow> (string + unit) outcome" where
  "receive_main w conn =
     ebind (receive_reports w conn) (\<lambda>_. fatal_if ''failed to close session'' (rcall_session_Close w conn))"

section \<open>The server program\<close>

text \<open>The error of loading the certificate is not looked at; the certificate is what is returned beside it.\<close>

definition server_main ::
  "int \<Rightarrow> int \<Rightarrow> string \<Rightarrow> (string \<Rightarrow> 'cert \<times> error option) \<Rightarrow> ('cert \<Rightarrow> int \<Rightarrow> error + 'l) \<Rightarrow> (int \<Rightarrow> error + 'l) \<Rightarrow> (string + 'l Server) outcome" where
  "server_main port sessionPort dir LoadX509KeyPair tlsListen netListen =
     (if dir = [] then Return (Inl ''server crt and key directory is required'')
      else if port = 0 then Return (Inl ''server port cannot be 0'')
      else if sessionPort = 0 then Return (Inl ''session port cannot be 0'')
      else
        (case LoadX509KeyPair dir of
           (cert, _) \<Rightarrow>
             obind (NewServer port sessionPort) (\<lambda>server.
             obind (Server_Listen (tlsListen cert) netListen server) (\<lambda>(err, server').
             Return (if err \<noteq> None then Inl ''failed to listen'' else Inr server')))))"

section \<open>Without a server\<close>

text \<open>
  The pointer of a flag is never \<open>nil\<close>. Without the flag for the server, the receiver always exits, although it could accept
  connections of the local network, and a sender that finds no device exits over an empty address, not by the branch for no server.
\<close>

lemma receive_needs_server:
  assumes "flags ''server'' = None" and "rcall_GenerateKeys w = Return (Inr keys)"
  shows "receive_start w flags = Return (Inl ''failed to split server address into host and port'')"
  using assms
  by (cases keys) (simp add: receive_start_def flag_String_def deref_def SplitHostPort_Nil fatal_on_def ebind_def)

lemma send_without_server:
  assumes "flags ''server'' = None" and "call_Connect w keyPair identity key = Inl e"
  shows "send_connect w (flag_String flags ''server'' []) keyPair identity key =
    Return (Inl ''failed to split server address into host and port'')"
  using assms by (simp add: send_connect_def flag_String_def deref_def SplitHostPort_Nil fatal_on_def ebind_def)

lemma server_ignores_certificate_error:
  assumes "LoadX509KeyPair dir = (cert, Some e)" and "dir \<noteq> []" and "port \<noteq> 0" and "sessionPort \<noteq> 0" and "port \<noteq> sessionPort"
    and "tlsListen cert port = Inr l" and "netListen sessionPort = Inr m"
  shows "\<exists>server. server_main port sessionPort dir LoadX509KeyPair tlsListen netListen = Return (Inr server)"
  using assms by (simp add: server_main_def NewServer_def Server_Listen_def)

lemma server_equal_ports_panic:
  assumes "dir \<noteq> []" and "port \<noteq> 0"
  shows "server_main port port dir LoadX509KeyPair tlsListen netListen = Panic (PanicString ''server and session port must be different'')"
  using assms by (simp add: server_main_def NewServer_def split: prod.split)

section \<open>The connection of the receiver\<close>

text \<open>The main function takes one connection; a second one is accepted and never used.\<close>

definition one_taken :: "'c receiving \<Rightarrow> bool" where
  "one_taken p \<longleftrightarrow>
     \<not> (rp_server p = AcceptSent \<and> rp_local p = AcceptSent) \<and>
     (rp_main p = MainWaiting \<longrightarrow> rp_server p \<noteq> AcceptSent \<and> rp_local p \<noteq> AcceptSent) \<and>
     (\<forall>c. rp_main p = MainConnected c \<longrightarrow> rp_server p = AcceptSent \<or> rp_local p = AcceptSent)"

interpretation receiving_one: step_invariant receive_step one_taken
  by unfold_locales (erule receive_step.cases; auto simp: one_taken_def)

lemma receive_takes_one:
  assumes "receive_start w flags = Return (Inr p)" and "receive_step\<^sup>*\<^sup>* p q"
  shows "one_taken q"
proof -
  have "p = \<lparr>rp_server = Accepting, rp_local = Accepting, rp_main = MainWaiting\<rparr>"
    using assms(1) by (auto simp: receive_start_def program_simps flag_String_def deref_def)
  then show ?thesis using receiving_one.run_inv [OF assms(2)] by (simp add: one_taken_def)
qed

text \<open>A receiver in the middle of a local transfer exits when the server connection fails, since the accepting goroutine ends the process.\<close>

lemma receive_dies_with_server:
  assumes "rp_main p = MainConnected c" and "rp_server p = Accepting"
  shows "receive_step p (p\<lparr>rp_main := MainExited ''failed to accept server connection''\<rparr>)"
  using assms by (intro server_fails) simp_all

section \<open>What the programs report\<close>

text \<open>The result of \<open>Run\<close> for a loop.\<close>

definition loop_result :: "('k, 's, 'm) Loop \<Rightarrow> error option outcome" where
  "loop_result l = (case lp_pc l of Running \<Rightarrow> Diverge | Returned err \<Rightarrow> Return err | Crashed p \<Rightarrow> Panic p)"

lemma loop_result_Return: "loop_result l = Return err \<longleftrightarrow> lp_pc l = Returned err"
  by (cases "lp_pc l") (simp_all add: loop_result_def)

lemma send_reports_run:
  assumes "send_reports w rops flags [path] = Return (Inr conn)" and "call_Open w path = Inr f" and "call_Stat w f = Inr sz"
  shows "\<exists>ch l. call_OpenChannel w conn = Inr ch \<and> send_loop rops path f sz = Return l \<and> call_Run w l ch = Return None"
  using assms
  by (auto simp: send_reports_def send_transfer_def program_simps obind_eq_Return split: if_split_asm)

lemma receive_reports_run:
  assumes "receive_reports w conn = Return (Inr out)" and "receive_loop = Return r"
  shows "\<exists>ch r'. rcall_AcceptChannel w conn = Inr ch \<and> rcall_Run w r ch = Return (None, r') \<and>
    receive_output (lp_data r') = Return out"
  using assms(1) unfolding receive_reports_def assms(2)
  by (auto simp: program_simps obind_eq_Return)

lemma end_step_faults: "end_step False cd cid x l y \<Longrightarrow> end_step True cd cid x l y"
  by (erule end_step.cases) (auto intro: end_step.intros)

lemma stack_run_faults: "stack_run False cd cid n k k' \<Longrightarrow> stack_run True cd cid n k k'"
proof (induction rule: stack_run.induct)
  case (stack_trans n k k' k'')
  from stack_trans.hyps(2) have "stack_step True cd cid k' k''"
    by (cases rule: stack_step.cases) (auto intro: stack_step.intros end_step_faults)
  with stack_trans.IH show ?case by (rule stack_run.stack_trans)
qed (rule stack_run.stack_refl)

text \<open>The files that the programs transfer: not empty, and not larger than what can be allocated.\<close>

definition sends_file :: "('f \<Rightarrow> bytes) \<Rightarrow> ('f \<Rightarrow> bool) \<Rightarrow> 'f \<Rightarrow> bool" where
  "sends_file rcontent rready f \<longleftrightarrow> rready f \<and> rcontent f \<noteq> [] \<and> length (rcontent f) \<le> maxAlloc"

lemma program_loops:
  assumes f: "sends_file rcontent rready f"
    and l: "send_loop rops path f (int (length (rcontent f))) = Return l" and r: "receive_loop = Return r"
  obtains c s d t where
    "NewSender rops (Some \<lparr>md_Filename = filepath_Base path\<rparr>) (NewBlockReader f (of_nat (length (rcontent f))) BlockSize) = Return (c, s)"
    "NewReceiver buffer_wsc receive_factory = Return (d, t)" "l = NewLoop c s" "r = NewLoop d t"
    "transferable (rcontent f) BlockSize" "creates_file receive_factory buf_Data buf_ready \<lparr>md_Filename = filepath_Base path\<rparr> (length (rcontent f))"
proof -
  have "BlockSize \<noteq> 0" by (simp add: BlockSize_def push_bit_eq_mult)
  then show ?thesis
    using l r f receive_factory_creates [of "length (rcontent f)" "\<lparr>md_Filename = filepath_Base path\<rparr>"] that
    by (auto simp: send_loop_def receive_loop_def obind_eq_Return transferable_def sends_file_def)
qed

lemma has_received_output: "has_received buf_Data md xs s \<Longrightarrow> receive_output s = Return (md_Filename md, xs)"
  by (auto simp: has_received_def receive_output_def)

text \<open>
  C3. What the programs report is true, for every file that is not empty. The sender says that the file has been transmitted, or the receiver prints a name and
  data, only if the receiver has the base name of the sender's path and exactly the bytes of its file, whatever happened on the
  connection, to the other channels and to the sessions meanwhile. The sender's loop runs from the moment at which \<open>OpenChannel\<close> returned, the
  receiver's from any later one at which \<open>AcceptChannel\<close> did, with any number of messages lost before that; the name need not be UTF-8.
\<close>

theorem program_report_is_true:
  assumes rd: "read_file rops rcontent rpos rready" and f: "sends_file rcontent rready f"
    and w: "call_Open w path = Inr f" "call_Stat w f = Inr (int (length (rcontent f)))"
    and cd: "transfer_roundtrip cd" and sl: "joined cd (NewChannelHandle transfer_protocol cid) sl" "gets_to cd (NewSession i) ds sl"
    and l: "send_loop rops path f (int (length (rcontent f))) = Return l" and r: "receive_loop = Return r"
    and start: "accept_returns cd (NewChannelHandle transfer_protocol cid) (l, sl) r k0" and run: "stack_run True cd cid n k0 k"
    and w_run: "\<And>ch. call_Run w l ch = loop_result (fst (sk_left k))"
    and v_run: "\<And>ch. rcall_Run v r ch = obind (loop_result (fst (sk_right k))) (\<lambda>err. Return (err, fst (sk_right k)))"
    and reports: "send_reports w rops flags [path] = Return (Inr conn) \<or> receive_reports v conn' = Return (Inr out)"
  shows "receive_output (lp_data (fst (sk_right k))) = Return (filepath_Base path, rcontent f) \<and>
    (receive_reports v conn' = Return (Inr out) \<longrightarrow> out = (filepath_Base path, rcontent f))"
proof -
  let ?md = "\<lparr>md_Filename = filepath_Base path\<rparr>"
  obtain c s d t where cs: "NewSender rops (Some ?md) (NewBlockReader f (of_nat (length (rcontent f))) BlockSize) = Return (c, s)"
    "NewReceiver buffer_wsc receive_factory = Return (d, t)" "l = NewLoop c s" "r = NewLoop d t"
    "transferable (rcontent f) BlockSize" "creates_file receive_factory buf_Data buf_ready ?md (length (rcontent f))"
    using program_loops [OF f l r] .
  have "rready f" using f by (simp add: sends_file_def)
  note safe = session_loops_safe [OF rd buffer_writer.write_file_axioms cs(5,6) this refl cd sl cs(1,2) start [unfolded cs(3,4)] run]
  have out: "receive_output (lp_data (fst (sk_right k))) = Return out \<and> lp_pc (fst (sk_right k)) = Returned None"
    if "receive_reports v conn' = Return (Inr out)"
    using receive_reports_run [OF that r] v_run by (auto simp: obind_eq_Return loop_result_Return)
  have "lp_pc (fst (sk_left k)) = Returned None" if "send_reports w rops flags [path] = Return (Inr conn)"
    using send_reports_run [OF that w] l w_run by (auto simp: loop_result_Return)
  with reports out have "lp_pc (fst (sk_left k)) = Returned None \<or> lp_pc (fst (sk_right k)) = Returned None" by blast
  with safe have "receive_output (lp_data (fst (sk_right k))) = Return (filepath_Base path, rcontent f)"
    using has_received_output by fastforce
  then show ?thesis using out by auto
qed

text \<open>For the witness: a complete run of the two programs.\<close>

lemma small_programs:
  obtains l r sl ds k0 n k where "send_loop buffer_rsc [97, 47, 98] (NewBuffer [1, 2, 3]) 3 = Return l" "receive_loop = Return r"
    "joined wire_codec (NewChannelHandle transfer_protocol 1) sl" "gets_to wire_codec (NewSession True) ds sl"
    "accept_returns wire_codec (NewChannelHandle transfer_protocol 1) (l, sl) r k0" "stack_run True wire_codec 1 n k0 k"
    "lp_pc (fst (sk_right k)) = Returned None" "has_received buf_Data \<lparr>md_Filename = [98]\<rparr> [1, 2, 3] (lp_data (fst (sk_right k)))"
proof -
  let ?f = "NewBuffer [1, 2, 3]" and ?md = "\<lparr>md_Filename = [98]\<rparr>" and ?h = "NewChannelHandle transfer_protocol 1"
  have tx: "transferable [1, 2, 3 :: byte] BlockSize" by (simp add: transferable_def maxAlloc_def BlockSize_def push_bit_eq_mult)
  have f: "buf_ready ?f" "buf_Data ?f = [1, 2, 3]" by (simp_all add: NewBuffer_def buf_ready_def)
  obtain c s where c: "NewSender buffer_rsc (Some ?md) (NewBlockReader ?f (of_nat (length [1, 2, 3 :: byte])) BlockSize) = Return (c, s)"
    using buffer_transfer.NewSender_inv [where md = ?md, OF tx f] by auto
  obtain d t where d: "NewReceiver buffer_wsc receive_factory = Return (d, t)" using small_transfer(4) by blast
  obtain sl ds u where j: "joined wire_codec ?h sl" "gets_to wire_codec (NewSession True) ds sl"
    and u: "gets_to wire_codec (NewSession False) (ss_out sl) u" "ss_broker u = Select" "ss_callers u 0 = Some (Register ?h)"
      "ss_channels u (h_id ?h) = None" "joined wire_codec ?h (broker_channel (set_caller 0 (CallReturned ?h) u) ?h)"
    by (rule joined_sessions)
  have small: "unat BlockSize \<le> 64000" "length (md_Filename ?md) \<le> 64000" "valid_utf8 (md_Filename ?md)"
    by (simp_all add: BlockSize_def push_bit_eq_mult utf8_ranges_def)
  have fac: "creates_file receive_factory buf_Data buf_ready ?md (length [1, 2, 3 :: byte])"
    by (rule receive_factory_creates) (simp add: maxAlloc_def)
  let ?k0 = "start_stack c s d t sl (broker_channel (set_caller 0 (CallReturned ?h) u) ?h)"
  obtain n k where k: "stack_run False wire_codec 1 n ?k0 k" "lp_pc (fst (sk_right k)) = Returned None"
    "has_received buf_Data ?md [1, 2, 3] (lp_data (fst (sk_right k)))"
    using session_loops_end [OF buffer_reader.read_file_axioms buffer_writer.write_file_axioms tx fac f small wire_codec_transfer j(1) u(5) c d]
    by blast
  have "send_loop buffer_rsc [97, 47, 98] ?f 3 = Return (NewLoop c s)" "receive_loop = Return (NewLoop d t)"
    using c d by (simp_all add: send_loop_def receive_loop_def filepath_Base_def)
  then show thesis
    by (rule that [OF _ _ j start_accept_returns [OF u(1-4)] stack_run_faults [OF k(1)] k(2,3)])
qed

theorem program_report_is_true_witness:
  "\<exists>l r sl k0 n k. send_loop buffer_rsc [97, 47, 98] (NewBuffer [1, 2, 3]) 3 = Return l \<and> receive_loop = Return r \<and>
    accept_returns wire_codec (NewChannelHandle transfer_protocol 1) (l, sl) r k0 \<and>
    stack_run True wire_codec 1 n k0 k \<and> loop_result (fst (sk_right k)) = Return None \<and>
    receive_output (lp_data (fst (sk_right k))) = Return ([98], [1, 2, 3])"
proof -
  let ?f = "NewBuffer [1, 2, 3]" and ?p = "[97, 47, 98] :: bytes"
  obtain l r sl ds k0 n k where k: "send_loop buffer_rsc ?p ?f 3 = Return l" "receive_loop = Return r"
    "joined wire_codec (NewChannelHandle transfer_protocol 1) sl" "gets_to wire_codec (NewSession True) ds sl"
    "accept_returns wire_codec (NewChannelHandle transfer_protocol 1) (l, sl) r k0" "stack_run True wire_codec 1 n k0 k"
    "lp_pc (fst (sk_right k)) = Returned None" "has_received buf_Data \<lparr>md_Filename = [98]\<rparr> [1, 2, 3] (lp_data (fst (sk_right k)))"
    by (rule small_programs)
  have f: "sends_file buf_Data buf_ready ?f" "int (length (buf_Data ?f)) = 3" "buf_Data ?f = [1, 2, 3]" "filepath_Base ?p = [98]"
    by (simp_all add: sends_file_def NewBuffer_def buf_ready_def maxAlloc_def filepath_Base_def)
  let ?w = "\<lparr>call_Open = \<lambda>_. Inr ?f, call_Stat = \<lambda>f. Inr (int (length (buf_Data f))), call_GenerateKeys = Diverge, call_Listen = \<lambda>_ _. None,
    call_Connect = \<lambda>_ _ _. Inr (), call_Dial = \<lambda>_ _ _. Inr (), call_Request = \<lambda>_ _. Inr (), call_OpenChannel = \<lambda>_. Inr (),
    call_Run = \<lambda>_ _. loop_result (fst (sk_left k)), call_session_Close = \<lambda>_. None, call_client_Close = None\<rparr>"
  let ?v = "\<lparr>rcall_GenerateKeys = Diverge, rcall_Dial = \<lambda>_ _ _. Inr (), rcall_Listen = \<lambda>_ _. None, rcall_AcceptChannel = \<lambda>_. Inr (),
    rcall_Run = \<lambda>_ _. obind (loop_result (fst (sk_right k))) (\<lambda>err. Return (err, fst (sk_right k))), rcall_session_Close = \<lambda>_. None\<rparr>"
  have "receive_reports ?v () = Return (Inr ([98], [1, 2, 3]))"
    using k(7) has_received_output [OF k(8)] unfolding receive_reports_def k(2)
    by (simp add: loop_result_def ebind_def fatal_on_def fatal_if_def)
  then have "receive_output (lp_data (fst (sk_right k))) = Return (filepath_Base ?p, buf_Data ?f)"
    using program_report_is_true [OF buffer_reader.read_file_axioms f(1) _ _ wire_codec_roundtrip k(3,4) _ k(2,5,6), of ?w ?p ?v] k(1) f(2)
    by fastforce
  moreover have "loop_result (fst (sk_right k)) = Return None" using k(7) by (simp add: loop_result_Return)
  ultimately show ?thesis using k(1,2,5,6) f(3,4) by metis
qed

end
