(* ===== verification/Relay_Session.thy ===== *)
theory Relay_Session
  imports Relay_Server_Props
begin

text \<open>
  How the relay server connects two devices: the request, the acceptance, the two connections that join the session with its keys, and the bytes that
  are relayed between them, as one run of the goroutines of \<open>Relay_Server\<close>.
\<close>

section \<open>Numbers of goroutines\<close>

text \<open>The channel that is closed when a session is accepted is that of a goroutine that has been started.\<close>

definition accepted_inv :: "server \<Rightarrow> bool" where
  "accepted_inv s \<longleftrightarrow>
     (\<forall>n\<in>set (sv_accepted s). n < sv_next s) \<and> (\<forall>sid h. sv_sessions s sid = Some h \<longrightarrow> sh_accepted h < sv_next s)"

lemma step_next:
  assumes "server_step cd s t"
  shows "sv_next s \<le> sv_next t"
  using assms
proof cases
  case (slot_write n sid pc first k x s1)
  then show ?thesis using slot_respond_keeps [OF slot_write(4)] by simp
qed (auto simp: op_defs Let_def dest: conn_put_keeps split: op_splits)

lemma step_sessions:
  assumes "server_step cd s t" and "sv_sessions t sid = Some h"
  shows "sv_sessions s sid = Some h \<or> sh_accepted h = sv_next s \<and> sv_next s < sv_next t"
proof (cases "\<exists>m identity k target data targetConn key1 key2. t = request_create s m identity k target data targetConn key1 key2")
  case True
  then show ?thesis using assms(2)
    by (auto simp: request_create_def handler_newSession_def Let_def split: if_split_asm)
next
  case False
  have "books t = books s \<or> (\<exists>n i k. books t = books (handler_newClient (end_go n s) i k)) \<or> (\<exists>i. books t = books (handler_deleteClient s i)) \<or>
    (\<exists>i tgt. books t = books (snd (handler_acceptSession s i tgt))) \<or> (\<exists>id. books t = books (handler_deleteSession s id)) \<or>
    books t = books (s\<lparr>sv_done := True\<rparr>) \<or> books t = books (s\<lparr>sv_clientHandler := HandlerReturned\<rparr>) \<or>
    books t = books (s\<lparr>sv_sessionHandler := HandlerReturned\<rparr>)"
    using assms(1)
  proof cases
    case (client_create n identity k target data targetConn rnd1 key1 rnd2 key2)
    then show ?thesis using False by blast
  next
    case (slot_write n sid pc first k x s1)
    then show ?thesis using slot_respond_keeps [OF slot_write(4)] by simp
  next
    case (client_accept n identity k initiator data)
    then have "books t = books (snd (handler_acceptSession s initiator identity))" by (simp add: accept_mark_def split: prod.split)
    then show ?thesis by blast
  next
    case close_server
    then show ?thesis by (auto simp: server_Close_def split: if_split_asm)
  next
    case (new_client n identity k)
    then show ?thesis by blast
  next
    case (client_delete n identity k)
    then have "books t = books (handler_deleteClient s identity)" by simp
    then show ?thesis by blast
  next
    case (session_delete n sid k1 k2)
    then have "books t = books (handler_deleteSession s sid)" by simp
    then show ?thesis by blast
  qed simp_all
  then have "sv_sessions s sid = Some h"
    using assms(2) by (elim disjE exE) (auto simp: books_def handler_newClient_def handler_deleteClient_def handler_acceptSession_def
      handler_deleteSession_def Let_def split: if_split_asm option.split_asm)
  then show ?thesis by simp
qed

lemma step_accepted:
  assumes "server_step cd s t" and "n \<in> set (sv_accepted t)"
  shows "n \<in> set (sv_accepted s) \<or> (\<exists>sid h. sv_sessions s sid = Some h \<and> sh_accepted h = n)"
  using step_book_change [OF assms(1)] assms(2)
  by cases (auto simp: books_def handler_newClient_def handler_deleteClient_def handler_acceptSession_def handler_newSession_def
      handler_deleteSession_def Let_def split: if_split_asm option.split_asm)

lemma step_accepted_inv:
  assumes "server_step cd s t" and "accepted_inv s"
  shows "accepted_inv t"
proof -
  note n = step_next [OF assms(1)]
  have "m < sv_next t" if "m \<in> set (sv_accepted t)" for m
    using step_accepted [OF assms(1) that] assms(2) n unfolding accepted_inv_def by (meson less_le_trans)
  moreover have "sh_accepted h < sv_next t" if "sv_sessions t sid = Some h" for sid h
    using step_sessions [OF assms(1) that] assms(2) n unfolding accepted_inv_def by (metis less_le_trans)
  ultimately show ?thesis unfolding accepted_inv_def by blast
qed

interpretation accepted_numbers: step_invariant "server_step cd" accepted_inv for cd
  by unfold_locales (rule step_accepted_inv)

lemma fresh_goroutine:
  assumes "server_run cd (NewServerProtocol port conns) s"
  shows "go_inv s" and "sv_next s \<notin> set (sv_accepted s)"
proof -
  show "go_inv s" using reachable_server_inv [OF assms] by (simp add: server_inv_def)
  have "accepted_inv (NewServerProtocol port conns)" by (simp add: accepted_inv_def NewServerProtocol_def)
  from accepted_numbers.run_inv [OF assms this] show "sv_next s \<notin> set (sv_accepted s)" by (auto simp: accepted_inv_def)
qed

section \<open>Messages\<close>

text \<open>A message that is written.\<close>

lemma message_written:
  assumes "sv_go s n = Some (Writing k m Finish)" and "conn_healthy (sv_conns s k)" and "relay_WrapMessage cd m = Inr p" and "length p \<le> MaxLength"
  shows "server_run cd s (end_go n (set_conn k (conn_append (frame p) (sv_conns s k)) s))"
proof -
  let ?c1 = "conn_append (Length_Bytes (of_nat (length p))) (sv_conns s k)"
  let ?s1 = "set_go n (WritingBody k p Finish) (set_conn k ?c1 s)"
  have "server_step cd s ?s1"
    using server_step.step_header [OF assms(1), of cd] write_header_healthy [OF assms(2-4)] by simp
  moreover have "server_step cd ?s1 (end_go n (set_conn k (conn_append p ?c1) ?s1))"
    using server_step.step_body [of ?s1 n k p Finish cd] write_body_healthy [of ?s1 k n p Finish] assms(2) by (simp add: write_done_def)
  moreover have "end_go n (set_conn k (conn_append p ?c1) ?s1) = end_go n (set_conn k (conn_append (frame p) (sv_conns s k)) s)"
    by (simp add: go_ops frame_def Length_Bytes_def)
  ultimately show ?thesis using run_two by metis
qed

text \<open>A message that is read.\<close>

lemma message_read:
  assumes "conn_pending c = frame p @ rest" and "length p \<le> MaxLength"
  shows "\<exists>c'. DecodeFrom conn_Read c = Return (p, None, c') \<and> conn_pending c' = rest \<and> c_out c' = c_out c \<and> (conn_healthy c' \<longleftrightarrow> conn_healthy c)"
proof -
  obtain c' where c': "DecodeFrom conn_Read c = Return (p, None, c')" "conn_pending c' = rest"
    using net_stream.DecodeFrom_frame [OF assms] by blast
  then show ?thesis using DecodeFrom_output [OF c'(1)] by (auto simp: conn_healthy_def)
qed


section \<open>The request and the acceptance\<close>

lemma port_ops [simp]:
  "sv_sessionPort (spawn g s) = sv_sessionPort s" "sv_sessionPort (set_go n g s) = sv_sessionPort s"
  "sv_sessionPort (end_go n s) = sv_sessionPort s" "sv_sessionPort (set_conn k c s) = sv_sessionPort s"
  by (simp_all add: go_ops)

definition new_handle :: "Identity \<Rightarrow> Identity \<Rightarrow> bytes \<Rightarrow> bytes \<Rightarrow> nat \<Rightarrow> sessionHandle" where
  "new_handle i j key1 key2 g = \<lparr>sh_initiatorIdentity = i, sh_targetIdentity = j, sh_keys = (key1, key2), sh_accepted = g\<rparr>"

text \<open>The state after a request that was granted: a session with its keys, a message to either client, and the goroutine of the session.\<close>

definition requested :: "server \<Rightarrow> Identity \<Rightarrow> Identity \<Rightarrow> nat \<Rightarrow> nat \<Rightarrow> bytes \<Rightarrow> bytes \<Rightarrow> conn \<Rightarrow> conn \<Rightarrow> server" where
  "requested s i j ka kb key1 key2 ca cb =
     (let g = sv_next s; sid = newSessionIdentifier i j in
      s\<lparr>sv_go := (sv_go s)(g \<mapsto> HandlingSession sid (Joining SlotStart SlotStart)), sv_next := g + 3,
        sv_conns := (sv_conns s)(ka := ca, kb := cb),
        sv_sessions := (sv_sessions s)(sid \<mapsto> new_handle i j key1 key2 g),
        sv_keys := (sv_keys s)(EncodeToString key1 \<mapsto> \<lparr>sk_id = sid, sk_goroutine = g, sk_first = True\<rparr>,
          EncodeToString key2 \<mapsto> \<lparr>sk_id = sid, sk_goroutine = g, sk_first = False\<rparr>)\<rparr>)"

lemma request_granted:
  assumes go: "go_inv s" "sv_go s na = Some (HandlingClient i ka ReadPacket)" and cl: "sv_clients s (EncodeToString j) = Some (j, kb)"
    and run: "\<not> sv_done s" "sv_clientHandler s = HandlerRunning" "sv_sessionHandler s = HandlerRunning"
    and new: "sv_sessions s (newSessionIdentifier i j) = None" and k: "ka \<noteq> kb" "conn_healthy (sv_conns s ka)" "conn_healthy (sv_conns s kb)"
    and req: "conn_pending (sv_conns s ka) = frame p @ rest" "length p \<le> MaxLength" "relay_UnwrapMessage cd p = Inr (RequestSession j d)"
    and keys: "newSessionKey rnd1 = Inr key1" "newSessionKey rnd2 = Inr key2"
    and pc: "relay_WrapMessage cd (SessionCreated (Some (createSessionDescription s key1)) j) = Inr pc" "length pc \<le> MaxLength"
    and pi: "relay_WrapMessage cd (SessionInvitation (Some (createSessionDescription s key2)) i d) = Inr pi" "length pi \<le> MaxLength"
  shows "\<exists>ca. server_run cd s (requested s i j ka kb key1 key2 (conn_append (frame pc) ca) (conn_append (frame pi) (sv_conns s kb))) \<and>
    conn_pending ca = rest \<and> c_out ca = c_out (sv_conns s ka) \<and> conn_healthy ca"
proof -
  obtain ca where ca: "DecodeFrom conn_Read (sv_conns s ka) = Return (p, None, ca)" "conn_pending ca = rest"
    "c_out ca = c_out (sv_conns s ka)" "conn_healthy ca" using message_read [OF req(1,2)] k(2) by blast
  let ?g = "sv_next s" and ?sid = "newSessionIdentifier i j"
  let ?s1 = "set_go na (HandlingClient i ka (GetTarget j d)) (set_conn ka ca s)"
  let ?s2 = "set_go na (HandlingClient i ka (CreateSession j d kb)) ?s1"
  let ?s3 = "request_create ?s2 na i ka j d kb key1 key2"
  have "server_step cd s ?s1"
    using server_step.client_packet [OF go(2) ca(1), of cd] req(3) run(1) by (simp add: handleClient_def server_handleMessage_def)
  moreover have "server_step cd ?s1 ?s2"
    using server_step.client_target [of ?s1 na i ka j d cd] run(2) cl by (simp add: request_target_def handler_getClient_def)
  moreover have "server_step cd ?s2 ?s3"
    by (rule server_step.client_create [OF _ _ keys]) (simp_all add: run(3))
  ultimately have r3: "server_run cd s ?s3" by (meson converse_rtranclp_into_rtranclp rtranclp.rtrancl_refl)
  have na: "na < ?g" using go_inv_less [OF go] .
  have none: "sv_go s (Suc ?g) = None" "sv_go s (Suc (Suc ?g)) = None" using go(1) by (simp_all add: go_inv_def)
  have desc: "createSessionDescription ?s2 key = createSessionDescription s key" for key by (simp add: createSessionDescription_def)
  have go3: "sv_go ?s3 (Suc ?g) = Some (Writing ka (SessionCreated (Some (createSessionDescription s key1)) j) Finish)"
    "sv_go ?s3 (Suc (Suc ?g)) = Some (Writing kb (SessionInvitation (Some (createSessionDescription s key2)) i d) Finish)"
    "sv_conns ?s3 = (sv_conns s)(ka := ca)"
    using new na desc by (simp_all add: request_create_def handler_newSession_def Let_def)
  let ?s4 = "end_go (Suc ?g) (set_conn ka (conn_append (frame pc) ca) ?s3)"
  have r4: "server_run cd ?s3 ?s4" using message_written [OF go3(1) _ pc] go3(3) ca(4) by simp
  have "server_run cd ?s4 (end_go (Suc (Suc ?g)) (set_conn kb (conn_append (frame pi) (sv_conns s kb)) ?s4))"
    using message_written [of ?s4 "Suc (Suc ?g)", OF _ _ pi] go3 k by simp
  moreover have "end_go (Suc (Suc ?g)) (set_conn kb (conn_append (frame pi) (sv_conns s kb)) ?s4) =
      requested s i j ka kb key1 key2 (conn_append (frame pc) ca) (conn_append (frame pi) (sv_conns s kb))"
    using new na none go(2) k(1)
    by (auto simp: requested_def request_create_def handler_newSession_def new_handle_def Let_def go_ops fun_eq_iff)
  ultimately show ?thesis using r3 r4 ca by (metis rtranclp_trans)
qed


text \<open>The state after an acceptance, which also is a message to either client.\<close>

definition accepted_by :: "server \<Rightarrow> nat \<Rightarrow> nat \<Rightarrow> nat \<Rightarrow> conn \<Rightarrow> conn \<Rightarrow> server" where
  "accepted_by s g ka kb ca cb =
     s\<lparr>sv_next := sv_next s + 2, sv_conns := (sv_conns s)(ka := ca, kb := cb), sv_accepted := g # sv_accepted s\<rparr>"

lemma acceptance_granted:
  assumes go: "go_inv s" "sv_go s nb = Some (HandlingClient j kb ReadPacket)" and cl: "sv_clients s (EncodeToString i) = Some (i, ka)"
    and run: "\<not> sv_done s" "sv_clientHandler s = HandlerRunning" "sv_sessionHandler s = HandlerRunning"
    and h: "sv_sessions s (newSessionIdentifier i j) = Some h" "sh_accepted h \<notin> set (sv_accepted s)"
    and k: "ka \<noteq> kb" "conn_healthy (sv_conns s ka)" "conn_healthy (sv_conns s kb)"
    and req: "conn_pending (sv_conns s kb) = frame p @ rest" "length p \<le> MaxLength" "relay_UnwrapMessage cd p = Inr (AcceptSession i d)"
    and pa: "relay_WrapMessage cd (SessionAccepted j d) = Inr pa" "length pa \<le> MaxLength"
    and pe: "relay_WrapMessage cd (SessionEstablished i) = Inr pe" "length pe \<le> MaxLength"
  shows "\<exists>cb. server_run cd s (accepted_by s (sh_accepted h) ka kb (conn_append (frame pa) (sv_conns s ka)) (conn_append (frame pe) cb)) \<and>
    conn_pending cb = rest \<and> c_out cb = c_out (sv_conns s kb) \<and> conn_healthy cb"
proof -
  obtain cb where cb: "DecodeFrom conn_Read (sv_conns s kb) = Return (p, None, cb)" "conn_pending cb = rest"
    "c_out cb = c_out (sv_conns s kb)" "conn_healthy cb" using message_read [OF req(1,2)] k(3) by blast
  let ?n = "sv_next s"
  let ?s1 = "set_go nb (HandlingClient j kb (MarkAccepted i d)) (set_conn kb cb s)"
  let ?s2 = "accept_mark ?s1 nb j kb i d"
  let ?s3 = "accept_initiator ?s2 nb j kb i d"
  have "server_step cd s ?s1"
    using server_step.client_packet [OF go(2) cb(1), of cd] req(3) run(1) by (simp add: handleClient_def server_handleMessage_def)
  moreover have "server_step cd ?s1 ?s2" by (rule server_step.client_accept) (simp_all add: run(3))
  moreover have "server_step cd ?s2 ?s3"
    by (rule server_step.client_initiator) (use h run in \<open>simp_all add: accept_mark_def handler_acceptSession_def\<close>)
  ultimately have r3: "server_run cd s ?s3" by (meson converse_rtranclp_into_rtranclp rtranclp.rtrancl_refl)
  have nb: "nb < ?n" using go_inv_less [OF go] .
  have none: "sv_go s ?n = None" "sv_go s (Suc ?n) = None" using go(1) by (simp_all add: go_inv_def)
  have go3: "sv_go ?s3 ?n = Some (Writing ka (SessionAccepted j d) Finish)" "sv_go ?s3 (Suc ?n) = Some (Writing kb (SessionEstablished i) Finish)"
    "sv_conns ?s3 = (sv_conns s)(kb := cb)"
    using h cl by (simp_all add: accept_initiator_def accept_mark_def handler_acceptSession_def handler_getClient_def Let_def)
  let ?s4 = "end_go ?n (set_conn ka (conn_append (frame pa) (sv_conns s ka)) ?s3)"
  have r4: "server_run cd ?s3 ?s4" using message_written [OF go3(1) _ pa] go3(3) k by simp
  have "server_run cd ?s4 (end_go (Suc ?n) (set_conn kb (conn_append (frame pe) cb) ?s4))"
    using message_written [of ?s4 "Suc ?n", OF _ _ pe] go3 k cb(4) by simp
  moreover have "end_go (Suc ?n) (set_conn kb (conn_append (frame pe) cb) ?s4) =
      accepted_by s (sh_accepted h) ka kb (conn_append (frame pa) (sv_conns s ka)) (conn_append (frame pe) cb)"
    using h cl nb none go(2) k(1)
    by (auto simp: accepted_by_def accept_initiator_def accept_mark_def handler_acceptSession_def handler_getClient_def Let_def go_ops fun_eq_iff)
  ultimately show ?thesis using r3 r4 cb by (metis rtranclp_trans)
qed

section \<open>The clients of a session\<close>

lemma response_written:
  assumes "conn_healthy c" and "Marshal_response cd st = Inr pr" and "length pr \<le> MaxLength"
  shows "writeSessionResponse cd c st = Return (None, conn_append (frame pr) c)"
proof -
  have "conn_healthy (c\<lparr>c_out := x\<rparr>)" for x using assms(1) by (simp add: conn_healthy_def)
  then show ?thesis using assms
    by (simp add: writeSessionResponse_def Packet_WriteTo_def Packet_New_def LengthOf_ok conn_Write_healthy conn_append_def frame_def Length_Bytes_def)
qed

text \<open>A client that joins a session with the key of one of its sides, up to the answer.\<close>

lemma side_joins:
  assumes go: "go_inv s" "sv_go s g = Some (HandlingSession sid (Joining a b))" and run: "sv_sessionHandler s = HandlerRunning"
    and key: "handler_getSessionChan s key = Some \<lparr>sk_id = sid, sk_goroutine = g, sk_first = first\<rparr>"
    and slot: "get_slot first (Joining a b) = Some SlotStart" and k: "conn_healthy (sv_conns s k)"
    and auth: "conn_pending (sv_conns s k) = frame p @ rest" "length p \<le> MaxLength" "Unmarshal_auth cd p = Inr key"
    and pr: "Marshal_response cd SessionStateConnected = Inr pr" "length pr \<le> MaxLength"
  shows "\<exists>c. server_run cd s (s\<lparr>sv_go := (sv_go s)(g \<mapsto> HandlingSession sid (set_slot first (SlotOk k) (Joining a b))), sv_next := sv_next s + 1,
      sv_conns := (sv_conns s)(k := conn_append (frame pr) c)\<rparr>) \<and>
    conn_pending c = rest \<and> c_out c = c_out (sv_conns s k) \<and> conn_healthy c"
proof -
  obtain c where c: "DecodeFrom conn_Read (sv_conns s k) = Return (p, None, c)" "conn_pending c = rest"
    "c_out c = c_out (sv_conns s k)" "conn_healthy c" using message_read [OF auth(1,2)] k by blast
  let ?n = "sv_next s"
  let ?at = "\<lambda>x. HandlingSession sid (set_slot first x (Joining a b))"
  have g: "g < ?n" using go_inv_less [OF go] .
  have n: "sv_go s ?n = None" using go(1) by (simp add: go_inv_def)
  let ?s1 = "AddSessionClient s k"
  let ?s2 = "set_go g (?at SlotWaiting) ?s1"
  let ?s3 = "set_go ?n (JoiningSession k (JoinLookup key)) (set_conn k c ?s2)"
  let ?s4 = "set_go ?n (JoiningSession k (JoinOffer g first)) ?s3"
  let ?s5 = "end_go ?n (set_go g (?at (SlotGot k)) ?s4)"
  let ?s6 = "set_go g (?at (SlotOk k)) (set_conn k (conn_append (frame pr) c) ?s5)"
  have pc: "get_slot first (set_slot first x (Joining a b)) = Some x" "set_slot first y (set_slot first x (Joining a b)) = set_slot first y (Joining a b)" for x y
    by simp_all
  have "server_step cd s ?s1" by (rule server_step.add_session_client)
  moreover have "server_step cd ?s1 ?s2"
    using server_step.slot_wait [of ?s1 g sid "Joining a b" first cd] go(2) slot g by (simp add: AddSessionClient_def)
  moreover have "server_step cd ?s2 ?s3"
    using server_step.step_join_read [of ?s2 ?n k cd] c(1) auth(3) g by (simp add: AddSessionClient_def join_read_def Let_def)
  moreover have "server_step cd ?s3 ?s4"
    using server_step.step_join_lookup [of ?s3 ?n k key cd] run key by (simp add: AddSessionClient_def join_lookup_def handler_getSessionChan_def)
  moreover have "server_step cd ?s4 ?s5"
    using server_step.step_join_offer [of ?s4 ?n k g first cd] g pc by (simp add: join_offer_def AddSessionClient_def del: get_slot.simps set_slot.simps)
  moreover have "slot_respond cd ?s5 k = (SlotOk k, set_conn k (conn_append (frame pr) c) ?s5)"
    using response_written [OF c(4) pr] by (simp add: slot_respond_def)
  then have "server_step cd ?s5 ?s6"
    using server_step.slot_write [of ?s5 g sid "set_slot first (SlotGot k) (Joining a b)" first k cd] g pc by (simp del: get_slot.simps set_slot.simps)
  ultimately have "server_run cd s ?s6" by (meson converse_rtranclp_into_rtranclp rtranclp.rtrancl_refl)
  moreover have "?s6 = s\<lparr>sv_go := (sv_go s)(g \<mapsto> ?at (SlotOk k)), sv_next := sv_next s + 1, sv_conns := (sv_conns s)(k := conn_append (frame pr) c)\<rparr>"
    using g n by (auto simp: AddSessionClient_def go_ops fun_eq_iff)
  ultimately show ?thesis using c by metis
qed


section \<open>Relaying both ways\<close>

lemma relay_all:
  assumes "sv_go s r = Some (RelayRead n first src dst)" and "src \<noteq> dst" and "\<not> sv_done s" and "conn_healthy (sv_conns s dst)"
    and "sv_err s n = None"
  shows "\<exists>c. server_run cd s (s\<lparr>sv_conns := (sv_conns s)(src := c, dst := conn_append (conn_pending (sv_conns s src)) (sv_conns s dst))\<rparr>) \<and>
    conn_pending c = [] \<and> c_out c = c_out (sv_conns s src) \<and> conn_healthy c = conn_healthy (sv_conns s src)"
  using assms
proof (induction "length (conn_pending (sv_conns s src))" arbitrary: s rule: less_induct)
  case less
  show ?case
  proof (cases "conn_pending (sv_conns s src) = []")
    case True
    then show ?thesis by (intro exI [of _ "sv_conns s src"]) (simp add: conn_append_def)
  next
    case False
    obtain j c where r: "0 < j" "conn_Read (sv_conns s src) SessionBufSize = Return (take j (conn_pending (sv_conns s src)), None, c)"
      "conn_pending c = drop j (conn_pending (sv_conns s src))"
      using conn_Read_some [OF False, of SessionBufSize] by (auto simp: SessionBufSize_def)
    have keep: "c_out c = c_out (sv_conns s src)" "conn_healthy c = conn_healthy (sv_conns s src)"
      using conn_Read_keeps r(2) by (auto simp: reader_keeps_def conn_healthy_def)
    let ?p = "take j (conn_pending (sv_conns s src))"
    let ?s1 = "set_go r (RelayWrite n first src dst ?p) (set_conn src c s)"
    let ?s2 = "(set_go r (RelayRead n first src dst) (set_conn dst (conn_append ?p (sv_conns ?s1 dst)) ?s1))\<lparr>sv_err := (sv_err ?s1)(n := None)\<rparr>"
    let ?u = "s\<lparr>sv_conns := (sv_conns s)(src := c, dst := conn_append ?p (sv_conns s dst))\<rparr>"
    have "server_step cd s ?s1"
      using server_step.step_relay_read [OF less.prems(1), of cd] r(2) less.prems(3) by (simp add: relay_read_def)
    moreover have "server_run cd ?s1 ?s2" by (rule relay_written) (use less.prems in simp_all)
    moreover have "?s2 = ?u" using less.prems(1,2,5) by (auto simp: go_ops fun_eq_iff)
    ultimately have run: "server_run cd s ?u" by (metis converse_rtranclp_into_rtranclp)
    have "length (conn_pending (sv_conns ?u src)) < length (conn_pending (sv_conns s src))" using r False less.prems(2) by simp
    then obtain c' where c': "server_run cd ?u (?u\<lparr>sv_conns := (sv_conns ?u)(src := c', dst := conn_append (conn_pending (sv_conns ?u src)) (sv_conns ?u dst))\<rparr>)"
      "conn_pending c' = []" "c_out c' = c_out (sv_conns ?u src)" "conn_healthy c' = conn_healthy (sv_conns ?u src)"
      using less.hyps [of ?u] less.prems by auto
    have "?u\<lparr>sv_conns := (sv_conns ?u)(src := c', dst := conn_append (conn_pending (sv_conns ?u src)) (sv_conns ?u dst))\<rparr> =
        s\<lparr>sv_conns := (sv_conns s)(src := c', dst := conn_append (conn_pending (sv_conns s src)) (sv_conns s dst))\<rparr>"
      using less.prems(2) r(3) by (simp add: fun_upd_twist)
    then show ?thesis using run c' keep less.prems(2) by (intro exI [of _ c']) (auto intro: rtranclp_trans)
  qed
qed


section \<open>From the request to the relayed bytes\<close>

text \<open>A message that fits in a packet, with its encoding.\<close>

definition encodes :: "relay_codec \<Rightarrow> relay_message \<Rightarrow> bytes \<Rightarrow> bool" where
  "encodes cd m p \<longleftrightarrow> relay_WrapMessage cd m = Inr p \<and> length p \<le> MaxLength"

text \<open>Both sides of a session join, one after the other, and the goroutines that relay are started.\<close>

lemma both_join:
  assumes run: "server_run cd (NewServerProtocol port conns) s" and go: "sv_go s g = Some (HandlingSession sid (Joining SlotStart SlotStart))"
    and acc: "g \<in> set (sv_accepted s)" "\<not> sv_done s" "sv_sessionHandler s = HandlerRunning"
    and keys: "handler_getSessionChan s key1 = Some \<lparr>sk_id = sid, sk_goroutine = g, sk_first = True\<rparr>"
      "handler_getSessionChan s key2 = Some \<lparr>sk_id = sid, sk_goroutine = g, sk_first = False\<rparr>"
    and k: "k1 \<noteq> k2" "conn_healthy (sv_conns s k1)" "conn_healthy (sv_conns s k2)"
    and a1: "conn_pending (sv_conns s k1) = frame a1 @ x" "length a1 \<le> MaxLength" "Unmarshal_auth cd a1 = Inr key1"
    and a2: "conn_pending (sv_conns s k2) = frame a2 @ y" "length a2 \<le> MaxLength" "Unmarshal_auth cd a2 = Inr key2"
    and pr: "Marshal_response cd SessionStateConnected = Inr pr" "length pr \<le> MaxLength"
  shows "\<exists>t. server_run cd s t \<and> (\<forall>k. k \<noteq> k1 \<longrightarrow> k \<noteq> k2 \<longrightarrow> sv_conns t k = sv_conns s k) \<and>
    c_out (sv_conns t k1) = c_out (sv_conns s k1) @ frame pr @ y \<and> c_out (sv_conns t k2) = c_out (sv_conns s k2) @ frame pr @ x"
proof -
  obtain c1 where c1: "conn_pending c1 = x" "c_out c1 = c_out (sv_conns s k1)" "conn_healthy c1" and r1: "server_run cd s
      (s\<lparr>sv_go := (sv_go s)(g \<mapsto> HandlingSession sid (Joining (SlotOk k1) SlotStart)), sv_next := sv_next s + 1,
         sv_conns := (sv_conns s)(k1 := conn_append (frame pr) c1)\<rparr>)" (is "server_run cd s ?s1")
    using side_joins [OF fresh_goroutine(1) [OF run] go acc(3) keys(1) _ k(2) a1 pr] by auto
  have g1: "go_inv ?s1" using fresh_goroutine(1) run r1 by (metis rtranclp_trans)
  have k1: "handler_getSessionChan ?s1 key2 = Some \<lparr>sk_id = sid, sk_goroutine = g, sk_first = False\<rparr>" "conn_healthy (sv_conns ?s1 k2)"
    "conn_pending (sv_conns ?s1 k2) = frame a2 @ y"
    using keys(2) k a2(1) by (simp_all add: handler_getSessionChan_def)
  obtain c2 where c2: "conn_pending c2 = y" "c_out c2 = c_out (sv_conns s k2)" "conn_healthy c2" and r2: "server_run cd ?s1
      (s\<lparr>sv_go := (sv_go s)(g \<mapsto> HandlingSession sid (Joining (SlotOk k1) (SlotOk k2))), sv_next := sv_next s + 2,
         sv_conns := (sv_conns s)(k1 := conn_append (frame pr) c1, k2 := conn_append (frame pr) c2)\<rparr>)" (is "server_run cd ?s1 ?s2")
    using side_joins [OF g1 _ _ k1(1) _ k1(2,3) a2(2,3) pr, of "SlotOk k1" SlotStart] acc(3) k(1) by auto
  have n: "g < sv_next s" using go_inv_less [OF fresh_goroutine(1) [OF run] go] .
  let ?s3 = "session_relay (set_go g (HandlingSession sid (AwaitAccept k1 k2)) ?s2) g sid k1 k2"
  have "server_step cd ?s2 (set_go g (HandlingSession sid (AwaitAccept k1 k2)) ?s2)"
    using server_step.step_joined [of ?s2 g sid "SlotOk k1" "SlotOk k2" cd] by (simp add: session_joined_def)
  moreover have "server_step cd (set_go g (HandlingSession sid (AwaitAccept k1 k2)) ?s2) ?s3"
    by (rule server_step.step_accepted) (simp_all add: acc)
  ultimately have r3: "server_run cd ?s2 ?s3" by (rule run_two)
  have s3: "sv_go ?s3 (sv_next s + 2) = Some (RelayRead g True k1 k2)" "sv_go ?s3 (sv_next s + 3) = Some (RelayRead g False k2 k1)"
    "sv_conns ?s3 = (sv_conns s)(k1 := conn_append (frame pr) c1, k2 := conn_append (frame pr) c2)" "\<not> sv_done ?s3" "sv_err ?s3 g = None"
    using acc(2) by (simp_all add: session_relay_def numeral_3_eq_3)
  obtain d1 where d1: "server_run cd ?s3 (?s3\<lparr>sv_conns := (sv_conns ?s3)(k1 := d1, k2 := conn_append x (sv_conns ?s3 k2))\<rparr>)"
    "c_out d1 = c_out (sv_conns s k1) @ frame pr" "conn_healthy d1"
    using relay_all [OF s3(1) k(1) s3(4) _ s3(5), of cd] s3(3) c1 c2 k(1) by auto
  let ?s4 = "?s3\<lparr>sv_conns := (sv_conns ?s3)(k1 := d1, k2 := conn_append x (sv_conns ?s3 k2))\<rparr>"
  obtain d2 where d2: "server_run cd ?s4 (?s4\<lparr>sv_conns := (sv_conns ?s4)(k2 := d2, k1 := conn_append y (sv_conns ?s4 k1))\<rparr>)"
    "c_out d2 = c_out (sv_conns s k2) @ frame pr @ x"
    using relay_all [of ?s4 "sv_next s + 3" g False k2 k1 cd] s3 c2 d1 k(1) by auto
  let ?t = "?s4\<lparr>sv_conns := (sv_conns ?s4)(k2 := d2, k1 := conn_append y (sv_conns ?s4 k1))\<rparr>"
  have "server_run cd s ?t" using r1 r2 r3 d1(1) d2(1) by (meson rtranclp_trans)
  moreover have "c_out (sv_conns ?t k1) = c_out (sv_conns s k1) @ frame pr @ y" "c_out (sv_conns ?t k2) = c_out (sv_conns s k2) @ frame pr @ x"
    using d1(2) d2(2) k(1) by simp_all
  moreover have "sv_conns ?t k = sv_conns s k" if "k \<noteq> k1" "k \<noteq> k2" for k using that s3(3) by simp
  ultimately show ?thesis by blast
qed


text \<open>A client that the server has registered and that waits for a message of it.\<close>

definition client_idle :: "server \<Rightarrow> Identity \<Rightarrow> nat \<Rightarrow> nat \<Rightarrow> bool" where
  "client_idle s i k n \<longleftrightarrow>
     sv_go s n = Some (HandlingClient i k ReadPacket) \<and> sv_clients s (EncodeToString i) = Some (i, k) \<and> conn_healthy (sv_conns s k)"

definition server_running :: "server \<Rightarrow> bool" where
  "server_running s \<longleftrightarrow> \<not> sv_done s \<and> sv_clientHandler s = HandlerRunning \<and> sv_sessionHandler s = HandlerRunning"

text \<open>The request and the acceptance together: both clients are told of the session, and its goroutine waits for their connections.\<close>

definition session_waits :: "server \<Rightarrow> string \<Rightarrow> nat \<Rightarrow> bytes \<Rightarrow> bytes \<Rightarrow> bool" where
  "session_waits s sid g key1 key2 \<longleftrightarrow>
     sv_go s g = Some (HandlingSession sid (Joining SlotStart SlotStart)) \<and> g \<in> set (sv_accepted s) \<and>
     handler_getSessionChan s key1 = Some \<lparr>sk_id = sid, sk_goroutine = g, sk_first = True\<rparr> \<and>
     handler_getSessionChan s key2 = Some \<lparr>sk_id = sid, sk_goroutine = g, sk_first = False\<rparr>"

lemma devices_agree:
  assumes reach: "server_run cd (NewServerProtocol port conns) s" and codec: "relay_codec_roundtrip cd" and up: "server_running s"
    and idle: "client_idle s i ka na" "client_idle s j kb nb" and new: "sv_sessions s (newSessionIdentifier i j) = None"
    and keys: "newSessionKey rnd1 = Inr key1" "newSessionKey rnd2 = Inr key2" "key1 \<noteq> key2" and ks: "ka \<noteq> kb"
    and request: "encodes cd (RequestSession j d) pq" "conn_pending (sv_conns s ka) = frame pq @ rest"
    and acceptance: "encodes cd (AcceptSession i e) pp" "conn_pending (sv_conns s kb) = frame pp @ rest'"
    and msgs: "encodes cd (SessionCreated (Some (createSessionDescription s key1)) j) pc"
      "encodes cd (SessionInvitation (Some (createSessionDescription s key2)) i d) pi"
      "encodes cd (SessionAccepted j e) pa" "encodes cd (SessionEstablished i) pe"
  shows "\<exists>u. server_run cd s u \<and> server_running u \<and> session_waits u (newSessionIdentifier i j) (sv_next s) key1 key2 \<and>
    (\<forall>k. k \<noteq> ka \<longrightarrow> k \<noteq> kb \<longrightarrow> sv_conns u k = sv_conns s k) \<and>
    c_out (sv_conns u ka) = c_out (sv_conns s ka) @ frame pc @ frame pa \<and> c_out (sv_conns u kb) = c_out (sv_conns s kb) @ frame pi @ frame pe"
proof -
  let ?g = "sv_next s" and ?sid = "newSessionIdentifier i j"
  have idle': "sv_go s na = Some (HandlingClient i ka ReadPacket)" "sv_clients s (EncodeToString i) = Some (i, ka)" "conn_healthy (sv_conns s ka)"
    "sv_go s nb = Some (HandlingClient j kb ReadPacket)" "sv_clients s (EncodeToString j) = Some (j, kb)" "conn_healthy (sv_conns s kb)"
    using idle by (simp_all add: client_idle_def)
  have up': "\<not> sv_done s" "sv_clientHandler s = HandlerRunning" "sv_sessionHandler s = HandlerRunning" using up by (simp_all add: server_running_def)
  have pq: "length pq \<le> MaxLength" "relay_UnwrapMessage cd pq = Inr (RequestSession j d)"
    and pp: "length pp \<le> MaxLength" "relay_UnwrapMessage cd pp = Inr (AcceptSession i e)"
    using relay_wrap_roundtrip [OF codec] request(1) acceptance(1) by (simp_all add: encodes_def)
  note fits = msgs(1) [unfolded encodes_def, THEN conjunct1] msgs(1) [unfolded encodes_def, THEN conjunct2]
    msgs(2) [unfolded encodes_def, THEN conjunct1] msgs(2) [unfolded encodes_def, THEN conjunct2]
    msgs(3) [unfolded encodes_def, THEN conjunct1] msgs(3) [unfolded encodes_def, THEN conjunct2]
    msgs(4) [unfolded encodes_def, THEN conjunct1] msgs(4) [unfolded encodes_def, THEN conjunct2]
  note inv = fresh_goroutine [OF reach]
  obtain ca where r1: "server_run cd s (requested s i j ka kb key1 key2 (conn_append (frame pc) ca) (conn_append (frame pi) (sv_conns s kb)))"
    (is "server_run cd s ?s1") and ca: "c_out ca = c_out (sv_conns s ka)" "conn_healthy ca"
    using request_granted [OF inv(1) idle'(1,5) up' new ks idle'(3,6) request(2) pq keys(1,2) fits(1-4)] by blast
  have nb: "nb < ?g" using go_inv_less [OF inv(1) idle'(4)] .
  have s1: "sv_go ?s1 nb = Some (HandlingClient j kb ReadPacket)" "sv_sessions ?s1 ?sid = Some (new_handle i j key1 key2 ?g)"
    "conn_healthy (sv_conns ?s1 ka)" "conn_healthy (sv_conns ?s1 kb)" "conn_pending (sv_conns ?s1 kb) = frame pp @ rest'"
    using idle' nb ks ca(2) acceptance(2) by (simp_all add: requested_def Let_def)
  have g1: "go_inv ?s1" by (rule fresh_goroutine(1) [OF rtranclp_trans [OF reach r1]])
  have h: "sh_accepted (new_handle i j key1 key2 ?g) \<notin> set (sv_accepted ?s1)" using inv(2) by (simp add: requested_def new_handle_def Let_def)
  have f1: "sv_clients ?s1 (EncodeToString i) = Some (i, ka)" "\<not> sv_done ?s1" "sv_clientHandler ?s1 = HandlerRunning" "sv_sessionHandler ?s1 = HandlerRunning"
    using idle'(2) up' by (simp_all add: requested_def Let_def)
  obtain cb where r2: "server_run cd ?s1 (accepted_by ?s1 (sh_accepted (new_handle i j key1 key2 ?g)) ka kb
      (conn_append (frame pa) (sv_conns ?s1 ka)) (conn_append (frame pe) cb))" (is "server_run cd ?s1 ?s2")
    and cb: "c_out cb = c_out (sv_conns ?s1 kb)"
    using acceptance_granted [OF g1 s1(1) f1 s1(2) h ks s1(3-5) pp fits(5-8)] by blast
  have "server_running ?s2" "session_waits ?s2 ?sid ?g key1 key2" "k \<noteq> ka \<Longrightarrow> k \<noteq> kb \<Longrightarrow> sv_conns ?s2 k = sv_conns s k" for k
    using up' keys(3) by (simp_all add: server_running_def session_waits_def accepted_by_def requested_def new_handle_def handler_getSessionChan_def Let_def)
  moreover have "c_out (sv_conns ?s2 ka) = c_out (sv_conns s ka) @ frame pc @ frame pa" "c_out (sv_conns ?s2 kb) = c_out (sv_conns s kb) @ frame pi @ frame pe"
    using ks ca cb by (simp_all add: accepted_by_def requested_def Let_def)
  ultimately show ?thesis using rtranclp_trans [OF r1 r2] by blast
qed

text \<open>
  C11. The relay connects two devices. From every reachable state in which two clients are connected and have no session, one has sent a request for
  the other and the other one its acceptance, and two connections come with the keys of the session, the server can go on until both clients have
  been told everything (the first one the key and the acceptance, the second one the invitation with its key and that the session is established), both
  connections have been admitted, and every byte that one of them sends has been written to the other one.
\<close>

theorem relay_connects_devices:
  assumes reach: "server_run cd (NewServerProtocol port conns) s" and codec: "relay_codec_roundtrip cd" and up: "server_running s"
    and idle: "client_idle s i ka na" "client_idle s j kb nb" and new: "sv_sessions s (newSessionIdentifier i j) = None"
    and keys: "newSessionKey rnd1 = Inr key1" "newSessionKey rnd2 = Inr key2" "key1 \<noteq> key2"
    and distinct: "distinct [ka, kb, k1, k2]" and k: "conn_healthy (sv_conns s k1)" "conn_healthy (sv_conns s k2)"
    and request: "encodes cd (RequestSession j d) pq" "conn_pending (sv_conns s ka) = frame pq @ rest"
    and acceptance: "encodes cd (AcceptSession i e) pp" "conn_pending (sv_conns s kb) = frame pp @ rest'"
    and auth: "Marshal_auth cd key1 = Inr a1" "Marshal_auth cd key2 = Inr a2" "length a1 \<le> MaxLength" "length a2 \<le> MaxLength"
    and sides: "conn_pending (sv_conns s k1) = frame a1 @ x" "conn_pending (sv_conns s k2) = frame a2 @ y"
    and msgs: "encodes cd (SessionCreated (Some (createSessionDescription s key1)) j) pc"
      "encodes cd (SessionInvitation (Some (createSessionDescription s key2)) i d) pi"
      "encodes cd (SessionAccepted j e) pa" "encodes cd (SessionEstablished i) pe"
    and response: "Marshal_response cd SessionStateConnected = Inr pr" "length pr \<le> MaxLength"
  shows "\<exists>t. server_run cd s t \<and>
    c_out (sv_conns t ka) = c_out (sv_conns s ka) @ frame pc @ frame pa \<and>
    c_out (sv_conns t kb) = c_out (sv_conns s kb) @ frame pi @ frame pe \<and>
    c_out (sv_conns t k1) = c_out (sv_conns s k1) @ frame pr @ y \<and>
    c_out (sv_conns t k2) = c_out (sv_conns s k2) @ frame pr @ x"
proof -
  have unauth: "Unmarshal_auth cd a1 = Inr key1" "Unmarshal_auth cd a2 = Inr key2" using codec auth unfolding relay_codec_roundtrip_def by blast+
  have ks: "ka \<noteq> kb" "k1 \<noteq> k2" "k1 \<noteq> ka" "k1 \<noteq> kb" "k2 \<noteq> ka" "k2 \<noteq> kb" using distinct by auto
  obtain u where u: "server_run cd s u" "server_running u" "session_waits u (newSessionIdentifier i j) (sv_next s) key1 key2"
    "\<And>k. k \<noteq> ka \<Longrightarrow> k \<noteq> kb \<Longrightarrow> sv_conns u k = sv_conns s k"
    "c_out (sv_conns u ka) = c_out (sv_conns s ka) @ frame pc @ frame pa" "c_out (sv_conns u kb) = c_out (sv_conns s kb) @ frame pi @ frame pe"
    using devices_agree [OF reach codec up idle new keys ks(1) request acceptance msgs] by blast
  have w: "sv_go u (sv_next s) = Some (HandlingSession (newSessionIdentifier i j) (Joining SlotStart SlotStart))" "sv_next s \<in> set (sv_accepted u)"
    "\<not> sv_done u" "sv_sessionHandler u = HandlerRunning"
    "handler_getSessionChan u key1 = Some \<lparr>sk_id = newSessionIdentifier i j, sk_goroutine = sv_next s, sk_first = True\<rparr>"
    "handler_getSessionChan u key2 = Some \<lparr>sk_id = newSessionIdentifier i j, sk_goroutine = sv_next s, sk_first = False\<rparr>"
    using u(2,3) by (simp_all add: session_waits_def server_running_def)
  have c: "sv_conns u k1 = sv_conns s k1" "sv_conns u k2 = sv_conns s k2" using u(4) ks by simp_all
  obtain t where t: "server_run cd u t" "\<And>k. k \<noteq> k1 \<Longrightarrow> k \<noteq> k2 \<Longrightarrow> sv_conns t k = sv_conns u k"
    "c_out (sv_conns t k1) = c_out (sv_conns u k1) @ frame pr @ y" "c_out (sv_conns t k2) = c_out (sv_conns u k2) @ frame pr @ x"
    using both_join [OF rtranclp_trans [OF reach u(1)] w ks(2) k [folded c] sides(1) [folded c] auth(3) unauth(1)
        sides(2) [folded c] auth(4) unauth(2) response] by blast
  have "sv_conns t ka = sv_conns u ka" "sv_conns t kb = sv_conns u kb" using t(2) ks by auto
  then show ?thesis using t u(5,6) c rtranclp_trans [OF u(1) t(1)] by (intro exI [of _ t]) simp
qed


section \<open>A connected pair of devices\<close>

text \<open>A client that connects, up to the wait for its messages.\<close>

lemma client_connects:
  assumes go: "go_inv s" and run: "sv_clientHandler s = HandlerRunning" and new: "sv_clients s (EncodeToString i) = None"
    and k: "conn_healthy (sv_conns s k)" and p: "encodes cd Connected p"
  shows "server_run cd s (s\<lparr>sv_clients := (sv_clients s)(EncodeToString i \<mapsto> (i, k)), sv_next := sv_next s + 3,
    sv_go := (sv_go s)(sv_next s + 2 \<mapsto> HandlingClient i k ReadPacket), sv_conns := (sv_conns s)(k := conn_append (frame p) (sv_conns s k))\<rparr>)"
    (is "server_run cd s ?t")
proof -
  let ?n = "sv_next s" and ?a = "HandleAfter i"
  have p': "relay_WrapMessage cd Connected = Inr p" "length p \<le> MaxLength" using p by (simp_all add: encodes_def)
  have none: "sv_go s ?n = None" "sv_go s (Suc ?n) = None" "sv_go s (Suc (Suc ?n)) = None" using go by (simp_all add: go_inv_def)
  let ?s1 = "AddClient s i k"
  let ?s2 = "handler_newClient (end_go ?n ?s1) i k"
  let ?c = "conn_append (Length_Bytes (of_nat (length p))) (sv_conns s k)"
  let ?s3 = "set_go (Suc ?n) (WritingBody k p ?a) (set_conn k ?c ?s2)"
  let ?s4 = "spawn (HandlingClient i k ReadPacket) (end_go (Suc ?n) (set_conn k (conn_append p ?c) ?s3))"
  have s2: "sv_go ?s2 (Suc ?n) = Some (Writing k Connected ?a)" "sv_conns ?s2 = sv_conns s"
    using new by (simp_all add: handler_newClient_def AddClient_def)
  have "server_step cd s ?s1" by (rule server_step.add_client)
  moreover have "server_step cd ?s1 ?s2" by (rule server_step.new_client) (simp_all add: AddClient_def run)
  moreover have "server_step cd ?s2 ?s3"
    using server_step.step_header [OF s2(1), of cd] write_header_healthy [of ?s2 k cd Connected p "Suc ?n" ?a] p' k s2(2) by simp
  moreover have "server_step cd ?s3 ?s4"
    using server_step.step_body [of ?s3 "Suc ?n" k p ?a cd] write_body_healthy [of ?s3 k "Suc ?n" p ?a] k by (simp add: write_done_def)
  ultimately have "server_run cd s ?s4" by (rule run_four)
  moreover have "(sv_go s)(?n := None, Suc ?n := None) = sv_go s" using none by (simp add: fun_upd_idem)
  then have "?s4 = ?t"
    by (intro server.equality) (use new in \<open>simp_all add: handler_newClient_def AddClient_def go_ops frame_def Length_Bytes_def Let_def conn_append_def\<close>)
  ultimately show ?thesis by (simp only:)
qed

text \<open>A codec for messages with identities of one byte and keys of sixteen, and connections with what four clients send.\<close>

definition session_codec :: relay_codec where
  "session_codec = short_codec
     \<lparr>Marshal_content := (\<lambda>m. case m of
        SessionCreated (Some d) [i] \<Rightarrow>
          if length (sd_Key d) = 16 then Inr (i # PutUint32 (sd_Port d) @ sd_Key d) else Inl (ErrorString ''unsupported'')
      | SessionInvitation (Some d) [i] x \<Rightarrow>
          if length (sd_Key d) = 16 then Inr (i # PutUint32 (sd_Port d) @ sd_Key d @ x) else Inl (ErrorString ''unsupported'')
      | _ \<Rightarrow> Marshal_content short_codec m),
      Unmarshal_content := (\<lambda>bs blank. case blank of
        SessionCreated _ _ \<Rightarrow> Inr (SessionCreated (Some \<lparr>sd_Key = take 16 (drop 5 bs), sd_Port = get_be (take 4 (drop 1 bs))\<rparr>) (take 1 bs))
      | SessionInvitation _ _ _ \<Rightarrow>
          Inr (SessionInvitation (Some \<lparr>sd_Key = take 16 (drop 5 bs), sd_Port = get_be (take 4 (drop 1 bs))\<rparr>) (take 1 bs) (drop 21 bs))
      | _ \<Rightarrow> Unmarshal_content short_codec bs blank)\<rparr>"


lemma session_codec_roundtrip: "relay_codec_roundtrip session_codec"
  unfolding relay_codec_roundtrip_def
proof (intro conjI allI impI)
  fix m bs blank
  assume m: "Marshal_content session_codec m = Inr bs" "relay_NewMessage (relay_TypeOf m) = Inr blank"
  show "Unmarshal_content session_codec bs blank = Inr m"
  proof (cases "\<exists>x y z. m = SessionCreated x y \<or> m = SessionInvitation x y z")
    case True
    then show ?thesis using m
      by (auto simp: session_codec_def short_codec_def relay_NewMessage_def split: list.split_asm option.split_asm if_split_asm)
  next
    case False
    then have "Marshal_content short_codec m = Inr bs" using m(1) by (cases m) (auto simp: session_codec_def)
    then have "Unmarshal_content short_codec bs blank = Inr m" using short_codec_roundtrip m(2) unfolding relay_codec_roundtrip_def by blast
    then show ?thesis using m(2) False by (cases m) (auto simp: session_codec_def relay_NewMessage_def)
  qed
next
  fix st bs
  assume "Marshal_response session_codec st = Inr bs"
  then show "Unmarshal_response session_codec bs = Inr st" by (cases st) (auto simp: session_codec_def short_codec_def)
qed (auto simp: session_codec_def short_codec_def)

abbreviation session_key1 :: bytes where "session_key1 \<equiv> replicate 16 1"
abbreviation session_key2 :: bytes where "session_key2 \<equiv> replicate 16 2"

definition session_conns :: "nat \<Rightarrow> conn" where
  "session_conns k = \<lparr>c_in =
       (if k = 0 then [frame [0, 0, 0, 3, 6, 8]] else if k = 1 then [frame [0, 0, 0, 7, 5, 4]]
        else if k = 2 then [frame session_key1 @ [1], [2, 3]] else [frame session_key2, [9]]),
     c_end = IOError EOF, c_out = [], c_werr = None, c_closed = False\<rparr>"

lemma session_codec_messages:
  "encodes session_codec Connected [0, 0, 0, 1]" "encodes session_codec (RequestSession [6] [8]) [0, 0, 0, 3, 6, 8]"
  "encodes session_codec (AcceptSession [5] [4]) [0, 0, 0, 7, 5, 4]" "encodes session_codec (SessionAccepted [6] [4]) [0, 0, 0, 8, 6, 4]"
  "encodes session_codec (SessionEstablished [5]) [0, 0, 0, 9, 5]"
  by (simp_all add: encodes_def relay_WrapMessage_def relay_RawTypeOf_def session_codec_def short_codec_def PutUint_eval packet_consts)


lemma session_codec_descriptions:
  assumes "length (sd_Key d) = 16"
  shows "\<exists>p. encodes session_codec (SessionCreated (Some d) [i]) p" "\<exists>p. encodes session_codec (SessionInvitation (Some d) [i] [x]) p"
  using assms by (simp_all add: encodes_def relay_WrapMessage_def relay_RawTypeOf_def session_codec_def short_codec_def packet_consts)

text \<open>Both devices connect.\<close>

lemma session_clients_run:
  "\<exists>s. server_run session_codec (NewServerProtocol 23521 session_conns) s \<and> server_running s \<and> client_idle s [5] 0 2 \<and> client_idle s [6] 1 5 \<and>
     sv_sessions s = Map.empty \<and> sv_conns s = session_conns(0 := conn_append (frame [0, 0, 0, 1]) (session_conns 0), 1 := conn_append (frame [0, 0, 0, 1]) (session_conns 1))"
proof -
  let ?s0 = "NewServerProtocol 23521 session_conns" and ?c = "\<lambda>k. conn_append (frame [0, 0, 0, 1]) (session_conns k)"
  have ok: "conn_healthy (session_conns k)" for k by (simp add: conn_healthy_def session_conns_def)
  let ?s1 = "?s0\<lparr>sv_clients := [EncodeToString [5] \<mapsto> ([5], 0)], sv_next := 3, sv_go := [2 \<mapsto> HandlingClient [5] 0 ReadPacket],
    sv_conns := session_conns(0 := ?c 0)\<rparr>"
  let ?s2 = "?s1\<lparr>sv_clients := (sv_clients ?s1)(EncodeToString [6] \<mapsto> ([6], 1)), sv_next := 6,
    sv_go := (sv_go ?s1)(5 \<mapsto> HandlingClient [6] 1 ReadPacket), sv_conns := (sv_conns ?s1)(1 := ?c 1)\<rparr>"
  have r1: "server_run session_codec ?s0 ?s1"
    using client_connects [of ?s0 "[5]" 0 session_codec "[0, 0, 0, 1]"] ok session_codec_messages(1)
    by (simp add: NewServerProtocol_def go_inv_def numeral_2_eq_2)
  have "server_run session_codec ?s1 ?s2"
    using client_connects [of ?s1 "[6]" 1 session_codec "[0, 0, 0, 1]"] ok session_codec_messages(1)
    by (simp add: NewServerProtocol_def go_inv_def)
  with r1 have "server_run session_codec ?s0 ?s2" by (rule rtranclp_trans)
  moreover have "server_running ?s2" "client_idle ?s2 [5] 0 2" "client_idle ?s2 [6] 1 5" "sv_sessions ?s2 = Map.empty"
    "sv_conns ?s2 = session_conns(0 := ?c 0, 1 := ?c 1)"
    using ok by (simp_all add: server_running_def client_idle_def NewServerProtocol_def)
  ultimately show ?thesis by blast
qed

theorem relay_connects_devices_witness:
  "\<exists>s t. server_run session_codec (NewServerProtocol 23521 session_conns) s \<and> client_idle s [5] 0 2 \<and> client_idle s [6] 1 5 \<and>
     server_run session_codec s t \<and> c_out (sv_conns t 2) = frame [1] @ [9] \<and> c_out (sv_conns t 3) = frame [1] @ [1, 2, 3]"
proof -
  obtain s where s: "server_run session_codec (NewServerProtocol 23521 session_conns) s" "server_running s" "client_idle s [5] 0 2" "client_idle s [6] 1 5"
    "sv_sessions s = Map.empty"
    "sv_conns s = session_conns(0 := conn_append (frame [0, 0, 0, 1]) (session_conns 0), 1 := conn_append (frame [0, 0, 0, 1]) (session_conns 1))"
    using session_clients_run by blast
  have key: "newSessionKey (session_key1, None) = Inr session_key1" "newSessionKey (session_key2, None) = Inr session_key2" "session_key1 \<noteq> session_key2"
    by (simp_all add: newSessionKey_def SessionKeySize_def numeral_eq_Suc)
  have desc: "length (sd_Key (createSessionDescription s session_key1)) = 16" "length (sd_Key (createSessionDescription s session_key2)) = 16"
    by (simp_all add: createSessionDescription_def)
  obtain pc pi where p: "encodes session_codec (SessionCreated (Some (createSessionDescription s session_key1)) [6]) pc"
    "encodes session_codec (SessionInvitation (Some (createSessionDescription s session_key2)) [5] [8]) pi"
    using session_codec_descriptions(1) [OF desc(1)] session_codec_descriptions(2) [OF desc(2)] by blast
  have conns: "conn_healthy (sv_conns s k)" "c_out (sv_conns s 2) = []" "c_out (sv_conns s 3) = []"
    "conn_pending (sv_conns s 0) = frame [0, 0, 0, 3, 6, 8] @ []" "conn_pending (sv_conns s 1) = frame [0, 0, 0, 7, 5, 4] @ []"
    "conn_pending (sv_conns s 2) = frame session_key1 @ [1, 2, 3]" "conn_pending (sv_conns s 3) = frame session_key2 @ [9]" for k
    using s(6) by (simp_all add: session_conns_def conn_healthy_def conn_pending_def conn_append_def)
  have codec: "Marshal_auth session_codec k = Inr k" "Marshal_response session_codec SessionStateConnected = Inr [1]" for k
    by (simp_all add: session_codec_def short_codec_def)
  have new: "sv_sessions s (newSessionIdentifier [5] [6]) = None" using s(5) by simp
  have "\<exists>t. server_run session_codec s t \<and> c_out (sv_conns t 0) = c_out (sv_conns s 0) @ frame pc @ frame [0, 0, 0, 8, 6, 4] \<and>
    c_out (sv_conns t 1) = c_out (sv_conns s 1) @ frame pi @ frame [0, 0, 0, 9, 5] \<and>
    c_out (sv_conns t 2) = c_out (sv_conns s 2) @ frame [1] @ [9] \<and> c_out (sv_conns t 3) = c_out (sv_conns s 3) @ frame [1] @ [1, 2, 3]"
    by (rule relay_connects_devices [OF s(1) session_codec_roundtrip s(2-4) new key _ conns(1) conns(1) session_codec_messages(2) conns(4)
        session_codec_messages(3) conns(5) codec(1) codec(1) _ _ conns(6,7) p session_codec_messages(4,5) codec(2)])
      (simp_all add: packet_consts)
  then show ?thesis using s conns(2,3) by auto
qed

end
