(* ===== verification/Transfer_Secure.thy ===== *)
theory Transfer_Secure
  imports Transfer_Session
begin

text \<open>
  The file transfer down to the encrypted connection: the payloads that the two sessions write all fit into messages of the connection
  (\<open>lib/secure\<close>), which carries them as theory \<open>Session_Link\<close> takes it.
\<close>

section \<open>The payloads on the encrypted connection\<close>

definition fits_from :: "nat \<Rightarrow> ChannelId \<Rightarrow> message session \<Rightarrow> bool" where
  "fits_from n cid s \<longleftrightarrow>
     registered (NewChannelHandle transfer_protocol cid) s \<and> (\<forall>d\<in>set (drop n (ss_out s)). length d \<le> PayloadMaxSize)"

lemma RawTypeOf_small: "RawTypeOf m = Return t \<Longrightarrow> t \<le> 2147483647"
  by (cases m) (auto simp: RawTypeOf_def)

lemma transfer_marshal_fits:
  assumes "overhead_bounded cd" and "MarshalMessage cd (NewChannelHandle transfer_protocol cid) m = Return (Inr d)"
  shows "length d \<le> PayloadMaxSize"
proof -
  obtain t where t: "RawTypeOf m = Return t"
    using assms(2)
    by (cases "Marshal_m cd m"; cases "RawTypeOf m")
      (auto simp: MarshalMessage_def WrapMessage_def NewChannelHandle_def transfer_protocol_def split: if_split_asm)
  show ?thesis
    by (rule marshalled_size [OF assms _ RawTypeOf_small [OF t]]) (simp add: t NewChannelHandle_def transfer_protocol_def)
qed

lemma session_step_out: "session_step cd s l t \<Longrightarrow> l \<noteq> Silent \<Longrightarrow> ss_out t = ss_out s"
  by (erule session_step.cases) (auto simp: broker_defs split: if_split_asm option.split)

lemma end_step_fits:
  assumes "end_step False cd cid (l, s) x (l', s')" and "overhead_bounded cd" and "fits_from n cid s"
  shows "fits_from n cid s'"
proof -
  let ?h = "NewChannelHandle transfer_protocol cid"
  have h: "h_id ?h = cid" by (simp add: NewChannelHandle_def)
  have reg: "registered ?h s" using assms(3) by (simp add: fits_from_def)
  have "\<exists>ds. ss_out s' = ss_out s @ ds \<and> (\<forall>d\<in>set ds. length d \<le> PayloadMaxSize)"
    using assms(1)
  proof cases
    case (end_send m ch out)
    then have "ch_handle ch = ?h" using reg h by (simp add: registered_def)
    then obtain d where "MarshalMessage cd ?h m = Return (Inr d)" "out = ss_out s @ [d]"
      using end_send by (cases "MarshalMessage cd ?h m") (auto simp: channel_Write_def split: if_split_asm sum.split_asm)
    then show ?thesis using end_send transfer_marshal_fits [OF assms(2)] by auto
  next
    case (end_send_fail m e ch werr out)
    then have "out = ss_out s"
      by (cases "MarshalMessage cd (ch_handle ch) m") (auto simp: channel_Write_def split: if_split_asm sum.split_asm)
    then show ?thesis using end_send_fail by auto
  qed (auto dest: session_step_out)
  then obtain ds where ds: "ss_out s' = ss_out s @ ds" "\<forall>d\<in>set ds. length d \<le> PayloadMaxSize" by blast
  have "set (drop n (ss_out s')) \<subseteq> set (drop n (ss_out s)) \<union> set ds"
    using set_drop_subset [of "n - length (ss_out s)" ds] by (auto simp: ds(1))
  moreover have "registered ?h s'" using end_keeps(1) [OF assms(1)] reg by blast
  ultimately show ?thesis using assms(3) ds(2) by (auto simp: fits_from_def)
qed

definition stack_fits :: "nat \<Rightarrow> nat \<Rightarrow> ChannelId \<Rightarrow> ('k, 's, 't, message) stack \<Rightarrow> bool" where
  "stack_fits n m cid k \<longleftrightarrow> fits_from n cid (snd (sk_left k)) \<and> fits_from m cid (snd (sk_right k))"

lemma stack_step_fits:
  assumes "stack_step False cd cid k k'" and "overhead_bounded cd" and "stack_fits n m cid k"
  shows "stack_fits n m cid k'"
  using assms(1)
proof cases
  case (stack_left e)
  then show ?thesis using end_step_fits [of cd cid "fst (sk_left k)" "snd (sk_left k)" _ "fst e" "snd e"] assms(2,3)
    by (auto simp: stack_fits_def)
next
  case (stack_left_reads d ds e)
  then show ?thesis using end_step_fits [of cd cid "fst (sk_left k)" "snd (sk_left k)" _ "fst e" "snd e"] assms(2,3)
    by (auto simp: stack_fits_def)
next
  case (stack_right e)
  then show ?thesis using end_step_fits [of cd cid "fst (sk_right k)" "snd (sk_right k)" _ "fst e" "snd e"] assms(2,3)
    by (auto simp: stack_fits_def)
next
  case (stack_right_reads d ds e)
  then show ?thesis using end_step_fits [of cd cid "fst (sk_right k)" "snd (sk_right k)" _ "fst e" "snd e"] assms(2,3)
    by (auto simp: stack_fits_def)
qed

lemma stack_run_fits: "stack_run False cd cid l k k' \<Longrightarrow> overhead_bounded cd \<Longrightarrow> stack_fits n m cid k \<Longrightarrow> stack_fits n m cid k'"
  by (induction rule: stack_run.induct) (auto intro: stack_step_fits)

text \<open>
  C4. The encrypted connection carries the transfer: in every run of the file transfer over two sessions that starts when both have the channel, what either session has
  written since then can be written to the encrypted connection, every payload as one message, and the other end
  reads exactly these payloads, in order, for every way the network cuts the stream as long as no cut falls between the two bytes
  of a length header (there \<open>Read\<close> fails, \<open>Read_split_header_fails\<close>).
\<close>

theorem encrypted_connection_carries_transfer:
  assumes ob: "overhead_bounded cd" and j: "joined cd (NewChannelHandle transfer_protocol cid) sl" "joined cd (NewChannelHandle transfer_protocol cid) sr"
    and run: "stack_run False cd cid n (start_stack c s d t sl sr) k"
    and ps: "ps = drop (length (ss_out sl)) (ss_out (snd (sk_left k))) \<or> ps = drop (length (ss_out sr)) (ss_out (snd (sk_right k)))"
    and cp: "cipher_pair enc dec matched" and m: "matched (length ps) (nc_writeCipher a) (nc_readCipher b)"
    and conns: "conn_healthy (nc_Conn a)" "c_out (nc_Conn a) = []" "\<not> c_closed (nc_Conn b)"
  shows "\<exists>a'. write_payloads enc a ps = Return (None, a') \<and>
    (concat (c_in (nc_Conn b)) = c_out (nc_Conn a') @ rest \<longrightarrow>
     headers_whole (map frame (ciphertexts enc (nc_writeCipher a) ps)) (c_in (nc_Conn b)) \<longrightarrow>
      (\<exists>b'. read_payloads dec MessageMaxSize (length ps) b = Return (ps, None, b')))"
proof -
  have "stack_fits (length (ss_out sl)) (length (ss_out sr)) cid (start_stack c s d t sl sr)"
    using joined_facts(1) [OF j(1)] joined_facts(1) [OF j(2)] by (simp add: stack_fits_def fits_from_def start_stack_def)
  from stack_run_fits [OF run ob this] have "\<forall>p\<in>set ps. length p \<le> PayloadMaxSize"
    using ps by (auto simp: stack_fits_def fits_from_def)
  from payloads_roundtrip [OF cp m this order_refl conns] show ?thesis .
qed

lemma wire_codec_overhead: "overhead_bounded wire_codec"
  by (simp add: overhead_bounded_def wire_codec_def max_data_def)

text \<open>A complete transfer of three bytes, and the connection of the sender.\<close>

theorem encrypted_connection_carries_transfer_witness:
  "\<exists>c s d t sl sr n k a'. NewSender buffer_rsc (Some \<lparr>md_Filename = [97]\<rparr>) (NewBlockReader (NewBuffer [1, 2, 3]) 3 2) = Return (c, s) \<and>
    stack_run False wire_codec 1 n (start_stack c s (d :: (MessageType, Buffer Receiver, message) Client) t sl sr) k \<and>
    lp_pc (fst (sk_left k)) = Returned None \<and>
    write_payloads tag_cipher (WrapConn [] [] \<lparr>c_in = [], c_end = IOError EOF, c_out = [], c_werr = None, c_closed = False\<rparr> 0 0)
      (drop (length (ss_out sl)) (ss_out (snd (sk_left k)))) = Return (None, a')"
proof -
  let ?nc = "WrapConn [] [] \<lparr>c_in = [], c_end = IOError EOF, c_out = [], c_werr = None, c_closed = False\<rparr> 0 (0 :: nat)"
  obtain c s d t where c: "NewSender buffer_rsc (Some \<lparr>md_Filename = [97]\<rparr>)
      (NewBlockReader (NewBuffer [1, 2, 3]) (of_nat (length [1, 2, 3 :: byte])) 2) = Return (c, s)"
    and d: "NewReceiver buffer_wsc receive_factory = Return (d, t)" using small_transfer(3,4) by blast
  obtain sl sr where j: "joined wire_codec (NewChannelHandle transfer_protocol 1) sl" "joined wire_codec (NewChannelHandle transfer_protocol 1) sr"
    by (rule joined_sessions)
  obtain n k where k: "stack_run False wire_codec 1 n (start_stack c s d t sl sr) k" "lp_pc (fst (sk_left k)) = Returned None"
    using session_loops_end [OF buffer_reader.read_file_axioms buffer_writer.write_file_axioms small_transfer(1,2) _ _ _ _ _
        wire_codec_transfer j c d] by (simp add: utf8_ranges_def) blast
  have "cipher_pair tag_cipher untag_cipher (\<lambda>k w r. True)" by (simp add: cipher_pair_def tag_cipher_def untag_cipher_def)
  from encrypted_connection_carries_transfer [OF wire_codec_overhead j k(1) disjI1 [OF refl] this, of ?nc ?nc]
  obtain a' where "write_payloads tag_cipher ?nc (drop (length (ss_out sl)) (ss_out (snd (sk_left k)))) = Return (None, a')"
    by (auto simp: WrapConn_def conn_healthy_def)
  moreover have "NewSender buffer_rsc (Some \<lparr>md_Filename = [97]\<rparr>) (NewBlockReader (NewBuffer [1, 2, 3]) 3 2) = Return (c, s)"
    using c by simp
  ultimately show ?thesis using k by blast
qed

end
