(* ===== verification/Transfer_States.thy ===== *)
theory Transfer_States
  imports File_Transfer
begin

text \<open>
  The states that a protocol client can be in. A set of states that is closed under the transitions of a definition is
  never left, whatever messages arrive; for the sender and the receiver of a file this gives the exact
  sets of states, and what they cannot do.
\<close>

section \<open>Closed sets of states\<close>

inductive client_op :: "('k, 's, 'm) Client \<times> 's \<Rightarrow> ('k, 's, 'm) Client \<times> 's \<Rightarrow> bool" where
  op_write: "Client_WriteMessage c s = Return (c', s', out, err) \<Longrightarrow> client_op (c, s) (c', s')"
| op_read: "Client_ReadMessage c s m = Return (c', s', err) \<Longrightarrow> client_op (c, s) (c', s')"

definition targets :: "'d Transition \<Rightarrow> State set" where
  "targets tr = (if t_To tr \<noteq> NoState then {t_To tr} else {}) \<union> (case t_Ok tr of None \<Rightarrow> {} | Some qs \<Rightarrow> set qs)"

text \<open>Handlers that change the state only through their handle.\<close>

definition write_lawful :: "('s, 'm) WriteMessageHandler \<Rightarrow> bool" where
  "write_lawful f \<longleftrightarrow> (\<forall>h s h' s' out err. f h s = Return (h', s', out, err) \<longrightarrow> h' = h \<or> (\<exists>q. StateHandle_Set h q = Return h'))"

definition read_lawful :: "('s, 'm) ReadMessageHandler \<Rightarrow> bool" where
  "read_lawful f \<longleftrightarrow> (\<forall>h s m h' s' err. f h s m = Return (h', s', err) \<longrightarrow> h' = h \<or> (\<exists>q. StateHandle_Set h q = Return h'))"

definition closed_states :: "('k, 's, 'm) Definition \<Rightarrow> State set \<Rightarrow> bool" where
  "closed_states d S \<longleftrightarrow>
     (\<forall>q\<in>S. \<forall>tr. write_entry d q = Some tr \<longrightarrow> targets tr \<subseteq> S \<and> (\<forall>f. t_Do tr = Some f \<longrightarrow> write_lawful f)) \<and>
     (\<forall>q\<in>S. \<forall>k tr. read_entry d k q = Some tr \<longrightarrow> targets tr \<subseteq> S \<and> (\<forall>f. t_Do tr = Some f \<longrightarrow> read_lawful f))"

lemma run_transition_targets:
  assumes "run_transition factory key tr st s i = Return (st', s', out, err)" and "transition_wf tr"
    and "\<And>f. t_Do tr = Some f \<Longrightarrow> lawful (factory key f)"
  shows "st' = st \<or> st' \<in> targets tr"
proof -
  let ?h = "case t_Do tr of None \<Rightarrow> EmptyTransitionHandler | Some d \<Rightarrow> factory key d"
  have "lawful ?h" using assms(3) by (auto simp: lawful_def EmptyTransitionHandler_def split: option.split)
  moreover have "transition_wf (tr\<lparr>t_At := Some (at_states key tr)\<rparr>)" using assms(2) by (auto simp: transition_wf_def split: if_split_asm)
  ultimately show ?thesis
    using transition_target_states [of ?h "tr\<lparr>t_At := Some (at_states key tr)\<rparr>" st s i st' s' out err] assms(1)
    by (auto simp: run_transition_def targets_def split: if_split_asm option.split)
qed

lemma write_factory_lawful: "write_lawful f \<Longrightarrow> lawful (writeMessageHandlerFactory key f)"
  unfolding lawful_def write_lawful_def writeMessageHandlerFactory_def
  by (auto simp: obind_eq_Return split: option.split_asm prod.split_asm) metis

lemma read_factory_lawful: "read_lawful f \<Longrightarrow> lawful (readMessageHandlerFactory key f)"
  unfolding lawful_def read_lawful_def readMessageHandlerFactory_def
  by (auto simp: obind_eq_Return split: option.split_asm prod.split_asm) metis

lemma write_entry_wf: "definition_wf d \<Longrightarrow> write_entry d q = Some tr \<Longrightarrow> transition_wf tr"
  by (auto simp: definition_wf_def write_entry_def list_all_iff entry_wf_def length_Suc_conv dest!: map_of_SomeD)

lemma read_entry_wf: "definition_wf d \<Longrightarrow> read_entry d k q = Some tr \<Longrightarrow> transition_wf tr"
  by (auto simp: definition_wf_def read_entry_def list_all_iff entry_wf_def find_Some_iff split: option.split_asm dest!: map_of_SomeD)

lemma client_op_closed:
  fixes d :: "('k, 's, 'm) Definition"
  assumes "client_op x y" and "definition_wf d" and "closed_states d S" and "client_of d (fst x)" and "c_state (fst x) \<in> S"
  shows "client_of d (fst y) \<and> c_state (fst y) \<in> S"
  using assms(1)
proof cases
  case (op_write c s c' s' out err)
  show ?thesis
  proof (cases "write_entry d (c_state c)")
    case None
    then show ?thesis using op_write assms(4,5) Client_WriteMessage_entry [OF _ assms(2), of c s] by simp
  next
    case (Some tr)
    have c: "client_of d c" "c_state c \<in> S" using assms(4,5) op_write(1) by simp_all
    obtain st where st: "c' = c\<lparr>c_state := st\<rparr>"
      "\<exists>s' out err. run_transition writeMessageHandlerFactory (StateKey (c_state c) :: 'k key) tr (c_state c) s () = Return (st, s', out, err)"
      using op_write(3) Client_WriteMessage_entry [OF c(1) assms(2), of s] Some
      by (auto simp: obind_eq_Return split: if_split_asm option.split_asm)
    then have "st = c_state c \<or> st \<in> targets tr"
      using run_transition_targets [OF _ write_entry_wf [OF assms(2) Some]] write_factory_lawful assms(3) c(2) Some
      unfolding closed_states_def by metis
    moreover have "targets tr \<subseteq> S" using assms(3) c(2) Some unfolding closed_states_def by blast
    ultimately show ?thesis using st(1) c op_write(2) by auto
  qed
next
  case (op_read c s m c' s' err)
  have c: "client_of d c" "c_state c \<in> S" using assms(4,5) op_read(1) by simp_all
  obtain k where k: "d_TypeOf d m = Return k"
    using op_read(3) client_ofD(3) [OF c(1) assms(2)] by (auto simp: Client_ReadMessage_def obind_eq_Return)
  show ?thesis
  proof (cases "read_entry d k (c_state c)")
    case None
    then show ?thesis using op_read c Client_ReadMessage_entry [OF c(1) assms(2) k, of s] by simp
  next
    case (Some tr)
    obtain st where st: "c' = c\<lparr>c_state := st\<rparr>"
      "\<exists>s' out err. run_transition readMessageHandlerFactory (OtherKey k) tr (c_state c) s (Some m) = Return (st, s', out, err)"
      using op_read(3) Client_ReadMessage_entry [OF c(1) assms(2) k, of s] Some by (auto simp: obind_eq_Return)
    then have "st = c_state c \<or> st \<in> targets tr"
      using run_transition_targets [OF _ read_entry_wf [OF assms(2) Some]] read_factory_lawful assms(3) c(2) Some
      unfolding closed_states_def by metis
    moreover have "targets tr \<subseteq> S" using assms(3) c(2) Some unfolding closed_states_def by blast
    ultimately show ?thesis using st(1) c op_read(2) by auto
  qed
qed

lemma client_run_closed:
  assumes "client_op\<^sup>*\<^sup>* x y" and "definition_wf d" and "closed_states d S" and "client_of d (fst x)" and "c_state (fst x) \<in> S"
  shows "client_of d (fst y) \<and> c_state (fst y) \<in> S"
  using assms(1)
proof (induction rule: rtranclp_induct)
  case (step y z)
  then show ?case using client_op_closed [OF step.hyps(2) assms(2,3)] by blast
qed (simp add: assms(4,5))

section \<open>Sender and receiver\<close>

lemma sender_handlers_lawful:
  "write_lawful write_Header" "write_lawful (write_Block ops again final)" "write_lawful write_DataSent" "write_lawful write_Abort"
  "read_lawful read_BlockReceived" "read_lawful read_RedoBlock" "read_lawful read_DataReceived"
  by (auto simp: write_lawful_def read_lawful_def write_Header_def write_Block_def write_DataSent_def write_Abort_def read_BlockReceived_def
      read_RedoBlock_def read_DataReceived_def obind_eq_Return Let_def
      split: if_split_asm option.split_asm prod.split_asm message.split_asm)

lemma receiver_handlers_lawful:
  "write_lawful write_Acknowledge" "write_lawful write_handleBlock" "write_lawful write_DataReceived"
  "read_lawful (read_Header factory)" "read_lawful (read_Block wops)"
  by (auto simp: write_lawful_def read_lawful_def write_Acknowledge_def write_handleBlock_def write_DataReceived_def read_Header_def read_Block_def
      obind_eq_Return Let_def split: if_split_asm option.split_asm prod.split_asm message.split_asm)

definition sender_states :: "State set" where
  "sender_states = {initialized, inPrologue, inProgress, needAcknowledge, transferred, needDataReceived, finalDone, aborted}"

definition receiver_states :: "State set" where
  "receiver_states = {initialized, sendAcknowledge, needBlock, handleBlock, needDataSent, sendDataReceived, finalDone}"

lemma sender_closed: "closed_states (Sender_protocolDefinition ops) sender_states"
  unfolding closed_states_def
  by (auto simp: Sender_protocolDefinition_def sender_states_def write_entry_def read_entry_def targets_def at_states_def state_defs
      sender_handlers_lawful split: if_split_asm)

lemma receiver_closed: "closed_states (Receiver_protocolDefinition wops factory) receiver_states"
  unfolding closed_states_def
  by (auto simp: Receiver_protocolDefinition_def receiver_states_def write_entry_def read_entry_def targets_def at_states_def state_defs
      receiver_handlers_lawful sender_handlers_lawful split: if_split_asm)

text \<open>
  C27. Sender and receiver stay in their declared states, whatever messages they are given: the sender in its eight states,
  the receiver in its seven. So neither reaches \<open>sendAbort\<close>, an abort message is never written, and a
  receiver is never aborted.
\<close>

theorem transfer_states_typed:
  assumes "NewSender ops metadata reader = Return (c, s)" and "NewReceiver wops factory = Return (d, v)"
    and "client_op\<^sup>*\<^sup>* (c, s) (c', s')" and "client_op\<^sup>*\<^sup>* (d, v) (d', v')"
  shows "c_state c' \<in> sender_states \<and> c_state d' \<in> receiver_states \<and> c_state c' \<noteq> sendAbort \<and> c_state d' \<noteq> sendAbort \<and> \<not> transfer_IsAborted d'"
proof -
  have c: "NewClient (Sender_protocolDefinition ops) = Return c" "NewClient (Receiver_protocolDefinition wops factory) = Return d"
    using assms(1,2) by (auto simp: NewSender_def NewReceiver_def obind_eq_Return)
  have "client_of (Sender_protocolDefinition ops) c" "c_state c = initialized"
    using NewClient_wf [OF Sender_wf [of ops]] c(1) by (auto simp: Sender_protocolDefinition_def)
  then have "c_state c' \<in> sender_states"
    using client_run_closed [OF assms(3) Sender_wf sender_closed] by (auto simp: sender_states_def)
  moreover have "client_of (Receiver_protocolDefinition wops factory) d" "c_state d = initialized"
    using NewClient_wf [OF Receiver_wf [of wops factory]] c(2) by (auto simp: Receiver_protocolDefinition_def)
  then have "c_state d' \<in> receiver_states"
    using client_run_closed [OF assms(4) Receiver_wf receiver_closed] by (auto simp: receiver_states_def)
  ultimately show ?thesis
    by (auto simp: sender_states_def receiver_states_def transfer_IsAborted_def State_Is_def state_defs)
qed

theorem transfer_states_typed_witness:
  "\<exists>c s c' s' d v m. NewSender buffer_rsc None (NewBlockReader (NewBuffer []) 0 4) = Return (c, s) \<and>
     NewReceiver buffer_wsc (\<lambda>_ _. Return (NewBuffer [], None)) = Return (d, v) \<and>
     Client_WriteMessage c s = Return (c', s', m, None) \<and> c_state c' \<in> sender_states \<and> c_state d \<in> receiver_states"
proof -
  obtain c where c: "NewClient (Sender_protocolDefinition buffer_rsc) = Return c" "client_of (Sender_protocolDefinition buffer_rsc) c"
    "c_state c = initialized"
    using NewClient_wf [OF Sender_wf [of buffer_rsc]] by (auto simp: Sender_protocolDefinition_def)
  let ?s = "\<lparr>s_reader = NewBlockReader (NewBuffer []) 0 4, s_received = [], s_receivedCount = 0, s_metadata = None\<rparr>"
  have s: "NewSender buffer_rsc None (NewBlockReader (NewBuffer []) 0 4) = Return (c, ?s)"
    using c(1) by (simp add: NewSender_def Reader_BlockCount_def NewBlockReader_def Size_BlockCount_def make_slice_def)
  obtain d v where d: "NewReceiver buffer_wsc (\<lambda>_ _. Return (NewBuffer [], None)) = Return (d, v)"
    using NewClient_wf [OF Receiver_wf [of buffer_wsc "\<lambda>_ _. Return (NewBuffer [], None)"]] by (auto simp: NewReceiver_def)
  obtain c' s' m where w: "Client_WriteMessage c ?s = Return (c', s', Some m, None)"
    using c by (simp add: Sender_WriteMessage write_entry_def Sender_protocolDefinition_def run_simps write_Header_def state_defs)
  have run: "client_op\<^sup>*\<^sup>* (c, ?s) (c', s')" using w by (intro r_into_rtranclp op_write)
  have "c_state c' \<in> sender_states \<and> c_state d \<in> receiver_states" using transfer_states_typed [OF s d run] by blast
  then show ?thesis using s d w by blast
qed

end
