(* ===== verification/Network.thy ===== *)
theory Network
  imports Prelude
begin

text \<open>
  Package \<open>lib/network\<close>: the networks of a device and the broadcast address of an IPv4 network. The
  interfaces of the system and their addresses are parameters of the tracker.
\<close>

section \<open>Networks\<close>

text \<open>\<open>net.IP\<close> and \<open>net.IPMask\<close> are byte slices, of 4 or 16 bytes when they are proper addresses.\<close>

record Interface =
  if_Name :: string
  if_Flags :: uint32

record Net =
  n_IP :: bytes
  n_Mask :: bytes
  n_Interface :: Interface

definition FlagUp :: uint32 where "FlagUp = 1"
definition FlagBroadcast :: uint32 where "FlagBroadcast = 2"
definition FlagLoopback :: uint32 where "FlagLoopback = 4"

definition IsUp :: "Net \<Rightarrow> bool" where
  "IsUp n \<longleftrightarrow> if_Flags (n_Interface n) AND FlagUp \<noteq> 0"

definition IsLoopback :: "Net \<Rightarrow> bool" where
  "IsLoopback n \<longleftrightarrow> if_Flags (n_Interface n) AND FlagLoopback \<noteq> 0"

definition IsBroadcast :: "Net \<Rightarrow> bool" where
  "IsBroadcast n \<longleftrightarrow> if_Flags (n_Interface n) AND FlagBroadcast \<noteq> 0"

text \<open>\<open>IP.To4\<close> of the standard library; \<open>None\<close> is nil.\<close>

definition To4 :: "bytes \<Rightarrow> bytes option" where
  "To4 ip =
     (if length ip = 4 then Some ip
      else if length ip = 16 \<and> take 10 ip = replicate 10 0 \<and> ip ! 10 = 255 \<and> ip ! 11 = 255 then Some (drop 12 ip)
      else None)"

text \<open>\<open>binary.BigEndian.Uint32\<close> reads the first four bytes and panics when there are fewer.\<close>

definition Uint32 :: "bytes \<Rightarrow> uint32 outcome" where
  "Uint32 b = (if length b < 4 then Panic (RuntimePanic IndexOutOfRange) else Return (get_be (take 4 b)))"

definition BroadcastIp :: "Net \<Rightarrow> (error + bytes) outcome" where
  "BroadcastIp n =
     (case To4 (n_IP n) of
        None \<Rightarrow> Return (Inl (ErrorString ''not an IPv4 address''))
      | Some ip4 \<Rightarrow>
          if length ip4 \<noteq> 4 then Return (Inl (ErrorString ''ip is not 4 bytes long''))
          else
            obind (Uint32 ip4) (\<lambda>addr.
              obind (Uint32 (n_Mask n)) (\<lambda>mask.
                Return (Inr (PutUint32 (addr OR NOT mask))))))"

section \<open>The tracker\<close>

text \<open>An address of an interface is an \<open>IPNet\<close> or of another type.\<close>

type_synonym Addr = "(bytes \<times> bytes) option"

text \<open>The inner loop of \<open>Listen\<close>: the networks of the addresses of one interface.\<close>

fun interface_nets :: "Interface \<Rightarrow> Addr list \<Rightarrow> Net list" where
  "interface_nets i [] = []"
| "interface_nets i (None # addrs) = interface_nets i addrs"
| "interface_nets i (Some (ip, ipMask) # addrs) = \<lparr>n_IP = ip, n_Mask = ipMask, n_Interface = i\<rparr> # interface_nets i addrs"

text \<open>The outer loop; \<open>present\<close> has the networks so far, which are returned beside an error.\<close>

fun tracker_from :: "(Interface \<Rightarrow> error + Addr list) \<Rightarrow> Interface list \<Rightarrow> Net list \<Rightarrow> Net list \<times> error option" where
  "tracker_from Addrs [] present = (present, None)"
| "tracker_from Addrs (i # ins) present =
     (if if_Flags i AND FlagUp = 0 then tracker_from Addrs ins present
      else case Addrs i of
          Inl e \<Rightarrow> (present, Some e)
        | Inr addrs \<Rightarrow> tracker_from Addrs ins (present @ interface_nets i addrs))"

definition tracker_Listen :: "error + Interface list \<Rightarrow> (Interface \<Rightarrow> error + Addr list) \<Rightarrow> Net list \<times> error option" where
  "tracker_Listen interfaces Addrs =
     (case interfaces of Inl e \<Rightarrow> ([], Some e) | Inr ins \<Rightarrow> tracker_from Addrs ins [])"

section \<open>Properties\<close>

lemma To4_length: "To4 ip = Some ip4 \<Longrightarrow> length ip4 = 4"
  by (auto simp: To4_def split: if_split_asm)

text \<open>The code's word arithmetic on four bytes is the bytewise operation.\<close>

lemma byte_of_word: "i < 4 \<Longrightarrow> PutUint32 w ! i = ucast (drop_bit (8 * (3 - i)) w)"
  by (auto simp: PutUint_eval numeral_eq_Suc less_Suc_eq)

lemma byte_bit_high: "8 \<le> k \<Longrightarrow> \<not> bit (b :: byte) (k + i)"
  using bit_imp_le_length [of b "k + i"] by auto

lemma PutUint32_get_be:
  assumes "length bs = 4"
  shows "PutUint32 (get_be bs) = bs"
proof -
  obtain a b c d where bs: "bs = [a, b, c, d]" using assms by (auto simp: numeral_eq_Suc length_Suc_conv)
  show ?thesis unfolding bs PutUint_eval get_be_def
    by (auto intro!: bit_word_eqI simp: bit_simps byte_bit_high)
qed

lemma PutUint32_map2:
  fixes f :: "uint32 \<Rightarrow> uint32 \<Rightarrow> uint32" and g :: "byte \<Rightarrow> byte \<Rightarrow> byte"
  assumes "\<And>v w k. k \<le> 24 \<Longrightarrow> ucast (drop_bit k (f v w)) = g (ucast (drop_bit k v)) (ucast (drop_bit k w))"
  shows "PutUint32 (f v w) = map2 g (PutUint32 v) (PutUint32 w)"
  using assms [where k = 0] by (simp add: PutUint_eval assms)

lemma BroadcastIp_mask:
  assumes "To4 (n_IP n) = Some ip4" and "length (n_Mask n) = 4"
  shows "BroadcastIp n = Return (Inr (PutUint32 (get_be ip4 OR NOT (get_be (n_Mask n)))))"
  using assms To4_length [OF assms(1)] by (simp add: BroadcastIp_def Uint32_def)

lemma PutUint32_or_not: "PutUint32 (v OR NOT w) = map2 (\<lambda>a m. a OR NOT m) (PutUint32 v) (PutUint32 w)"
  by (rule PutUint32_map2) (auto intro!: bit_word_eqI simp: bit_simps)

lemma word_subset_le:
  fixes v w :: "'a::len word"
  assumes "v AND w = v"
  shows "v \<le> w"
  using assms by (metis word_and_le1)

text \<open>
  C32. The broadcast address of an IPv4 network is computed bit by bit: each byte of it is that byte of the address with all bits
  set that the mask leaves to the host. Among the addresses with the same network bits it is the greatest.
\<close>

theorem BroadcastIp_bytewise:
  assumes "To4 (n_IP n) = Some ip4" and "length (n_Mask n) = 4"
  shows "\<exists>ip. BroadcastIp n = Return (Inr ip) \<and> ip = map2 (\<lambda>a m. a OR NOT m) ip4 (n_Mask n) \<and>
    (get_be ip :: uint32) AND get_be (n_Mask n) = get_be ip4 AND get_be (n_Mask n) \<and>
    (\<forall>addr :: uint32. addr AND get_be (n_Mask n) = get_be ip4 AND get_be (n_Mask n) \<longrightarrow> addr \<le> get_be ip)"
proof -
  let ?a = "get_be ip4 :: uint32" and ?m = "get_be (n_Mask n) :: uint32"
  define ip where "ip = PutUint32 (?a OR NOT ?m)"
  have ip: "get_be ip = ?a OR NOT ?m" by (simp add: ip_def)
  have "ip = map2 (\<lambda>a m. a OR NOT m) ip4 (n_Mask n)"
    using PutUint32_or_not [of ?a ?m] PutUint32_get_be [OF To4_length [OF assms(1)]] PutUint32_get_be [OF assms(2)] by (simp add: ip_def)
  moreover have "get_be ip AND ?m = ?a AND ?m" unfolding ip by (rule bit_word_eqI) (auto simp: bit_simps)
  moreover have "addr \<le> get_be ip" if "addr AND ?m = ?a AND ?m" for addr
    unfolding ip
  proof (rule word_subset_le, rule bit_word_eqI)
    fix i assume "i < LENGTH(32)"
    then show "bit (addr AND (?a OR NOT ?m)) i = bit addr i"
      using arg_cong [OF that, of "\<lambda>w. bit w i"] by (auto simp: bit_simps)
  qed
  ultimately show ?thesis using BroadcastIp_mask [OF assms, folded ip_def] by blast
qed

theorem BroadcastIp_bytewise_witness:
  "BroadcastIp \<lparr>n_IP = [192, 168, 2, 17], n_Mask = [255, 255, 255, 0], n_Interface = \<lparr>if_Name = ''eth0'', if_Flags = 3\<rparr>\<rparr> =
     Return (Inr [192, 168, 2, 255])"
  using BroadcastIp_bytewise [of "\<lparr>n_IP = [192, 168, 2, 17], n_Mask = [255, 255, 255, 0], n_Interface = \<lparr>if_Name = ''eth0'', if_Flags = 3\<rparr>\<rparr>"
    "[192, 168, 2, 17]"] by (simp add: To4_def)

text \<open>A mask of fewer than four bytes makes it panic; of a longer one, only the first four bytes are used.\<close>

lemma BroadcastIp_short_mask_panics:
  assumes "To4 (n_IP n) = Some ip4" and "length (n_Mask n) < 4"
  shows "BroadcastIp n = Panic (RuntimePanic IndexOutOfRange)"
  using assms To4_length [OF assms(1)] by (simp add: BroadcastIp_def Uint32_def)

text \<open>The tracker returns the networks of all interfaces that are up, in order, if no interface fails.\<close>

lemma interface_nets_filter: "interface_nets i addrs = [\<lparr>n_IP = fst a, n_Mask = snd a, n_Interface = i\<rparr>. Some a \<leftarrow> addrs]"
  by (induction i addrs rule: interface_nets.induct) auto

lemma tracker_from_nets:
  "\<forall>i\<in>set ins. Addrs i = Inr (addrs i) \<Longrightarrow>
   tracker_from Addrs ins present = (present @ concat [interface_nets i (addrs i). i \<leftarrow> ins, if_Flags i AND FlagUp \<noteq> 0], None)"
  by (induction ins arbitrary: present) auto

lemma tracker_Listen_nets:
  assumes "\<forall>i\<in>set ins. Addrs i = Inr (addrs i)"
  shows "tracker_Listen (Inr ins) Addrs = (concat [interface_nets i (addrs i). i \<leftarrow> ins, if_Flags i AND FlagUp \<noteq> 0], None)"
    and "n \<in> set (fst (tracker_Listen (Inr ins) Addrs)) \<Longrightarrow> IsUp n"
  using tracker_from_nets [OF assms, of "[]"] by (auto simp: tracker_Listen_def interface_nets_filter IsUp_def)

end
