(* ===== verification/Beacon.thy ===== *)
theory Beacon
  imports Network
begin

text \<open>
  Package \<open>lib/beacon\<close>: broadcasting and receiving datagrams. The goroutines of \<open>broadcast\<close> that read (the one on the
  socket, the loop of \<open>handleReads\<close> and the calls of \<open>Read\<close>) are a step relation; a send on a channel
  and its receipt are one step. \<open>Write\<close> and the goroutine that writes are functions of what the
  socket answers, and so is \<open>Listen\<close>.
\<close>

section \<open>Listening\<close>

text \<open>
  \<open>Listen\<close>, given \<open>net.ListenUDP\<close> for a port, \<open>None\<close> being any free one: its error, the sockets that it has bound and keeps (the one that is
  read, the one that is written), and those that it has closed again.
\<close>

definition listenReader :: "(nat option \<Rightarrow> error + 's) \<Rightarrow> nat \<Rightarrow> error + 's" where
  "listenReader ListenUDP port = ListenUDP (Some port)"

definition listenWriter :: "(nat option \<Rightarrow> error + 's) \<Rightarrow> error + 's" where
  "listenWriter ListenUDP = ListenUDP None"

definition beacon_Listen :: "(nat option \<Rightarrow> error + 's) \<Rightarrow> nat \<Rightarrow> error option \<times> ('s \<times> 's) option \<times> 's list" where
  "beacon_Listen ListenUDP port =
     (case listenReader ListenUDP port of
        Inl err \<Rightarrow> (Some err, None, [])
      | Inr rc \<Rightarrow>
          (case listenWriter ListenUDP of
             Inl err \<Rightarrow> (Some err, None, [rc])
           | Inr wc \<Rightarrow> (None, Some (rc, wc), [])))"

text \<open>\<open>sequential\<close> of \<open>util.go\<close>: the functions by their results; it stops at the first error.\<close>

fun sequential_results :: "error option list \<Rightarrow> error option" where
  "sequential_results [] = None"
| "sequential_results (r # rs) = (if r \<noteq> None then r else sequential_results rs)"

lemma sequential_results_first: "sequential_results rs = (case filter (\<lambda>r. r \<noteq> None) rs of [] \<Rightarrow> None | r # _ \<Rightarrow> r)"
  by (induction rs) auto

text \<open>A \<open>Listen\<close> that fails leaves no socket open.\<close>

lemma beacon_Listen_error:
  assumes "beacon_Listen ListenUDP port = (Some e, kept, closed)"
  shows "kept = None \<and> (\<forall>s. ListenUDP (Some port) = Inr s \<longrightarrow> s \<in> set closed)"
  using assms by (auto simp: beacon_Listen_def listenReader_def listenWriter_def split: sum.split_asm)

section \<open>Writing\<close>

text \<open>
  \<open>Write\<close> hands the packet over if \<open>handleWrites\<close> takes it, or fails when the beacon is closed; \<open>taken\<close> says which. The channel \<open>err\<close>
  is new, so nothing is received from it while \<open>Write\<close> waits.
\<close>

record outPacket =
  op_data :: bytes
  op_ip :: bytes

definition beacon_Write :: "bool \<Rightarrow> bytes \<Rightarrow> Net \<Rightarrow> (error option \<times> outPacket option) outcome" where
  "beacon_Write taken data dst =
     (if \<not> IsBroadcast dst then Return (Some (ErrorString ''destination does not support broadcasting''), None)
      else
        obind (BroadcastIp dst) (\<lambda>r.
          case r of
            Inl e \<Rightarrow> Return (Some e, None)
          | Inr ip \<Rightarrow>
              if taken then Return (None, Some \<lparr>op_data = data, op_ip = ip\<rparr>)
              else Return (Some (IOError NetErrClosed), None)))"

text \<open>
  The goroutine of \<open>handleWrites\<close> for a packet, given the results of the socket: it ends, or waits for ever to send an error on
  the packet's channel.
\<close>

datatype writer_end = WriterDone | WriterBlocked error

definition write_packet ::
  "error option \<Rightarrow> (bytes \<Rightarrow> bytes \<Rightarrow> nat \<times> error option) \<Rightarrow> error option \<Rightarrow> outPacket \<Rightarrow> writer_end outcome" where
  "write_packet deadline WriteToUDP reset packet =
     (case deadline of
        Some e \<Rightarrow> Return (WriterBlocked e)
      | None \<Rightarrow>
          (case WriteToUDP (op_data packet) (op_ip packet) of
             (n, err) \<Rightarrow>
               (case err of
                  Some e \<Rightarrow> Return (WriterBlocked e)
                | None \<Rightarrow>
                    if n \<noteq> length (op_data packet) then Panic (PanicString ''unexpected nil error'')
                    else (case reset of Some e \<Rightarrow> Return (WriterBlocked e) | None \<Rightarrow> Return WriterDone))))"

text \<open>
  The loop of \<open>handleWrites\<close>: each packet that it takes gets a goroutine of its own. \<open>None\<close> is the end of the context.
\<close>

fun handleWrites :: "outPacket option list \<Rightarrow> outPacket list" where
  "handleWrites [] = []"
| "handleWrites (None # rest) = []"
| "handleWrites (Some packet # rest) = packet # handleWrites rest"

section \<open>Reading\<close>

text \<open>An \<open>inPacket\<close>: the data and the address, which is nil in the zero value that a closed channel yields.\<close>

type_synonym inPacket = "bytes \<times> bytes option"

definition zeroPacket :: inPacket where
  "zeroPacket = ([], None)"

datatype socket_pc = SocketRead | SocketSend inPacket | SocketClosed

datatype reads_pc = ReadsSelect | ReadsDeliver inPacket "nat list" | ReadsStopped

datatype read_call = ReadRegister | ReadWait | ReadReturned "error + inPacket"

text \<open>
  The readers that wait are numbers of calls, in the order of \<open>ins\<close>. \<open>b_log\<close> has the packets that the socket
  has delivered; no code reads it.
\<close>

record broadcast =
  b_socket :: socket_pc
  b_handleReads :: reads_pc
  b_ins :: "nat list"
  b_calls :: "nat \<rightharpoonup> read_call"
  b_done :: bool
  b_log :: "inPacket list"

definition NewBroadcast :: broadcast where
  "NewBroadcast = \<lparr>b_socket = SocketRead, b_handleReads = ReadsSelect, b_ins = [], b_calls = Map.empty, b_done = False, b_log = []\<rparr>"

text \<open>The result of \<open>ReadFrom\<close>: an error closes the channel \<open>ch\<close>.\<close>

definition socket_result :: "error + inPacket \<Rightarrow> broadcast \<Rightarrow> broadcast" where
  "socket_result r b =
     (case r of
        Inl e \<Rightarrow> b\<lparr>b_socket := SocketClosed\<rparr>
      | Inr p \<Rightarrow> b\<lparr>b_socket := SocketSend p, b_log := b_log b @ [p]\<rparr>)"

text \<open>\<open>p := <-ch\<close>: a packet, or the zero value once \<open>ch\<close> is closed.\<close>

definition reads_packet :: "broadcast \<Rightarrow> broadcast" where
  "reads_packet b =
     (case b_socket b of
        SocketSend p \<Rightarrow> b\<lparr>b_socket := SocketRead, b_handleReads := ReadsDeliver p (b_ins b)\<rparr>
      | SocketClosed \<Rightarrow> b\<lparr>b_handleReads := ReadsDeliver zeroPacket (b_ins b)\<rparr>
      | SocketRead \<Rightarrow> b)"

definition reads_register :: "nat \<Rightarrow> broadcast \<Rightarrow> broadcast" where
  "reads_register n b = b\<lparr>b_ins := b_ins b @ [n], b_calls := (b_calls b)(n \<mapsto> ReadWait)\<rparr>"

definition reads_deliver :: "inPacket \<Rightarrow> nat \<Rightarrow> nat list \<Rightarrow> broadcast \<Rightarrow> broadcast" where
  "reads_deliver p n ns b = b\<lparr>b_handleReads := ReadsDeliver p ns, b_calls := (b_calls b)(n \<mapsto> ReadReturned (Inr p))\<rparr>"

definition beacon_Close :: "broadcast \<Rightarrow> broadcast" where
  "beacon_Close b = b\<lparr>b_done := True\<rparr>"

inductive beacon_step :: "broadcast \<Rightarrow> broadcast \<Rightarrow> bool" where
  datagram: "b_socket b = SocketRead \<Longrightarrow> beacon_step b (socket_result r b)"
| packet: "b_handleReads b = ReadsSelect \<Longrightarrow> b_socket b \<noteq> SocketRead \<Longrightarrow> beacon_step b (reads_packet b)"
| delivers: "b_handleReads b = ReadsDeliver p (n # ns) \<Longrightarrow> b_calls b n = Some ReadWait \<Longrightarrow> beacon_step b (reads_deliver p n ns b)"
| delivered: "b_handleReads b = ReadsDeliver p [] \<Longrightarrow> beacon_step b (b\<lparr>b_handleReads := ReadsSelect, b_ins := []\<rparr>)"
| reads_stop: "b_done b \<Longrightarrow> b_handleReads b = ReadsSelect \<or> b_handleReads b = ReadsDeliver p (n # ns) \<Longrightarrow>
    beacon_step b (b\<lparr>b_handleReads := ReadsStopped\<rparr>)"
| call_Read: "b_calls b n = None \<Longrightarrow> beacon_step b (b\<lparr>b_calls := (b_calls b)(n \<mapsto> ReadRegister)\<rparr>)"
| read_registers: "b_handleReads b = ReadsSelect \<Longrightarrow> b_calls b n = Some ReadRegister \<Longrightarrow> beacon_step b (reads_register n b)"
| read_closed: "b_calls b n = Some ReadWait \<Longrightarrow> b_done b \<Longrightarrow>
    beacon_step b (b\<lparr>b_calls := (b_calls b)(n \<mapsto> ReadReturned (Inl (IOError NetErrClosed)))\<rparr>)"
| call_Close: "beacon_step b (beacon_Close b)"

abbreviation beacon_run :: "broadcast \<Rightarrow> broadcast \<Rightarrow> bool" where
  "beacon_run \<equiv> beacon_step\<^sup>*\<^sup>*"

inductive_cases beacon_stepE: "beacon_step b b'"

lemmas beacon_defs = socket_result_def reads_packet_def reads_register_def reads_deliver_def beacon_Close_def

section \<open>Properties\<close>

text \<open>Every packet in the hands of a goroutine or of a caller has come from the socket, or is the zero value of a closed channel.\<close>

definition sound :: "broadcast \<Rightarrow> inPacket \<Rightarrow> bool" where
  "sound b p \<longleftrightarrow> p \<in> set (b_log b) \<or> p = zeroPacket \<and> b_socket b = SocketClosed"

definition sound_inv :: "broadcast \<Rightarrow> bool" where
  "sound_inv b \<longleftrightarrow>
     (\<forall>n p. b_calls b n = Some (ReadReturned (Inr p)) \<longrightarrow> sound b p) \<and>
     (\<forall>p. b_socket b = SocketSend p \<longrightarrow> p \<in> set (b_log b)) \<and>
     (\<forall>p ns. b_handleReads b = ReadsDeliver p ns \<longrightarrow> sound b p)"

lemma sound_mono: "sound b p \<Longrightarrow> set (b_log b) \<subseteq> set (b_log b') \<Longrightarrow> b_socket b = SocketClosed \<longrightarrow> b_socket b' = SocketClosed \<Longrightarrow> sound b' p"
  by (auto simp: sound_def)

lemma sound_inv_step:
  assumes "beacon_step b b'" and "sound_inv b"
  shows "sound_inv b'"
proof -
  have keep: "sound_inv b'" if "set (b_log b) \<subseteq> set (b_log b')" "b_socket b = SocketClosed \<longrightarrow> b_socket b' = SocketClosed"
    "\<And>n p. b_calls b' n = Some (ReadReturned (Inr p)) \<Longrightarrow> b_calls b n = Some (ReadReturned (Inr p)) \<or> (\<exists>ns. b_handleReads b = ReadsDeliver p ns)"
    "\<And>p. b_socket b' = SocketSend p \<Longrightarrow> p \<in> set (b_log b')"
    "\<And>p ns. b_handleReads b' = ReadsDeliver p ns \<Longrightarrow> (\<exists>ms. b_handleReads b = ReadsDeliver p ms) \<or> sound b' p"
    using assms(2) that sound_mono [OF _ that(1,2)] unfolding sound_inv_def by meson
  have sent: "b_socket b = SocketSend p \<Longrightarrow> p \<in> set (b_log b)" for p using assms(2) by (simp add: sound_inv_def)
  from assms(1) show ?thesis
  proof cases
    case (datagram r)
    show ?thesis by (rule keep) (use datagram sent in \<open>auto simp: socket_result_def split: sum.split_asm\<close>)
  next
    case packet
    show ?thesis
      by (rule keep) (use packet sent in \<open>auto simp: reads_packet_def sound_def split: socket_pc.split_asm\<close>)
  next
    case (delivers p n ns)
    show ?thesis by (rule keep) (use delivers sent in \<open>auto simp: reads_deliver_def split: if_split_asm\<close>)
  next
    case (read_registers n)
    show ?thesis by (rule keep) (use read_registers sent in \<open>auto simp: reads_register_def split: if_split_asm\<close>)
  qed (rule keep; use sent in \<open>auto simp: beacon_Close_def split: if_split_asm\<close>)+
qed

interpretation beacon_sound: step_invariant beacon_step sound_inv
  by unfold_locales (rule sound_inv_step)

text \<open>
  What \<open>Read\<close> returns without an error has been received: as long as the socket has not failed, in every interleaving of the
  goroutines and calls, it is a datagram with its address. After a failure it may also be an empty
  packet without an address.
\<close>

theorem beacon_Read_received:
  assumes "beacon_run NewBroadcast b" and "b_calls b n = Some (ReadReturned (Inr p))"
  shows "p \<in> set (b_log b) \<or> p = zeroPacket \<and> b_socket b = SocketClosed"
proof -
  have "sound_inv NewBroadcast" by (simp add: sound_inv_def NewBroadcast_def)
  with assms show ?thesis using beacon_sound.run_inv unfolding sound_inv_def sound_def by blast
qed

theorem beacon_Read_received_witness:
  "\<exists>b. beacon_run NewBroadcast b \<and> b_calls b 0 = Some (ReadReturned (Inr ([7], Some [1, 2, 3, 4]))) \<and>
     (([7], Some [1, 2, 3, 4]) \<in> set (b_log b) \<or> ([7], Some [1, 2, 3, 4]) = zeroPacket \<and> b_socket b = SocketClosed)"
proof -
  let ?p = "([7], Some [1, 2, 3, 4]) :: inPacket"
  let ?b = "\<lambda>s h ins call l. \<lparr>b_socket = s, b_handleReads = h, b_ins = ins, b_calls = [0 \<mapsto> call], b_done = False, b_log = l\<rparr>"
  have "beacon_step NewBroadcast (?b SocketRead ReadsSelect [] ReadRegister [])"
    using call_Read [of NewBroadcast 0] by (simp add: NewBroadcast_def)
  moreover have "beacon_step (?b SocketRead ReadsSelect [] ReadRegister []) (?b SocketRead ReadsSelect [0] ReadWait [])"
    using read_registers [of "?b SocketRead ReadsSelect [] ReadRegister []" 0] by (simp add: reads_register_def)
  moreover have "beacon_step (?b SocketRead ReadsSelect [0] ReadWait []) (?b (SocketSend ?p) ReadsSelect [0] ReadWait [?p])"
    using datagram [of "?b SocketRead ReadsSelect [0] ReadWait []" "Inr ?p"] by (simp add: socket_result_def)
  moreover have "beacon_step (?b (SocketSend ?p) ReadsSelect [0] ReadWait [?p]) (?b SocketRead (ReadsDeliver ?p [0]) [0] ReadWait [?p])"
    using packet [of "?b (SocketSend ?p) ReadsSelect [0] ReadWait [?p]"] by (simp add: reads_packet_def)
  moreover have "beacon_step (?b SocketRead (ReadsDeliver ?p [0]) [0] ReadWait [?p])
      (?b SocketRead (ReadsDeliver ?p []) [0] (ReadReturned (Inr ?p)) [?p])"
    using delivers [of "?b SocketRead (ReadsDeliver ?p [0]) [0] ReadWait [?p]" ?p 0 "[]"] by (simp add: reads_deliver_def)
  ultimately have run: "beacon_run NewBroadcast (?b SocketRead (ReadsDeliver ?p []) [0] (ReadReturned (Inr ?p)) [?p])"
    by (meson rtranclp.rtrancl_into_rtrancl rtranclp.rtrancl_refl)
  show ?thesis
    using beacon_Read_received [OF run, of 0 ?p] run
    by (intro exI [of _ "?b SocketRead (ReadsDeliver ?p []) [0] (ReadReturned (Inr ?p)) [?p]"]) simp
qed

text \<open>
  A datagram reaches every reader that waits for it: when the loop has taken it from the socket while the calls
  \<open>ns\<close> wait, it can hand it to each of them, and ends with no reader registered.
\<close>

theorem beacon_delivers_to_all:
  assumes "b_handleReads b = ReadsDeliver p ns" and "distinct ns" and "\<forall>n\<in>set ns. b_calls b n = Some ReadWait"
  shows "\<exists>b'. beacon_run b b' \<and> b_handleReads b' = ReadsSelect \<and> b_ins b' = [] \<and>
    (\<forall>n. b_calls b' n = (if n \<in> set ns then Some (ReadReturned (Inr p)) else b_calls b n))"
  using assms
proof (induction ns arbitrary: b)
  case Nil
  then show ?case using delivered [of b p] by (intro exI [of _ "b\<lparr>b_handleReads := ReadsSelect, b_ins := []\<rparr>"]) auto
next
  case (Cons n ns)
  let ?c = "reads_deliver p n ns b"
  have step: "beacon_step b ?c" using Cons.prems by (intro delivers) auto
  have pre: "b_handleReads ?c = ReadsDeliver p ns" "\<forall>m\<in>set ns. b_calls ?c m = Some ReadWait"
    using Cons.prems by (auto simp: reads_deliver_def)
  obtain b' where b': "beacon_run ?c b'" "b_handleReads b' = ReadsSelect" "b_ins b' = []"
    "\<forall>m. b_calls b' m = (if m \<in> set ns then Some (ReadReturned (Inr p)) else b_calls ?c m)"
    using Cons.IH [of ?c] pre Cons.prems(2) by auto
  show ?case
    using b' converse_rtranclp_into_rtranclp [of beacon_step, OF step b'(1)]
    by (intro exI [of _ b']) (auto simp: reads_deliver_def)
qed

theorem beacon_delivers_to_all_witness:
  "\<exists>b'. beacon_run (NewBroadcast\<lparr>b_handleReads := ReadsDeliver ([7], None) [0, 1], b_ins := [0, 1], b_calls := [0 \<mapsto> ReadWait, 1 \<mapsto> ReadWait]\<rparr>) b' \<and>
     b_calls b' 0 = Some (ReadReturned (Inr ([7], None))) \<and> b_calls b' 1 = Some (ReadReturned (Inr ([7], None)))"
  using beacon_delivers_to_all [of "NewBroadcast\<lparr>b_handleReads := ReadsDeliver ([7], None) [0, 1], b_ins := [0, 1],
    b_calls := [0 \<mapsto> ReadWait, 1 \<mapsto> ReadWait]\<rparr>" "([7], None)" "[0, 1]"] by auto

text \<open>
  After the socket has failed, \<open>Read\<close> does not report it: a call can return at once an empty packet and no error.
\<close>

theorem beacon_Read_after_failure:
  assumes "b_socket b = SocketClosed" and "b_handleReads b = ReadsSelect" and "b_ins b = []" and "b_calls b n = Some ReadRegister"
  shows "\<exists>b'. beacon_run b b' \<and> b_calls b' n = Some (ReadReturned (Inr ([], None)))"
proof -
  let ?b1 = "reads_register n b"
  let ?b2 = "reads_packet ?b1"
  have "beacon_step b ?b1" using assms by (intro read_registers)
  moreover have "beacon_step ?b1 ?b2" using assms by (intro packet) (simp_all add: reads_register_def)
  moreover have "beacon_step ?b2 (reads_deliver zeroPacket n [] ?b2)"
    using assms by (intro delivers) (simp_all add: reads_register_def reads_packet_def)
  ultimately have "beacon_run b (reads_deliver zeroPacket n [] ?b2)"
    by (meson rtranclp.rtrancl_into_rtrancl rtranclp.rtrancl_refl)
  then show ?thesis by (intro exI [of _ "reads_deliver zeroPacket n [] ?b2"]) (simp add: reads_deliver_def zeroPacket_def)
qed

theorem beacon_Read_after_failure_witness:
  "\<exists>b'. beacon_run (NewBroadcast\<lparr>b_socket := SocketClosed, b_calls := [0 \<mapsto> ReadRegister]\<rparr>) b' \<and>
     b_calls b' 0 = Some (ReadReturned (Inr ([], None)))"
  using beacon_Read_after_failure [of "NewBroadcast\<lparr>b_socket := SocketClosed, b_calls := [0 \<mapsto> ReadRegister]\<rparr>" 0]
  by (simp add: NewBroadcast_def)

text \<open>
  A \<open>Read\<close> that starts after the loop of a closed beacon has stopped never returns.
\<close>

theorem closed_beacon_hangs_Read:
  assumes "beacon_run b b'" and "b_handleReads b = ReadsStopped" and "b_calls b n = Some ReadRegister"
  shows "b_calls b' n = Some ReadRegister"
proof -
  have "b_handleReads b' = ReadsStopped \<and> b_calls b' n = Some ReadRegister"
    using assms
  proof (induction rule: rtranclp_induct)
    case (step b b')
    from step.hyps(2) show ?case
      by (cases rule: beacon_stepE) (use step in \<open>auto simp: beacon_defs split: sum.split socket_pc.split\<close>)
  qed simp
  then show ?thesis by blast
qed

theorem closed_beacon_hangs_Read_witness:
  "b_calls (NewBroadcast\<lparr>b_done := True, b_handleReads := ReadsStopped, b_calls := [0 \<mapsto> ReadRegister], b_socket := SocketClosed\<rparr>) 0 = Some ReadRegister"
proof -
  let ?b = "NewBroadcast\<lparr>b_done := True, b_handleReads := ReadsStopped, b_calls := [0 \<mapsto> ReadRegister]\<rparr>"
  have "beacon_step ?b (?b\<lparr>b_socket := SocketClosed\<rparr>)"
    using datagram [of ?b "Inl (IOError NetErrClosed)"] by (simp add: NewBroadcast_def socket_result_def)
  from closed_beacon_hangs_Read [OF r_into_rtranclp [of beacon_step, OF this], of 0] show ?thesis by simp
qed

text \<open>A write error never reaches the caller of \<open>Write\<close>: its result does not depend on the socket, and the goroutine that writes is left behind.\<close>

lemma write_error_is_lost:
  assumes "IsBroadcast dst" and "BroadcastIp dst = Return (Inr ip)" and "WriteToUDP data ip = (0, Some e)"
  shows "beacon_Write True data dst = Return (None, Some \<lparr>op_data = data, op_ip = ip\<rparr>) \<and>
    write_packet None WriteToUDP None \<lparr>op_data = data, op_ip = ip\<rparr> = Return (WriterBlocked e)"
  using assms by (simp add: beacon_Write_def write_packet_def)

end
