(* ===== verification/Container.thy ===== *)
theory Container
  imports Beacon Net_Addr
begin

text \<open>
  Package \<open>lib/util/container\<close>: how tests that run in several containers wait for each other. Each container asks the other
  whether the function it waits for has been reached, and answers such requests. The goroutines of one container
  (\<open>handleRequests\<close>, one \<open>handleIncoming\<close> per request, the calls of \<open>wait\<close> and the goroutine of each that contacts the other
  container) are a step relation; the other containers are the environment. \<open>fail\<close> and \<open>failed\<close> panic.
\<close>

section \<open>Requests on a connection\<close>

definition ReadyByte :: byte where "ReadyByte = 255"

text \<open>The name of a function is the bytes of a string. What \<open>handleIncoming\<close> makes of the first read of a connection; \<open>None\<close> is a connection closed at once.\<close>

definition incoming_fun :: "bytes \<times> error option \<Rightarrow> bytes option outcome" where
  "incoming_fun r =
     (case r of
        (req, err) \<Rightarrow>
          if err = Some (IOError EOF) \<and> req = [] then Return None
          else if err \<noteq> None then Panic (PanicString ''failed to read request'')
          else Return (Some req))"

text \<open>\<open>handleOutgoing\<close>, by the result of writing the request and of reading one byte.\<close>

definition handleOutgoing :: "error option \<Rightarrow> bytes \<times> error option \<Rightarrow> unit outcome" where
  "handleOutgoing werr r =
     (if werr \<noteq> None then Panic (PanicString ''failed to write request to connection'')
      else
        (case r of
           (res, err) \<Rightarrow>
             if err = Some (IOError EOF) \<and> res = [] then Return ()
             else if err \<noteq> None then Panic (PanicString ''failed to read response'')
             else if res = [] \<or> hd res \<noteq> ReadyByte then Panic (PanicString ''received invalid response'')
             else Return ()))"

section \<open>A container\<close>

datatype requests_handler_pc =
    HandleNone
  | HandleListen
  | HandleSelect
  | HandleWake nat bytes nat
  | HandlePanicked string

datatype incoming_pc = IncomingSend bytes | IncomingReady bytes | IncomingAnswer bytes | IncomingDone bytes

datatype wait_pc = WaitReady | WaitRegister | WaitSelect | WaitLeft | WaitReturned

datatype contact_pc = Dialling | Contacting | ContactSend | ContactEnded | ContactClosed

text \<open>
  The maps of \<open>handleRequests\<close> have the numbers of requests (\<open>ct_requests\<close>) and of calls (\<open>ct_waits\<close>) for the channels. A call of \<open>wait\<close> keeps the
  name of its function.
\<close>

record container =
  ct_listens :: bool
  ct_ready :: "bytes set"
  ct_completed :: "bytes set"
  ct_requests :: "bytes \<rightharpoonup> nat"
  ct_waits :: "bytes \<rightharpoonup> nat"
  ct_handler :: requests_handler_pc
  ct_incoming :: "nat \<rightharpoonup> incoming_pc"
  ct_calls :: "nat \<rightharpoonup> bytes \<times> wait_pc"
  ct_contacts :: "nat \<rightharpoonup> contact_pc"
  ct_runDone :: "bool option"

definition New_container :: container where
  "New_container =
     \<lparr>ct_listens = False, ct_ready = {}, ct_completed = {}, ct_requests = Map.empty, ct_waits = Map.empty, ct_handler = HandleNone,
      ct_incoming = Map.empty, ct_calls = Map.empty, ct_contacts = Map.empty, ct_runDone = None\<rparr>"

text \<open>The closure \<open>done\<close>: the request's goroutine waits for its answer, so the send succeeds at once.\<close>

definition answer :: "bytes \<Rightarrow> nat \<Rightarrow> container \<Rightarrow> container" where
  "answer fun r c =
     c\<lparr>ct_incoming := (ct_incoming c)(r \<mapsto> IncomingAnswer fun), ct_completed := insert fun (ct_completed c)\<rparr>"

definition handle_reset :: "container \<Rightarrow> container" where
  "handle_reset c = c\<lparr>ct_ready := {}, ct_completed := {}, ct_requests := Map.empty, ct_waits := Map.empty\<rparr>"

definition handle_ready :: "bytes \<Rightarrow> container \<Rightarrow> container" where
  "handle_ready fun c =
     (let c1 = c\<lparr>ct_ready := insert fun (ct_ready c)\<rparr> in
      case ct_requests c1 fun of
        None \<Rightarrow> c1
      | Some r \<Rightarrow> (answer fun r c1)\<lparr>ct_requests := (ct_requests c1)(fun := None)\<rparr>)"

text \<open>A request, up to the send to the call that waits, and from there on.\<close>

definition finish_request :: "bytes \<Rightarrow> nat \<Rightarrow> container \<Rightarrow> container" where
  "finish_request fun r c =
     (if fun \<in> ct_ready c then answer fun r c else c\<lparr>ct_requests := (ct_requests c)(fun \<mapsto> r)\<rparr>)"

definition handle_request :: "bytes \<Rightarrow> nat \<Rightarrow> container \<Rightarrow> container" where
  "handle_request fun r c =
     (if fun \<in> ct_completed c
      then c\<lparr>ct_handler := HandlePanicked ''received a requests for a function that has already been completed''\<rparr>
      else
        (case ct_waits c fun of
           Some n \<Rightarrow> c\<lparr>ct_handler := HandleWake n fun r\<rparr>
         | None \<Rightarrow> finish_request fun r c))"

definition handle_waked :: "bytes \<Rightarrow> nat \<Rightarrow> container \<Rightarrow> container" where
  "handle_waked fun r c = finish_request fun r (c\<lparr>ct_waits := (ct_waits c)(fun := None), ct_handler := HandleSelect\<rparr>)"

definition handle_wait :: "bytes \<Rightarrow> nat \<Rightarrow> container \<Rightarrow> container" where
  "handle_wait fun n c =
     (if ct_waits c fun \<noteq> None
      then c\<lparr>ct_handler := HandlePanicked ''received multiple wait requests for the same function''\<rparr>
      else c\<lparr>ct_waits := (ct_waits c)(fun \<mapsto> n)\<rparr>)"

text \<open>The address of a container, and the start of a call of \<open>wait\<close>.\<close>

definition container_Addr :: "string \<Rightarrow> string" where
  "container_Addr host = JoinHostPort host ''10000''"

definition start_wait :: "string \<Rightarrow> string \<Rightarrow> bytes \<Rightarrow> nat \<Rightarrow> container \<Rightarrow> container outcome" where
  "start_wait addr other src n c =
     (let c1 = (if ct_listens c then c else c\<lparr>ct_listens := True, ct_handler := HandleListen\<rparr>) in
      if addr = other then Panic (PanicString ''waiting for the same container is forbidden'')
      else Return (c1\<lparr>ct_calls := (ct_calls c1)(n \<mapsto> (src, WaitReady))\<rparr>))"

definition container_Done :: "container \<Rightarrow> container outcome" where
  "container_Done c =
     (case ct_runDone c of
        None \<Rightarrow> Panic (PanicString ''Done may only be called in a RunAsync context'')
      | Some True \<Rightarrow> Panic (RuntimePanic CloseOfClosedChannel)
      | Some False \<Rightarrow> Return (c\<lparr>ct_runDone := Some True\<rparr>))"

text \<open>\<open>IP.Equal\<close> of the standard library, and the addresses of a container.\<close>

definition IP_Equal :: "bytes \<Rightarrow> bytes \<Rightarrow> bool" where
  "IP_Equal ip x \<longleftrightarrow> (if length ip = length x then ip = x
     else length ip = 4 \<and> length x = 16 \<and> To4 x = Some ip \<or> length ip = 16 \<and> length x = 4 \<and> To4 ip = Some x)"

definition HasIP :: "error + bytes list \<Rightarrow> bytes \<Rightarrow> bool outcome" where
  "HasIP ips ip =
     (case ips of
        Inl e \<Rightarrow> Panic (PanicString ''failed to lookup the host's ip addresses'')
      | Inr is \<Rightarrow> Return (list_ex (\<lambda>i. To4 i \<noteq> None \<and> IP_Equal i ip) is))"

definition ipOf :: "error + bytes list \<Rightarrow> bytes outcome" where
  "ipOf ips =
     (case ips of
        Inl e \<Rightarrow> Panic (PanicString ''failed to lookup ip of container'')
      | Inr is \<Rightarrow> (case is of [] \<Rightarrow> Panic (RuntimePanic IndexOutOfRange) | ip # _ \<Rightarrow> Return ip))"

definition Hostname :: "error + string \<Rightarrow> string outcome" where
  "Hostname res = (case res of Inl e \<Rightarrow> Panic (PanicString ''failed to retrieve hostname'') | Inr h \<Rightarrow> Return h)"

definition canRun :: "(string \<Rightarrow> error + bytes list) \<Rightarrow> string \<Rightarrow> error + string \<Rightarrow> bool outcome" where
  "canRun LookupIP host hostname =
     obind (ipOf (LookupIP host)) (\<lambda>a.
     obind (Hostname hostname) (\<lambda>h.
     obind (ipOf (LookupIP h)) (\<lambda>b.
     Return (IP_Equal a b))))"

text \<open>\<open>Sync\<close> calls \<open>wait\<close> for the other containers of its group in turn.\<close>

record group =
  gr_Containers :: "nat list"
  gr_CallerFunc :: bytes

definition NewGroup :: "bytes \<Rightarrow> nat list \<Rightarrow> group" where
  "NewGroup caller containers = \<lparr>gr_Containers = containers, gr_CallerFunc = caller\<rparr>"

fun Sync_waits :: "nat \<Rightarrow> bytes \<Rightarrow> nat list \<Rightarrow> (nat \<times> bytes \<times> bytes) list" where
  "Sync_waits me caller [] = []"
| "Sync_waits me caller (other # cs) =
     (if me \<noteq> other then (other, caller, caller) # Sync_waits me caller cs else Sync_waits me caller cs)"

definition Sync :: "nat \<Rightarrow> group \<Rightarrow> (nat \<times> bytes \<times> bytes) list" where
  "Sync me g = Sync_waits me (gr_CallerFunc g) (gr_Containers g)"

text \<open>
  The frame of a caller, in the frames that the runtime reports, each with its name (\<open>frames.Next\<close> gives the next one and whether there are more).
\<close>

fun getFrame_loop :: "nat \<Rightarrow> nat \<Rightarrow> string list \<Rightarrow> string \<Rightarrow> string" where
  "getFrame_loop target i [] frame = frame"
| "getFrame_loop target i (f # fs) frame =
     (if i \<le> target then getFrame_loop target (i + 1) fs (if i = target then f else frame) else frame)"

definition getFrame :: "string list \<Rightarrow> nat \<Rightarrow> string" where
  "getFrame frames skipFrames = getFrame_loop (skipFrames + 2) 0 frames ''unknown''"

definition callerFuncName :: "string list \<Rightarrow> string" where
  "callerFuncName frames = getFrame frames 2"

abbreviation set_wait :: "nat \<Rightarrow> bytes \<Rightarrow> wait_pc \<Rightarrow> container \<Rightarrow> container" where
  "set_wait n src w c \<equiv> c\<lparr>ct_calls := (ct_calls c)(n \<mapsto> (src, w))\<rparr>"

abbreviation set_contact :: "nat \<Rightarrow> contact_pc \<Rightarrow> container \<Rightarrow> container" where
  "set_contact n p c \<equiv> c\<lparr>ct_contacts := (ct_contacts c)(n \<mapsto> p)\<rparr>"

inductive container_step :: "container \<Rightarrow> container \<Rightarrow> bool" where
  resets: "ct_handler c = HandleSelect \<Longrightarrow> container_step c (handle_reset c)"
| wait_call: "ct_calls c n = None \<Longrightarrow> start_wait addr other src n c = Return c' \<Longrightarrow> container_step c c'"
| listens: "ct_handler c = HandleListen \<Longrightarrow> container_step c (c\<lparr>ct_handler := HandleSelect\<rparr>)"
| wait_ready: "ct_handler c = HandleSelect \<Longrightarrow> ct_calls c n = Some (src, WaitReady) \<Longrightarrow>
    container_step c (handle_ready src (set_wait n src WaitRegister c))"
| wait_register: "ct_handler c = HandleSelect \<Longrightarrow> ct_calls c n = Some (src, WaitRegister) \<Longrightarrow>
    container_step c (handle_wait src n (set_contact n Dialling (set_wait n src WaitSelect c)))"
| contact_late: "ct_contacts c n = Some Dialling \<Longrightarrow> ct_calls c n = Some (src, WaitReturned) \<Longrightarrow>
    container_step c (set_contact n ContactClosed c)"
| contact_dials: "ct_contacts c n = Some Dialling \<Longrightarrow> ct_calls c n = Some (src, w) \<Longrightarrow> w \<noteq> WaitReturned \<Longrightarrow>
    container_step c (set_contact n Contacting c)"
| contact_answered: "ct_contacts c n = Some Contacting \<Longrightarrow> handleOutgoing werr r = Return () \<Longrightarrow>
    container_step c (set_contact n ContactSend c)"
| wait_contacted: "ct_contacts c n = Some ContactSend \<Longrightarrow> ct_calls c n = Some (src, WaitSelect) \<Longrightarrow>
    container_step c (set_contact n ContactEnded (set_wait n src WaitLeft c))"
| wait_requested: "ct_handler c = HandleWake n fun r \<Longrightarrow> ct_calls c n = Some (src, WaitSelect) \<Longrightarrow>
    container_step c (handle_waked fun r (set_wait n src WaitLeft c))"
| wait_returns: "ct_calls c n = Some (src, WaitLeft) \<Longrightarrow> container_step c (set_wait n src WaitReturned c)"
| incoming: "ct_incoming c r = None \<Longrightarrow> incoming_fun read = Return (Some fun) \<Longrightarrow>
    container_step c (c\<lparr>ct_incoming := (ct_incoming c)(r \<mapsto> IncomingSend fun)\<rparr>)"
| incoming_request: "ct_handler c = HandleSelect \<Longrightarrow> ct_incoming c r = Some (IncomingSend fun) \<Longrightarrow>
    container_step c (handle_request fun r (c\<lparr>ct_incoming := (ct_incoming c)(r \<mapsto> IncomingReady fun)\<rparr>))"
| incoming_answers: "ct_incoming c r = Some (IncomingAnswer fun) \<Longrightarrow>
    container_step c (c\<lparr>ct_incoming := (ct_incoming c)(r \<mapsto> IncomingDone fun)\<rparr>)"

abbreviation container_run :: "container \<Rightarrow> container \<Rightarrow> bool" where
  "container_run \<equiv> container_step\<^sup>*\<^sup>*"

inductive_cases container_stepE: "container_step c c'"

lemmas container_defs = answer_def handle_reset_def handle_ready_def finish_request_def handle_request_def handle_waked_def
  handle_wait_def start_wait_def Let_def

section \<open>Answers are true\<close>

text \<open>The functions that some call of \<open>wait\<close> has announced.\<close>

definition announced :: "container \<Rightarrow> bytes \<Rightarrow> bool" where
  "announced c fun \<longleftrightarrow> (\<exists>n w. ct_calls c n = Some (fun, w) \<and> w \<noteq> WaitReady)"

definition asked :: "container \<Rightarrow> bytes \<Rightarrow> bool" where
  "asked c fun \<longleftrightarrow> (\<exists>r i. ct_incoming c r = Some i \<and> i \<in> {IncomingReady fun, IncomingAnswer fun, IncomingDone fun})"

definition contacted :: "container \<Rightarrow> nat \<Rightarrow> bool" where
  "contacted c n \<longleftrightarrow> ct_contacts c n = Some ContactEnded"

definition wait_inv :: "container \<Rightarrow> bool" where
  "wait_inv c \<longleftrightarrow>
     (ct_listens c \<longleftrightarrow> ct_handler c \<noteq> HandleNone) \<and>
     (\<forall>fun\<in>ct_ready c. announced c fun) \<and>
     (\<forall>r fun. ct_incoming c r = Some (IncomingAnswer fun) \<or> ct_incoming c r = Some (IncomingDone fun) \<longrightarrow> announced c fun) \<and>
     (\<forall>fun r. ct_requests c fun = Some r \<longrightarrow> ct_incoming c r = Some (IncomingReady fun)) \<and>
     (\<forall>n fun r. ct_handler c = HandleWake n fun r \<longrightarrow>
        ct_incoming c r = Some (IncomingReady fun) \<and> ct_waits c fun = Some n \<and> ct_requests c fun \<noteq> Some r) \<and>
     (\<forall>fun n. ct_waits c fun = Some n \<longrightarrow> (\<exists>w. ct_calls c n = Some (fun, w) \<and> w \<noteq> WaitReady \<and> w \<noteq> WaitRegister)) \<and>
     (\<forall>n p. ct_contacts c n = Some p \<longrightarrow> (\<exists>src w. ct_calls c n = Some (src, w) \<and> w \<noteq> WaitReady \<and> w \<noteq> WaitRegister)) \<and>
     (\<forall>n src w. ct_calls c n = Some (src, w) \<and> (w = WaitLeft \<or> w = WaitReturned) \<longrightarrow> contacted c n \<or> asked c src)"

lemma finish_request_facts [simp]:
  "ct_ready (finish_request fun r c) = ct_ready c" "ct_waits (finish_request fun r c) = ct_waits c"
  "ct_handler (finish_request fun r c) = ct_handler c" "ct_calls (finish_request fun r c) = ct_calls c"
  "ct_contacts (finish_request fun r c) = ct_contacts c"
  by (simp_all add: finish_request_def answer_def)

lemma step_calls:
  assumes "container_step c c'" and "ct_calls c n = Some (src, w)"
  shows "\<exists>w'. ct_calls c' n = Some (src, w') \<and> (w \<noteq> WaitReady \<longrightarrow> w' \<noteq> WaitReady) \<and>
    (w \<noteq> WaitReady \<and> w \<noteq> WaitRegister \<longrightarrow> w' \<noteq> WaitRegister)"
  using assms by cases (auto simp: container_defs split: option.split if_split_asm)

lemma announced_mono: "container_step c c' \<Longrightarrow> announced c fun \<Longrightarrow> announced c' fun"
  unfolding announced_def using step_calls by metis

lemma asked_mono:
  assumes "container_step c c'" and "asked c fun" and "wait_inv c"
  shows "asked c' fun"
proof -
  obtain r i where r: "ct_incoming c r = Some i" "i \<in> {IncomingReady fun, IncomingAnswer fun, IncomingDone fun}"
    using assms(2) by (auto simp: asked_def)
  have q: "ct_requests c f = Some k \<Longrightarrow> ct_incoming c k = Some (IncomingReady f)"
    and h: "ct_handler c = HandleWake n f k \<Longrightarrow> ct_incoming c k = Some (IncomingReady f)" for f k n
    using assms(3) by (auto simp: wait_inv_def)
  have "\<exists>i'. ct_incoming c' r = Some i' \<and> i' \<in> {IncomingReady fun, IncomingAnswer fun, IncomingDone fun}"
    using assms(1)
  proof cases
    case (wait_ready n src)
    then show ?thesis using r q by (fastforce simp: container_defs split: option.split)
  next
    case (wait_requested n f k src)
    then show ?thesis using r h by (fastforce simp: container_defs)
  next
    case (incoming_request k f)
    then show ?thesis using r by (auto simp: container_defs split: option.split)
  qed (use r in \<open>auto simp: container_defs split: if_split_asm\<close>)
  then show ?thesis by (auto simp: asked_def)
qed

lemma wait_invD:
  assumes "wait_inv c"
  shows "fun \<in> ct_ready c \<Longrightarrow> announced c fun"
    and "ct_incoming c r = Some (IncomingAnswer fun) \<or> ct_incoming c r = Some (IncomingDone fun) \<Longrightarrow> announced c fun"
    and "ct_requests c fun = Some r \<Longrightarrow> ct_incoming c r = Some (IncomingReady fun)"
    and "ct_handler c = HandleWake n fun r \<Longrightarrow>
      ct_incoming c r = Some (IncomingReady fun) \<and> ct_waits c fun = Some n \<and> ct_requests c fun \<noteq> Some r"
    and "ct_waits c fun = Some n \<Longrightarrow> \<exists>w. ct_calls c n = Some (fun, w) \<and> w \<noteq> WaitReady \<and> w \<noteq> WaitRegister"
    and "ct_contacts c n = Some p \<Longrightarrow> \<exists>src w. ct_calls c n = Some (src, w) \<and> w \<noteq> WaitReady \<and> w \<noteq> WaitRegister"
    and "ct_calls c n = Some (src, w) \<Longrightarrow> w = WaitLeft \<or> w = WaitReturned \<Longrightarrow> contacted c n \<or> asked c src"
    and "ct_listens c \<longleftrightarrow> ct_handler c \<noteq> HandleNone"
  using assms unfolding wait_inv_def by blast+

lemma contacted_mono:
  assumes "container_step c c'" and "contacted c n" and "wait_inv c"
  shows "contacted c' n"
  using assms(1)
proof cases
  case (wait_register m src)
  have "\<exists>src w. ct_calls c n = Some (src, w) \<and> w \<noteq> WaitReady \<and> w \<noteq> WaitRegister"
    using wait_invD(6) [OF assms(3)] assms(2) by (simp add: contacted_def)
  then have "m \<noteq> n" using wait_register by auto
  then show ?thesis using wait_register assms(2) by (simp add: contacted_def handle_wait_def)
qed (use assms(2) in \<open>auto simp: contacted_def container_defs split: option.split if_split_asm\<close>)

lemma requests_uniq:
  assumes "wait_inv c" and "ct_requests c f = Some r" and "ct_requests c g = Some r"
  shows "f = g"
  using wait_invD(3) [OF assms(1,2)] wait_invD(3) [OF assms(1,3)] by simp

lemma requests_step:
  assumes st: "container_step c c'" and inv: "wait_inv c" and q: "ct_requests c' f = Some r"
  shows "ct_incoming c' r = Some (IncomingReady f)"
    using st
proof cases
  case (wait_ready n src)
  show ?thesis
  proof (cases "ct_requests c src")
    case None
    then show ?thesis using q wait_ready(1) wait_invD(3) [OF inv, of f r] by (simp add: handle_ready_def)
  next
    case (Some k)
    then have "f \<noteq> src" "ct_requests c f = Some r" "ct_incoming c' = (ct_incoming c)(k \<mapsto> IncomingAnswer src)"
      using q wait_ready(1) by (auto simp: handle_ready_def answer_def split: if_split_asm)
    then show ?thesis using wait_invD(3) [OF inv, of f r] requests_uniq [OF inv, of f r src] Some by auto
  qed
next
  case (wait_requested n g k src)
  note w = wait_invD(4) [OF inv wait_requested(2)]
  show ?thesis
  proof (cases "f = g \<and> g \<notin> ct_ready c")
    case True
    then show ?thesis using q w wait_requested(1) by (simp add: handle_waked_def finish_request_def)
  next
    case False
    then have r: "ct_requests c f = Some r"
      using q wait_requested(1) by (auto simp: handle_waked_def finish_request_def answer_def split: if_split_asm)
    then have "r \<noteq> k" using wait_invD(3) [OF inv r] w by auto
    then show ?thesis using r wait_invD(3) [OF inv r] wait_requested(1)
      by (simp add: handle_waked_def finish_request_def answer_def)
  qed
next
  case (incoming_request k g)
  have "(f = g \<and> r = k \<and> ct_incoming c' k = Some (IncomingReady g)) \<or> ct_requests c f = Some r \<and> (\<forall>i. i \<noteq> k \<longrightarrow> ct_incoming c' i = ct_incoming c i)"
    using q incoming_request(1)
    by (auto simp: handle_request_def finish_request_def answer_def split: if_split_asm option.split_asm)
  then show ?thesis
  proof
    assume a: "ct_requests c f = Some r \<and> (\<forall>i. i \<noteq> k \<longrightarrow> ct_incoming c' i = ct_incoming c i)"
    then have "r \<noteq> k" using wait_invD(3) [OF inv, of f r] incoming_request(3) by auto
    then show ?thesis using a wait_invD(3) [OF inv, of f r] by simp
  qed simp
next
  case (incoming k "read" g)
  then show ?thesis using q wait_invD(3) [OF inv, of f r] by auto
next
  case (incoming_answers k g)
  then show ?thesis using q wait_invD(3) [OF inv, of f r] by auto
qed (use q wait_invD(3) [OF inv, of f r] in \<open>auto simp: handle_reset_def handle_wait_def start_wait_def Let_def split: if_split_asm\<close>)

lemma wake_step:
  assumes st: "container_step c c'" and inv: "wait_inv c" and h: "ct_handler c' = HandleWake n f r"
  shows "ct_incoming c' r = Some (IncomingReady f) \<and> ct_waits c' f = Some n \<and> ct_requests c' f \<noteq> Some r"
    using st
proof cases
  case (incoming_request k g)
  have "ct_requests c g \<noteq> Some k" using wait_invD(3) [OF inv, of g k] incoming_request(3) by auto
  moreover have "g = f \<and> k = r \<and> ct_waits c g = Some n \<and> c' = c\<lparr>ct_incoming := (ct_incoming c)(k \<mapsto> IncomingReady g), ct_handler := HandleWake n f r\<rparr>"
    using h incoming_request(1,2) by (auto simp: handle_request_def split: if_split_asm option.split_asm)
  ultimately show ?thesis by auto
next
  case (incoming k "read" g)
  then show ?thesis using h wait_invD(4) [OF inv, of n f r] by auto
next
  case (incoming_answers k g)
  then show ?thesis using h wait_invD(4) [OF inv, of n f r] by auto
qed (use h wait_invD(4) [OF inv, of n f r] in \<open>auto simp: handle_reset_def handle_ready_def handle_wait_def handle_waked_def
   answer_def start_wait_def Let_def split: option.split_asm if_split_asm\<close>)

lemma wait_inv_step:
  assumes st: "container_step c c'" and inv: "wait_inv c"
  shows "wait_inv c'"
proof -
  have ready: "\<forall>fun\<in>ct_ready c'. announced c' fun"
  proof
    fix f assume f: "f \<in> ct_ready c'"
    have "f \<in> ct_ready c \<or> announced c' f"
      using st f by cases (auto simp: container_defs announced_def split: option.split_asm if_split_asm)
    then show "announced c' f" using inv announced_mono [OF st] by (auto simp: wait_inv_def)
  qed
  have answered: "announced c' f" if "ct_incoming c' r = Some (IncomingAnswer f) \<or> ct_incoming c' r = Some (IncomingDone f)" for r f
  proof -
    have "ct_incoming c r = Some (IncomingAnswer f) \<or> ct_incoming c r = Some (IncomingDone f) \<or> f \<in> ct_ready c'"
      using st that by cases (auto simp: container_defs split: option.split_asm if_split_asm)
    then show ?thesis using inv announced_mono [OF st] ready by (auto simp: wait_inv_def)
  qed
  have waits: "\<exists>w. ct_calls c' n = Some (f, w) \<and> w \<noteq> WaitReady \<and> w \<noteq> WaitRegister" if "ct_waits c' f = Some n" for f n
  proof -
    have "ct_waits c f = Some n \<or> ct_calls c' n = Some (f, WaitSelect)"
      using st that by cases (auto simp: container_defs split: option.split_asm if_split_asm)
    then show ?thesis using wait_invD(5) [OF inv] step_calls [OF st] by fastforce
  qed
  have contacts: "\<exists>src w. ct_calls c' n = Some (src, w) \<and> w \<noteq> WaitReady \<and> w \<noteq> WaitRegister" if "ct_contacts c' n = Some p" for n p
  proof -
    have "(\<exists>q. ct_contacts c n = Some q) \<or> (\<exists>f. ct_calls c' n = Some (f, WaitSelect))"
      using st that by cases (auto simp: container_defs split: option.split_asm if_split_asm)
    then show ?thesis using wait_invD(6) [OF inv] step_calls [OF st] by fastforce
  qed
  have left: "contacted c' n \<or> asked c' src" if "ct_calls c' n = Some (src, w)" "w = WaitLeft \<or> w = WaitReturned" for n src w
  proof -
    have "(\<exists>v. ct_calls c n = Some (src, v) \<and> (v = WaitLeft \<or> v = WaitReturned)) \<or> contacted c' n \<or> asked c' src"
      using st
    proof cases
      case (wait_requested m f k src')
      have "ct_waits c f = Some m" "ct_incoming c k = Some (IncomingReady f)" using wait_invD(4) [OF inv] wait_requested by auto
      then have "src' = f" using wait_invD(5) [OF inv] wait_requested by fastforce
      moreover have "asked c f" using \<open>ct_incoming c k = _\<close> by (auto simp: asked_def)
      then have "asked c' f" using asked_mono [OF st] inv by blast
      ultimately show ?thesis using that wait_requested by (auto simp: container_defs split: if_split_asm)
    qed (use that in \<open>auto simp: contacted_def container_defs split: option.split_asm if_split_asm\<close>)
    then show ?thesis using wait_invD(7) [OF inv] contacted_mono [OF st _ inv] asked_mono [OF st _ inv] by blast
  qed
  have listening: "ct_listens c' \<longleftrightarrow> ct_handler c' \<noteq> HandleNone"
    using st wait_invD(8) [OF inv] by cases (auto simp: container_defs split: option.split if_split_asm)
  show ?thesis unfolding wait_inv_def using listening ready answered waits contacts left requests_step [OF st inv] wake_step [OF st inv] by blast
qed

interpretation container_waits: step_invariant container_step wait_inv
  by unfold_locales (rule wait_inv_step)

lemma wait_inv_New: "wait_inv New_container"
  by (simp add: wait_inv_def New_container_def)

text \<open>
  Synchronisation is sound. In every run of a new container's goroutines, a request for a function is answered only if a call of
  \<open>wait\<close> in that function has announced itself, and a call of \<open>wait\<close> returns only if the other container
  answered its request or has asked for the calling function.
\<close>

theorem wait_is_sound:
  assumes "container_run New_container c"
  shows "(\<forall>r fun. ct_incoming c r \<in> {Some (IncomingAnswer fun), Some (IncomingDone fun)} \<longrightarrow>
      (\<exists>n w. ct_calls c n = Some (fun, w) \<and> w \<noteq> WaitReady)) \<and>
    (\<forall>n src. ct_calls c n = Some (src, WaitReturned) \<longrightarrow>
      ct_contacts c n = Some ContactEnded \<or>
      (\<exists>r. ct_incoming c r \<in> {Some (IncomingReady src), Some (IncomingAnswer src), Some (IncomingDone src)}))"
proof -
  note inv = container_waits.run_inv [OF assms wait_inv_New]
  show ?thesis
    using wait_invD(2) [OF inv] wait_invD(7) [OF inv] by (fastforce simp: announced_def contacted_def asked_def)
qed

section \<open>The deadlock of the test synchronisation\<close>

text \<open>
  \<open>handleRequests\<close> wakes the call registered for a function with a send on its channel. A call that the other container has answered no longer
  receives there, and stays registered.
\<close>

definition woken_too_late :: "container \<Rightarrow> nat \<Rightarrow> bytes \<Rightarrow> nat \<Rightarrow> bool" where
  "woken_too_late c n fun r \<longleftrightarrow>
     ct_handler c = HandleWake n fun r \<and> (\<exists>src w. ct_calls c n = Some (src, w) \<and> (w = WaitLeft \<or> w = WaitReturned)) \<and> ct_listens c"

lemma woken_too_late_step: "container_step c c' \<Longrightarrow> woken_too_late c n fun r \<Longrightarrow> woken_too_late c' n fun r"
  by (erule container_step.cases) (auto simp: woken_too_late_def start_wait_def split: if_split_asm)

interpretation container_stuck: step_invariant container_step "\<lambda>c. woken_too_late c n fun r" for n "fun" r
  by unfold_locales (rule woken_too_late_step)

lemma container_contacts:
  assumes "addr \<noteq> (other :: string)"
  shows "container_run New_container
    (New_container\<lparr>ct_listens := True, ct_handler := HandleSelect, ct_ready := {src}, ct_waits := [src \<mapsto> n],
       ct_calls := [n \<mapsto> (src, WaitReturned)], ct_contacts := [n \<mapsto> ContactEnded]\<rparr>)" (is "container_run _ ?c")
proof -
  let ?call = "\<lambda>h w. New_container\<lparr>ct_listens := True, ct_handler := h, ct_calls := [n \<mapsto> (src, w)]\<rparr>"
  let ?reg = "\<lambda>w p. ?c\<lparr>ct_calls := [n \<mapsto> (src, w)], ct_contacts := [n \<mapsto> p]\<rparr>"
  have "container_step New_container (?call HandleListen WaitReady)"
    by (rule wait_call [of _ n addr other src]) (use assms in \<open>simp_all add: New_container_def start_wait_def\<close>)
  moreover have "container_step (?call HandleListen WaitReady) (?call HandleSelect WaitReady)"
    using listens [of "?call HandleListen WaitReady"] by (simp add: New_container_def)
  moreover have "container_step (?call HandleSelect WaitReady) (?call HandleSelect WaitRegister\<lparr>ct_ready := {src}\<rparr>)"
    using wait_ready [of "?call HandleSelect WaitReady" n src] by (simp add: New_container_def handle_ready_def)
  moreover have "container_step (?call HandleSelect WaitRegister\<lparr>ct_ready := {src}\<rparr>) (?reg WaitSelect Dialling)"
    using wait_register [of "?call HandleSelect WaitRegister\<lparr>ct_ready := {src}\<rparr>" n src] by (simp add: New_container_def handle_wait_def)
  moreover have "container_step (?reg WaitSelect Dialling) (?reg WaitSelect Contacting)"
    using contact_dials [of "?reg WaitSelect Dialling" n src] by (simp add: New_container_def)
  moreover have "handleOutgoing None ([ReadyByte], None) = Return ()" by (simp add: handleOutgoing_def)
  then have "container_step (?reg WaitSelect Contacting) (?reg WaitSelect ContactSend)"
    using contact_answered [of "?reg WaitSelect Contacting" n] by (simp add: New_container_def)
  moreover have "container_step (?reg WaitSelect ContactSend) (?reg WaitLeft ContactEnded)"
    using wait_contacted [of "?reg WaitSelect ContactSend" n src] by (simp add: New_container_def)
  moreover have "container_step (?reg WaitLeft ContactEnded) ?c"
    using wait_returns [of "?reg WaitLeft ContactEnded" n src] by (simp add: New_container_def)
  ultimately show ?thesis by (meson converse_rtranclp_into_rtranclp rtranclp.rtrancl_refl)
qed

text \<open>
  The deadlock that the comment of \<open>test.go\<close> describes. A call of \<open>wait\<close> that returns because the other container answered stays
  registered, and the first request of the other container for the function of that call stops the goroutine of \<open>handleRequests\<close>: it waits to
  wake the call, which has returned, and in every run that follows it answers no request, accepts no call and no reset.
\<close>

theorem container_deadlock:
  assumes "ct_handler c = HandleSelect" and "ct_waits c fun = Some n" and "fun \<notin> ct_completed c" and "ct_listens c"
    and "ct_calls c n = Some (src, WaitReturned)" and "ct_incoming c r = None"
  shows "\<exists>c'. container_run c c' \<and> ct_incoming c' r = Some (IncomingReady fun) \<and>
    (\<forall>c''. container_run c' c'' \<longrightarrow> ct_handler c'' = HandleWake n fun r)"
proof (intro exI conjI allI impI)
  let ?c1 = "c\<lparr>ct_incoming := (ct_incoming c)(r \<mapsto> IncomingSend fun)\<rparr>"
  let ?c2 = "handle_request fun r (?c1\<lparr>ct_incoming := (ct_incoming ?c1)(r \<mapsto> IncomingReady fun)\<rparr>)"
  have "incoming_fun (fun, None) = Return (Some fun)" by (simp add: incoming_fun_def)
  then have "container_step c ?c1" by (rule incoming [OF assms(6)])
  moreover have "container_step ?c1 ?c2" by (rule incoming_request) (use assms(1) in simp_all)
  ultimately show "container_run c ?c2" by (rule converse_rtranclp_into_rtranclp [OF _ r_into_rtranclp])
  show "ct_incoming ?c2 r = Some (IncomingReady fun)" using assms by (simp add: handle_request_def)
  have "woken_too_late ?c2 n fun r" using assms by (simp add: handle_request_def woken_too_late_def)
  then show "ct_handler c'' = HandleWake n fun r" if "container_run ?c2 c''" for c''
    using container_stuck.run_inv [OF that] by (simp add: woken_too_late_def)
qed

text \<open>A new container whose first call has been answered is in such a state.\<close>

theorem container_deadlock_witness:
  "\<exists>c. container_run New_container c \<and> (\<exists>c'. container_run c c' \<and> ct_incoming c' 0 = Some (IncomingReady [102]) \<and>
     (\<forall>c''. container_run c' c'' \<longrightarrow> ct_handler c'' = HandleWake 7 [102] 0))"
proof -
  let ?c = "New_container\<lparr>ct_listens := True, ct_handler := HandleSelect, ct_ready := {[102]}, ct_waits := [[102] \<mapsto> 7],
       ct_calls := [7 \<mapsto> ([102], WaitReturned)], ct_contacts := [7 \<mapsto> ContactEnded]\<rparr>"
  have "container_run New_container ?c" by (rule container_contacts [of "''alice''" "''bob''"]) simp
  moreover have "\<exists>c'. container_run ?c c' \<and> ct_incoming c' 0 = Some (IncomingReady [102]) \<and>
     (\<forall>c''. container_run c' c'' \<longrightarrow> ct_handler c'' = HandleWake 7 [102] 0)"
    by (rule container_deadlock) (simp_all add: New_container_def)
  ultimately show ?thesis by blast
qed

theorem wait_is_sound_witness:
  "\<exists>c. container_run New_container c \<and> ct_calls c 7 = Some ([102], WaitReturned) \<and> ct_contacts c 7 = Some ContactEnded"
proof -
  let ?c = "New_container\<lparr>ct_listens := True, ct_handler := HandleSelect, ct_ready := {[102]}, ct_waits := [[102] \<mapsto> 7],
       ct_calls := [7 \<mapsto> ([102], WaitReturned)], ct_contacts := [7 \<mapsto> ContactEnded]\<rparr>"
  have run: "container_run New_container ?c" by (rule container_contacts [of "''alice''" "''bob''"]) simp
  have "ct_contacts ?c 7 = Some ContactEnded"
    using wait_is_sound [OF run, THEN conjunct2, rule_format, of 7 "[102]"] by (simp add: New_container_def)
  then show ?thesis using run by fastforce
qed

section \<open>The helpers\<close>

lemma getFrame_loop_nth:
  "i \<le> target \<Longrightarrow> getFrame_loop target i fs frame = (if target - i < length fs then fs ! (target - i) else frame)"
proof (induction fs arbitrary: i frame)
  case (Cons f fs)
  show ?case
  proof (cases "i = target")
    case True
    then show ?thesis by (cases fs) auto
  next
    case False
    then show ?thesis using Cons by (auto simp: nth_Cons' Suc_diff_le)
  qed
qed simp

lemma getFrame_nth: "getFrame fs k = (if k + 2 < length fs then fs ! (k + 2) else ''unknown'')"
  by (simp add: getFrame_def getFrame_loop_nth)

lemma Sync_others: "map fst (Sync me g) = filter (\<lambda>x. x \<noteq> me) (gr_Containers g)"
proof -
  have "map fst (Sync_waits me f cs) = filter (\<lambda>x. x \<noteq> me) cs" for f cs by (induction cs) auto
  then show ?thesis by (simp add: Sync_def)
qed

lemma HasIP_Return:
  "HasIP ips ip = Return b \<longleftrightarrow> (\<exists>is. ips = Inr is \<and> b = (\<exists>i\<in>set is. To4 i \<noteq> None \<and> IP_Equal i ip))"
  by (auto simp: HasIP_def list_ex_iff split: sum.split)

end
