(* ===== verification/Container_Run.thy ===== *)
theory Container_Run
  imports Container
begin

text \<open>
  Functions that run in containers (\<open>Run\<close>, \<open>RunAsync\<close>, \<open>Done\<close>, \<open>Reset\<close> of \<open>lib/util/container\<close>), and two containers that wait for each other over a
  network that does not fail: the requests that come in at one are those that the other one makes. \<open>Sync\<close> is a rendezvous, and the container can
  be stopped by it for good.
\<close>

section \<open>Running a function in a container\<close>

datatype run_pc = RunBody | RunAwait | RunReset | RunReturned

text \<open>\<open>Run\<close> and \<open>RunAsync\<close> up to the call of the function; the latter makes the channel that \<open>Done\<close> closes.\<close>

definition Run_start :: "(string \<Rightarrow> error + bytes list) \<Rightarrow> string \<Rightarrow> error + string \<Rightarrow> container \<Rightarrow> (container \<times> run_pc) outcome" where
  "Run_start LookupIP host hostname c =
     obind (canRun LookupIP host hostname) (\<lambda>ok. Return (c, if ok then RunBody else RunReturned))"

definition RunAsync_start :: "(string \<Rightarrow> error + bytes list) \<Rightarrow> string \<Rightarrow> error + string \<Rightarrow> container \<Rightarrow> (container \<times> run_pc) outcome" where
  "RunAsync_start LookupIP host hostname c =
     obind (canRun LookupIP host hostname) (\<lambda>ok.
       Return (if ok then (c\<lparr>ct_runDone := Some False\<rparr>, RunBody) else (c, RunReturned)))"

definition Reset :: "container \<times> run_pc \<Rightarrow> container \<times> run_pc" where
  "Reset s = (handle_reset (fst s), RunReturned)"

text \<open>
  The goroutines of the container and any call of \<open>Done\<close>, the function, and what \<open>Run\<close> does after it. A reset is taken by \<open>handleRequests\<close>.
\<close>

inductive Run_step :: "bool \<Rightarrow> container \<times> run_pc \<Rightarrow> container \<times> run_pc \<Rightarrow> bool" for async :: bool where
  goroutine: "container_step c c' \<Longrightarrow> Run_step async (c, p) (c', p)"
| calls_Done: "container_Done c = Return c' \<Longrightarrow> Run_step async (c, p) (c', p)"
| fun_returns: "Run_step async (c, RunBody) (c, if async then RunAwait else RunReset)"
| awaited: "ct_runDone c = Some True \<Longrightarrow> Run_step async (c, RunAwait) (c, RunReset)"
| reset: "ct_handler c = HandleSelect \<Longrightarrow> Run_step async (c, RunReset) (Reset (c, RunReset))"

abbreviation Run_run :: "bool \<Rightarrow> container \<times> run_pc \<Rightarrow> container \<times> run_pc \<Rightarrow> bool" where
  "Run_run async \<equiv> (Run_step async)\<^sup>*\<^sup>*"

inductive_cases Run_stepE: "Run_step async s t"

text \<open>A step of \<open>Run\<close> is one of the goroutines, or changes nothing that they use, or is a reset.\<close>

definition same_goroutines :: "container \<Rightarrow> container \<Rightarrow> bool" where
  "same_goroutines c c' \<longleftrightarrow> (\<exists>d. c' = c\<lparr>ct_runDone := d\<rparr>)"

lemma same_goroutines_refl: "same_goroutines c c"
  unfolding same_goroutines_def by (rule exI [of _ "ct_runDone c"]) simp

lemma Run_step_container:
  assumes "Run_step async s t"
  shows "container_step (fst s) (fst t) \<or> same_goroutines (fst s) (fst t)"
  using assms
proof cases
  case (calls_Done c c' p)
  then have "c' = c\<lparr>ct_runDone := Some True\<rparr>" by (auto simp: container_Done_def split: option.split_asm bool.split_asm)
  then show ?thesis using calls_Done by (auto simp: same_goroutines_def)
next
  case (reset c)
  then show ?thesis using resets by (simp add: Reset_def)
qed (simp_all add: same_goroutines_refl)

lemma same_goroutines_eqs:
  assumes "same_goroutines c c'"
  shows "ct_handler c' = ct_handler c" "ct_calls c' = ct_calls c" "ct_incoming c' = ct_incoming c" "ct_contacts c' = ct_contacts c"
    "ct_waits c' = ct_waits c" "ct_ready c' = ct_ready c" "ct_requests c' = ct_requests c" "ct_listens c' = ct_listens c" "ct_completed c' = ct_completed c"
  using assms by (auto simp: same_goroutines_def)

lemma wait_inv_same: "same_goroutines c c' \<Longrightarrow> wait_inv c \<Longrightarrow> wait_inv c'"
  by (simp add: wait_inv_def announced_def asked_def contacted_def same_goroutines_eqs)

lemma woken_too_late_same: "same_goroutines c c' \<Longrightarrow> woken_too_late c n fun r \<Longrightarrow> woken_too_late c' n fun r"
  by (simp add: woken_too_late_def same_goroutines_eqs)

definition Run_inv :: "bool \<Rightarrow> container \<times> run_pc \<Rightarrow> bool" where
  "Run_inv async s \<longleftrightarrow> wait_inv (fst s) \<and> (snd s = RunReturned \<longrightarrow> ct_listens (fst s)) \<and>
     (async \<longrightarrow> snd s \<in> {RunReset, RunReturned} \<longrightarrow> ct_runDone (fst s) = Some True)"

lemma container_step_keeps:
  assumes "container_step c c'"
  shows "(ct_listens c \<longrightarrow> ct_listens c') \<and> ct_runDone c' = ct_runDone c"
  using assms by cases (auto simp: container_defs split: option.split if_split_asm)

lemma Run_inv_step:
  assumes st: "Run_step async s t" and inv: "Run_inv async s"
  shows "Run_inv async t"
proof -
  have w: "wait_inv (fst t)"
    using Run_step_container [OF st] wait_inv_step wait_inv_same inv by (auto simp: Run_inv_def)
  show ?thesis
    using st
  proof cases
    case (goroutine c c' p)
    then show ?thesis using inv w container_step_keeps by (auto simp: Run_inv_def)
  next
    case (calls_Done c c' p)
    then show ?thesis using inv w by (auto simp: Run_inv_def container_Done_def split: option.split_asm bool.split_asm)
  next
    case (reset c)
    then show ?thesis using inv w wait_invD(8) [of c] by (auto simp: Run_inv_def Reset_def handle_reset_def)
  qed (use inv in \<open>auto simp: Run_inv_def\<close>)
qed

interpretation runs: step_invariant "Run_step async" "Run_inv async" for async
  by unfold_locales (rule Run_inv_step)

text \<open>
  A function that has run in a new container has called \<open>wait\<close>, or \<open>Run\<close> does not return: only the goroutine started by the first \<open>wait\<close> receives a
  reset. \<open>RunAsync\<close> returns only after a call of \<open>Done\<close>.
\<close>

theorem Run_returns_only_after_wait:
  assumes "Run_run async (New_container, RunBody) (c, RunReturned)"
  shows "ct_listens c \<and> (async \<longrightarrow> ct_runDone c = Some True)"
proof -
  have "Run_inv async (New_container, RunBody)" by (simp add: Run_inv_def wait_inv_New)
  from runs.run_inv [OF assms this] show ?thesis by (auto simp: Run_inv_def)
qed

text \<open>A container that wakes a call too late never resets, and \<open>Run\<close> never returns.\<close>

definition run_stuck :: "nat \<Rightarrow> bytes \<Rightarrow> nat \<Rightarrow> container \<times> run_pc \<Rightarrow> bool" where
  "run_stuck n fun r s \<longleftrightarrow> woken_too_late (fst s) n fun r \<and> snd s \<noteq> RunReturned"

lemma run_stuck_step:
  assumes "Run_step async s t" and "run_stuck n fun r s"
  shows "run_stuck n fun r t"
proof -
  have "woken_too_late (fst t) n fun r"
    using Run_step_container [OF assms(1)] woken_too_late_step woken_too_late_same assms(2) by (auto simp: run_stuck_def)
  moreover have "snd t \<noteq> RunReturned"
    using assms(1) by cases (use assms(2) in \<open>auto simp: run_stuck_def woken_too_late_def Reset_def\<close>)
  ultimately show ?thesis by (simp add: run_stuck_def)
qed

interpretation stuck_runs: step_invariant "Run_step async" "run_stuck n fun r" for async n "fun" r
  by unfold_locales (rule run_stuck_step)

section \<open>Two containers\<close>

datatype node = Alpha | Bravo

fun other :: "node \<Rightarrow> node" where
  "other Alpha = Bravo"
| "other Bravo = Alpha"

lemma other_simps [simp]: "other (other x) = x" "other x \<noteq> x" "x \<noteq> other x"
  by (cases x; simp)+

lemma other_iff: "y = x \<or> y = other x"
  by (cases x; cases y) simp_all

text \<open>
  Two containers, each with the function that it runs; for every call of \<open>wait\<close> the function it waits for, and the request that its connection has
  become at the other container.
\<close>

record sync_pair =
  sp_at :: "node \<Rightarrow> container \<times> run_pc"
  sp_dst :: "node \<Rightarrow> nat \<rightharpoonup> bytes"
  sp_link :: "node \<Rightarrow> nat \<rightharpoonup> nat"

definition New_pair :: sync_pair where
  "New_pair = \<lparr>sp_at = (\<lambda>x. (New_container, RunBody)), sp_dst = (\<lambda>x. Map.empty), sp_link = (\<lambda>x. Map.empty)\<rparr>"

abbreviation cont :: "sync_pair \<Rightarrow> node \<Rightarrow> container" where
  "cont s x \<equiv> fst (sp_at s x)"

abbreviation set_cont :: "node \<Rightarrow> container \<Rightarrow> sync_pair \<Rightarrow> sync_pair" where
  "set_cont x c s \<equiv> s\<lparr>sp_at := (sp_at s)(x := (c, snd (sp_at s x)))\<rparr>"

text \<open>A step of one container that neither starts a call nor gets something from the other one.\<close>

definition no_message :: "container \<Rightarrow> container \<Rightarrow> bool" where
  "no_message c c' \<longleftrightarrow>
     dom (ct_incoming c') = dom (ct_incoming c) \<and> dom (ct_calls c') = dom (ct_calls c) \<and>
     (\<forall>n. ct_contacts c' n = Some ContactSend \<longrightarrow> ct_contacts c n = Some ContactSend)"

text \<open>
  A request is one write of the name, and one read of at most 256 bytes at the other container; an answer is the byte that it writes.
\<close>

inductive sync_step :: "(node \<Rightarrow> string) \<Rightarrow> bool \<Rightarrow> sync_pair \<Rightarrow> sync_pair \<Rightarrow> bool" for host :: "node \<Rightarrow> string" and async :: bool where
  own_step: "Run_step async (sp_at s x) t \<Longrightarrow> no_message (cont s x) (fst t) \<Longrightarrow> sync_step host async s (s\<lparr>sp_at := (sp_at s)(x := t)\<rparr>)"
| calls_wait: "ct_calls (cont s x) n = None \<Longrightarrow>
    start_wait (container_Addr (host x)) (container_Addr (host (other x))) src n (cont s x) = Return c' \<Longrightarrow>
    sync_step host async s ((set_cont x c' s)\<lparr>sp_dst := (sp_dst s)(x := (sp_dst s x)(n \<mapsto> dst))\<rparr>)"
| requests: "ct_contacts (cont s x) n = Some Contacting \<Longrightarrow> sp_link s x n = None \<Longrightarrow> sp_dst s x n = Some dst \<Longrightarrow> dst \<noteq> [] \<Longrightarrow>
    ct_incoming (cont s (other x)) r = None \<Longrightarrow> incoming_fun (take 256 dst, None) = Return (Some fun) \<Longrightarrow>
    sync_step host async s
      ((set_cont (other x) ((cont s (other x))\<lparr>ct_incoming := (ct_incoming (cont s (other x)))(r \<mapsto> IncomingSend fun)\<rparr>) s)
        \<lparr>sp_link := (sp_link s)(x := (sp_link s x)(n \<mapsto> r))\<rparr>)"
| reads_answer: "ct_contacts (cont s x) n = Some Contacting \<Longrightarrow> sp_link s x n = Some r \<Longrightarrow>
    ct_incoming (cont s (other x)) r = Some (IncomingDone fun) \<Longrightarrow> handleOutgoing None ([ReadyByte], None) = Return () \<Longrightarrow>
    sync_step host async s (set_cont x (set_contact n ContactSend (cont s x)) s)"

primrec inc_fun :: "incoming_pc \<Rightarrow> bytes" where
  "inc_fun (IncomingSend f) = f"
| "inc_fun (IncomingReady f) = f"
| "inc_fun (IncomingAnswer f) = f"
| "inc_fun (IncomingDone f) = f"

lemma step_incoming:
  assumes st: "container_step c c'" and inv: "wait_inv c" and r: "ct_incoming c r = Some i"
  shows "\<exists>i'. ct_incoming c' r = Some i' \<and> inc_fun i' = inc_fun i \<and> (i = IncomingDone f \<longrightarrow> i' = i)"
  using st
proof cases
  case (wait_ready n src)
  then show ?thesis using r wait_invD(3) [OF inv, of src] by (auto simp: handle_ready_def answer_def Let_def split: option.split)
next
  case (wait_requested n g k src)
  then show ?thesis using r wait_invD(4) [OF inv] by (fastforce simp: handle_waked_def finish_request_def answer_def)
next
  case (incoming_request k g)
  then show ?thesis using r by (auto simp: handle_request_def finish_request_def answer_def split: option.split)
qed (use r in \<open>auto simp: handle_reset_def handle_wait_def start_wait_def Let_def split: if_split_asm\<close>)

lemma step_contacts:
  assumes st: "container_step c c'" and inv: "wait_inv c"
  shows "ct_contacts c n \<noteq> None \<longrightarrow> ct_contacts c' n \<noteq> None"
    and "ct_contacts c' n = Some ContactEnded \<longrightarrow> ct_contacts c n = Some ContactEnded \<or> ct_contacts c n = Some ContactSend"
  using st by (cases; auto simp: container_defs split: option.split if_split_asm)+


text \<open>What holds of the calls of one container and the requests that they make of the other one.\<close>

definition linked :: "container \<Rightarrow> container \<Rightarrow> (nat \<rightharpoonup> bytes) \<Rightarrow> (nat \<rightharpoonup> nat) \<Rightarrow> bool" where
  "linked c d dst link \<longleftrightarrow>
     (\<forall>n. dst n \<noteq> None \<longrightarrow> ct_calls c n \<noteq> None) \<and>
     (\<forall>r i. ct_incoming d r = Some i \<longrightarrow> (\<exists>n f. link n = Some r \<and> dst n = Some f \<and> take 256 f = inc_fun i)) \<and>
     (\<forall>n r. link n = Some r \<longrightarrow>
        (\<exists>f i. dst n = Some f \<and> ct_incoming d r = Some i \<and> inc_fun i = take 256 f \<and> ct_contacts c n \<noteq> None)) \<and>
     (\<forall>n. ct_contacts c n = Some ContactSend \<or> ct_contacts c n = Some ContactEnded \<longrightarrow>
        (\<exists>r f. link n = Some r \<and> ct_incoming d r = Some (IncomingDone f)))"

lemma linkedD:
  assumes "linked c d dst link"
  shows "dst n \<noteq> None \<Longrightarrow> ct_calls c n \<noteq> None"
    and "ct_incoming d r = Some i \<Longrightarrow> \<exists>n f. link n = Some r \<and> dst n = Some f \<and> take 256 f = inc_fun i"
    and "link n = Some r \<Longrightarrow> \<exists>f i. dst n = Some f \<and> ct_incoming d r = Some i \<and> inc_fun i = take 256 f \<and> ct_contacts c n \<noteq> None"
    and "ct_contacts c n = Some ContactSend \<or> ct_contacts c n = Some ContactEnded \<Longrightarrow>
      \<exists>r f. link n = Some r \<and> ct_incoming d r = Some (IncomingDone f)"
  using assms unfolding linked_def by blast+

lemma linked_own:
  assumes "linked c d dst link" and "wait_inv c" and "container_step c c' \<or> same_goroutines c c'" and "no_message c c'"
  shows "linked c' d dst link"
proof (cases "same_goroutines c c'")
  case True
  then show ?thesis using assms(1) by (simp add: linked_def same_goroutines_eqs)
next
  case False
  then have st: "container_step c c'" using assms(3) by blast
  have "ct_calls c' n \<noteq> None \<longleftrightarrow> ct_calls c n \<noteq> None" for n using assms(4) unfolding no_message_def by (metis domIff)
  moreover have "ct_contacts c' n = Some ContactSend \<longrightarrow> ct_contacts c n = Some ContactSend" for n using assms(4) by (simp add: no_message_def)
  ultimately show ?thesis using assms(1) step_contacts [OF st assms(2)] unfolding linked_def by meson
qed

lemma linked_other:
  assumes "linked c d dst link" and "wait_inv d" and "container_step d d' \<or> same_goroutines d d'" and "no_message d d'"
  shows "linked c d' dst link"
proof (cases "same_goroutines d d'")
  case True
  then show ?thesis using assms(1) by (simp add: linked_def same_goroutines_eqs)
next
  case False
  then have st: "container_step d d'" using assms(3) by blast
  have dom: "ct_incoming d' r \<noteq> None \<longleftrightarrow> ct_incoming d r \<noteq> None" for r using assms(4) unfolding no_message_def by (metis domIff)
  note inc = step_incoming [OF st assms(2)]
  have old: "\<exists>i. ct_incoming d r = Some i \<and> inc_fun i = inc_fun i'" if "ct_incoming d' r = Some i'" for r i'
    using dom [of r] inc [of r] that by fastforce
  have 2: "\<exists>n f. link n = Some r \<and> dst n = Some f \<and> take 256 f = inc_fun i" if "ct_incoming d' r = Some i" for r i
    using old [OF that] assms(1) unfolding linked_def by metis
  have 3: "\<exists>f i. dst n = Some f \<and> ct_incoming d' r = Some i \<and> inc_fun i = take 256 f \<and> ct_contacts c n \<noteq> None" if "link n = Some r" for n r
  proof -
    obtain f i where "dst n = Some f" "ct_incoming d r = Some i" "inc_fun i = take 256 f" "ct_contacts c n \<noteq> None"
      using assms(1) \<open>link n = Some r\<close> unfolding linked_def by blast
    then show ?thesis using inc [of r i] by metis
  qed
  have 4: "\<exists>r f. link n = Some r \<and> ct_incoming d' r = Some (IncomingDone f)"
    if p: "ct_contacts c n = Some ContactSend \<or> ct_contacts c n = Some ContactEnded" for n
  proof -
    obtain r f where "link n = Some r" "ct_incoming d r = Some (IncomingDone f)" using linkedD(4) [OF assms(1) p] by blast
    then show ?thesis using inc [of r "IncomingDone f" f] by auto
  qed
  show ?thesis using assms(1) 2 3 4 unfolding linked_def by blast
qed

lemma linked_request:
  assumes "linked c d dst link" and "ct_contacts c n = Some Contacting" and "link n = None" and "dst n = Some f" and "ct_incoming d r = None"
  shows "linked c (d\<lparr>ct_incoming := (ct_incoming d)(r \<mapsto> IncomingSend (take 256 f))\<rparr>) dst (link(n \<mapsto> r))"
proof -
  let ?d = "d\<lparr>ct_incoming := (ct_incoming d)(r \<mapsto> IncomingSend (take 256 f))\<rparr>" and ?l = "link(n \<mapsto> r)"
  have 2: "\<exists>n f. ?l n = Some k \<and> dst n = Some f \<and> take 256 f = inc_fun i" if p: "ct_incoming ?d k = Some i" for k i
  proof (cases "k = r")
    case True
    then show ?thesis using p assms(4) by (auto intro!: exI [of _ n])
  next
    case False
    then have "ct_incoming d k = Some i" using p by simp
    then obtain m g where m: "link m = Some k" "dst m = Some g" "take 256 g = inc_fun i" using linkedD(2) [OF assms(1)] by blast
    with assms(3) have "m \<noteq> n" by auto
    with m show ?thesis by (auto intro!: exI [of _ m])
  qed
  have 3: "\<exists>f i. dst m = Some f \<and> ct_incoming ?d k = Some i \<and> inc_fun i = take 256 f \<and> ct_contacts c m \<noteq> None" if p: "?l m = Some k" for m k
  proof (cases "m = n")
    case True
    then show ?thesis using p assms(2,4) by auto
  next
    case False
    then have "link m = Some k" using p by simp
    then obtain g i where i: "dst m = Some g" "ct_incoming d k = Some i" "inc_fun i = take 256 g" "ct_contacts c m \<noteq> None"
      using linkedD(3) [OF assms(1)] by blast
    with assms(5) have "k \<noteq> r" by auto
    with i show ?thesis by auto
  qed
  have 4: "\<exists>r f. ?l m = Some r \<and> ct_incoming ?d r = Some (IncomingDone f)"
    if p: "ct_contacts c m = Some ContactSend \<or> ct_contacts c m = Some ContactEnded" for m
  proof -
    obtain k g where k: "link m = Some k" "ct_incoming d k = Some (IncomingDone g)" using linkedD(4) [OF assms(1) p] by blast
    moreover have "m \<noteq> n" using p assms(2) by auto
    moreover have "k \<noteq> r" using k(2) assms(5) by auto
    ultimately show ?thesis by auto
  qed
  show ?thesis using assms(1) 2 3 4 unfolding linked_def by blast
qed

lemma linked_answer:
  assumes "linked c d dst link" and "link n = Some r" and "ct_incoming d r = Some (IncomingDone f)"
  shows "linked (set_contact n ContactSend c) d dst link"
proof -
  have "\<exists>r f. link m = Some r \<and> ct_incoming d r = Some (IncomingDone f)"
    if "ct_contacts (set_contact n ContactSend c) m \<in> {Some ContactSend, Some ContactEnded}" for m
    using that linkedD(4) [OF assms(1), of m] assms(2,3) by (cases "m = n") auto
  moreover have "ct_contacts (set_contact n ContactSend c) m \<noteq> None" if "ct_contacts c m \<noteq> None" for m using that by simp
  ultimately show ?thesis using linkedD(1-3) [OF assms(1)] unfolding linked_def by simp blast
qed

definition pair_inv :: "sync_pair \<Rightarrow> bool" where
  "pair_inv s \<longleftrightarrow> (\<forall>x. wait_inv (cont s x) \<and> linked (cont s x) (cont s (other x)) (sp_dst s x) (sp_link s x))"

lemma pair_step_at:
  assumes "sync_step host async s t"
  shows "sp_at t y = sp_at s y \<or> Run_step async (sp_at s y) (sp_at t y)"
  using assms
proof cases
  case (own_step x u)
  then show ?thesis by (cases "y = x") simp_all
next
  case (calls_wait x n src c' dst)
  then show ?thesis using goroutine [OF wait_call [OF calls_wait(2,3)], of async "snd (sp_at s x)"] by (cases "y = x") simp_all
next
  case (requests x n dst r f)
  then show ?thesis using goroutine [OF incoming [OF requests(6,7)], of async "snd (sp_at s (other x))"] by (cases "y = other x") simp_all
next
  case (reads_answer x n r f)
  then show ?thesis using goroutine [OF contact_answered [OF reads_answer(2,5)], of async "snd (sp_at s x)"] by (cases "y = x") simp_all
qed

lemma pair_wait_inv_step:
  assumes "sync_step host async s t" and "pair_inv s"
  shows "wait_inv (cont t y)"
  using pair_step_at [OF assms(1), of y] Run_step_container wait_inv_step wait_inv_same assms(2) unfolding pair_inv_def by metis

lemma pair_linked_step:
  assumes st: "sync_step host async s t" and inv: "pair_inv s"
  shows "linked (cont t y) (cont t (other y)) (sp_dst t y) (sp_link t y)"
proof -
  have w: "wait_inv (cont s x)" and l: "linked (cont s x) (cont s (other x)) (sp_dst s x) (sp_link s x)" for x
    using inv by (simp_all add: pair_inv_def)
  show ?thesis
    using st
  proof cases
    case (own_step x u)
    note ru = Run_step_container [OF own_step(2)]
    show ?thesis
    proof (cases "y = x")
      case True
      then show ?thesis using own_step linked_own [OF l [of x] w ru own_step(3)] by simp
    next
      case False
      then have "x = other y" using other_iff by metis
      then show ?thesis using own_step linked_other [OF l [of y] w, of "fst u"] ru by simp
    qed
  next
    case (calls_wait x n src c' dst)
    have c': "ct_incoming c' = ct_incoming (cont s x)" "ct_contacts c' = ct_contacts (cont s x)"
      "ct_calls c' = (ct_calls (cont s x))(n \<mapsto> (src, WaitReady))"
      using calls_wait(3) by (auto simp: start_wait_def Let_def split: if_split_asm)
    show ?thesis
    proof (cases "y = x")
      case True
      have "sp_dst s x n = None" using l [of x] calls_wait(2) unfolding linked_def by blast
      then show ?thesis using True calls_wait(1) l [of x] c' unfolding linked_def by (auto; fastforce)
    next
      case False
      then have "x = other y" using other_iff by metis
      then show ?thesis using calls_wait(1) l [of y] c' by (simp add: linked_def)
    qed
  next
    case (requests x n dst r f)
    have f: "f = take 256 dst" using requests(7) by (auto simp: incoming_fun_def)
    show ?thesis
    proof (cases "y = x")
      case True
      then show ?thesis using requests(1) linked_request [OF l [of x] requests(2-4,6)] f by simp
    next
      case False
      then have "y = other x" using other_iff by metis
      then show ?thesis using requests(1) l [of y] by (simp add: linked_def)
    qed
  next
    case (reads_answer x n r f)
    show ?thesis
    proof (cases "y = x")
      case True
      then show ?thesis using reads_answer(1) linked_answer [OF l [of x] reads_answer(3,4)] by simp
    next
      case False
      then have "x = other y" using other_iff by metis
      then show ?thesis using reads_answer(1) l [of y] by (simp add: linked_def)
    qed
  qed
qed

interpretation pairs: step_invariant "sync_step host async" pair_inv for host async
  by unfold_locales (use pair_wait_inv_step pair_linked_step in \<open>simp add: pair_inv_def\<close>)


lemma New_pair_inv: "pair_inv New_pair"
  by (simp add: pair_inv_def New_pair_def wait_inv_New) (simp add: linked_def New_container_def)

text \<open>Every call is one of \<open>Sync\<close>, in a function with a name of at most 256 bytes.\<close>

definition only_Sync :: "sync_pair \<Rightarrow> bool" where
  "only_Sync s \<longleftrightarrow> (\<forall>x n src w. ct_calls (cont s x) n = Some (src, w) \<longrightarrow> sp_dst s x n = Some src \<and> length src \<le> 256)"

text \<open>
  C37. \<open>Sync\<close> is a rendezvous. In every run of two new containers over a network that does not fail, with any interleaving of their goroutines, with
  resets and calls at any time, all of them calls of \<open>Sync\<close> in functions with names of at most 256 bytes: a call of one container that has returned
  means that the other container has called \<open>Sync\<close> in the same function and announced it.
\<close>

theorem Sync_is_rendezvous:
  assumes "(sync_step host async)\<^sup>*\<^sup>* New_pair s" and "only_Sync s" and "ct_calls (cont s x) n = Some (src, WaitReturned)"
  shows "\<exists>m w. ct_calls (cont s (other x)) m = Some (src, w) \<and> w \<noteq> WaitReady"
proof -
  have inv: "wait_inv (cont s y)" "linked (cont s y) (cont s (other y)) (sp_dst s y) (sp_link s y)" for y
    using pairs.run_inv [OF assms(1) New_pair_inv] by (simp_all add: pair_inv_def)
  have src: "sp_dst s x n = Some src" "length src \<le> 256" using assms(2,3) by (auto simp: only_Sync_def)
  from wait_invD(7) [OF inv(1) assms(3)] consider "contacted (cont s x) n" | "asked (cont s x) src" by blast
  then show ?thesis
  proof cases
    case 1
    then obtain r f where r: "sp_link s x n = Some r" "ct_incoming (cont s (other x)) r = Some (IncomingDone f)"
      using linkedD(4) [OF inv(2) [of x], of n] by (auto simp: contacted_def)
    then have "f = src" using linkedD(3) [OF inv(2) r(1)] src by auto
    then show ?thesis using wait_invD(2) [OF inv(1) [of "other x"], of r src] r(2) by (auto simp: announced_def)
  next
    case 2
    then obtain r i where r: "ct_incoming (cont s x) r = Some i" "inc_fun i = src" by (auto simp: asked_def)
    then obtain m f where m: "sp_link s (other x) m = Some r" "sp_dst s (other x) m = Some f" "take 256 f = src"
      using linkedD(2) [OF inv(2) [of "other x"]] by fastforce
    then obtain p where "ct_contacts (cont s (other x)) m = Some p" using linkedD(3) [OF inv(2) m(1)] by blast
    then obtain g w where g: "ct_calls (cont s (other x)) m = Some (g, w)" "w \<noteq> WaitReady"
      using wait_invD(6) [OF inv(1)] by blast
    then have "g = f" "length f \<le> 256" using assms(2) m(2) by (fastforce simp: only_Sync_def)+
    then show ?thesis using g m(3) by auto
  qed
qed


section \<open>The deadlock in a rendezvous\<close>

lemma sp_swap: "s\<lparr>sp_dst := d, sp_at := a\<rparr> = s\<lparr>sp_at := a, sp_dst := d\<rparr>"
  by (cases s) simp

lemma own_goroutine:
  assumes "container_step (cont s x) c" and "no_message (cont s x) c"
  shows "sync_step host async s (set_cont x c s)"
  using own_step [of async s x "(c, snd (sp_at s x))"] goroutine [OF assms(1), of async "snd (sp_at s x)"] assms(2) by simp

definition waiting :: "bytes \<Rightarrow> wait_pc \<Rightarrow> contact_pc \<Rightarrow> container" where
  "waiting f w p = New_container\<lparr>ct_listens := True, ct_handler := HandleSelect, ct_ready := {f}, ct_waits := [f \<mapsto> 0],
     ct_calls := [0 \<mapsto> (f, w)], ct_contacts := [0 \<mapsto> p]\<rparr>"

lemma announces:
  assumes "cont s x = New_container" and "container_Addr (host x) \<noteq> container_Addr (host (other x))"
  shows "(sync_step host async)\<^sup>*\<^sup>* s ((set_cont x (waiting f WaitSelect Contacting) s)\<lparr>sp_dst := (sp_dst s)(x := (sp_dst s x)(0 \<mapsto> f))\<rparr>)"
proof -
  let ?put = "\<lambda>c. (set_cont x c s)\<lparr>sp_dst := (sp_dst s)(x := (sp_dst s x)(0 \<mapsto> f))\<rparr>"
  let ?P = "(sync_step host async)\<^sup>*\<^sup>*"
  let ?call = "\<lambda>h w. New_container\<lparr>ct_listens := True, ct_handler := h, ct_calls := [0 \<mapsto> (f, w)]\<rparr>"
  have go: "?P s (?put d)" if "?P s (?put c)" "container_step c d" "no_message c d" for c d
    using that(1) own_goroutine [of "?put c" x d host async] that(2,3) by (simp add: sp_swap rtranclp.rtrancl_into_rtrancl)
  have "sync_step host async s (?put (?call HandleListen WaitReady))"
    using calls_wait [of s x 0 host f "?call HandleListen WaitReady" async f] assms by (simp add: New_container_def start_wait_def)
  then have "?P s (?put (?call HandleListen WaitReady))" by blast
  moreover have "container_step (?call HandleListen WaitReady) (?call HandleSelect WaitReady)"
    using listens [of "?call HandleListen WaitReady"] by (simp add: New_container_def)
  ultimately have "?P s (?put (?call HandleSelect WaitReady))" by (rule go) (simp add: no_message_def New_container_def)
  moreover have "container_step (?call HandleSelect WaitReady) (?call HandleSelect WaitRegister\<lparr>ct_ready := {f}\<rparr>)"
    using wait_ready [of "?call HandleSelect WaitReady" 0 f] by (simp add: New_container_def handle_ready_def)
  ultimately have "?P s (?put (?call HandleSelect WaitRegister\<lparr>ct_ready := {f}\<rparr>))" by (rule go) (simp add: no_message_def New_container_def)
  moreover have "container_step (?call HandleSelect WaitRegister\<lparr>ct_ready := {f}\<rparr>) (waiting f WaitSelect Dialling)"
    using wait_register [of "?call HandleSelect WaitRegister\<lparr>ct_ready := {f}\<rparr>" 0 f] by (simp add: New_container_def handle_wait_def waiting_def)
  ultimately have "?P s (?put (waiting f WaitSelect Dialling))" by (rule go) (simp add: no_message_def New_container_def waiting_def)
  moreover have "container_step (waiting f WaitSelect Dialling) (waiting f WaitSelect Contacting)"
    using contact_dials [of "waiting f WaitSelect Dialling" 0 f] by (simp add: New_container_def waiting_def)
  ultimately have "?P s (?put (waiting f WaitSelect Contacting))" by (rule go) (simp add: no_message_def New_container_def waiting_def)
  then show ?thesis by simp
qed


lemma case_node_upd [simp]: "(case_node a b)(Alpha := c) = case_node c b" "(case_node a b)(Bravo := c) = case_node a c"
  by (rule ext, simp split: node.split)+

lemma node_fun: "g(Alpha := a, Bravo := b) = case_node a b" "(case_node a a) = (\<lambda>x. a)"
  by (rule ext, simp split: node.split)+

text \<open>Two containers in a rendezvous for \<open>f\<close>, in the functions that they run.\<close>

definition meeting :: "bytes \<Rightarrow> container \<Rightarrow> container \<Rightarrow> (nat \<rightharpoonup> nat) \<Rightarrow> (nat \<rightharpoonup> nat) \<Rightarrow> sync_pair" where
  "meeting f c d l k = \<lparr>sp_at = case_node (c, RunBody) (d, RunBody), sp_dst = (\<lambda>x. [0 \<mapsto> f]), sp_link = case_node l k\<rparr>"

abbreviation distinct_hosts :: "(node \<Rightarrow> string) \<Rightarrow> bool" where
  "distinct_hosts host \<equiv> container_Addr (host Alpha) \<noteq> container_Addr (host Bravo)"

lemma both_announce:
  assumes "distinct_hosts host"
  shows "(sync_step host async)\<^sup>*\<^sup>* New_pair
    (meeting f (waiting f WaitSelect Contacting) (waiting f WaitSelect Contacting) Map.empty Map.empty)"
proof -
  let ?w = "waiting f WaitSelect Contacting"
  define s where "s = \<lparr>sp_at = case_node (?w, RunBody) (New_container, RunBody), sp_dst = case_node [0 \<mapsto> f] Map.empty, sp_link = (\<lambda>x. Map.empty)\<rparr>"
  have new: "New_pair = \<lparr>sp_at = case_node (New_container, RunBody) (New_container, RunBody), sp_dst = case_node Map.empty Map.empty, sp_link = (\<lambda>x. Map.empty)\<rparr>"
    by (simp add: New_pair_def node_fun)
  have "(sync_step host async)\<^sup>*\<^sup>* New_pair s"
    using announces [of New_pair Alpha host async f] assms by (simp add: new s_def)
  also have "(sync_step host async)\<^sup>*\<^sup>* s (meeting f ?w ?w Map.empty Map.empty)"
    using announces [of s Bravo host async f] assms by (simp add: s_def meeting_def node_fun)
  finally show ?thesis .
qed

lemma meeting_alpha:
  assumes "container_step c c'" and "no_message c c'"
  shows "sync_step host async (meeting f c d l k) (meeting f c' d l k)"
  using own_goroutine [of "meeting f c d l k" Alpha c' host async] assms by (simp add: meeting_def)

lemma meeting_bravo:
  assumes "container_step d d'" and "no_message d d'"
  shows "sync_step host async (meeting f c d l k) (meeting f c d' l k)"
  using own_goroutine [of "meeting f c d l k" Bravo d' host async] assms by (simp add: meeting_def)

text \<open>Bravo is asked by Alpha, is woken and answers; then both calls return, and Alpha stays registered.\<close>

definition answered :: "bytes \<Rightarrow> wait_pc \<Rightarrow> incoming_pc \<Rightarrow> container" where
  "answered f w i = (waiting f w Contacting)\<lparr>ct_waits := Map.empty, ct_incoming := [0 \<mapsto> i], ct_completed := {f}\<rparr>"

lemma both_return:
  assumes "distinct_hosts host" and "length f \<le> 256" and "f \<noteq> []"
  shows "(sync_step host async)\<^sup>*\<^sup>* New_pair
    (meeting f (waiting f WaitReturned ContactEnded) (answered f WaitReturned (IncomingDone f)) [0 \<mapsto> 0] Map.empty)"
proof -
  let ?P = "sync_step host async"
  let ?w = "waiting f WaitSelect Contacting"
  let ?m = "\<lambda>c d. meeting f c d [0 \<mapsto> 0] Map.empty"
  let ?d1 = "?w\<lparr>ct_incoming := [0 \<mapsto> IncomingSend f]\<rparr>"
  let ?d2 = "?w\<lparr>ct_incoming := [0 \<mapsto> IncomingReady f], ct_handler := HandleWake 0 f 0\<rparr>"
  note st = waiting_def answered_def New_container_def no_message_def
  have "?P\<^sup>*\<^sup>* New_pair (meeting f ?w ?w Map.empty Map.empty)" by (rule both_announce [OF assms(1)])
  also have "?P (meeting f ?w ?w Map.empty Map.empty) (?m ?w ?d1)"
    using requests [of "meeting f ?w ?w Map.empty Map.empty" Alpha 0 f 0 f host async] assms(2,3)
    by (simp add: meeting_def st incoming_fun_def)
  also have "?P (?m ?w ?d1) (?m ?w ?d2)"
    using incoming_request [of ?d1 0 f] by (intro meeting_bravo) (simp_all add: st handle_request_def)
  also have "?P (?m ?w ?d2) (?m ?w (answered f WaitLeft (IncomingAnswer f)))"
    using wait_requested [of ?d2 0 f 0 f] by (intro meeting_bravo) (simp_all add: st handle_waked_def finish_request_def answer_def)
  also have "?P (?m ?w (answered f WaitLeft (IncomingAnswer f))) (?m ?w (answered f WaitLeft (IncomingDone f)))"
    using incoming_answers [of "answered f WaitLeft (IncomingAnswer f)" 0 f] by (intro meeting_bravo) (simp_all add: st)
  also have "?P (?m ?w (answered f WaitLeft (IncomingDone f))) (?m ?w (answered f WaitReturned (IncomingDone f)))"
    using wait_returns [of "answered f WaitLeft (IncomingDone f)" 0 f] by (intro meeting_bravo) (simp_all add: st)
  also have "?P (?m ?w (answered f WaitReturned (IncomingDone f))) (?m (waiting f WaitSelect ContactSend) (answered f WaitReturned (IncomingDone f)))"
    using reads_answer [of "?m ?w (answered f WaitReturned (IncomingDone f))" Alpha 0 0 f host async]
    by (simp add: meeting_def st handleOutgoing_def)
  also have "?P (?m (waiting f WaitSelect ContactSend) (answered f WaitReturned (IncomingDone f)))
      (?m (waiting f WaitLeft ContactEnded) (answered f WaitReturned (IncomingDone f)))"
    using wait_contacted [of "waiting f WaitSelect ContactSend" 0 f] by (intro meeting_alpha) (simp_all add: st)
  also have "?P (?m (waiting f WaitLeft ContactEnded) (answered f WaitReturned (IncomingDone f)))
      (?m (waiting f WaitReturned ContactEnded) (answered f WaitReturned (IncomingDone f)))"
    using wait_returns [of "waiting f WaitLeft ContactEnded" 0 f] by (intro meeting_alpha) (simp_all add: st)
  finally show ?thesis .
qed


definition pair_stuck :: "bytes \<Rightarrow> sync_pair \<Rightarrow> bool" where
  "pair_stuck f s \<longleftrightarrow> run_stuck 0 f 0 (sp_at s Alpha)"

interpretation stuck_pairs: step_invariant "sync_step host async" "pair_stuck f" for host async f
  by unfold_locales (unfold pair_stuck_def, metis pair_step_at run_stuck_step)

text \<open>
  A rendezvous can stop a container for good. Two new containers call \<open>Sync\<close> in the same function, nothing fails, and both calls return. The request
  of the second container, dialled before its own call was woken, then stops the first one, so that its \<open>Run\<close> never returns.
\<close>

theorem rendezvous_can_deadlock:
  assumes "container_Addr (host Alpha) \<noteq> container_Addr (host Bravo)" and "length f \<le> 256" and "f \<noteq> []"
  shows "\<exists>s. (sync_step host async)\<^sup>*\<^sup>* New_pair s \<and> only_Sync s \<and> (\<forall>x. \<exists>n. ct_calls (cont s x) n = Some (f, WaitReturned)) \<and>
    (\<forall>t. (sync_step host async)\<^sup>*\<^sup>* s t \<longrightarrow> snd (sp_at t Alpha) \<noteq> RunReturned)"
proof -
  let ?P = "sync_step host async"
  let ?c = "waiting f WaitReturned ContactEnded" and ?d = "answered f WaitReturned (IncomingDone f)"
  let ?c1 = "?c\<lparr>ct_incoming := [0 \<mapsto> IncomingSend f]\<rparr>"
  let ?c2 = "?c\<lparr>ct_incoming := [0 \<mapsto> IncomingReady f], ct_handler := HandleWake 0 f 0\<rparr>"
  let ?s = "meeting f ?c2 ?d [0 \<mapsto> 0] [0 \<mapsto> 0]"
  note st = waiting_def answered_def New_container_def no_message_def
  have "?P\<^sup>*\<^sup>* New_pair (meeting f ?c ?d [0 \<mapsto> 0] Map.empty)" by (rule both_return [OF assms])
  also have "?P (meeting f ?c ?d [0 \<mapsto> 0] Map.empty) (meeting f ?c1 ?d [0 \<mapsto> 0] [0 \<mapsto> 0])"
    using requests [of "meeting f ?c ?d [0 \<mapsto> 0] Map.empty" Bravo 0 f 0 f host async] assms(2,3)
    by (simp add: meeting_def st incoming_fun_def)
  also have "?P (meeting f ?c1 ?d [0 \<mapsto> 0] [0 \<mapsto> 0]) ?s"
    using incoming_request [of ?c1 0 f] by (intro meeting_alpha) (simp_all add: st handle_request_def)
  finally have run: "?P\<^sup>*\<^sup>* New_pair ?s" .
  have stuck: "pair_stuck f ?s" by (simp add: pair_stuck_def run_stuck_def woken_too_late_def meeting_def st)
  have "only_Sync ?s" using assms(2) by (auto simp: only_Sync_def meeting_def st split: node.split if_split_asm)
  moreover have "\<exists>n. ct_calls (cont ?s x) n = Some (f, WaitReturned)" for x
    by (rule exI [of _ 0]) (simp add: meeting_def st split: node.split)
  moreover have "snd (sp_at t Alpha) \<noteq> RunReturned" if "?P\<^sup>*\<^sup>* ?s t" for t
    using stuck_pairs.run_inv [OF that stuck] by (simp add: pair_stuck_def run_stuck_def)
  ultimately show ?thesis using run by blast
qed

theorem rendezvous_can_deadlock_witness:
  "\<exists>s. (sync_step (case_node ''alpha'' ''bravo'') False)\<^sup>*\<^sup>* New_pair s \<and> only_Sync s \<and>
     (\<forall>x. \<exists>n. ct_calls (cont s x) n = Some ([102], WaitReturned)) \<and>
     (\<forall>t. (sync_step (case_node ''alpha'' ''bravo'') False)\<^sup>*\<^sup>* s t \<longrightarrow> snd (sp_at t Alpha) \<noteq> RunReturned)"
  by (rule rendezvous_can_deadlock) (simp_all add: container_Addr_def JoinHostPort_def)

theorem Sync_is_rendezvous_witness:
  "\<exists>s. (sync_step (case_node ''alpha'' ''bravo'') False)\<^sup>*\<^sup>* New_pair s \<and> only_Sync s \<and>
     ct_calls (cont s Alpha) 0 = Some ([102], WaitReturned) \<and> (\<exists>m w. ct_calls (cont s Bravo) m = Some ([102], w) \<and> w \<noteq> WaitReady)"
proof -
  let ?s = "meeting [102] (waiting [102] WaitReturned ContactEnded) (answered [102] WaitReturned (IncomingDone [102])) [0 \<mapsto> 0] Map.empty"
  have run: "(sync_step (case_node ''alpha'' ''bravo'') False)\<^sup>*\<^sup>* New_pair ?s"
    by (rule both_return) (simp_all add: container_Addr_def JoinHostPort_def)
  have sync: "only_Sync ?s"
    by (auto simp: only_Sync_def meeting_def waiting_def answered_def New_container_def split: node.split_asm if_split_asm)
  have ret: "ct_calls (cont ?s Alpha) 0 = Some ([102], WaitReturned)" by (simp add: meeting_def waiting_def)
  from Sync_is_rendezvous [OF run sync ret] show ?thesis using run sync ret by auto
qed

end
