(* ===== verification/Local_Messages.thy ===== *)
theory Local_Messages
  imports Beacon Packet Device Sha256
begin

text \<open>
  The messages with which devices find each other on a local network: \<open>lib/local/request.go\<close>, \<open>response.go\<close>
  and of \<open>lib/local/client.go\<close> the making and checking of requests (\<open>request\<close>, \<open>verifyRequestMessage\<close>), the
  packets of the beacon and of incoming connections. HMAC and time are those of the standard
  library. The lemmas show that a fresh request is accepted, and what the check does not do.
\<close>

section \<open>Requests and responses\<close>

type_synonym RequestId = uint64

text \<open>The buffer has \<open>binary.MaxVarintLen64\<close> bytes, of which 8 are written.\<close>

definition RequestId_Bytes :: "RequestId \<Rightarrow> bytes" where
  "RequestId_Bytes rid = PutUint64 rid @ replicate (10 - 8) 0"

record Request =
  rq_Id :: RequestId
  rq_HandshakeMessage :: bytes

record Response =
  rs_RequestId :: RequestId
  rs_HandshakeMessage :: bytes

record RequestPayload =
  rp_RequestId :: uint64
  rp_EpochSeconds :: uint64
  rp_HandshakeMessage :: bytes

record RequestMessage =
  rm_Payload :: bytes
  rm_Mac :: bytes

datatype ConnectionType = ConnectionTypeInvalid | ConnectionTypeRequest | ConnectionTypeResponse | ConnectionTypeOther

datatype ResultType = ResultTypeInvalid | ResultTypeRefused | ResultTypeOk | ResultTypeOther

text \<open>Protobuf is a parameter.\<close>

record local_codec =
  Marshal_Header :: "ConnectionType \<Rightarrow> error + bytes"
  Unmarshal_Header :: "bytes \<Rightarrow> error + ConnectionType"
  Marshal_Payload :: "RequestPayload \<Rightarrow> error + bytes"
  Unmarshal_Payload :: "bytes \<Rightarrow> error + RequestPayload"
  Marshal_Request :: "RequestMessage \<Rightarrow> error + bytes"
  Unmarshal_Request :: "bytes \<Rightarrow> error + RequestMessage"
  Marshal_Response :: "Response \<Rightarrow> error + bytes"
  Unmarshal_Response :: "bytes \<Rightarrow> error + Response"
  Marshal_Hello :: "bytes \<Rightarrow> error + bytes"
  Unmarshal_Hello :: "bytes \<Rightarrow> error + bytes"
  Marshal_Result :: "ResultType \<Rightarrow> error + bytes"
  Unmarshal_Result :: "bytes \<Rightarrow> error + ResultType"

section \<open>Time\<close>

text \<open>
  A time is its seconds since the year 1, as an \<open>int64\<close>, and its nanoseconds. \<open>time.Unix\<close> adds the
  seconds from the year 1 to 1970, which may wrap around; \<open>Sub\<close> saturates.
\<close>

definition unixToInternal :: int where "unixToInternal = 62135596800"

definition time_Unix :: "uint64 \<Rightarrow> int" where
  "time_Unix s = sint (s + of_int unixToInternal)"

definition time_Since :: "int \<times> int \<Rightarrow> int \<Rightarrow> int" where
  "time_Since now t =
     (let d = (fst now - t) * 1000000000 + snd now in max (- 9223372036854775808) (min 9223372036854775807 d))"

definition RequestMaxAge :: int where
  "RequestMaxAge = 20 * 1000000000"

section \<open>Making and checking requests\<close>

text \<open>\<open>hash.Sum(p)\<close> appends the sum of what was written, which is nothing, to \<open>p\<close>.\<close>

definition request_mac :: "HMACKey \<Rightarrow> bytes \<Rightarrow> bytes" where
  "request_mac deviceKey p = p @ hmac_sha256 deviceKey []"

text \<open>The packet that \<open>request\<close> broadcasts, at \<open>seconds\<close> since 1970; the header is marshalled but not used.\<close>

definition request_packet :: "local_codec \<Rightarrow> int \<Rightarrow> HMACKey \<Rightarrow> Request \<Rightarrow> error + Packet" where
  "request_packet cd seconds deviceKey request =
     (case Marshal_Header cd ConnectionTypeRequest of
        Inl e \<Rightarrow> Inl e
      | Inr h \<Rightarrow>
          (case Marshal_Payload cd \<lparr>rp_RequestId = rq_Id request, rp_EpochSeconds = of_int seconds,
              rp_HandshakeMessage = rq_HandshakeMessage request\<rparr> of
             Inl e \<Rightarrow> Inl e
           | Inr p \<Rightarrow>
               (case Marshal_Request cd \<lparr>rm_Payload = p, rm_Mac = request_mac deviceKey p\<rparr> of
                  Inl e \<Rightarrow> Inl e
                | Inr r \<Rightarrow> Inr (Packet_New r))))"

definition verifyRequestMessage ::
  "local_codec \<Rightarrow> int \<times> int \<Rightarrow> HMACKey \<Rightarrow> RequestMessage \<Rightarrow> error + Request" where
  "verifyRequestMessage cd now deviceKey requestMessage =
     (let mac = request_mac deviceKey (rm_Payload requestMessage) in
      if mac \<noteq> rm_Mac requestMessage then Inl (ErrorString ''the device key was not used for this request message'')
      else case Unmarshal_Payload cd (rm_Payload requestMessage) of
          Inl e \<Rightarrow> Inl (ErrorString ''failed to parse payload'')
        | Inr payload \<Rightarrow>
            let age = time_Since now (time_Unix (rp_EpochSeconds payload)) in
            if RequestMaxAge < age then Inl (ErrorString ''request message is too old'')
            else Inr \<lparr>rq_Id = rp_RequestId payload, rq_HandshakeMessage = rp_HandshakeMessage payload\<rparr>)"

section \<open>Packets of the beacon\<close>

text \<open>
  The goroutine of \<open>outgoingBroadcastHandler\<close>: the packet is written to a buffer, and what is sent to each network
  is the content of the buffer.
\<close>

definition outgoing_broadcast :: "Packet \<Rightarrow> bytes option" where
  "outgoing_broadcast p =
     (case Packet_WriteTo bytes_Write p [] of
        Return (n, err, buf) \<Rightarrow>
          (if n \<noteq> Packet_Size p then None else if err \<noteq> None then None else Some buf)
      | _ \<Rightarrow> None)"

text \<open>The loop over the networks: the packets that the beacon takes. A failed write is logged and the loop goes on.\<close>

fun send_broadcast :: "bytes \<Rightarrow> Net list \<Rightarrow> outPacket list outcome" where
  "send_broadcast buf [] = Return []"
| "send_broadcast buf (nw # nets) =
     (if IsBroadcast nw \<and> To4 (n_IP nw) \<noteq> None
      then obind (beacon_Write True buf nw) (\<lambda>(e1, p).
        obind (send_broadcast buf nets) (\<lambda>ps. Return (case p of Some x \<Rightarrow> x # ps | None \<Rightarrow> ps)))
      else send_broadcast buf nets)"

text \<open>
  What the second goroutine of \<open>listenRequests\<close> does with a packet: the request and the connection that are handed to the
  handler, or nothing. \<open>udp\<close> says whether the address of the sender is a UDP address. A connection whose header cannot be written stays open.
\<close>

definition incoming_packet ::
  "local_codec \<Rightarrow> int \<times> int \<Rightarrow> HMACKey \<Rightarrow> bool \<Rightarrow> error + conn \<Rightarrow> bytes \<Rightarrow> (Request \<times> conn) option outcome" where
  "incoming_packet cd now deviceKey udp dial p =
     (case Unmarshal_Request cd p of
        Inl e \<Rightarrow> Return None
      | Inr requestMessage \<Rightarrow>
          (case verifyRequestMessage cd now deviceKey requestMessage of
             Inl e \<Rightarrow> Return None
           | Inr request \<Rightarrow>
               if \<not> udp then Return None
               else
                 (case dial of
                    Inl e \<Rightarrow> Return None
                  | Inr conn \<Rightarrow>
                      (case Marshal_Header cd ConnectionTypeResponse of
                         Inl e \<Rightarrow> Return None
                       | Inr header \<Rightarrow>
                           obind (Packet_WriteTo conn_Write (Packet_New header) conn) (\<lambda>(_, err, conn1).
                             if err \<noteq> None then Return None else Return (Some (request, conn1)))))))"

text \<open>Both goroutines, from the datagram on.\<close>

definition incoming_broadcast ::
  "local_codec \<Rightarrow> int \<times> int \<Rightarrow> HMACKey \<Rightarrow> bool \<Rightarrow> error + conn \<Rightarrow> bytes \<Rightarrow> (Request \<times> conn) option outcome" where
  "incoming_broadcast cd now deviceKey udp dial data =
     (case Packet_Decode data of
        Inl e \<Rightarrow> Return None
      | Inr p \<Rightarrow> incoming_packet cd now deviceKey udp dial p)"

text \<open>
  The goroutine of \<open>incomingUnicastHandler\<close> for one connection: the response that is handed to the broker, or
  nothing and the connection is closed. A request on such a connection is read and dropped, and
  the connection is closed.
\<close>

definition incoming_connection :: "local_codec \<Rightarrow> conn \<Rightarrow> (Response option \<times> conn) outcome" where
  "incoming_connection cd conn =
     obind (DecodeFrom conn_Read conn) (\<lambda>(headerPacket, e1, conn1).
       let closed = \<lambda>c. Return (None, snd (conn_Close c)) in
       if e1 \<noteq> None then closed conn1
       else case Unmarshal_Header cd headerPacket of
           Inl e \<Rightarrow> closed conn1
         | Inr connectionType \<Rightarrow>
             obind (DecodeFrom conn_Read conn1) (\<lambda>(contentPacket, e1, conn2).
               if e1 \<noteq> None then closed conn2
               else case connectionType of
                   ConnectionTypeRequest \<Rightarrow> closed conn2
                 | ConnectionTypeResponse \<Rightarrow>
                     (case Unmarshal_Response cd contentPacket of
                        Inl e \<Rightarrow> closed conn2
                      | Inr response \<Rightarrow> Return (Some response, conn2))
                 | _ \<Rightarrow> closed conn2))"

section \<open>Properties\<close>

definition local_codec_roundtrip :: "local_codec \<Rightarrow> bool" where
  "local_codec_roundtrip cd \<longleftrightarrow>
     (\<forall>p bs. Marshal_Payload cd p = Inr bs \<longrightarrow> Unmarshal_Payload cd bs = Inr p) \<and>
     (\<forall>r bs. Marshal_Request cd r = Inr bs \<longrightarrow> Unmarshal_Request cd bs = Inr r)"

lemma sint_word_of_int:
  assumes "- 9223372036854775808 \<le> x" and "x < 9223372036854775808"
  shows "sint (of_int x :: uint64) = x"
  using assms by (simp add: sint_sbintrunc' signed_take_bit_int_eq_self)

lemma time_Unix_now:
  assumes "- 9223372036854775808 \<le> s + unixToInternal" and "s + unixToInternal < 9223372036854775808"
  shows "time_Unix (of_int s) = s + unixToInternal"
  unfolding time_Unix_def using sint_word_of_int [OF assms] by simp

lemma datagram_answered:
  assumes "local_codec_roundtrip cd" and "request_packet cd seconds key request = Inr p" and "length p \<le> MaxLength"
    and "seconds + unixToInternal < 9223372036854775808" and "0 \<le> seconds"
    and now: "fst now * 1000000000 + snd now = (seconds + unixToInternal) * 1000000000 + sent + elapsed" and "0 \<le> sent + elapsed"
    and "Marshal_Header cd ConnectionTypeResponse = Inr header" and "Packet_WriteTo conn_Write header conn = Return (n, None, conn')"
  shows "incoming_broadcast cd now key True (Inr conn) (frame p) =
    Return (if sent + elapsed \<le> 20 * 1000000000 then Some (request, conn') else None)"
proof -
  let ?payload = "\<lparr>rp_RequestId = rq_Id request, rp_EpochSeconds = of_int seconds, rp_HandshakeMessage = rq_HandshakeMessage request\<rparr>"
  obtain pl where pl: "Marshal_Payload cd ?payload = Inr pl"
    and p: "Marshal_Request cd \<lparr>rm_Payload = pl, rm_Mac = request_mac key pl\<rparr> = Inr p"
    using assms(2) by (auto simp: request_packet_def Packet_New_def split: sum.split_asm)
  have dec: "Packet_Decode (frame p) = Inr p" using assms(3) by (simp add: Packet_Decode_iff)
  have un: "Unmarshal_Request cd p = Inr \<lparr>rm_Payload = pl, rm_Mac = request_mac key pl\<rparr>" "Unmarshal_Payload cd pl = Inr ?payload"
    using assms(1) pl p unfolding local_codec_roundtrip_def by blast+
  have "(fst now - (seconds + unixToInternal)) * 1000000000 + snd now = sent + elapsed" using now by (simp add: algebra_simps)
  then have "time_Since now (time_Unix (of_int seconds)) = min 9223372036854775807 (sent + elapsed)"
    using assms(4,5,7) time_Unix_now [of seconds] by (simp add: time_Since_def unixToInternal_def)
  then have ver: "verifyRequestMessage cd now key \<lparr>rm_Payload = pl, rm_Mac = request_mac key pl\<rparr> =
      (if sent + elapsed \<le> 20 * 1000000000 then Inr request else Inl (ErrorString ''request message is too old''))"
    using un(2) by (auto simp: verifyRequestMessage_def RequestMaxAge_def Let_def)
  show ?thesis
    using dec un(1) ver assms(8,9) by (simp add: incoming_broadcast_def incoming_packet_def Packet_New_def)
qed

text \<open>
  C31. What becomes of a request that a device broadcasts for another. It is made \<open>sent\<close> nanoseconds after the full second
  \<open>seconds\<close>, which is all that it tells of the time, and handled \<open>elapsed\<close> nanoseconds later by the same clock, at a device with the key it
  was made for to which the datagram has come unchanged. The handler gets exactly this request, and the sender the header, if and
  only if not more than 20 seconds have passed since that full second: always within 19 seconds, and never after more than 20.
\<close>

theorem broadcast_request_arrives:
  assumes "local_codec_roundtrip cd" and "request_packet cd seconds key request = Inr p" and "length p \<le> MaxLength"
    and "seconds + unixToInternal < 9223372036854775808" and "0 \<le> seconds"
    and "fst now * 1000000000 + snd now = (seconds + unixToInternal) * 1000000000 + sent + elapsed"
    and "0 \<le> sent" "sent < 1000000000" "0 \<le> elapsed"
    and "Marshal_Header cd ConnectionTypeResponse = Inr header" and "length header \<le> MaxLength" and "conn_healthy conn"
  shows "\<exists>datagram. outgoing_broadcast p = Some datagram \<and>
    (\<exists>conn'. c_out conn' = c_out conn @ frame header \<and>
      incoming_broadcast cd now key True (Inr conn) datagram =
        Return (if sent + elapsed \<le> 20 * 1000000000 then Some (request, conn') else None) \<and>
      (elapsed \<le> 19 * 1000000000 \<longrightarrow> incoming_broadcast cd now key True (Inr conn) datagram = Return (Some (request, conn'))) \<and>
      (20 * 1000000000 < elapsed \<longrightarrow> incoming_broadcast cd now key True (Inr conn) datagram = Return None))"
proof -
  have out: "outgoing_broadcast p = Some (frame p)"
    using bytes_sink.Packet_WriteTo_healthy [of p "[]"] assms(3) by (auto simp: outgoing_broadcast_def)
  obtain conn' where conn': "Packet_WriteTo conn_Write header conn = Return (Packet_Size header, None, conn')"
    "c_out conn' = c_out conn @ frame header"
    using net_sink.Packet_WriteTo_healthy [OF assms(12,11)] by blast
  have "0 \<le> sent + elapsed" using assms(7,9) by simp
  note * = datagram_answered [OF assms(1-6) this assms(10) conn'(1)]
  show ?thesis using out * conn'(2) assms(7,8) by auto
qed

text \<open>
  A codec for the witnesses: fixed widths for the numbers, the rest of the message for the last field, and one
  byte for the length of the payload of a request.
\<close>

definition plain_codec :: local_codec where
  "plain_codec = \<lparr>
     Marshal_Header = (\<lambda>t. Inr [case t of ConnectionTypeInvalid \<Rightarrow> 0 | ConnectionTypeRequest \<Rightarrow> 1 | ConnectionTypeResponse \<Rightarrow> 2 | _ \<Rightarrow> 3]),
     Unmarshal_Header = (\<lambda>bs. Inr (if bs = [0] then ConnectionTypeInvalid else if bs = [1] then ConnectionTypeRequest
       else if bs = [2] then ConnectionTypeResponse else ConnectionTypeOther)),
     Marshal_Payload = (\<lambda>p. Inr (PutUint64 (rp_RequestId p) @ PutUint64 (rp_EpochSeconds p) @ rp_HandshakeMessage p)),
     Unmarshal_Payload = (\<lambda>bs. Inr \<lparr>rp_RequestId = get_be (take 8 bs), rp_EpochSeconds = get_be (take 8 (drop 8 bs)),
       rp_HandshakeMessage = drop 16 bs\<rparr>),
     Marshal_Request = (\<lambda>r. if length (rm_Payload r) < 256 then Inr (of_nat (length (rm_Payload r)) # rm_Payload r @ rm_Mac r)
       else Inl (ErrorString ''too long'')),
     Unmarshal_Request = (\<lambda>bs. case bs of [] \<Rightarrow> Inl (ErrorString ''empty'')
       | n # rest \<Rightarrow> Inr \<lparr>rm_Payload = take (unat n) rest, rm_Mac = drop (unat n) rest\<rparr>),
     Marshal_Response = (\<lambda>r. Inr (PutUint64 (rs_RequestId r) @ rs_HandshakeMessage r)),
     Unmarshal_Response = (\<lambda>bs. Inr \<lparr>rs_RequestId = get_be (take 8 bs), rs_HandshakeMessage = drop 8 bs\<rparr>),
     Marshal_Hello = Inr, Unmarshal_Hello = Inr,
     Marshal_Result = (\<lambda>t. Inr [case t of ResultTypeInvalid \<Rightarrow> 0 | ResultTypeRefused \<Rightarrow> 1 | ResultTypeOk \<Rightarrow> 2 | _ \<Rightarrow> 3]),
     Unmarshal_Result = (\<lambda>bs. Inr (if bs = [0] then ResultTypeInvalid else if bs = [1] then ResultTypeRefused
       else if bs = [2] then ResultTypeOk else ResultTypeOther))\<rparr>"

lemma plain_codec_roundtrip: "local_codec_roundtrip plain_codec"
  by (auto simp: local_codec_roundtrip_def plain_codec_def take_bit_nat_eq_self unat_of_nat split: if_split_asm)

abbreviation idle_conn :: conn where
  "idle_conn \<equiv> \<lparr>c_in = [], c_end = IOError EOF, c_out = [], c_werr = None, c_closed = False\<rparr>"

theorem broadcast_request_arrives_witness:
  "\<exists>p datagram conn'. request_packet plain_codec 1700000000 [7] \<lparr>rq_Id = 1, rq_HandshakeMessage = [3]\<rparr> = Inr p \<and>
     outgoing_broadcast p = Some datagram \<and> c_out conn' = [] @ frame [2] \<and>
     incoming_broadcast plain_codec (1700000000 + unixToInternal + 5, 0) [7] True (Inr idle_conn) datagram =
       Return (Some (\<lparr>rq_Id = 1, rq_HandshakeMessage = [3]\<rparr>, conn'))"
proof -
  let ?request = "\<lparr>rq_Id = 1, rq_HandshakeMessage = [3]\<rparr>"
  obtain p where p: "request_packet plain_codec 1700000000 [7] ?request = Inr p" "length p \<le> MaxLength"
    by (simp add: request_packet_def plain_codec_def request_mac_def Packet_New_def packet_consts)
  have "Marshal_Header plain_codec ConnectionTypeResponse = Inr [2]" "conn_healthy idle_conn"
    by (simp_all add: plain_codec_def conn_healthy_def)
  then have "\<exists>datagram. outgoing_broadcast p = Some datagram \<and>
      (\<exists>conn'. c_out conn' = c_out idle_conn @ frame [2] \<and>
        incoming_broadcast plain_codec (1700000000 + unixToInternal + 5, 0) [7] True (Inr idle_conn) datagram =
          Return (Some (?request, conn')))"
    using broadcast_request_arrives [OF plain_codec_roundtrip p, where now = "(1700000000 + unixToInternal + 5, 0)" and sent = 0 and elapsed = 5000000000 and
        header = "[2]" and conn = idle_conn]
    by (simp add: unixToInternal_def packet_consts)
  then show ?thesis using p(1) by auto
qed

text \<open>
  C38. The code of a request does not depend on the payload: whoever has seen one request for a device
  can append the last 32 bytes of its code to any payload, and the device accepts this payload
  as one that was made with its key.
\<close>

theorem request_code_is_transferable:
  assumes "verifyRequestMessage cd now key seen = Inr request"
    and "Unmarshal_Payload cd forged = Inr payload" and "time_Since now' (time_Unix (rp_EpochSeconds payload)) \<le> RequestMaxAge"
  shows "verifyRequestMessage cd now' key \<lparr>rm_Payload = forged, rm_Mac = forged @ drop (length (rm_Payload seen)) (rm_Mac seen)\<rparr> =
    Inr \<lparr>rq_Id = rp_RequestId payload, rq_HandshakeMessage = rp_HandshakeMessage payload\<rparr>"
proof -
  have "rm_Mac seen = request_mac key (rm_Payload seen)"
    using assms(1) by (auto simp: verifyRequestMessage_def Let_def split: if_split_asm)
  then show ?thesis using assms(2,3) by (simp add: verifyRequestMessage_def request_mac_def Let_def)
qed

theorem request_code_is_transferable_witness:
  "verifyRequestMessage plain_codec (unixToInternal, 0) [7]
     \<lparr>rm_Payload = PutUint64 9 @ PutUint64 0 @ [4], rm_Mac = (PutUint64 9 @ PutUint64 0 @ [4]) @ hmac_sha256 [7] []\<rparr> =
     Inr \<lparr>rq_Id = 9, rq_HandshakeMessage = [4]\<rparr>"
proof -
  let ?seen = "\<lparr>rm_Payload = PutUint64 1 @ PutUint64 0 @ [3], rm_Mac = request_mac [7] (PutUint64 1 @ PutUint64 0 @ [3])\<rparr>"
  let ?payload = "\<lparr>rp_RequestId = 9, rp_EpochSeconds = 0, rp_HandshakeMessage = [4]\<rparr>"
  have time: "time_Since (unixToInternal, 0) (time_Unix 0) \<le> RequestMaxAge"
    using time_Unix_now [of 0] by (simp add: time_Since_def RequestMaxAge_def unixToInternal_def)
  have un: "Unmarshal_Payload plain_codec (PutUint64 n @ PutUint64 0 @ [b]) =
      Inr \<lparr>rp_RequestId = n, rp_EpochSeconds = 0, rp_HandshakeMessage = [b]\<rparr>" for n b
    by (simp add: plain_codec_def)
  have "verifyRequestMessage plain_codec (unixToInternal, 0) [7] ?seen = Inr \<lparr>rq_Id = 1, rq_HandshakeMessage = [3]\<rparr>"
    using un time by (simp add: verifyRequestMessage_def)
  then show ?thesis
    using request_code_is_transferable [of plain_codec "(unixToInternal, 0)" "[7]" ?seen _ "PutUint64 9 @ PutUint64 0 @ [4]" ?payload]
      un time by (simp add: request_mac_def)
qed

text \<open>A request goes to the broadcast address of each network that broadcasts and has an IPv4 address.\<close>

lemma send_broadcast_targets:
  "\<forall>n\<in>set nets. length (n_Mask n) = 4 \<Longrightarrow>
   send_broadcast buf nets = Return [\<lparr>op_data = buf, op_ip = PutUint32 (get_be (the (To4 (n_IP n))) OR NOT (get_be (n_Mask n)))\<rparr>.
     n \<leftarrow> nets, IsBroadcast n \<and> To4 (n_IP n) \<noteq> None]"
  by (induction nets) (auto simp: beacon_Write_def BroadcastIp_mask)

text \<open>A request from the future is never too old.\<close>

lemma future_request_accepted:
  assumes "fst now \<le> time_Unix (rp_EpochSeconds payload)" and "snd now < 1000000000"
  shows "time_Since now (time_Unix (rp_EpochSeconds payload)) \<le> RequestMaxAge"
  using assms by (simp add: time_Since_def RequestMaxAge_def Let_def)

text \<open>The prologue of a handshake tells requests apart.\<close>

lemma RequestId_Bytes_inject: "RequestId_Bytes a = RequestId_Bytes b \<longleftrightarrow> a = b"
  by (simp add: RequestId_Bytes_def PutUint64_def put_be_inject)

end
