(* ===== verification/Local_Handshake.thy ===== *)
theory Local_Handshake
  imports Noise Local_Messages
begin

text \<open>
  The handshake of \<open>lib/local/client.go\<close>: a device that was asked for answers with the first message of the
  pattern \<open>XK1fallback\<close>, the one that asked sends the second in its Hello, and the result is the first
  message of the encrypted connection. \<open>handleResponse\<close> is the side that asked, \<open>handleRequest\<close>
  the side that answers. Both return nil ciphers only before the last message of the pattern;
  the model panics where a nil cipher is wrapped, the code when it is first used.
\<close>

section \<open>The two sides\<close>

text \<open>A deadline is an error of the reads and writes after it; setting it fails on a closed connection.\<close>

definition conn_SetDeadline :: "conn \<Rightarrow> error option" where
  "conn_SetDeadline c = (if c_closed c then Some (IOError NetErrClosed) else None)"

text \<open>A call that returns an error and the new state, followed by \<open>if err != nil { return }\<close>.\<close>

definition check :: "error option \<Rightarrow> (error + 'b) outcome \<Rightarrow> (error + 'b) outcome" where
  "check err rest = (case err of Some e \<Rightarrow> Return (Inl e) | None \<Rightarrow> rest)"

lemma check_simps [simp]: "check None r = r" "check (Some e) r = Return (Inl e)"
  by (simp_all add: check_def)

definition requesterHandshakeState ::
  "('h, 'c) noise \<Rightarrow> KeyPair \<Rightarrow> Request \<Rightarrow> X25519Key \<times> X25519Key \<Rightarrow> Identity \<Rightarrow> (error + 'h) outcome" where
  "requesterHandshakeState nz key request ephemeral responderIdentity =
     obind (KeyPair_Noise (EdPrivateKeyToX25519 nz) (EdPublicKeyToX25519 nz) key) (\<lambda>static.
       obind (Identity_X25519 (EdPublicKeyToX25519 nz) responderIdentity) (\<lambda>peerStatic.
         Return (NewHandshakeState nz \<lparr>cfg_Pattern = Pattern HandshakeXK1fallback, cfg_Initiator = False,
           cfg_Prologue = RequestId_Bytes (rq_Id request), cfg_StaticKeypair = static,
           cfg_EphemeralKeypair = Some ephemeral, cfg_PeerStatic = Some peerStatic, cfg_PeerEphemeral = None\<rparr>)))"

definition responderHandshakeState ::
  "('h, 'c) noise \<Rightarrow> KeyPair \<Rightarrow> Request \<Rightarrow> (error + 'h) outcome" where
  "responderHandshakeState nz key request =
     obind (KeyPair_Noise (EdPrivateKeyToX25519 nz) (EdPublicKeyToX25519 nz) key) (\<lambda>static.
       Return (NewHandshakeState nz \<lparr>cfg_Pattern = Pattern HandshakeXK1fallback, cfg_Initiator = True,
         cfg_Prologue = RequestId_Bytes (rq_Id request), cfg_StaticKeypair = static,
         cfg_EphemeralKeypair = None, cfg_PeerStatic = None, cfg_PeerEphemeral = Some (rq_HandshakeMessage request)\<rparr>))"

definition wrap_ciphers :: "Identity \<Rightarrow> Identity \<Rightarrow> conn \<Rightarrow> 'c option \<Rightarrow> 'c option \<Rightarrow> (error + 'c noiseConn) outcome" where
  "wrap_ciphers identity peer conn w r =
     (case (w, r) of (Some w, Some r) \<Rightarrow> Return (Inr (WrapConn identity peer conn w r)) | _ \<Rightarrow> Panic (RuntimePanic NilDereference))"

text \<open>On an error the caller closes the connection and drops it, so only the error is returned.\<close>

definition read_result ::
  "'c cipher \<Rightarrow> local_codec \<Rightarrow> 'c noiseConn \<Rightarrow> (error + 'c noiseConn) outcome" where
  "read_result Decrypt cd noiseConn =
     check (conn_SetDeadline (nc_Conn noiseConn))
       (obind (noiseConn_Read Decrypt noiseConn MessageMaxSize) (\<lambda>(data, err, noiseConn).
         check err
           (check (conn_SetDeadline (nc_Conn noiseConn))
             (ebind (Return (Unmarshal_Result cd data)) (\<lambda>result.
               if result = ResultTypeRefused then Return (Inl (LocalError ConnectionRefused))
               else if result \<noteq> ResultTypeOk then Return (Inl (ErrorString ''invalid result type in result message''))
               else Return (Inr noiseConn))))))"

definition handleResponse ::
  "('h, 'c) noise \<Rightarrow> 'c cipher \<Rightarrow> local_codec \<Rightarrow> KeyPair \<Rightarrow> X25519Key \<times> X25519Key \<Rightarrow> Identity \<Rightarrow> Request \<Rightarrow> Response \<Rightarrow> conn \<Rightarrow>
   (error + 'c noiseConn) outcome" where
  "handleResponse nz Decrypt cd key ephemeralKey targetIdentity request response conn =
     ebind (requesterHandshakeState nz key request ephemeralKey targetIdentity) (\<lambda>hs.
       ebind (Return (ReadMessage nz hs (rs_HandshakeMessage response))) (\<lambda>(_, _, hs).
         ebind (Return (WriteMessage nz hs)) (\<lambda>(hs1, c1, c2, hs).
           ebind (Return (Marshal_Hello cd hs1)) (\<lambda>d1.
             check (conn_SetDeadline conn)
               (obind (Packet_WriteTo conn_Write (Packet_New d1) conn) (\<lambda>(_, err, conn).
                 check err
                   (check (conn_SetDeadline conn)
                     (ebind (wrap_ciphers (kp_Public key) targetIdentity conn c2 c1)
                       (read_result Decrypt cd)))))))))"

definition writeResult ::
  "'c cipher \<Rightarrow> local_codec \<Rightarrow> 'c noiseConn \<Rightarrow> ResultType \<Rightarrow> (error + 'c noiseConn) outcome" where
  "writeResult Encrypt cd conn resultType =
     check (conn_SetDeadline (nc_Conn conn))
       (ebind (Return (Marshal_Result cd resultType)) (\<lambda>data.
         obind (noiseConn_Write Encrypt conn data) (\<lambda>(_, err, conn).
           check err (check (conn_SetDeadline (nc_Conn conn)) (Return (Inr conn))))))"

text \<open>The peer's identity is its X25519 key here. After a refusal the error is that of the write.\<close>

definition handleRequest ::
  "('h, 'c) noise \<Rightarrow> 'c cipher \<Rightarrow> local_codec \<Rightarrow> KeyPair \<Rightarrow> (X25519Key \<Rightarrow> bool) \<Rightarrow> Request \<Rightarrow> conn \<Rightarrow>
   (error + 'c noiseConn) outcome" where
  "handleRequest nz Encrypt cd key IsX25519Trusted request conn =
     ebind (responderHandshakeState nz key request) (\<lambda>hs.
       ebind (Return (WriteMessage nz hs)) (\<lambda>(hs1, _, _, hs).
         ebind (Return (Marshal_Response cd \<lparr>rs_RequestId = rq_Id request, rs_HandshakeMessage = hs1\<rparr>)) (\<lambda>b1.
           obind (Packet_WriteTo conn_Write (Packet_New b1) conn) (\<lambda>(_, err, conn).
             check err
               (check (conn_SetDeadline conn)
                 (obind (DecodeFrom conn_Read conn) (\<lambda>(d2, err, conn).
                   check err
                     (ebind (Return (Unmarshal_Hello cd d2)) (\<lambda>m2.
                       ebind (Return (ReadMessage nz hs m2)) (\<lambda>(c1, c2, hs).
                         (case PeerStatic nz hs of
                            None \<Rightarrow> Return (Inl (ErrorString ''unexpected nil peer static identity''))
                          | Some peerStatic \<Rightarrow>
                              ebind (wrap_ciphers (kp_Public key) peerStatic conn c1 c2) (\<lambda>noiseConn.
                                if \<not> IsX25519Trusted peerStatic then writeResult Encrypt cd noiseConn ResultTypeRefused
                                else writeResult Encrypt cd noiseConn ResultTypeOk))))))))))))"

section \<open>What the libraries promise\<close>

text \<open>
  Protobuf marshals messages of the sizes that occur, adding a few bytes, and unmarshals them to
  themselves.
\<close>

definition local_codec_works :: "local_codec \<Rightarrow> bool" where
  "local_codec_works cd \<longleftrightarrow>
     (\<forall>m. length m \<le> 1000 \<longrightarrow> (\<exists>d. Marshal_Hello cd m = Inr d \<and> Unmarshal_Hello cd d = Inr m \<and> length d \<le> 2000)) \<and>
     (\<forall>r. length (rs_HandshakeMessage r) \<le> 1000 \<longrightarrow>
        (\<exists>d. Marshal_Response cd r = Inr d \<and> Unmarshal_Response cd d = Inr r \<and> length d \<le> 2000)) \<and>
     (\<forall>t. \<exists>d. Marshal_Result cd t = Inr d \<and> Unmarshal_Result cd d = Inr t \<and> length d \<le> 2000)"

text \<open>
  Noise runs a handshake of the pattern between two configurations that fit: the same prologue, the one
  that responds in the pattern has an ephemeral key and knows the other's static key, the other knows this ephemeral key, neither is given
  any other key of its peer, and the static keys of both and the ephemeral key are key pairs, as \<open>pair\<close> says: 32 bytes each, and the public key is the one
  of the private key. The first message yields no ciphers, the second yields on both sides the cipher of the initiator and
  that of the responder, good for \<open>k\<close> messages, and the static key of the responder. Handshake messages have not more than 1000 bytes.
\<close>

definition fits :: "(X25519Key \<times> X25519Key \<Rightarrow> bool) \<Rightarrow> NoiseConfig \<Rightarrow> NoiseConfig \<Rightarrow> bool" where
  "fits pair ci cr \<longleftrightarrow>
     cfg_Pattern ci = Pattern HandshakeXK1fallback \<and> cfg_Pattern cr = Pattern HandshakeXK1fallback \<and>
     cfg_Initiator ci \<and> \<not> cfg_Initiator cr \<and> cfg_Prologue ci = cfg_Prologue cr \<and>
     pair (cfg_StaticKeypair ci) \<and> pair (cfg_StaticKeypair cr) \<and>
     (\<exists>e. pair e \<and> cfg_EphemeralKeypair cr = Some e \<and> cfg_PeerEphemeral ci = Some (snd e)) \<and>
     cfg_PeerStatic cr = Some (snd (cfg_StaticKeypair ci)) \<and>
     cfg_EphemeralKeypair ci = None \<and> cfg_PeerStatic ci = None \<and> cfg_PeerEphemeral cr = None"

definition fallback_works ::
  "('h, 'c) noise \<Rightarrow> (X25519Key \<times> X25519Key \<Rightarrow> bool) \<Rightarrow> (nat \<Rightarrow> 'c \<Rightarrow> 'c \<Rightarrow> bool) \<Rightarrow> nat \<Rightarrow> bool" where
  "fallback_works nz pair matched k \<longleftrightarrow>
     (\<forall>private public. pair (private, public) \<longrightarrow> length private = 32 \<and> length public = 32) \<and>
     (\<forall>ci cr. fits pair ci cr \<longrightarrow>
       (\<exists>hi hr m1 hi1 hr1 m2 c1 c2 hr2 d1 d2 hi2.
          NewHandshakeState nz ci = Inr hi \<and> NewHandshakeState nz cr = Inr hr \<and>
          WriteMessage nz hi = Inr (m1, None, None, hi1) \<and> ReadMessage nz hr m1 = Inr (None, None, hr1) \<and>
          WriteMessage nz hr1 = Inr (m2, Some c1, Some c2, hr2) \<and> ReadMessage nz hi1 m2 = Inr (Some d1, Some d2, hi2) \<and>
          PeerStatic nz hi2 = Some (snd (cfg_StaticKeypair cr)) \<and> matched k d1 c1 \<and> matched k c2 d2 \<and>
          length m1 \<le> 1000 \<and> length m2 \<le> 1000))"

text \<open>
  What the first message of the pattern proves to the one that reads it: \<open>made x e p m\<close> says that the owner of the static key \<open>x\<close> has made the
  message \<open>m\<close> for a handshake with the ephemeral key \<open>e\<close> and the prologue \<open>p\<close>. The message ends with a code under a key that depends on both
  keys and on the prologue, so that no other message is read without an error.
\<close>

definition authenticates :: "('h, 'c) noise \<Rightarrow> (X25519Key \<Rightarrow> X25519Key \<Rightarrow> bytes \<Rightarrow> bytes \<Rightarrow> bool) \<Rightarrow> bool" where
  "authenticates nz made \<longleftrightarrow>
     (\<forall>cfg hs x e m r. cfg_Pattern cfg = Pattern HandshakeXK1fallback \<longrightarrow> \<not> cfg_Initiator cfg \<longrightarrow>
        cfg_PeerStatic cfg = Some x \<longrightarrow> cfg_EphemeralKeypair cfg = Some e \<longrightarrow>
        NewHandshakeState nz cfg = Inr hs \<longrightarrow> ReadMessage nz hs m = Inr r \<longrightarrow> made x (snd e) (cfg_Prologue cfg) m)"

lemma authenticatesD:
  assumes "authenticates nz made" and "NewHandshakeState nz cfg = Inr hs" and "ReadMessage nz hs m = Inr r"
    and "cfg_Pattern cfg = Pattern HandshakeXK1fallback" and "\<not> cfg_Initiator cfg"
    and "cfg_PeerStatic cfg = Some x" and "cfg_EphemeralKeypair cfg = Some e"
  shows "made x (snd e) (cfg_Prologue cfg) m"
  using assms unfolding authenticates_def by blast

lemma fallback_worksD:
  assumes "fallback_works nz pair matched k" and "fits pair ci cr"
  obtains hi hr m1 hi1 hr1 m2 c1 c2 hr2 d1 d2 hi2 where
    "NewHandshakeState nz ci = Inr hi" "NewHandshakeState nz cr = Inr hr"
    "WriteMessage nz hi = Inr (m1, None, None, hi1)" "ReadMessage nz hr m1 = Inr (None, None, hr1)"
    "WriteMessage nz hr1 = Inr (m2, Some c1, Some c2, hr2)" "ReadMessage nz hi1 m2 = Inr (Some d1, Some d2, hi2)"
    "PeerStatic nz hi2 = Some (snd (cfg_StaticKeypair cr))" "matched k d1 c1" "matched k c2 d2"
    "length m1 \<le> 1000" "length m2 \<le> 1000"
proof -
  have "\<forall>ci cr. fits pair ci cr \<longrightarrow> (\<exists>hi hr m1 hi1 hr1 m2 c1 c2 hr2 d1 d2 hi2.
          NewHandshakeState nz ci = Inr hi \<and> NewHandshakeState nz cr = Inr hr \<and>
          WriteMessage nz hi = Inr (m1, None, None, hi1) \<and> ReadMessage nz hr m1 = Inr (None, None, hr1) \<and>
          WriteMessage nz hr1 = Inr (m2, Some c1, Some c2, hr2) \<and> ReadMessage nz hi1 m2 = Inr (Some d1, Some d2, hi2) \<and>
          PeerStatic nz hi2 = Some (snd (cfg_StaticKeypair cr)) \<and> matched k d1 c1 \<and> matched k c2 d2 \<and>
          length m1 \<le> 1000 \<and> length m2 \<le> 1000)"
    using assms(1) unfolding fallback_works_def by (rule conjunct2)
  from this [rule_format, OF assms(2)] show thesis using that by (elim exE conjE) (rule that; assumption)
qed

lemma local_codec_worksD:
  assumes "local_codec_works cd"
  shows "length m \<le> 1000 \<Longrightarrow> \<exists>d. Marshal_Hello cd m = Inr d \<and> Unmarshal_Hello cd d = Inr m \<and> length d \<le> 2000"
    and "length (rs_HandshakeMessage r) \<le> 1000 \<Longrightarrow> \<exists>d. Marshal_Response cd r = Inr d \<and> Unmarshal_Response cd d = Inr r \<and> length d \<le> 2000"
    and "\<exists>d. Marshal_Result cd t = Inr d \<and> Unmarshal_Result cd d = Inr t \<and> length d \<le> 2000"
  using assms unfolding local_codec_works_def by blast+

section \<open>The steps of the handshake\<close>

lemma conn_SetDeadline_healthy [simp]: "conn_healthy c \<Longrightarrow> conn_SetDeadline c = None"
  by (simp add: conn_SetDeadline_def conn_healthy_def)

lemma wrap_ciphers_Some [simp]: "wrap_ciphers i p c (Some w) (Some r) = Return (Inr (WrapConn i p c w r))"
  by (simp add: wrap_ciphers_def)

lemma WrapConn_simps [simp]:
  "nc_Conn (WrapConn i p c w r) = c" "nc_writeCipher (WrapConn i p c w r) = w" "nc_readCipher (WrapConn i p c w r) = r"
  "(WrapConn i p c w r)\<lparr>nc_writeCipher := w', nc_Conn := c'\<rparr> = WrapConn i p c' w' r"
  "(WrapConn i p c w r)\<lparr>nc_Conn := c', nc_readCipher := r'\<rparr> = WrapConn i p c' w r'"
  by (simp_all add: WrapConn_def)

lemma writeResult_frame:
  assumes "conn_healthy c" and "Marshal_Result cd t = Inr d" and "length d \<le> 2000"
    and "\<And>pre. enc w pre (Length_Bytes (of_nat (MessageSize (length d)))) d = (pre @ ct, None, w')" and "length ct = length d + TagSize"
  shows "\<exists>c'. writeResult enc cd (WrapConn i p c w r) t = Return (Inr (WrapConn i p c' w' r)) \<and> c_out c' = c_out c @ frame ct"
  using write_one [of enc "WrapConn i p c w r" d ct w', simplified WrapConn_simps, OF assms(4,5)] assms(1-3)
  by (auto simp: writeResult_def secure_consts)

lemma read_result_frame:
  assumes "conn_healthy c" and "concat (c_in c) = frame ct @ rest" and "consume 0 (c_in c) = s # ss" and "LengthSize \<le> length s"
    and "length ct = length d + TagSize" and "length d \<le> 2000" and "Unmarshal_Result cd d = Inr t" and "t = ResultTypeOk \<or> t = ResultTypeRefused"
    and "dec r [] (Length_Bytes (of_nat (MessageSize (length d)))) ct = (d, None, r')"
  shows "\<exists>c'. read_result dec cd (WrapConn i p c w r) =
      Return (if t = ResultTypeOk then Inr (WrapConn i p c' w r') else Inl (LocalError ConnectionRefused)) \<and>
    c_out c' = c_out c \<and> conn_pending c' = rest"
proof -
  obtain segs where segs: "noiseConn_Read dec (WrapConn i p c w r) MessageMaxSize =
      Return (d, None, WrapConn i p (c\<lparr>c_in := segs\<rparr>) w r')" "concat segs = rest"
    using read_one [of "WrapConn i p c w r" ct rest s ss d MessageMaxSize dec r', simplified WrapConn_simps] assms
    by (auto simp: conn_healthy_def secure_consts)
  have "conn_healthy (c\<lparr>c_in := segs\<rparr>)" "conn_pending (c\<lparr>c_in := segs\<rparr>) = rest"
    using assms(1) segs(2) by (simp_all add: conn_healthy_def conn_pending_def)
  then show ?thesis
    using segs(1) assms(1,7,8) by (intro exI [of _ "c\<lparr>c_in := segs\<rparr>"]) (auto simp: read_result_def)
qed

lemma DecodeFrom_hello:
  assumes "conn_healthy c" and "conn_pending c = frame hello @ rest" and "length hello \<le> MaxLength"
  shows "\<exists>c'. DecodeFrom conn_Read c = Return (hello, None, c') \<and> conn_healthy c' \<and> c_out c' = c_out c \<and> conn_pending c' = rest"
  using net_stream.DecodeFrom_frame [OF assms(2,3)] DecodeFrom_output assms(1) by (metis conn_healthy_def)

text \<open>The segments that are left when a packet was decoded.\<close>

lemma DecodeFrom_consume:
  assumes "\<not> c_closed c" and "concat (c_in c) = frame p @ rest" and "length p \<le> MaxLength"
  shows "\<exists>segs. DecodeFrom conn_Read c = Return (p, None, c\<lparr>c_in := segs\<rparr>) \<and> concat segs = rest \<and>
    consume 0 segs = consume (length (frame p)) (c_in c)"
proof -
  obtain segs1 where r1: "ReadFull conn_Read c LengthSize = Return (take LengthSize (concat (c_in c)), None, c\<lparr>c_in := segs1\<rparr>)"
    "consume 0 segs1 = consume LengthSize (c_in c)"
    using ReadFull_consume [OF assms(1), of LengthSize] assms(2) by (auto simp: Packet_Size_def)
  have rest1: "concat segs1 = p @ rest"
    using concat_consume [of 0 segs1] r1(2) concat_consume [of LengthSize "c_in c"] assms(2) take_drop_frame(2) by simp
  obtain segs where r2: "ReadFull conn_Read (c\<lparr>c_in := segs1\<rparr>) (length p) = Return (p, None, c\<lparr>c_in := segs\<rparr>)"
    "consume 0 segs = consume (length p) segs1"
    using ReadFull_consume [of "c\<lparr>c_in := segs1\<rparr>" "length p"] assms(1) rest1 by auto
  have "consume (length p) segs1 = consume (length (frame p)) (c_in c)"
    using consume_consume [of "length p" 0 segs1] r1(2) consume_consume [of "length p" LengthSize "c_in c"]
    by (simp add: Packet_Size_def)
  moreover have "concat segs = rest"
    using concat_consume [of 0 segs] r2(2) concat_consume [of "length p" segs1] rest1 by simp
  moreover have "DecodeFrom conn_Read c = Return (p, None, c\<lparr>c_in := segs\<rparr>)"
    using r1(1) [unfolded assms(2) take_drop_frame] r2(1) frame_length_field [OF assms(3)] DecodeLength_Bytes [of "of_nat (length p)"]
    by (simp add: DecodeFrom_def Length_Bytes_def)
  ultimately show ?thesis using r2(2) by auto
qed

text \<open>The configurations of the two sides, and that they fit.\<close>

abbreviation responder_config :: "('h, 'c) noise \<Rightarrow> KeyPair \<Rightarrow> X25519Key \<Rightarrow> Request \<Rightarrow> NoiseConfig" where
  "responder_config nz key x request \<equiv> \<lparr>cfg_Pattern = Pattern HandshakeXK1fallback, cfg_Initiator = True,
     cfg_Prologue = RequestId_Bytes (rq_Id request), cfg_StaticKeypair = (EdPrivateKeyToX25519 nz (kp_Private key), x),
     cfg_EphemeralKeypair = None, cfg_PeerStatic = None, cfg_PeerEphemeral = Some (rq_HandshakeMessage request)\<rparr>"

abbreviation requester_config ::
  "('h, 'c) noise \<Rightarrow> KeyPair \<Rightarrow> X25519Key \<Rightarrow> Request \<Rightarrow> X25519Key \<times> X25519Key \<Rightarrow> X25519Key \<Rightarrow> NoiseConfig" where
  "requester_config nz key x request ephemeral peer \<equiv> \<lparr>cfg_Pattern = Pattern HandshakeXK1fallback, cfg_Initiator = False,
     cfg_Prologue = RequestId_Bytes (rq_Id request), cfg_StaticKeypair = (EdPrivateKeyToX25519 nz (kp_Private key), x),
     cfg_EphemeralKeypair = Some ephemeral, cfg_PeerStatic = Some peer, cfg_PeerEphemeral = None\<rparr>"

lemma configs_fit:
  assumes "pair (EdPrivateKeyToX25519 nz (kp_Private keyA), xA)" and "pair (EdPrivateKeyToX25519 nz (kp_Private keyB), xB)" and "pair ephemeral"
    and "rq_HandshakeMessage request = snd ephemeral"
  shows "fits pair (responder_config nz keyB xB request) (requester_config nz keyA xA request ephemeral xB)"
  using assms by (cases ephemeral) (simp add: fits_def)

lemma responderHandshakeState_config:
  "EdPublicKeyToX25519 nz (kp_Public key) = Some x \<Longrightarrow>
   responderHandshakeState nz key request = Return (NewHandshakeState nz (responder_config nz key x request))"
  by (simp add: responderHandshakeState_def KeyPair_Noise_def Identity_X25519_def Key_X25519_def)

lemma requesterHandshakeState_config:
  "EdPublicKeyToX25519 nz (kp_Public key) = Some x \<Longrightarrow> EdPublicKeyToX25519 nz peer = Some y \<Longrightarrow>
   requesterHandshakeState nz key request ephemeral peer =
     Return (NewHandshakeState nz (requester_config nz key x request ephemeral y))"
  by (simp add: requesterHandshakeState_def KeyPair_Noise_def Identity_X25519_def Key_X25519_def)

lemma handleRequest_frames:
  assumes "responderHandshakeState nz key request = Return (Inr hi)" and "WriteMessage nz hi = Inr (m1, None, None, hi1)"
    and "ReadMessage nz hi1 m2 = Inr (Some d1, Some d2, hi2)" and "PeerStatic nz hi2 = Some xA"
    and answer: "Marshal_Response cd \<lparr>rs_RequestId = rq_Id request, rs_HandshakeMessage = m1\<rparr> = Inr answer" "length answer \<le> MaxLength"
    and hello: "Unmarshal_Hello cd hello = Inr m2" "length hello \<le> MaxLength"
    and d: "Marshal_Result cd (if IsTrusted xA then ResultTypeOk else ResultTypeRefused) = Inr d" "length d \<le> 2000"
    and ct: "\<And>pre. enc d1 pre (Length_Bytes (of_nat (MessageSize (length d)))) d = (pre @ ct, None, w')" "length ct = length d + TagSize"
    and conn: "conn_healthy conn" "conn_pending conn = frame hello @ rest"
  shows "\<exists>c. handleRequest nz enc cd key IsTrusted request conn = Return (Inr (WrapConn (kp_Public key) xA c w' d2)) \<and>
    c_out c = c_out conn @ frame answer @ frame ct"
proof -
  obtain b1 where b1: "Packet_WriteTo conn_Write answer conn = Return (Packet_Size answer, None, b1)"
    "c_out b1 = c_out conn @ frame answer" "conn_healthy b1"
    using net_sink.Packet_WriteTo_healthy [OF conn(1) answer(2)] by blast
  then obtain b2 where b2: "DecodeFrom conn_Read b1 = Return (hello, None, b2)" "conn_healthy b2" "c_out b2 = c_out b1"
    using DecodeFrom_hello [OF b1(3) _ hello(2)] conn(2) Packet_WriteTo_input [OF b1(1)] by metis
  obtain c where "writeResult enc cd (WrapConn (kp_Public key) xA b2 d1 d2) (if IsTrusted xA then ResultTypeOk else ResultTypeRefused) =
      Return (Inr (WrapConn (kp_Public key) xA c w' d2))" "c_out c = c_out b2 @ frame ct"
    using writeResult_frame [where enc = enc and w = d1 and ct = ct and w' = w' and d = d, OF b2(2) d ct] by blast
  then show ?thesis
    using assms(1-4) answer hello b1 b2 by (auto simp: handleRequest_def Packet_New_def split: if_split_asm)
qed

lemma handleResponse_frames:
  assumes "requesterHandshakeState nz key request ephemeral target = Return (Inr hr)" and "ReadMessage nz hr (rs_HandshakeMessage response) = Inr (None, None, hr1)"
    and "WriteMessage nz hr1 = Inr (m2, Some c1, Some c2, hr2)"
    and hello: "Marshal_Hello cd m2 = Inr hello" "length hello \<le> MaxLength"
    and d: "Unmarshal_Result cd d = Inr t" "t = ResultTypeOk \<or> t = ResultTypeRefused" "length d \<le> 2000"
    and ct: "length ct = length d + TagSize" "dec c1 [] (Length_Bytes (of_nat (MessageSize (length d)))) ct = (d, None, r')"
    and conn: "conn_healthy conn" "conn_pending conn = frame ct @ rest" "consume 0 (c_in conn) = s # ss" "LengthSize \<le> length s"
  shows "\<exists>c. handleResponse nz dec cd key ephemeral target request response conn =
      Return (if t = ResultTypeOk then Inr (WrapConn (kp_Public key) target c c2 r') else Inl (LocalError ConnectionRefused)) \<and>
    c_out c = c_out conn @ frame hello \<and> conn_pending c = rest"
proof -
  obtain a1 where a1: "Packet_WriteTo conn_Write hello conn = Return (Packet_Size hello, None, a1)"
    "c_out a1 = c_out conn @ frame hello" "conn_healthy a1"
    using net_sink.Packet_WriteTo_healthy [OF conn(1) hello(2)] by blast
  have c_in: "c_in a1 = c_in conn" using a1(1) by (rule Packet_WriteTo_c_in)
  have "concat (c_in a1) = frame ct @ rest" using c_in conn(1,2) by (simp add: conn_pending_def conn_healthy_def)
  moreover have "consume 0 (c_in a1) = s # ss" using c_in conn(3) by (simp only:)
  ultimately obtain c where "read_result dec cd (WrapConn (kp_Public key) target a1 c2 c1) =
      Return (if t = ResultTypeOk then Inr (WrapConn (kp_Public key) target c c2 r') else Inl (LocalError ConnectionRefused))"
    "c_out c = c_out a1" "conn_pending c = rest"
    using read_result_frame [where c = a1 and ct = ct and cd = cd and d = d and t = t and dec = dec and r = c1 and w = c2,
      OF a1(3) _ _ conn(4) ct(1) d(3,1,2) ct(2)] by blast
  then show ?thesis
    using assms(1-3) hello a1 conn(1) by (auto simp: handleResponse_def Packet_New_def)
qed

lemma local_handshake:
  assumes "fallback_works nz pair matched (Suc k)" and "cipher_pair enc dec matched" and "local_codec_works cd"
    and "EdPublicKeyToX25519 nz (kp_Public keyA) = Some xA" and "EdPublicKeyToX25519 nz (kp_Public keyB) = Some xB"
    and "request = \<lparr>rq_Id = n, rq_HandshakeMessage = snd ephemeral\<rparr>"
    and "pair (EdPrivateKeyToX25519 nz (kp_Private keyA), xA)" and "pair (EdPrivateKeyToX25519 nz (kp_Private keyB), xB)" and "pair ephemeral"
  shows "\<exists>response answer hello ct wA rA wB rB.
    matched k wB rA \<and> matched (Suc k) wA rB \<and> Unmarshal_Response cd answer = Inr response \<and> rs_RequestId response = n \<and> length answer \<le> MaxLength \<and>
    (\<forall>connB rest. conn_healthy connB \<longrightarrow> conn_pending connB = frame hello @ rest \<longrightarrow>
      (\<exists>cB. handleRequest nz enc cd keyB IsTrusted request connB = Return (Inr (WrapConn (kp_Public keyB) xA cB wB rB)) \<and>
        c_out cB = c_out connB @ frame answer @ frame ct)) \<and>
    (\<forall>connA rest s ss. conn_healthy connA \<longrightarrow> conn_pending connA = frame ct @ rest \<longrightarrow> consume 0 (c_in connA) = s # ss \<longrightarrow> LengthSize \<le> length s \<longrightarrow>
      (\<exists>cA. handleResponse nz dec cd keyA ephemeral (kp_Public keyB) request response connA =
          Return (if IsTrusted xA then Inr (WrapConn (kp_Public keyA) (kp_Public keyB) cA wA rA) else Inl (LocalError ConnectionRefused)) \<and>
        c_out cA = c_out connA @ frame hello \<and> conn_pending cA = rest))"
proof -
  note fit = configs_fit [where pair = pair, OF assms(7-9), of request, unfolded assms(6) Request.simps, OF refl]
  obtain hi hr m1 hi1 hr1 m2 c1 c2 hr2 d1 d2 hi2 where hs:
    "NewHandshakeState nz (responder_config nz keyB xB request) = Inr hi"
    "NewHandshakeState nz (requester_config nz keyA xA request ephemeral xB) = Inr hr"
    "WriteMessage nz hi = Inr (m1, None, None, hi1)" "ReadMessage nz hr m1 = Inr (None, None, hr1)"
    "WriteMessage nz hr1 = Inr (m2, Some c1, Some c2, hr2)" "ReadMessage nz hi1 m2 = Inr (Some d1, Some d2, hi2)"
    and peer: "PeerStatic nz hi2 = Some (snd (cfg_StaticKeypair (requester_config nz keyA xA request ephemeral xB)))"
    and keys: "matched (Suc k) d1 c1" "matched (Suc k) c2 d2" and len: "length m1 \<le> 1000" "length m2 \<le> 1000"
    unfolding assms(6) Request.simps by (rule fallback_worksD [OF assms(1) fit])
  have states: "responderHandshakeState nz keyB request = Return (Inr hi)"
    "requesterHandshakeState nz keyA request ephemeral (kp_Public keyB) = Return (Inr hr)"
    using responderHandshakeState_config [OF assms(5)] requesterHandshakeState_config [OF assms(4,5)] hs(1,2) by simp_all
  let ?response = "\<lparr>rs_RequestId = n, rs_HandshakeMessage = m1\<rparr>"
  let ?t = "if IsTrusted xA then ResultTypeOk else ResultTypeRefused"
  obtain hello where hello: "Marshal_Hello cd m2 = Inr hello" "Unmarshal_Hello cd hello = Inr m2" "length hello \<le> MaxLength"
    using local_codec_worksD(1) [OF assms(3) len(2)] by (auto simp: packet_consts)
  obtain answer where answer: "Marshal_Response cd ?response = Inr answer" "Unmarshal_Response cd answer = Inr ?response" "length answer \<le> MaxLength"
    using local_codec_worksD(2) [OF assms(3), of ?response] len(1) by (auto simp: packet_consts)
  obtain d where d: "Marshal_Result cd ?t = Inr d" "Unmarshal_Result cd d = Inr ?t" "length d \<le> 2000"
    using local_codec_worksD(3) [OF assms(3), of ?t] by blast
  let ?ad = "Length_Bytes (of_nat (MessageSize (length d)))"
  obtain ct w' r' where ct: "\<And>pre. enc d1 pre ?ad d = (pre @ ct, None, w')" "length ct = length d + TagSize"
    "dec c1 [] ?ad ct = (d, None, r')" "matched k w' r'"
    using cipher_pairD [OF assms(2) keys(1)] by metis
  have B: "\<exists>c. handleRequest nz enc cd keyB IsTrusted request connB = Return (Inr (WrapConn (kp_Public keyB) xA c w' d2)) \<and>
      c_out c = c_out connB @ frame answer @ frame ct" if "conn_healthy connB" "conn_pending connB = frame hello @ rest" for connB rest
    using handleRequest_frames [where cd = cd and enc = enc and answer = answer and IsTrusted = IsTrusted and xA = xA and d = d and ct = ct and w' = w' and ?d1.0 = d1,
        OF states(1) hs(3,6) _ _ answer(3) hello(2,3) d(1,3) ct(1,2) that]
      peer answer(1) assms(6) by simp
  have A: "\<exists>c. handleResponse nz dec cd keyA ephemeral (kp_Public keyB) request ?response connA =
        Return (if IsTrusted xA then Inr (WrapConn (kp_Public keyA) (kp_Public keyB) c c2 r') else Inl (LocalError ConnectionRefused)) \<and>
      c_out c = c_out connA @ frame hello \<and> conn_pending c = rest"
    if "conn_healthy connA" "conn_pending connA = frame ct @ rest" "consume 0 (c_in connA) = s # ss" "LengthSize \<le> length s" for connA rest s ss
    using handleResponse_frames [where cd = cd and dec = dec and response = ?response, OF states(2) _ hs(5) hello(1,3) d(2) _ d(3) ct(2,3) that]
      hs(4) by (cases "IsTrusted xA") simp_all
  have "rs_RequestId ?response = n" by simp
  with ct(4) keys(2) answer(2,3) A B show ?thesis by blast
qed

text \<open>
  C26. The handshake of two devices on a local network completes. When \<open>keyA\<close> has asked for \<open>keyB\<close>, the keys of both and the ephemeral key being
  key pairs, there are a response, a Hello and an encrypted result such that, on connections that take writes:
  \<open>handleRequest\<close> writes the response and, after the Hello has arrived in whatever segments, the
  result, and returns the connection; \<open>handleResponse\<close>, given this response, writes the Hello and,
  after the result has arrived with the two bytes of its length in one segment (otherwise \<open>noiseConn.Read\<close> fails, see \<open>Read_split_header_fails\<close>),
  returns a connection whose two ciphers match those of the other end if the device is trusted there, and \<open>ConnectionRefused\<close> otherwise.
\<close>

theorem local_handshake_completes:
  assumes "fallback_works nz pair matched (Suc k)" and "cipher_pair enc dec matched" and "local_codec_works cd"
    and "EdPublicKeyToX25519 nz (kp_Public keyA) = Some xA" and "EdPublicKeyToX25519 nz (kp_Public keyB) = Some xB"
    and "request = \<lparr>rq_Id = n, rq_HandshakeMessage = snd ephemeral\<rparr>"
    and "pair (EdPrivateKeyToX25519 nz (kp_Private keyA), xA)" and "pair (EdPrivateKeyToX25519 nz (kp_Private keyB), xB)" and "pair ephemeral"
  shows "\<exists>response answer hello ct wA rA wB rB.
    matched k wB rA \<and> matched (Suc k) wA rB \<and> Unmarshal_Response cd answer = Inr response \<and> rs_RequestId response = n \<and> length answer \<le> MaxLength \<and>
    (\<forall>connB rest. conn_healthy connB \<longrightarrow> conn_pending connB = frame hello @ rest \<longrightarrow>
      (\<exists>cB. handleRequest nz enc cd keyB IsTrusted request connB = Return (Inr (WrapConn (kp_Public keyB) xA cB wB rB)) \<and>
        c_out cB = c_out connB @ frame answer @ frame ct)) \<and>
    (\<forall>connA rest s ss. conn_healthy connA \<longrightarrow> conn_pending connA = frame ct @ rest \<longrightarrow> consume 0 (c_in connA) = s # ss \<longrightarrow> LengthSize \<le> length s \<longrightarrow>
      (\<exists>cA. handleResponse nz dec cd keyA ephemeral (kp_Public keyB) request response connA =
          Return (if IsTrusted xA then Inr (WrapConn (kp_Public keyA) (kp_Public keyB) cA wA rA) else Inl (LocalError ConnectionRefused)) \<and>
        c_out cA = c_out connA @ frame hello \<and> conn_pending cA = rest))"
  using assms by (rule local_handshake)

text \<open>
  A library for the witness: the state of a handshake is its configuration, the number of messages so far and the peer's
  key, which is sent in the clear and compared where it is known; the ciphers count messages, and a private key is its own public key.
\<close>

definition clear_noise :: "(NoiseConfig \<times> nat \<times> X25519Key option, nat) noise" where
  "clear_noise = \<lparr>NewHandshakeState = (\<lambda>c. Inr (c, 0, cfg_PeerStatic c)),
     WriteMessage = (\<lambda>(c, i, s). Inr (take 32 (snd (cfg_StaticKeypair c)), if i = 0 then None else Some 0, if i = 0 then None else Some 0, c, Suc i, s)),
     ReadMessage = (\<lambda>(c, i, s) m. if s \<noteq> None \<and> s \<noteq> Some m then Inl (ErrorString ''bad handshake message'')
       else Inr (if i = 0 then None else Some 0, if i = 0 then None else Some 0, c, Suc i, Some m)),
     PeerStatic = (\<lambda>(c, i, s). s), EdPrivateKeyToX25519 = (\<lambda>k. k),
     EdPublicKeyToX25519 = (\<lambda>i. if length i = 32 then Some i else None)\<rparr>"

definition clear_pair :: "X25519Key \<times> X25519Key \<Rightarrow> bool" where
  "clear_pair e \<longleftrightarrow> fst e = snd e \<and> length (snd e) = 32"

lemma clear_noise_works: "fallback_works clear_noise clear_pair (\<lambda>k w r. True) k"
  unfolding fallback_works_def
proof (intro conjI allI impI)
  fix ci cr assume "fits clear_pair ci cr"
  then show "\<exists>hi hr m1 hi1 hr1 m2 c1 c2 hr2 d1 d2 hi2.
      NewHandshakeState clear_noise ci = Inr hi \<and> NewHandshakeState clear_noise cr = Inr hr \<and>
      WriteMessage clear_noise hi = Inr (m1, None, None, hi1) \<and> ReadMessage clear_noise hr m1 = Inr (None, None, hr1) \<and>
      WriteMessage clear_noise hr1 = Inr (m2, Some c1, Some c2, hr2) \<and> ReadMessage clear_noise hi1 m2 = Inr (Some d1, Some d2, hi2) \<and>
      PeerStatic clear_noise hi2 = Some (snd (cfg_StaticKeypair cr)) \<and> True \<and> True \<and> length m1 \<le> 1000 \<and> length m2 \<le> 1000"
    by (simp add: clear_noise_def fits_def clear_pair_def)
qed (simp_all add: clear_pair_def)

lemma clear_noise_authenticates: "authenticates clear_noise (\<lambda>x e p m. m = x)"
  by (auto simp: authenticates_def clear_noise_def split: if_split_asm)

lemma plain_codec_works: "local_codec_works plain_codec"
  by (auto simp: local_codec_works_def plain_codec_def split: ResultType.split)

lemma tag_cipher_pair: "cipher_pair tag_cipher untag_cipher (\<lambda>k w r. True)"
  by (simp add: cipher_pair_def tag_cipher_def untag_cipher_def)

abbreviation long_key :: "byte \<Rightarrow> KeyPair" where
  "long_key b \<equiv> \<lparr>kp_Private = replicate 32 b, kp_Public = replicate 32 b\<rparr>"

abbreviation key_nine :: X25519Key where
  "key_nine \<equiv> replicate 32 9"

lemma long_key_pair [simp]:
  "EdPublicKeyToX25519 clear_noise (replicate 32 b) = Some (replicate 32 b)" "EdPrivateKeyToX25519 clear_noise k = k"
  "clear_pair (replicate 32 b, replicate 32 b)"
  by (simp_all add: clear_noise_def clear_pair_def)

theorem local_handshake_completes_witness:
  "\<exists>response connA connB cA cB wA rA wB rB.
     handleRequest clear_noise tag_cipher plain_codec (long_key 2) (\<lambda>_. True) \<lparr>rq_Id = 4, rq_HandshakeMessage = key_nine\<rparr> connB =
       Return (Inr (WrapConn (replicate 32 2) (replicate 32 1) cB wB rB)) \<and>
     handleResponse clear_noise untag_cipher plain_codec (long_key 1) (key_nine, key_nine) (replicate 32 2) \<lparr>rq_Id = 4, rq_HandshakeMessage = key_nine\<rparr> response connA =
       Return (Inr (WrapConn (replicate 32 1) (replicate 32 2) cA wA rA))"
proof -
  have keys: "EdPublicKeyToX25519 clear_noise (kp_Public (long_key b)) = Some (replicate 32 b)" for b
    by (simp add: clear_noise_def)
  let ?conn = "\<lambda>f. idle_conn\<lparr>c_in := [f]\<rparr>"
  have conn: "conn_healthy (?conn (frame f))" "conn_pending (?conn (frame f)) = frame f @ []" "consume 0 (c_in (?conn (frame f))) = [frame f]"
    "LengthSize \<le> length (frame f)" for f
    by (simp_all add: conn_healthy_def conn_pending_def packet_consts frame_def PutUint_eval)
  note * = local_handshake_completes [OF clear_noise_works tag_cipher_pair plain_codec_works keys [of 1] keys [of 2],
      of "\<lparr>rq_Id = 4, rq_HandshakeMessage = key_nine\<rparr>" 4 "(key_nine, key_nine)" "\<lambda>_. True"]
  then obtain response answer hello ct wA rA wB rB where B:
    "\<forall>connB rest. conn_healthy connB \<longrightarrow> conn_pending connB = frame hello @ rest \<longrightarrow>
      (\<exists>cB. handleRequest clear_noise tag_cipher plain_codec (long_key 2) (\<lambda>_. True) \<lparr>rq_Id = 4, rq_HandshakeMessage = key_nine\<rparr> connB =
         Return (Inr (WrapConn (replicate 32 2) (replicate 32 1) cB wB rB)) \<and> c_out cB = c_out connB @ frame answer @ frame ct)"
    and A: "\<forall>connA rest s ss. conn_healthy connA \<longrightarrow> conn_pending connA = frame ct @ rest \<longrightarrow> consume 0 (c_in connA) = s # ss \<longrightarrow> LengthSize \<le> length s \<longrightarrow>
      (\<exists>cA. handleResponse clear_noise untag_cipher plain_codec (long_key 1) (key_nine, key_nine) (replicate 32 2) \<lparr>rq_Id = 4, rq_HandshakeMessage = key_nine\<rparr> response connA =
         Return (Inr (WrapConn (replicate 32 1) (replicate 32 2) cA wA rA)) \<and> c_out cA = c_out connA @ frame hello \<and> conn_pending cA = rest)"
    by auto
  from B [rule_format, OF conn(1,2) [of hello]] A [rule_format, OF conn [of ct]] show ?thesis by blast
qed

end
