(* ===== verification/Local_Client.thy ===== *)
theory Local_Client
  imports Local_Handshake
begin

text \<open>
  The calls and goroutines of \<open>lib/local/client.go\<close> and the coupling of \<open>lib/local/listener.go\<close>: \<open>Connect\<close> with
  its worker and the goroutine that removes its handler, the response broker, the goroutines of
  incoming connections, and \<open>Accept\<close>. As in the other components a send on a channel and its receipt are one
  step. Making the ephemeral key is a parameter; \<open>Connect\<close> returns its error before it has done anything.
\<close>

section \<open>Listeners and handlers\<close>

text \<open>
  A \<open>Processor\<close>: the calls of \<open>Handle\<close> that wait in their \<open>select\<close>, and the error of the context once it is
  done. No code calls \<open>Error\<close>.
\<close>

record 'm Processor =
  pr_waiting :: "('m \<times> conn) list"
  pr_ctx :: "error option"

definition NewProcessor :: "'m Processor" where
  "NewProcessor = \<lparr>pr_waiting = [], pr_ctx = None\<rparr>"

definition Processor_Handle :: "'m \<Rightarrow> conn \<Rightarrow> 'm Processor \<Rightarrow> 'm Processor" where
  "Processor_Handle message conn p = p\<lparr>pr_waiting := pr_waiting p @ [(message, conn)]\<rparr>"

definition without :: "nat \<Rightarrow> 'a list \<Rightarrow> 'a list" where
  "without k xs = take k xs @ drop (Suc k) xs"

text \<open>\<open>Accept\<close> meets the call of \<open>Handle\<close> number \<open>k\<close>.\<close>

definition Processor_Accept :: "nat \<Rightarrow> 'm Processor \<Rightarrow> ('m \<times> conn) \<times> 'm Processor" where
  "Processor_Accept k p = (pr_waiting p ! k, p\<lparr>pr_waiting := without k (pr_waiting p)\<rparr>)"

definition cancel :: "'m Processor \<Rightarrow> 'm Processor" where
  "cancel p = p\<lparr>pr_ctx := (case pr_ctx p of None \<Rightarrow> Some (IOError ContextCanceled) | Some e \<Rightarrow> Some e)\<rparr>"

section \<open>State\<close>

datatype 'c connect_pc = Registering | Broadcasting | Selecting | ConnectReturned "error + 'c noiseConn"

datatype 'c worker_pc = WorkerNone | WorkerAccept | WorkerOffer "'c noiseConn" | WorkerEnd

datatype remover_pc = RemoverNone | RemoverWait | RemoverSend | RemoverEnd

text \<open>
  A call of \<open>Connect\<close> with its goroutines. \<open>cc_serial\<close>, the number of the call, and \<open>lc_connects\<close> and
  \<open>lc_log\<close> below, the number of calls and the responses so far, are not read by any code.
\<close>

record 'c connect_call =
  cc_serial :: nat
  cc_request :: Request
  cc_ephemeral :: "X25519Key \<times> X25519Key"
  cc_target :: Identity
  cc_packet :: Packet
  cc_main :: "'c connect_pc"
  cc_worker :: "'c worker_pc"
  cc_remover :: remover_pc
  cc_processor :: "Response Processor"
  cc_outErr :: "error option"

record 'c lclient =
  lc_requestId :: uint64
  lc_handlers :: "RequestId \<rightharpoonup> nat"
  lc_responseBroker :: bool
  lc_outgoingBroadcastHandler :: bool
  lc_done :: bool
  lc_responses :: "(Response \<times> conn) list"
  lc_broadcasts :: "Packet list"
  lc_calls :: "nat \<rightharpoonup> 'c connect_call"
  lc_panic :: "panic option"
  lc_connects :: nat
  lc_log :: "Response list"

text \<open>After a \<open>Listen\<close> that has succeeded.\<close>

definition NewClient_local :: "'c lclient" where
  "NewClient_local = \<lparr>lc_requestId = 0, lc_handlers = Map.empty, lc_responseBroker = True, lc_outgoingBroadcastHandler = True,
     lc_done = False, lc_responses = [], lc_broadcasts = [], lc_calls = Map.empty, lc_panic = None, lc_connects = 0, lc_log = []\<rparr>"

text \<open>
  \<open>Listen\<close>, given whether it was called before and the results of the beacon's \<open>Listen\<close> and of binding the port: its error, and
  whether it has closed the beacon.
\<close>

definition local_Listen :: "bool \<Rightarrow> error option \<Rightarrow> error + 'l \<Rightarrow> (error option \<times> bool) outcome" where
  "local_Listen isDirty beaconListen ListenTCP =
     (if isDirty then Panic (PanicString ''Listen was invoked more than once'')
      else case beaconListen of
          Some err \<Rightarrow> Return (Some err, False)
        | None \<Rightarrow> (case ListenTCP of Inl err \<Rightarrow> Return (Some err, True) | Inr listener \<Rightarrow> Return (None, False)))"

abbreviation set_connect :: "nat \<Rightarrow> 'c connect_call \<Rightarrow> 'c lclient \<Rightarrow> 'c lclient" where
  "set_connect n cc c \<equiv> c\<lparr>lc_calls := (lc_calls c)(n \<mapsto> cc)\<rparr>"

section \<open>Connect\<close>

definition nextRequestId :: "'c lclient \<Rightarrow> RequestId \<times> 'c lclient" where
  "nextRequestId c = (lc_requestId c + 1, c\<lparr>lc_requestId := lc_requestId c + 1, lc_connects := Suc (lc_connects c)\<rparr>)"

text \<open>The return of \<open>Connect\<close>, with its deferred \<open>cancel\<close>.\<close>

definition connect_return :: "error + 'c noiseConn \<Rightarrow> 'c connect_call \<Rightarrow> 'c connect_call" where
  "connect_return r cc = cc\<lparr>cc_main := ConnectReturned r, cc_processor := cancel (cc_processor cc)\<rparr>"

text \<open>\<open>Connect\<close> until it sends to \<open>responseHandlers\<close>, at \<open>seconds\<close> since 1970.\<close>

definition connect_request ::
  "local_codec \<Rightarrow> int \<Rightarrow> X25519Key \<times> X25519Key \<Rightarrow> Identity \<Rightarrow> HMACKey \<Rightarrow> nat \<Rightarrow> RequestId \<Rightarrow> 'c connect_call" where
  "connect_request cd seconds e targetIdentity targetKey serial rid =
     (let request = \<lparr>rq_Id = rid, rq_HandshakeMessage = snd e\<rparr>;
          cc = \<lparr>cc_serial = serial, cc_request = request, cc_ephemeral = e, cc_target = targetIdentity, cc_packet = [],
            cc_main = Registering, cc_worker = WorkerNone, cc_remover = RemoverNone, cc_processor = NewProcessor, cc_outErr = None\<rparr>
      in case request_packet cd seconds targetKey request of
           Inl err \<Rightarrow> connect_return (Inl err) cc
         | Inr p \<Rightarrow> cc\<lparr>cc_packet := p\<rparr>)"

definition Connect ::
  "local_codec \<Rightarrow> int \<Rightarrow> X25519Key \<times> X25519Key \<Rightarrow> Identity \<Rightarrow> HMACKey \<Rightarrow> nat \<Rightarrow> 'c lclient \<Rightarrow> 'c lclient" where
  "Connect cd seconds e targetIdentity targetKey n c =
     (case nextRequestId c of
        (rid, c1) \<Rightarrow> set_connect n (connect_request cd seconds e targetIdentity targetKey (lc_connects c1) rid) c1)"

text \<open>The outer \<open>select\<close> when the context is done.\<close>

definition connect_ctx :: "error \<Rightarrow> 'c connect_call \<Rightarrow> 'c connect_call" where
  "connect_ctx ctxErr cc = connect_return (Inl (case cc_outErr cc of Some err \<Rightarrow> err | None \<Rightarrow> ctxErr)) cc"

text \<open>The worker with a response it has accepted; \<open>hr\<close> is \<open>handleResponse\<close>.\<close>

definition worker_handle ::
  "(X25519Key \<times> X25519Key \<Rightarrow> Identity \<Rightarrow> Request \<Rightarrow> Response \<Rightarrow> conn \<Rightarrow> (error + 'c noiseConn) outcome) \<Rightarrow>
   nat \<Rightarrow> nat \<Rightarrow> 'c connect_call \<Rightarrow> 'c lclient \<Rightarrow> 'c lclient" where
  "worker_handle hr n k cc c =
     (case Processor_Accept k (cc_processor cc) of
        ((response, rawConn), p) \<Rightarrow>
          let cc1 = cc\<lparr>cc_processor := p\<rparr> in
          (case hr (cc_ephemeral cc) (cc_target cc) (cc_request cc) response rawConn of
             Panic x \<Rightarrow> c\<lparr>lc_panic := Some x\<rparr>
           | Diverge \<Rightarrow> c
           | Return (Inl e2) \<Rightarrow> set_connect n cc1 c
           | Return (Inr secConn) \<Rightarrow> set_connect n (cc1\<lparr>cc_worker := WorkerOffer secConn\<rparr>) c))"

definition worker_ctx :: "error \<Rightarrow> 'c connect_call \<Rightarrow> 'c connect_call" where
  "worker_ctx e1 cc = cc\<lparr>cc_outErr := Some e1, cc_processor := cancel (cc_processor cc), cc_worker := WorkerEnd\<rparr>"

section \<open>The response broker\<close>

definition broker_register :: "nat \<Rightarrow> 'c connect_call \<Rightarrow> 'c lclient \<Rightarrow> 'c lclient" where
  "broker_register n cc c =
     (if lc_handlers c (rq_Id (cc_request cc)) \<noteq> None
      then c\<lparr>lc_panic := Some (PanicString ''attempting to register a handler for an already used request id'')\<rparr>
      else set_connect n (cc\<lparr>cc_main := Broadcasting, cc_remover := RemoverWait\<rparr>)
        (c\<lparr>lc_handlers := (lc_handlers c)(rq_Id (cc_request cc) \<mapsto> n)\<rparr>))"

definition broker_remove :: "nat \<Rightarrow> 'c connect_call \<Rightarrow> 'c lclient \<Rightarrow> 'c lclient" where
  "broker_remove n cc c =
     set_connect n (cc\<lparr>cc_remover := RemoverEnd\<rparr>) (c\<lparr>lc_handlers := (lc_handlers c)(rq_Id (cc_request cc) := None)\<rparr>)"

text \<open>A response for an unknown id is logged; its connection stays open.\<close>

definition broker_response :: "nat \<Rightarrow> 'c lclient \<Rightarrow> 'c lclient" where
  "broker_response k c =
     (case lc_responses c ! k of
        (response, conn) \<Rightarrow>
          let c1 = c\<lparr>lc_responses := without k (lc_responses c)\<rparr> in
          (case lc_handlers c (rs_RequestId response) of
             None \<Rightarrow> c1
           | Some n \<Rightarrow>
               (case lc_calls c n of
                  None \<Rightarrow> c1
                | Some cc \<Rightarrow> set_connect n (cc\<lparr>cc_processor := Processor_Handle response conn (cc_processor cc)\<rparr>) c1)))"

definition local_Close :: "'c lclient \<Rightarrow> 'c lclient" where
  "local_Close c = (if lc_done c then c\<lparr>lc_panic := Some (RuntimePanic CloseOfClosedChannel)\<rparr> else c\<lparr>lc_done := True\<rparr>)"

section \<open>Steps\<close>

text \<open>
  Nothing runs after a panic. \<open>parent_context\<close> is the end of the context that the caller of \<open>Connect\<close> has given it.
\<close>

inductive local_step ::
  "local_codec \<Rightarrow> (X25519Key \<times> X25519Key \<Rightarrow> Identity \<Rightarrow> Request \<Rightarrow> Response \<Rightarrow> conn \<Rightarrow> (error + 'c noiseConn) outcome) \<Rightarrow>
   'c lclient \<Rightarrow> 'c lclient \<Rightarrow> bool" for cd hr where
  call_Connect: "lc_panic c = None \<Longrightarrow> lc_calls c n = None \<Longrightarrow> local_step cd hr c (Connect cd seconds e target key n c)"
| call_Close: "lc_panic c = None \<Longrightarrow> local_step cd hr c (local_Close c)"
| parent_context: "lc_panic c = None \<Longrightarrow> lc_calls c n = Some cc \<Longrightarrow> pr_ctx (cc_processor cc) = None \<Longrightarrow>
    local_step cd hr c (set_connect n (cc\<lparr>cc_processor := (cc_processor cc)\<lparr>pr_ctx := Some e\<rparr>\<rparr>) c)"
| registers: "lc_panic c = None \<Longrightarrow> lc_calls c n = Some cc \<Longrightarrow> cc_main cc = Registering \<Longrightarrow> lc_responseBroker c \<Longrightarrow>
    local_step cd hr c (broker_register n cc c)"
| broadcasts: "lc_panic c = None \<Longrightarrow> lc_calls c n = Some cc \<Longrightarrow> cc_main cc = Broadcasting \<Longrightarrow> lc_outgoingBroadcastHandler c \<Longrightarrow>
    local_step cd hr c (set_connect n (cc\<lparr>cc_main := Selecting, cc_worker := WorkerAccept\<rparr>)
      (c\<lparr>lc_broadcasts := lc_broadcasts c @ [cc_packet cc]\<rparr>))"
| returns_conn: "lc_panic c = None \<Longrightarrow> lc_calls c n = Some cc \<Longrightarrow> cc_main cc = Selecting \<Longrightarrow> cc_worker cc = WorkerOffer secConn \<Longrightarrow>
    local_step cd hr c (set_connect n (connect_return (Inr secConn) (cc\<lparr>cc_worker := WorkerEnd\<rparr>)) c)"
| returns_ctx: "lc_panic c = None \<Longrightarrow> lc_calls c n = Some cc \<Longrightarrow> cc_main cc = Selecting \<Longrightarrow> pr_ctx (cc_processor cc) = Some e \<Longrightarrow>
    local_step cd hr c (set_connect n (connect_ctx e cc) c)"
| returns_closed: "lc_panic c = None \<Longrightarrow> lc_calls c n = Some cc \<Longrightarrow> cc_main cc = Selecting \<Longrightarrow> lc_done c \<Longrightarrow>
    local_step cd hr c (set_connect n (connect_return (Inl (IOError NetErrClosed)) cc) c)"
| worker_accepts: "lc_panic c = None \<Longrightarrow> lc_calls c n = Some cc \<Longrightarrow> cc_worker cc = WorkerAccept \<Longrightarrow> k < length (pr_waiting (cc_processor cc)) \<Longrightarrow>
    local_step cd hr c (worker_handle hr n k cc c)"
| worker_fails: "lc_panic c = None \<Longrightarrow> lc_calls c n = Some cc \<Longrightarrow> cc_worker cc = WorkerAccept \<Longrightarrow> pr_ctx (cc_processor cc) = Some e \<Longrightarrow>
    local_step cd hr c (set_connect n (worker_ctx e cc) c)"
| worker_closes: "lc_panic c = None \<Longrightarrow> lc_calls c n = Some cc \<Longrightarrow> cc_worker cc = WorkerOffer secConn \<Longrightarrow> pr_ctx (cc_processor cc) = Some e \<Longrightarrow>
    local_step cd hr c (set_connect n (cc\<lparr>cc_worker := WorkerEnd\<rparr>) c)"
| handle_gives_up: "lc_panic c = None \<Longrightarrow> lc_calls c n = Some cc \<Longrightarrow> pr_ctx (cc_processor cc) = Some e \<Longrightarrow> k < length (pr_waiting (cc_processor cc)) \<Longrightarrow>
    local_step cd hr c (set_connect n (cc\<lparr>cc_processor := snd (Processor_Accept k (cc_processor cc))\<rparr>) c)"
| remover_wakes: "lc_panic c = None \<Longrightarrow> lc_calls c n = Some cc \<Longrightarrow> cc_remover cc = RemoverWait \<Longrightarrow> pr_ctx (cc_processor cc) = Some e \<Longrightarrow>
    local_step cd hr c (set_connect n (cc\<lparr>cc_remover := RemoverSend\<rparr>) c)"
| removes: "lc_panic c = None \<Longrightarrow> lc_calls c n = Some cc \<Longrightarrow> cc_remover cc = RemoverSend \<Longrightarrow> lc_responseBroker c \<Longrightarrow>
    local_step cd hr c (broker_remove n cc c)"
| incoming: "lc_panic c = None \<Longrightarrow> incoming_connection cd conn = Return (Some response, conn') \<Longrightarrow>
    local_step cd hr c (c\<lparr>lc_responses := lc_responses c @ [(response, conn')], lc_log := lc_log c @ [response]\<rparr>)"
| routes: "lc_panic c = None \<Longrightarrow> lc_responseBroker c \<Longrightarrow> k < length (lc_responses c) \<Longrightarrow> local_step cd hr c (broker_response k c)"
| broker_stops: "lc_panic c = None \<Longrightarrow> lc_done c \<Longrightarrow> local_step cd hr c (c\<lparr>lc_responseBroker := False\<rparr>)"
| broadcast_stops: "lc_panic c = None \<Longrightarrow> lc_done c \<Longrightarrow> local_step cd hr c (c\<lparr>lc_outgoingBroadcastHandler := False\<rparr>)"

abbreviation local_run where
  "local_run cd hr \<equiv> (local_step cd hr)\<^sup>*\<^sup>*"

section \<open>Incoming connections\<close>

text \<open>
  The loop of \<open>incomingUnicastHandler\<close> over the results of \<open>Accept\<close>, each with whether the client is closed by then: the
  connections that get a goroutine, and how it ends. \<open>use_of_closed\<close> tests the text of an error.
\<close>

datatype unicast_end = UnicastBlocked | UnicastReturned | UnicastFatal

fun incomingUnicastHandler :: "(error \<Rightarrow> bool) \<Rightarrow> (bool \<times> (error + 'n)) list \<Rightarrow> 'n list \<times> unicast_end" where
  "incomingUnicastHandler use_of_closed [] = ([], UnicastBlocked)"
| "incomingUnicastHandler use_of_closed ((closed, r) # rest) =
     (if closed then ([], UnicastReturned)
      else
        (case r of
           Inl err \<Rightarrow>
             if err = IOError NetErrClosed then ([], UnicastReturned)
             else if use_of_closed err then ([], UnicastReturned)
             else ([], UnicastFatal)
         | Inr conn \<Rightarrow> (case incomingUnicastHandler use_of_closed rest of (conns, e) \<Rightarrow> (conn # conns, e))))"

text \<open>An error of \<open>Accept\<close> that does not tell that the listener is closed ends the process.\<close>

lemma incomingUnicastHandler_fatal:
  assumes "err \<noteq> IOError NetErrClosed" and "\<not> use_of_closed err"
  shows "incomingUnicastHandler use_of_closed (map (\<lambda>c. (False, Inr c)) conns @ (False, Inl err) # rest) = (conns, UnicastFatal)"
  using assms by (induction conns) auto

section \<open>Accept\<close>

text \<open>
  The goroutine of \<open>Accept\<close> over the requests that \<open>listenRequests\<close> hands to it; \<open>Accept\<close> returns the first connection or
  the error of the listener. It blocks when there is no further request.
\<close>

fun local_Accept ::
  "('h, 'c) noise \<Rightarrow> 'c cipher \<Rightarrow> local_codec \<Rightarrow> KeyPair \<Rightarrow> (X25519Key \<Rightarrow> bool) \<Rightarrow> (error + Request \<times> conn) list \<Rightarrow>
   (error + 'c noiseConn) outcome" where
  "local_Accept nz Encrypt cd key IsX25519Trusted [] = Diverge"
| "local_Accept nz Encrypt cd key IsX25519Trusted (Inl e1 # rest) = Return (Inl e1)"
| "local_Accept nz Encrypt cd key IsX25519Trusted (Inr (request, rawConn) # rest) =
     obind (handleRequest nz Encrypt cd key IsX25519Trusted request rawConn) (\<lambda>r.
       case r of Inl e2 \<Rightarrow> local_Accept nz Encrypt cd key IsX25519Trusted rest | Inr secConn \<Rightarrow> Return (Inr secConn))"

end
