(* ===== verification/Local_Client_Props.thy ===== *)
theory Local_Client_Props
  imports Local_Client
begin

text \<open>
  What the local client of \<open>Local_Client\<close> guarantees: the ids of its calls are distinct, so the broker routes every
  response to the call it belongs to, and a call returns a connection with the device that was asked for. Two
  properties show where a closed client and a device that is not trusted are treated wrongly.
\<close>

section \<open>Every call has its own id\<close>

lemma set_without: "set (without k xs) \<subseteq> set xs"
  using set_take_subset set_drop_subset by (fastforce simp: without_def)

text \<open>The ids of the calls are their numbers, until these wrap around; each entry of the broker belongs to its call.\<close>

definition ids_inv :: "'c lclient \<Rightarrow> bool" where
  "ids_inv c \<longleftrightarrow> lc_requestId c = of_nat (lc_connects c) \<and>
     (\<forall>n cc. lc_calls c n = Some cc \<longrightarrow> rq_Id (cc_request cc) = of_nat (cc_serial cc) \<and> cc_serial cc \<le> lc_connects c) \<and>
     (\<forall>n m a b. lc_calls c n = Some a \<longrightarrow> lc_calls c m = Some b \<longrightarrow> cc_serial a = cc_serial b \<longrightarrow> n = m)"

definition broker_inv :: "'c lclient \<Rightarrow> bool" where
  "broker_inv c \<longleftrightarrow>
     (\<forall>n cc. lc_calls c n = Some cc \<longrightarrow> (cc_main cc = Registering \<longrightarrow> cc_remover cc = RemoverNone)) \<and>
     (\<forall>rid n. lc_handlers c rid = Some n \<longrightarrow>
        (\<exists>cc. lc_calls c n = Some cc \<and> rq_Id (cc_request cc) = rid \<and> cc_remover cc \<noteq> RemoverNone))"

text \<open>A step of a call that keeps its identity and does not go back to an earlier point.\<close>

definition call_moves :: "'c connect_call \<Rightarrow> 'c connect_call \<Rightarrow> bool" where
  "call_moves a b \<longleftrightarrow> cc_serial b = cc_serial a \<and> cc_request b = cc_request a \<and> cc_target b = cc_target a \<and> cc_ephemeral b = cc_ephemeral a \<and>
     (cc_main b = Registering \<longrightarrow> cc_main a = Registering \<and> (cc_remover a = RemoverNone \<longrightarrow> cc_remover b = RemoverNone)) \<and> (cc_remover a \<noteq> RemoverNone \<longrightarrow> cc_remover b \<noteq> RemoverNone)"

lemma ids_inv_moves:
  assumes "ids_inv c" and "lc_calls c n = Some a" and "call_moves a b"
    and "lc_calls c' = (lc_calls c)(n \<mapsto> b)" and "lc_requestId c' = lc_requestId c" and "lc_connects c' = lc_connects c"
  shows "ids_inv c'"
proof -
  have same: "\<exists>y. lc_calls c m = Some y \<and> cc_serial y = cc_serial x \<and> cc_request y = cc_request x" if "lc_calls c' m = Some x" for m x
    using that assms(2-4) by (auto simp: call_moves_def split: if_split_asm)
  then show ?thesis using assms(1,5,6) unfolding ids_inv_def by metis
qed

lemma broker_inv_moves:
  assumes "broker_inv c" and "lc_calls c n = Some a" and "call_moves a b"
    and "lc_calls c' = (lc_calls c)(n \<mapsto> b)"
    and "\<And>rid m. lc_handlers c' rid = Some m \<Longrightarrow> lc_handlers c rid = Some m \<or> m = n \<and> rid = rq_Id (cc_request a) \<and> cc_remover b \<noteq> RemoverNone"
  shows "broker_inv c'"
  unfolding broker_inv_def
proof (intro conjI allI impI)
  fix m x assume "lc_calls c' m = Some x" "cc_main x = Registering"
  then show "cc_remover x = RemoverNone"
    using assms(1-4) by (auto simp: broker_inv_def call_moves_def split: if_split_asm)
next
  fix rid m assume "lc_handlers c' rid = Some m"
  then consider "lc_handlers c rid = Some m" | "m = n" "rid = rq_Id (cc_request a)" "cc_remover b \<noteq> RemoverNone" using assms(5) by blast
  then show "\<exists>cc. lc_calls c' m = Some cc \<and> rq_Id (cc_request cc) = rid \<and> cc_remover cc \<noteq> RemoverNone"
  proof cases
    case 1
    then obtain x where "lc_calls c m = Some x" "rq_Id (cc_request x) = rid" "cc_remover x \<noteq> RemoverNone"
      using assms(1) unfolding broker_inv_def by blast
    then show ?thesis using assms(2-4) by (auto simp: call_moves_def)
  next
    case 2
    then show ?thesis using assms(3,4) by (simp add: call_moves_def)
  qed
qed

lemma same_calls_inv:
  assumes "lc_calls c' = lc_calls c" and "lc_handlers c' = lc_handlers c" and "lc_requestId c' = lc_requestId c" and "lc_connects c' = lc_connects c"
  shows "ids_inv c' = ids_inv c" and "broker_inv c' = broker_inv c"
  using assms by (simp_all add: ids_inv_def broker_inv_def)

text \<open>
  What a step does to the calls: it makes a new one, leaves them alone or moves one on. Only a registration adds to the
  entries of the broker.
\<close>

definition quiet :: "'c lclient \<Rightarrow> 'c lclient \<Rightarrow> bool" where
  "quiet c c' \<longleftrightarrow> lc_requestId c' = lc_requestId c \<and> lc_connects c' = lc_connects c \<and> lc_calls c' = lc_calls c \<and> lc_handlers c' = lc_handlers c"

definition moves :: "nat \<Rightarrow> 'c connect_call \<Rightarrow> 'c connect_call \<Rightarrow> 'c lclient \<Rightarrow> 'c lclient \<Rightarrow> bool" where
  "moves n a b c c' \<longleftrightarrow> lc_requestId c' = lc_requestId c \<and> lc_connects c' = lc_connects c \<and>
     lc_calls c n = Some a \<and> lc_calls c' = (lc_calls c)(n \<mapsto> b) \<and> call_moves a b \<and>
     (\<forall>rid m. lc_handlers c' rid = Some m \<longrightarrow> lc_handlers c rid = Some m \<or> m = n \<and> rid = rq_Id (cc_request a) \<and> cc_remover b \<noteq> RemoverNone)"

lemma set_connect_moves:
  assumes "lc_calls c n = Some a" and "call_moves a b" and "quiet c d"
  shows "moves n a b c (set_connect n b d)"
  using assms by (simp add: moves_def quiet_def)

lemmas call_move_defs = call_moves_def quiet_def connect_return_def connect_ctx_def worker_ctx_def

lemma worker_handle_cases:
  assumes "pr_waiting (cc_processor a) ! k = (response, rawConn)"
    and "b = a\<lparr>cc_processor := (cc_processor a)\<lparr>pr_waiting := without k (pr_waiting (cc_processor a))\<rparr>\<rparr>"
  shows "worker_handle hr n k a c =
    (case hr (cc_ephemeral a) (cc_target a) (cc_request a) response rawConn of
       Panic x \<Rightarrow> c\<lparr>lc_panic := Some x\<rparr>
     | Diverge \<Rightarrow> c
     | Return (Inl e2) \<Rightarrow> set_connect n b c
     | Return (Inr secConn) \<Rightarrow> set_connect n (b\<lparr>cc_worker := WorkerOffer secConn\<rparr>) c)"
  unfolding worker_handle_def Processor_Accept_def assms Let_def by simp

lemma worker_handle_moves:
  assumes "lc_calls c n = Some a"
  shows "quiet c (worker_handle hr n k a c) \<or> (\<exists>b. moves n a b c (worker_handle hr n k a c))"
proof -
  obtain response rawConn where w: "pr_waiting (cc_processor a) ! k = (response, rawConn)" by (cases "pr_waiting (cc_processor a) ! k")
  define b where b: "b = a\<lparr>cc_processor := (cc_processor a)\<lparr>pr_waiting := without k (pr_waiting (cc_processor a))\<rparr>\<rparr>"
  note handle = worker_handle_cases [OF w b]
  have m: "call_moves a b" "call_moves a (b\<lparr>cc_worker := WorkerOffer x\<rparr>)" for x by (simp_all add: call_moves_def b)
  have q: "quiet c c" by (simp add: quiet_def)
  show ?thesis
  proof (cases "hr (cc_ephemeral a) (cc_target a) (cc_request a) response rawConn")
    case (Return r)
    show ?thesis
    proof (cases r)
      case (Inl e)
      then have "worker_handle hr n k a c = set_connect n b c" by (simp add: handle Return)
      then show ?thesis using set_connect_moves [OF assms m(1) q] by (simp only:) blast
    next
      case (Inr x)
      then have "worker_handle hr n k a c = set_connect n (b\<lparr>cc_worker := WorkerOffer x\<rparr>) c" by (simp add: handle Return)
      then show ?thesis using set_connect_moves [OF assms m(2) q] by (simp only:) blast
    qed
  qed (simp_all add: handle quiet_def)
qed

lemma broker_response_moves:
  "quiet c (broker_response k c) \<or> (\<exists>n a b. moves n a b c (broker_response k c))"
proof (cases "lc_responses c ! k")
  case (Pair response conn)
  let ?d = "c\<lparr>lc_responses := without k (lc_responses c)\<rparr>"
  have d: "quiet c ?d" by (simp add: quiet_def)
  show ?thesis
  proof (cases "\<exists>n a. lc_handlers c (rs_RequestId response) = Some n \<and> lc_calls c n = Some a")
    case True
    then obtain n a where na: "lc_handlers c (rs_RequestId response) = Some n" "lc_calls c n = Some a" by blast
    have "call_moves a (a\<lparr>cc_processor := Processor_Handle response conn (cc_processor a)\<rparr>)" by (simp add: call_moves_def)
    from set_connect_moves [OF na(2) this d] show ?thesis using Pair na by (auto simp: broker_response_def)
  next
    case False
    then have "broker_response k c = ?d" using Pair by (auto simp: broker_response_def Let_def split: option.split)
    then show ?thesis using d by simp
  qed
qed

lemma local_step_calls:
  assumes "local_step cd hr c c'"
  shows "(\<exists>seconds e target key n. lc_calls c n = None \<and> c' = Connect cd seconds e target key n c) \<or> quiet c c' \<or>
    (\<exists>n a b. moves n a b c c')"
proof -
  have moved: "\<exists>n a b. moves n a b c c'" if "lc_calls c n = Some a" "c' = set_connect n b d" "call_moves a b" "quiet c d" for n a b d
    using set_connect_moves [OF that(1,3,4)] that(2) by blast
  from assms show ?thesis
  proof cases
    case (registers n cc)
    show ?thesis
    proof (cases "lc_handlers c (rq_Id (cc_request cc))")
      case None
      then have "moves n cc (cc\<lparr>cc_main := Broadcasting, cc_remover := RemoverWait\<rparr>) c c'"
        using registers by (simp add: broker_register_def moves_def call_moves_def)
      then show ?thesis by blast
    qed (use registers in \<open>simp add: broker_register_def quiet_def\<close>)
  next
    case (removes n cc)
    then have "moves n cc (cc\<lparr>cc_remover := RemoverEnd\<rparr>) c c'" by (simp add: broker_remove_def moves_def call_moves_def)
    then show ?thesis by blast
  next
    case (worker_accepts n cc k)
    then show ?thesis using worker_handle_moves by blast
  next
    case (routes k)
    then show ?thesis using broker_response_moves by blast
  next
    case (parent_context n cc e)
    show ?thesis using moved [OF parent_context(3,1)] by (simp add: call_move_defs)
  next
    case (broadcasts n cc)
    show ?thesis using moved [OF broadcasts(3,1)] by (simp add: call_move_defs)
  next
    case (returns_conn n cc secConn)
    show ?thesis using moved [OF returns_conn(3,1)] by (simp add: call_move_defs)
  next
    case (returns_ctx n cc e)
    show ?thesis using moved [OF returns_ctx(3,1)] by (simp add: call_move_defs)
  next
    case (returns_closed n cc)
    show ?thesis using moved [OF returns_closed(3,1)] by (simp add: call_move_defs)
  next
    case (worker_fails n cc e)
    show ?thesis using moved [OF worker_fails(3,1)] by (simp add: call_move_defs)
  next
    case (worker_closes n cc secConn e)
    show ?thesis using moved [OF worker_closes(3,1)] by (simp add: call_move_defs)
  next
    case (handle_gives_up n cc e k)
    show ?thesis using moved [OF handle_gives_up(3,1)] by (simp add: call_move_defs)
  next
    case (remover_wakes n cc e)
    show ?thesis using moved [OF remover_wakes(3,1)] remover_wakes(4) by (simp add: call_move_defs)
  next
    case (call_Connect n seconds e target key)
    then show ?thesis by blast
  qed (simp_all add: quiet_def local_Close_def)
qed

lemma connect_request_simps [simp]:
  "cc_serial (connect_request cd seconds e target key serial rid) = serial"
  "rq_Id (cc_request (connect_request cd seconds e target key serial rid)) = rid"
  "cc_remover (connect_request cd seconds e target key serial rid) = RemoverNone"
  "cc_worker (connect_request cd seconds e target key serial rid) = WorkerNone"
  "pr_waiting (cc_processor (connect_request cd seconds e target key serial rid)) = []"
  "cc_main (connect_request cd seconds e target key serial rid) \<noteq> ConnectReturned (Inr nc)"
  by (simp_all add: connect_request_def connect_return_def cancel_def NewProcessor_def Let_def split: sum.split)

lemma Connect_new:
  "Connect cd seconds e target key n c =
     set_connect n (connect_request cd seconds e target key (Suc (lc_connects c)) (lc_requestId c + 1))
       (c\<lparr>lc_requestId := lc_requestId c + 1, lc_connects := Suc (lc_connects c)\<rparr>)"
  by (simp add: Connect_def nextRequestId_def)

text \<open>An invariant holds after a step if it holds after each kind of it.\<close>

lemma local_step_keeps:
  assumes "local_step cd hr c c'"
    and "\<And>c'. quiet c c' \<Longrightarrow> P c'" and "\<And>n a b c'. moves n a b c c' \<Longrightarrow> P c'"
    and "\<And>n cc c'. lc_calls c n = None \<Longrightarrow> cc_serial cc = Suc (lc_connects c) \<Longrightarrow> rq_Id (cc_request cc) = lc_requestId c + 1 \<Longrightarrow>
      cc_remover cc = RemoverNone \<Longrightarrow> lc_calls c' = (lc_calls c)(n \<mapsto> cc) \<Longrightarrow> lc_handlers c' = lc_handlers c \<Longrightarrow>
      lc_requestId c' = lc_requestId c + 1 \<Longrightarrow> lc_connects c' = Suc (lc_connects c) \<Longrightarrow> P c'"
  shows "P c'"
  using local_step_calls [OF assms(1)]
proof (elim disjE exE conjE)
  fix seconds e target key n assume n: "lc_calls c n = None" and c': "c' = Connect cd seconds e target key n c"
  let ?cc = "connect_request cd seconds e target key (Suc (lc_connects c)) (lc_requestId c + 1)"
  show "P c'" by (rule assms(4) [OF n, of ?cc]) (simp_all add: c' Connect_new)
qed (use assms(2,3) in blast)+

lemma ids_inv_new:
  fixes c c' :: "'c lclient"
  assumes "ids_inv c"
    and new: "cc_serial cc = Suc (lc_connects c)" "rq_Id (cc_request cc) = lc_requestId c + 1"
      "lc_calls c' = (lc_calls c)(n \<mapsto> cc)" "lc_requestId c' = lc_requestId c + 1" "lc_connects c' = Suc (lc_connects c)"
  shows "ids_inv c'"
proof -
  have old: "rq_Id (cc_request x) = of_nat (cc_serial x)" "cc_serial x \<le> lc_connects c" if "lc_calls c m = Some x" for m x
    using assms(1) that unfolding ids_inv_def by blast+
  have uniq: "m = k" if "lc_calls c m = Some x" "lc_calls c k = Some y" "cc_serial x = cc_serial y" for m k x y
    using assms(1) that unfolding ids_inv_def by blast
  have r: "lc_requestId c = of_nat (lc_connects c)" using assms(1) unfolding ids_inv_def by (rule conjunct1)
  have ids: "rq_Id (cc_request x) = of_nat (cc_serial x) \<and> cc_serial x \<le> lc_connects c'" if "lc_calls c' m = Some x" for m x
    using that new r old [of m x] by (cases "m = n") simp_all
  have "m = k" if "lc_calls c' m = Some x" "lc_calls c' k = Some y" "cc_serial x = cc_serial y" for m k x y
    using that new(1,3) old(2) [of m x] old(2) [of k y] uniq [of m x k y] by (cases "m = n"; cases "k = n") simp_all
  then show ?thesis unfolding ids_inv_def using ids r new(4,5) by simp
qed

lemma ids_inv_step:
  assumes "local_step cd hr (c :: 'c lclient) c'" and "ids_inv c"
  shows "ids_inv c'"
  using assms(1)
proof (rule local_step_keeps)
  show "ids_inv c'" if "quiet c c'" for c' using same_calls_inv(1) [of c' c] assms(2) that by (simp add: quiet_def)
  show "ids_inv c'" if "moves n a b c c'" for n a b c' using ids_inv_moves [OF assms(2), of n a b c'] that by (simp only: moves_def)
qed (rule ids_inv_new [OF assms(2)])

lemma broker_inv_step:
  assumes "local_step cd hr (c :: 'c lclient) c'" and "broker_inv c"
  shows "broker_inv c'"
  using assms(1)
proof (rule local_step_keeps)
  show "broker_inv c'" if "quiet c c'" for c' using same_calls_inv(2) [of c' c] assms(2) that by (simp add: quiet_def)
  show "broker_inv c'" if "moves n a b c c'" for n a b c' using broker_inv_moves [OF assms(2), of n a b c'] that by (simp only: moves_def)
next
  fix n and cc :: "'c connect_call" and c' :: "'c lclient"
  assume "lc_calls c n = None" "cc_remover cc = RemoverNone" "lc_calls c' = (lc_calls c)(n \<mapsto> cc)" "lc_handlers c' = lc_handlers c"
  moreover have "\<exists>x. lc_calls c m = Some x \<and> rq_Id (cc_request x) = rid \<and> cc_remover x \<noteq> RemoverNone" if "lc_handlers c rid = Some m" for rid m
    using assms(2) that unfolding broker_inv_def by blast
  ultimately show "broker_inv c'"
    using assms(2) unfolding broker_inv_def by (metis (full_types) fun_upd_apply option.distinct(1) option.inject)
qed

interpretation local_ids: step_invariant "local_step cd hr" "\<lambda>c. ids_inv c \<and> broker_inv c"
  by unfold_locales (use ids_inv_step broker_inv_step in blast)

lemma NewClient_local_inv: "ids_inv NewClient_local \<and> broker_inv NewClient_local"
  by (simp add: NewClient_local_def ids_inv_def broker_inv_def)

text \<open>The broker panics only when two calls that are registered have the same id.\<close>

lemma register_fresh:
  assumes "ids_inv c" and "broker_inv c" and "lc_calls c n = Some cc" and "cc_main cc = Registering" and "lc_connects c < 2 ^ 64"
  shows "lc_handlers c (rq_Id (cc_request cc)) = None"
proof (rule ccontr)
  assume "lc_handlers c (rq_Id (cc_request cc)) \<noteq> None"
  then obtain m x where x: "lc_calls c m = Some x" "rq_Id (cc_request x) = rq_Id (cc_request cc)" "cc_remover x \<noteq> RemoverNone"
    using assms(2) unfolding broker_inv_def by blast
  have serial: "rq_Id (cc_request y) = of_nat (cc_serial y)" "cc_serial y < 2 ^ 64" if "lc_calls c k = Some y" for k y
    using assms(1,5) that unfolding ids_inv_def by (blast, meson le_less_trans)
  have "cc_serial x = cc_serial cc"
    using serial [OF x(1)] serial [OF assms(3)] x(2) unat_of_nat_64 [of "cc_serial x"] unat_of_nat_64 [of "cc_serial cc"] by simp
  then have "m = n" using assms(1,3) x(1) unfolding ids_inv_def by blast
  then show False using assms(2-4) x(1,3) unfolding broker_inv_def by auto
qed

section \<open>Every call gets the answer to its request\<close>

definition call_backed ::
  "(X25519Key \<times> X25519Key \<Rightarrow> Identity \<Rightarrow> Request \<Rightarrow> Response \<Rightarrow> conn \<Rightarrow> (error + 'c noiseConn) outcome) \<Rightarrow>
   Response set \<Rightarrow> 'c connect_call \<Rightarrow> 'c noiseConn \<Rightarrow> bool" where
  "call_backed hr L cc nc \<longleftrightarrow> (\<exists>response conn. response \<in> L \<and> rs_RequestId response = rq_Id (cc_request cc) \<and>
     hr (cc_ephemeral cc) (cc_target cc) (cc_request cc) response conn = Return (Inr nc))"

definition call_ok ::
  "(X25519Key \<times> X25519Key \<Rightarrow> Identity \<Rightarrow> Request \<Rightarrow> Response \<Rightarrow> conn \<Rightarrow> (error + 'c noiseConn) outcome) \<Rightarrow>
   Response set \<Rightarrow> 'c connect_call \<Rightarrow> bool" where
  "call_ok hr L cc \<longleftrightarrow>
     (\<forall>p\<in>set (pr_waiting (cc_processor cc)). fst p \<in> L \<and> rs_RequestId (fst p) = rq_Id (cc_request cc)) \<and>
     (\<forall>nc. cc_worker cc = WorkerOffer nc \<longrightarrow> call_backed hr L cc nc) \<and> (\<forall>nc. cc_main cc = ConnectReturned (Inr nc) \<longrightarrow> call_backed hr L cc nc)"

definition answers_inv ::
  "(X25519Key \<times> X25519Key \<Rightarrow> Identity \<Rightarrow> Request \<Rightarrow> Response \<Rightarrow> conn \<Rightarrow> (error + 'c noiseConn) outcome) \<Rightarrow> 'c lclient \<Rightarrow> bool" where
  "answers_inv hr c \<longleftrightarrow> (\<forall>p\<in>set (lc_responses c). fst p \<in> set (lc_log c)) \<and>
     (\<forall>n cc. lc_calls c n = Some cc \<longrightarrow> call_ok hr (set (lc_log c)) cc)"

lemma call_backed_cong:
  "cc_ephemeral b = cc_ephemeral a \<Longrightarrow> cc_target b = cc_target a \<Longrightarrow> cc_request b = cc_request a \<Longrightarrow> call_backed hr L b nc = call_backed hr L a nc"
  by (simp add: call_backed_def)

lemma call_ok_keeps:
  assumes "call_ok hr L a" and "call_moves a b" and "set (pr_waiting (cc_processor b)) \<subseteq> set (pr_waiting (cc_processor a))"
    and "\<And>nc. cc_worker b = WorkerOffer nc \<Longrightarrow> cc_worker a = WorkerOffer nc"
    and "\<And>nc. cc_main b = ConnectReturned (Inr nc) \<Longrightarrow> cc_main a = ConnectReturned (Inr nc) \<or> cc_worker a = WorkerOffer nc"
  shows "call_ok hr L b"
proof -
  have same: "call_backed hr L b nc = call_backed hr L a nc" for nc using assms(2) by (simp add: call_backed_def call_moves_def)
  have "cc_request b = cc_request a" using assms(2) by (simp add: call_moves_def)
  moreover have "call_backed hr L b nc" if "cc_worker b = WorkerOffer nc \<or> cc_main b = ConnectReturned (Inr nc)" for nc
    unfolding same using that assms(1) assms(4,5) [of nc] by (auto simp: call_ok_def)
  ultimately show ?thesis using assms(1,3) by (auto simp: call_ok_def)
qed

lemma call_ok_mono: "call_ok hr L cc \<Longrightarrow> L \<subseteq> M \<Longrightarrow> call_ok hr M cc"
  unfolding call_ok_def call_backed_def by blast

lemma answers_inv_set:
  assumes "answers_inv hr c" and "call_ok hr (set (lc_log c)) cc" and "lc_log d = lc_log c" and "set (lc_responses d) \<subseteq> set (lc_responses c)"
    and "lc_calls d = (lc_calls c)(n \<mapsto> cc)"
  shows "answers_inv hr d"
  using assms unfolding answers_inv_def by (auto split: if_split_asm)

lemma answers_inv_Connect:
  "answers_inv hr c \<Longrightarrow> answers_inv hr (Connect cd seconds e target key n c)"
  by (rule answers_inv_set [where c = c and n = n]) (simp_all add: Connect_new call_ok_def)

lemma answers_inv_worker:
  assumes "answers_inv hr c" and n: "lc_calls c n = Some a" and k: "k < length (pr_waiting (cc_processor a))"
  shows "answers_inv hr (worker_handle hr n k a c)"
proof -
  obtain response rawConn where w: "pr_waiting (cc_processor a) ! k = (response, rawConn)" by (cases "pr_waiting (cc_processor a) ! k")
  define b where b: "b = a\<lparr>cc_processor := (cc_processor a)\<lparr>pr_waiting := without k (pr_waiting (cc_processor a))\<rparr>\<rparr>"
  note handle = worker_handle_cases [OF w b]
  have a: "call_ok hr (set (lc_log c)) a" using assms(1) n by (simp add: answers_inv_def)
  have "(response, rawConn) \<in> set (pr_waiting (cc_processor a))" using k w nth_mem by metis
  then have r: "response \<in> set (lc_log c)" "rs_RequestId response = rq_Id (cc_request a)" using a by (auto simp: call_ok_def)
  have ok: "call_ok hr (set (lc_log c)) b" by (rule call_ok_keeps [OF a]) (simp_all add: b call_moves_def set_without)
  show ?thesis
  proof (cases "hr (cc_ephemeral a) (cc_target a) (cc_request a) response rawConn")
    case (Return q)
    show ?thesis
    proof (cases q)
      case (Inl e)
      then have "worker_handle hr n k a c = set_connect n b c" by (simp add: handle Return)
      then show ?thesis using answers_inv_set [OF assms(1) ok] by simp
    next
      case (Inr x)
      have same: "call_backed hr L (b\<lparr>cc_worker := y\<rparr>) = call_backed hr L a" "call_backed hr L b = call_backed hr L a" for L y
        by (auto simp: fun_eq_iff call_backed_def b)
      have "call_backed hr (set (lc_log c)) a x" using r Return Inr by (auto simp: call_backed_def)
      then have "call_ok hr (set (lc_log c)) (b\<lparr>cc_worker := WorkerOffer x\<rparr>)" using ok by (simp add: call_ok_def same)
      moreover have "worker_handle hr n k a c = set_connect n (b\<lparr>cc_worker := WorkerOffer x\<rparr>) c" using Inr by (simp add: handle Return)
      ultimately show ?thesis using answers_inv_set [OF assms(1)] by simp
    qed
  qed (use assms(1) in \<open>simp_all add: handle answers_inv_def\<close>)
qed

lemma answers_inv_routes:
  assumes "answers_inv hr c" and "broker_inv c" and k: "k < length (lc_responses c)"
  shows "answers_inv hr (broker_response k c)"
proof (cases "lc_responses c ! k")
  case (Pair response conn)
  let ?d = "c\<lparr>lc_responses := without k (lc_responses c)\<rparr>"
  have sub: "set (lc_responses ?d) \<subseteq> set (lc_responses c)" by (simp add: set_without)
  show ?thesis
  proof (cases "\<exists>n a. lc_handlers c (rs_RequestId response) = Some n \<and> lc_calls c n = Some a")
    case True
    then obtain n a where na: "lc_handlers c (rs_RequestId response) = Some n" "lc_calls c n = Some a" by blast
    let ?b = "a\<lparr>cc_processor := Processor_Handle response conn (cc_processor a)\<rparr>"
    have a: "call_ok hr (set (lc_log c)) a" using assms(1) na(2) by (simp add: answers_inv_def)
    have "rq_Id (cc_request a) = rs_RequestId response" using assms(2) na unfolding broker_inv_def by fastforce
    moreover have "response \<in> set (lc_log c)" using assms(1) k Pair nth_mem unfolding answers_inv_def by fastforce
    moreover have "call_backed hr L ?b = call_backed hr L a" for L by (auto simp: fun_eq_iff call_backed_def)
    ultimately have "call_ok hr (set (lc_log c)) ?b" using a by (auto simp: call_ok_def Processor_Handle_def)
    moreover have "broker_response k c = set_connect n ?b ?d" using Pair na by (simp add: broker_response_def)
    ultimately show ?thesis using answers_inv_set [OF assms(1), of ?b] sub by simp
  next
    case False
    then have "broker_response k c = ?d" using Pair by (auto simp: broker_response_def Let_def split: option.split)
    then show ?thesis using assms(1) sub by (auto simp: answers_inv_def)
  qed
qed

lemma answers_inv_step:
  assumes "local_step cd hr c c'" and "answers_inv hr c" and "broker_inv c"
  shows "answers_inv hr c'"
proof -
  have moved: "answers_inv hr c'" if "lc_calls c n = Some a" "c' = set_connect n b d" "call_moves a b"
    "set (pr_waiting (cc_processor b)) \<subseteq> set (pr_waiting (cc_processor a))"
    "\<And>nc. cc_worker b = WorkerOffer nc \<Longrightarrow> cc_worker a = WorkerOffer nc"
    "\<And>nc. cc_main b = ConnectReturned (Inr nc) \<Longrightarrow> cc_main a = ConnectReturned (Inr nc) \<or> cc_worker a = WorkerOffer nc"
    "lc_log d = lc_log c" "lc_responses d = lc_responses c" "lc_calls d = lc_calls c" for n a b d
    using answers_inv_set [OF assms(2) call_ok_keeps [OF _ that(3-6)], of "set_connect n b d" n] assms(2) that(1,2,7-9)
    by (simp add: answers_inv_def)
  note defs = call_move_defs cancel_def Processor_Accept_def set_without
  from assms(1) show ?thesis
  proof cases
    case (call_Connect n seconds e target key)
    then show ?thesis using assms(2) answers_inv_Connect by blast
  next
    case (worker_accepts n cc k)
    then show ?thesis using assms(2) answers_inv_worker by blast
  next
    case (routes k)
    then show ?thesis using assms(2,3) answers_inv_routes by blast
  next
    case (incoming conn response conn')
    then show ?thesis using assms(2) call_ok_mono [of hr "set (lc_log c)" _ "insert response (set (lc_log c))"]
      by (auto simp: answers_inv_def)
  next
    case (registers n cc)
    show ?thesis
    proof (cases "lc_handlers c (rq_Id (cc_request cc))")
      case None
      then have "c' = set_connect n (cc\<lparr>cc_main := Broadcasting, cc_remover := RemoverWait\<rparr>)
          (c\<lparr>lc_handlers := (lc_handlers c)(rq_Id (cc_request cc) \<mapsto> n)\<rparr>)" using registers(1) by (simp add: broker_register_def)
      from moved [OF registers(3) this] show ?thesis by (simp add: defs)
    qed (use registers assms(2) in \<open>simp add: broker_register_def answers_inv_def\<close>)
  next
    case (removes n cc)
    show ?thesis using moved [OF removes(3) removes(1) [unfolded broker_remove_def]] removes(4) by (simp add: defs)
  next
    case (broadcasts n cc)
    show ?thesis using moved [OF broadcasts(3,1)] by (simp add: defs)
  next
    case (parent_context n cc e)
    show ?thesis using moved [OF parent_context(3,1)] by (simp add: defs)
  next
    case (returns_conn n cc secConn)
    show ?thesis using moved [OF returns_conn(3,1)] returns_conn(5) by (simp add: defs)
  next
    case (returns_ctx n cc e)
    show ?thesis using moved [OF returns_ctx(3,1)] by (simp add: defs)
  next
    case (returns_closed n cc)
    show ?thesis using moved [OF returns_closed(3,1)] by (simp add: defs)
  next
    case (worker_fails n cc e)
    show ?thesis using moved [OF worker_fails(3,1)] by (simp add: defs)
  next
    case (worker_closes n cc secConn e)
    show ?thesis using moved [OF worker_closes(3,1)] by (simp add: defs)
  next
    case (handle_gives_up n cc e k)
    show ?thesis using moved [OF handle_gives_up(3,1)] by (simp add: defs)
  next
    case (remover_wakes n cc e)
    show ?thesis using moved [OF remover_wakes(3,1)] remover_wakes(4) by (simp add: defs)
  qed (use assms(2) in \<open>simp_all add: answers_inv_def local_Close_def\<close>)
qed

interpretation local_answers: step_invariant "local_step cd hr" "\<lambda>c. answers_inv hr c \<and> broker_inv c"
  by unfold_locales (use answers_inv_step broker_inv_step in blast)

section \<open>Properties\<close>

text \<open>The broker's registration is the only step that can panic with its message; the others panic as \<open>hr\<close> and \<open>Close\<close> do.\<close>

abbreviation broker_panic :: "panic option" where
  "broker_panic \<equiv> Some (PanicString ''attempting to register a handler for an already used request id'')"

lemma local_step_panic:
  assumes "local_step cd hr c c'" and "lc_panic c' = broker_panic"
    and "\<And>e t q r x. hr e t q r x \<noteq> Panic (PanicString ''attempting to register a handler for an already used request id'')"
  shows "\<exists>n cc. lc_calls c n = Some cc \<and> cc_main cc = Registering \<and> lc_handlers c (rq_Id (cc_request cc)) \<noteq> None"
  using assms(1)
proof cases
  case (registers n cc)
  then show ?thesis using assms(2) by (auto simp: broker_register_def split: if_split_asm)
next
  case (worker_accepts n cc k)
  then show ?thesis using assms(2,3)
    by (auto simp: worker_handle_def Let_def split: prod.split_asm outcome.split_asm sum.split_asm)
next
  case (routes k)
  then show ?thesis using assms(2) by (auto simp: broker_response_def Let_def split: prod.split_asm option.split_asm)
qed (use assms(2) in \<open>auto simp: Connect_new local_Close_def broker_remove_def split: if_split_asm\<close>)

lemma handleResponse_peer:
  assumes "handleResponse nz Decrypt cd key e target request response conn = Return (Inr nc)"
  shows "RemoteIdentity nc = target \<and> LocalIdentity nc = kp_Public key"
proof -
  have "RemoteIdentity b = RemoteIdentity a \<and> LocalIdentity b = LocalIdentity a" if "read_result Decrypt cd a = Return (Inr b)" for a b
    using that
    by (auto simp: read_result_def check_def ebind_eq_Inr obind_eq_Return noiseConn_Read_def decrypt_message_def Let_def RemoteIdentity_def LocalIdentity_def
        split: option.split_asm prod.split_asm sum.split_asm if_split_asm)
  then show ?thesis
    using assms
    by (fastforce simp: handleResponse_def ebind_eq_Inr check_def obind_eq_Return wrap_ciphers_def RemoteIdentity_def LocalIdentity_def WrapConn_def
        split: option.split_asm prod.split_asm)
qed

text \<open>
  A connection that \<open>handleResponse\<close> returns comes from a handshake in which the peer's static key was set to that of the target: the
  response was made by its owner, for the ephemeral key and the id of this request. It has also sent the result that says so.
\<close>

lemma handleResponse_authentic:
  assumes "handleResponse nz Decrypt cd key e target request response conn = Return (Inr nc)" and "authenticates nz made"
  shows "\<exists>x. EdPublicKeyToX25519 nz target = Some x \<and> made x (snd e) (RequestId_Bytes (rq_Id request)) (rs_HandshakeMessage response)"
proof -
  obtain hs r where hs: "requesterHandshakeState nz key request e target = Return (Inr hs)" "ReadMessage nz hs (rs_HandshakeMessage response) = Inr r"
    using assms(1) by (auto simp: handleResponse_def ebind_eq_Inr)
  obtain s x where x: "KeyPair_Noise (EdPrivateKeyToX25519 nz) (EdPublicKeyToX25519 nz) key = Return s" "EdPublicKeyToX25519 nz target = Some x"
    using hs(1) unfolding requesterHandshakeState_def obind_eq_Return Identity_X25519_def by (auto split: option.split_asm)
  let ?cfg = "\<lparr>cfg_Pattern = Pattern HandshakeXK1fallback, cfg_Initiator = False,
      cfg_Prologue = RequestId_Bytes (rq_Id request), cfg_StaticKeypair = s, cfg_EphemeralKeypair = Some e, cfg_PeerStatic = Some x,
      cfg_PeerEphemeral = None\<rparr>"
  have "NewHandshakeState nz ?cfg = Inr hs" using hs(1) x by (simp add: requesterHandshakeState_def Identity_X25519_def)
  from authenticatesD [OF assms(2) this hs(2)] x(2) show ?thesis by simp
qed

lemma handleResponse_result:
  assumes "handleResponse nz Decrypt cd key e target request response conn = Return (Inr nc)"
  shows "\<exists>before data. noiseConn_Read Decrypt before MessageMaxSize = Return (data, None, nc) \<and> Unmarshal_Result cd data = Inr ResultTypeOk"
proof -
  obtain before where "read_result Decrypt cd before = Return (Inr nc)"
    using assms by (fastforce simp: handleResponse_def ebind_eq_Inr check_def obind_eq_Return split: option.split_asm prod.split_asm)
  then show ?thesis
    by (fastforce simp: read_result_def check_def ebind_eq_Inr obind_eq_Return split: option.split_asm prod.split_asm if_split_asm)
qed

text \<open>
  C15. The response broker never meets a request id twice: in every run of a client with fewer than \<open>2\<close>
  to the power of 64 calls of \<open>Connect\<close>, however the calls, their goroutines and the broker
  interleave, it does not panic.
\<close>

theorem local_broker_never_panics:
  assumes "local_run cd hr NewClient_local c" and "lc_connects c < 2 ^ 64"
    and "\<And>e t q r x. hr e t q r x \<noteq> Panic (PanicString ''attempting to register a handler for an already used request id'')"
  shows "lc_panic c \<noteq> broker_panic"
  using assms(1,2)
proof (induction rule: rtranclp_induct)
  case base
  show ?case by (simp add: NewClient_local_def)
next
  case (step c c')
  have "lc_connects c \<le> lc_connects c'"
    using step.hyps(2) by (rule local_step_keeps) (simp_all add: quiet_def moves_def)
  then have "lc_connects c < 2 ^ 64" using step.prems by simp
  moreover have "ids_inv c" "broker_inv c" using local_ids.run_inv [OF step.hyps(1) NewClient_local_inv] by blast+
  ultimately show ?case using register_fresh local_step_panic [OF step.hyps(2) _ assms(3)] by metis
qed

theorem local_broker_never_panics_witness:
  "\<exists>c. local_run plain_codec (\<lambda>e t q r x. Return (Inl (IOError EOF))) (NewClient_local :: nat lclient) c \<and>
     lc_connects c = 2 \<and> lc_handlers c 1 = Some 0 \<and> lc_handlers c 2 = Some 1 \<and> lc_panic c \<noteq> broker_panic"
proof -
  let ?hr = "\<lambda>e t q r x. Return (Inl (IOError EOF)) :: (error + nat noiseConn) outcome"
  define c1 where "c1 = Connect plain_codec 0 ([], []) [] [] 0 (NewClient_local :: nat lclient)"
  define c2 where "c2 = Connect plain_codec 0 ([], []) [] [] 1 c1"
  define c3 where "c3 = broker_register 0 (the (lc_calls c2 0)) c2"
  define c4 where "c4 = broker_register 1 (the (lc_calls c3 1)) c3"
  note defs = c1_def c2_def c3_def c4_def Connect_new NewClient_local_def broker_register_def
  have main: "cc_main (connect_request plain_codec 0 ([], []) [] [] n r) = Registering" for n r
    by (simp add: connect_request_def request_packet_def plain_codec_def Packet_New_def Let_def)
  have "local_step plain_codec ?hr NewClient_local c1" unfolding c1_def
    by (rule call_Connect) (simp_all add: NewClient_local_def)
  moreover have "local_step plain_codec ?hr c1 c2" unfolding c2_def
    by (rule call_Connect) (simp_all add: c1_def Connect_new NewClient_local_def)
  moreover have "local_step plain_codec ?hr c2 c3" unfolding c3_def
    by (rule registers) (simp_all add: c1_def c2_def Connect_new NewClient_local_def main)
  moreover have "local_step plain_codec ?hr c3 c4" unfolding c4_def
    by (rule registers) (simp_all add: c1_def c2_def c3_def broker_register_def Connect_new NewClient_local_def main)
  ultimately have run: "local_run plain_codec ?hr NewClient_local c4" by (rule run_four)
  moreover have "lc_connects c4 = 2" "lc_handlers c4 1 = Some 0" "lc_handlers c4 2 = Some 1" by (simp_all add: defs)
  ultimately show ?thesis using local_broker_never_panics [OF run] by auto
qed

lemma NewClient_local_answers:
  fixes hr :: "X25519Key \<times> X25519Key \<Rightarrow> Identity \<Rightarrow> Request \<Rightarrow> Response \<Rightarrow> conn \<Rightarrow> (error + 'c noiseConn) outcome"
  shows "answers_inv hr NewClient_local \<and> broker_inv (NewClient_local :: 'c lclient)"
  by (simp add: NewClient_local_def answers_inv_def broker_inv_def)

text \<open>
  C16. A connection that \<open>Connect\<close> returns, in every interleaving, is one with the device that was asked for. It was made by a
  handshake with a response that has arrived for the request of this call; if Noise authenticates the messages of the pattern, this response was made by
  the owner of the key of the target, for the ephemeral key and the request id of this very call; and the peer has sent the result that the
  connection is accepted.
\<close>

theorem Connect_reaches_target:
  assumes "local_run cd (handleResponse nz Decrypt cd key) NewClient_local c" and "lc_calls c n = Some cc"
    and "cc_main cc = ConnectReturned (Inr conn)" and "authenticates nz made"
  shows "RemoteIdentity conn = cc_target cc \<and> LocalIdentity conn = kp_Public key \<and>
    (\<exists>response x. response \<in> set (lc_log c) \<and> rs_RequestId response = rq_Id (cc_request cc) \<and>
      EdPublicKeyToX25519 nz (cc_target cc) = Some x \<and>
      made x (snd (cc_ephemeral cc)) (RequestId_Bytes (rq_Id (cc_request cc))) (rs_HandshakeMessage response)) \<and>
    (\<exists>before data. noiseConn_Read Decrypt before MessageMaxSize = Return (data, None, conn) \<and> Unmarshal_Result cd data = Inr ResultTypeOk)"
proof -
  let ?hr = "handleResponse nz Decrypt cd key"
  have "answers_inv ?hr c" using local_answers.run_inv [OF assms(1) NewClient_local_answers] by blast
  then have "call_ok ?hr (set (lc_log c)) cc" using assms(2) by (simp add: answers_inv_def)
  then have "call_backed ?hr (set (lc_log c)) cc conn" using assms(3) by (simp add: call_ok_def)
  then obtain response rawConn where r: "response \<in> set (lc_log c)" "rs_RequestId response = rq_Id (cc_request cc)"
    "?hr (cc_ephemeral cc) (cc_target cc) (cc_request cc) response rawConn = Return (Inr conn)"
    unfolding call_backed_def by blast
  from handleResponse_peer [OF r(3)] handleResponse_authentic [OF r(3) assms(4)] handleResponse_result [OF r(3)] r(1,2) show ?thesis by blast
qed

text \<open>A response that arrives on a connection of its own, with the result behind it.\<close>

lemma incoming_response:
  assumes "Unmarshal_Header cd header = Inr ConnectionTypeResponse" and "length header \<le> MaxLength"
    and "Unmarshal_Response cd answer = Inr response" and "length answer \<le> MaxLength"
    and "\<not> c_closed conn" and "c_in conn = [frame header, frame answer, frame ct]"
  shows "\<exists>conn'. incoming_connection cd conn = Return (Some response, conn') \<and> c_closed conn' = c_closed conn \<and>
    c_werr conn' = c_werr conn \<and> concat (c_in conn') = frame ct \<and> consume 0 (c_in conn') = [frame ct]"
proof -
  obtain segs1 where r1: "DecodeFrom conn_Read conn = Return (header, None, conn\<lparr>c_in := segs1\<rparr>)" "concat segs1 = frame answer @ frame ct"
    "consume 0 segs1 = consume (length (frame header)) (c_in conn)"
    using DecodeFrom_consume [of conn header "frame answer @ frame ct"] assms(2,5,6) by auto
  obtain segs2 where r2: "DecodeFrom conn_Read (conn\<lparr>c_in := segs1\<rparr>) = Return (answer, None, conn\<lparr>c_in := segs2\<rparr>)" "concat segs2 = frame ct"
    "consume 0 segs2 = consume (length (frame answer)) segs1"
    using DecodeFrom_consume [of "conn\<lparr>c_in := segs1\<rparr>" answer "frame ct"] assms(4,5) r1(2) by auto
  have "consume (length (frame answer)) segs1 = consume (length (frame answer)) [frame answer, frame ct]"
    using consume_consume [of "length (frame answer)" 0 segs1] r1(3) assms(6) by (simp add: consume_consume Packet_Size_def packet_consts)
  then have "consume 0 segs2 = [frame ct]" using r2(3) by (simp add: Packet_Size_def packet_consts)
  then show ?thesis using r1(1) r2(1,2) assms(1,3) by (auto simp: incoming_connection_def)
qed

abbreviation reach_hr where
  "reach_hr \<equiv> handleResponse clear_noise untag_cipher plain_codec (long_key 1)"

text \<open>The states of a client with one call, for the witness.\<close>

abbreviation reach_call ::
  "Packet \<Rightarrow> nat connect_pc \<Rightarrow> nat worker_pc \<Rightarrow> remover_pc \<Rightarrow> (Response \<times> conn) list \<Rightarrow> error option \<Rightarrow> nat connect_call" where
  "reach_call p main worker remover waiting ctx \<equiv> \<lparr>cc_serial = 1, cc_request = \<lparr>rq_Id = 1, rq_HandshakeMessage = key_nine\<rparr>,
     cc_ephemeral = (key_nine, key_nine), cc_target = replicate 32 2, cc_packet = p, cc_main = main, cc_worker = worker, cc_remover = remover,
     cc_processor = \<lparr>pr_waiting = waiting, pr_ctx = ctx\<rparr>, cc_outErr = None\<rparr>"

abbreviation reach_client ::
  "(RequestId \<rightharpoonup> nat) \<Rightarrow> (Response \<times> conn) list \<Rightarrow> Packet list \<Rightarrow> Response list \<Rightarrow> nat connect_call \<Rightarrow> nat lclient" where
  "reach_client h responses sent L cc \<equiv> \<lparr>lc_requestId = 1, lc_handlers = h, lc_responseBroker = True, lc_outgoingBroadcastHandler = True,
     lc_done = False, lc_responses = responses, lc_broadcasts = sent, lc_calls = [0 \<mapsto> cc], lc_panic = None, lc_connects = 1, lc_log = L\<rparr>"

lemma reach_run:
  assumes "incoming_connection plain_codec raw = Return (Some response, conn')" and "rs_RequestId response = 1"
    and "hr (key_nine, key_nine) (replicate 32 2) \<lparr>rq_Id = 1, rq_HandshakeMessage = key_nine\<rparr> response conn' = Return (Inr conn)"
  shows "\<exists>p. local_run plain_codec hr NewClient_local (reach_client [1 \<mapsto> 0] [] [p] [response]
    (reach_call p (ConnectReturned (Inr conn)) WorkerEnd RemoverWait [] (Some (IOError ContextCanceled))))"
proof -
  let ?step = "local_step plain_codec hr"
  obtain p where p: "connect_request plain_codec 0 (key_nine, key_nine) (replicate 32 2) [] 1 1 = reach_call p Registering WorkerNone RemoverNone [] None"
    by (simp add: connect_request_def request_packet_def plain_codec_def Packet_New_def NewProcessor_def Let_def)
  let ?h = "[1 \<mapsto> 0] :: RequestId \<rightharpoonup> nat"
  let ?c1 = "reach_client Map.empty [] [] [] (reach_call p Registering WorkerNone RemoverNone [] None)"
  let ?c2 = "reach_client ?h [] [] [] (reach_call p Broadcasting WorkerNone RemoverWait [] None)"
  let ?c3 = "reach_client ?h [] [p] [] (reach_call p Selecting WorkerAccept RemoverWait [] None)"
  let ?c4 = "reach_client ?h [(response, conn')] [p] [response] (reach_call p Selecting WorkerAccept RemoverWait [] None)"
  let ?c5 = "reach_client ?h [] [p] [response] (reach_call p Selecting WorkerAccept RemoverWait [(response, conn')] None)"
  let ?c6 = "reach_client ?h [] [p] [response] (reach_call p Selecting (WorkerOffer conn) RemoverWait [] None)"
  let ?c7 = "reach_client ?h [] [p] [response] (reach_call p (ConnectReturned (Inr conn)) WorkerEnd RemoverWait [] (Some (IOError ContextCanceled)))"
  have "?step NewClient_local ?c1"
    using call_Connect [of "NewClient_local :: nat lclient" 0 plain_codec hr 0 "(key_nine, key_nine)" "replicate 32 2" "[]"] p
    by (simp add: Connect_new NewClient_local_def)
  moreover have "?step ?c1 ?c2" using registers [of ?c1 0 _ plain_codec hr] by (simp add: broker_register_def)
  moreover have "?step ?c2 ?c3" using broadcasts [of ?c2 0 _ plain_codec hr] by simp
  moreover have "?step ?c3 ?c4" using incoming [of ?c3 plain_codec raw response conn' hr] assms(1) by simp
  ultimately have "local_run plain_codec hr NewClient_local ?c4" by (rule run_four)
  moreover have "?step ?c4 ?c5"
    using routes [of ?c4 0 plain_codec hr] assms(2) by (simp add: broker_response_def without_def Processor_Handle_def)
  moreover have "?step ?c5 ?c6"
    using worker_accepts [of ?c5 0 _ 0 plain_codec hr] assms(3) by (simp add: worker_handle_def Processor_Accept_def without_def)
  moreover have "?step ?c6 ?c7"
    using returns_conn [of ?c6 0 _ conn plain_codec hr] by (simp add: connect_return_def cancel_def)
  ultimately have "local_run plain_codec hr NewClient_local ?c7" by (meson rtranclp.rtrancl_into_rtrancl)
  then show ?thesis by blast
qed

theorem Connect_reaches_target_witness:
  "\<exists>c cc conn. local_run plain_codec reach_hr NewClient_local c \<and> lc_calls c 0 = Some cc \<and> cc_main cc = ConnectReturned (Inr conn) \<and>
     RemoteIdentity conn = replicate 32 2 \<and> (\<exists>response\<in>set (lc_log c). rs_HandshakeMessage response = replicate 32 2)"
proof -
  have keys: "EdPublicKeyToX25519 clear_noise (kp_Public (long_key b)) = Some (replicate 32 b)" for b
    by (simp add: clear_noise_def)
  let ?request = "\<lparr>rq_Id = 1, rq_HandshakeMessage = key_nine\<rparr>" and ?e = "(key_nine, key_nine)"
  from local_handshake [OF clear_noise_works tag_cipher_pair plain_codec_works keys [of 1] keys [of 2], of ?request 1 ?e "\<lambda>_. True"]
  obtain response answer hello ct wA rA where answer: "Unmarshal_Response plain_codec answer = Inr response" "rs_RequestId response = 1" "length answer \<le> MaxLength"
    and A: "\<forall>connA rest s ss. conn_healthy connA \<longrightarrow> conn_pending connA = frame ct @ rest \<longrightarrow> consume 0 (c_in connA) = s # ss \<longrightarrow> LengthSize \<le> length s \<longrightarrow>
      (\<exists>cA. reach_hr ?e (replicate 32 2) ?request response connA = Return (Inr (WrapConn (replicate 32 1) (replicate 32 2) cA wA rA)) \<and>
        c_out cA = c_out connA @ frame hello \<and> conn_pending cA = rest)"
    by auto
  let ?raw = "idle_conn\<lparr>c_in := [frame [2], frame answer, frame ct]\<rparr>"
  obtain conn' where conn': "incoming_connection plain_codec ?raw = Return (Some response, conn')"
    "\<not> c_closed conn'" "c_werr conn' = None" "concat (c_in conn') = frame ct" "consume 0 (c_in conn') = [frame ct]"
    using incoming_response [of plain_codec "[2]" answer response ?raw ct] answer(1,3) by (auto simp: plain_codec_def packet_consts)
  obtain conn where hr: "reach_hr ?e (replicate 32 2) ?request response conn' = Return (Inr conn)"
    using A [rule_format, of conn' "[]" "frame ct" "[]"] conn'(2-5)
    by (auto simp: conn_healthy_def conn_pending_def Packet_Size_def packet_consts)
  obtain p where run: "local_run plain_codec reach_hr NewClient_local (reach_client [1 \<mapsto> 0] [] [p] [response]
      (reach_call p (ConnectReturned (Inr conn)) WorkerEnd RemoverWait [] (Some (IOError ContextCanceled))))" (is "local_run _ _ _ ?c")
    using reach_run [where hr = reach_hr, OF conn'(1) answer(2) hr] by blast
  from Connect_reaches_target [OF run _ _ clear_noise_authenticates, of 0 _ conn] have "RemoteIdentity conn = replicate 32 2 \<and> rs_HandshakeMessage response = replicate 32 2"
    by simp
  with run show ?thesis by (intro exI [of _ ?c]) auto
qed

text \<open>
  A \<open>Connect\<close> that starts after the broker of a closed client has stopped never returns, not even when its
  context is done: it stays at its registration for ever.
\<close>

theorem closed_client_hangs_Connect:
  assumes "local_run cd hr c c'" and "\<not> lc_responseBroker c" and "lc_calls c n = Some cc" and "cc_main cc = Registering"
  shows "\<exists>cc'. lc_calls c' n = Some cc' \<and> cc_main cc' = Registering"
proof -
  have "\<not> lc_responseBroker c' \<and> (\<exists>cc'. lc_calls c' n = Some cc' \<and> cc_main cc' = Registering)"
    using assms(1)
  proof (induction rule: rtranclp_induct)
    case (step c c')
    then obtain cc where cc: "\<not> lc_responseBroker c" "lc_calls c n = Some cc" "cc_main cc = Registering" by blast
    from step.hyps(2) show ?case
      by cases (use cc in \<open>auto simp: Connect_new local_Close_def connect_return_def connect_ctx_def worker_ctx_def worker_handle_def
        Processor_Accept_def Let_def split: outcome.split sum.split prod.split\<close>)
  qed (use assms(2-4) in blast)
  then show ?thesis by blast
qed

theorem closed_client_hangs_Connect_witness:
  "\<exists>c c' cc'. local_run plain_codec (\<lambda>e t q r x. Return (Inl (IOError EOF))) (NewClient_local :: nat lclient) c \<and>
     local_step plain_codec (\<lambda>e t q r x. Return (Inl (IOError EOF))) c c' \<and>
     lc_calls c' 0 = Some cc' \<and> pr_ctx (cc_processor cc') = Some (IOError DeadlineExceeded) \<and> cc_main cc' = Registering"
proof -
  let ?hr = "\<lambda>e t q r x. Return (Inl (IOError EOF)) :: (error + nat noiseConn) outcome"
  define c1 where "c1 = local_Close (NewClient_local :: nat lclient)"
  define c2 where "c2 = c1\<lparr>lc_responseBroker := False\<rparr>"
  define c3 where "c3 = Connect plain_codec 0 ([], []) [] [] 0 c2"
  define cc where "cc = the (lc_calls c3 0)"
  let ?cc = "cc\<lparr>cc_processor := (cc_processor cc)\<lparr>pr_ctx := Some (IOError DeadlineExceeded)\<rparr>\<rparr>"
  let ?c4 = "set_connect 0 ?cc c3"
  note defs = c1_def c2_def c3_def Connect_new NewClient_local_def local_Close_def
  have main: "cc_main (connect_request plain_codec 0 ([], []) [] [] n r) = Registering"
    "pr_ctx (cc_processor (connect_request plain_codec 0 ([], []) [] [] n r)) = None" for n r
    by (simp_all add: connect_request_def request_packet_def plain_codec_def Packet_New_def NewProcessor_def Let_def)
  have "local_step plain_codec ?hr NewClient_local c1" unfolding c1_def by (rule call_Close) (simp add: NewClient_local_def)
  moreover have "local_step plain_codec ?hr c1 c2" unfolding c2_def by (rule broker_stops) (simp_all add: c1_def NewClient_local_def local_Close_def)
  moreover have "local_step plain_codec ?hr c2 c3" unfolding c3_def
    by (rule call_Connect) (simp_all add: c1_def c2_def NewClient_local_def local_Close_def)
  ultimately have run: "local_run plain_codec ?hr NewClient_local c3" by (rule rtranclp.rtrancl_into_rtrancl [OF run_two])
  have cc: "lc_calls c3 0 = Some cc" "cc_main cc = Registering" "pr_ctx (cc_processor cc) = None" "\<not> lc_responseBroker c3" "lc_panic c3 = None"
    by (simp_all add: defs cc_def main)
  have step: "local_step plain_codec ?hr c3 ?c4" by (rule parent_context [OF cc(5,1,3)])
  from closed_client_hangs_Connect [OF r_into_rtranclp [where r = "local_step plain_codec ?hr", OF step] cc(4,1,2)] obtain cc' where
    "lc_calls ?c4 0 = Some cc'" "cc_main cc' = Registering" by blast
  then show ?thesis using run step by (intro exI [of _ c3] exI [of _ ?c4] exI [of _ ?cc]) auto
qed

text \<open>
  C40. \<open>Accept\<close> returns connections with devices that are not trusted: for the request of a device \<open>keyA\<close> that the trust store of \<open>keyB\<close> does not trust,
  the keys of both and the ephemeral key being key pairs, there is a Hello after which \<open>Accept\<close> returns a connection with \<open>keyA\<close> and no error. The device
  is sent a refusal, but its connection is handed out all the same.
\<close>

theorem Accept_returns_untrusted:
  fixes keyA keyB :: KeyPair and ephemeral :: "X25519Key \<times> X25519Key"
  assumes "fallback_works nz pair matched (Suc k)" and "cipher_pair enc dec matched" and "local_codec_works cd"
    and "EdPublicKeyToX25519 nz (kp_Public keyA) = Some xA" and "EdPublicKeyToX25519 nz (kp_Public keyB) = Some xB"
    and "request = \<lparr>rq_Id = n, rq_HandshakeMessage = snd ephemeral\<rparr>"
    and "pair (EdPrivateKeyToX25519 nz (kp_Private keyA), xA)" and "pair (EdPrivateKeyToX25519 nz (kp_Private keyB), xB)" and "pair ephemeral"
    and "\<not> IsTrusted xA"
  shows "\<exists>hello. \<forall>conn rest requests. conn_healthy conn \<longrightarrow> conn_pending conn = frame hello @ rest \<longrightarrow>
    (\<exists>nc. local_Accept nz enc cd keyB IsTrusted (Inr (request, conn) # requests) = Return (Inr nc) \<and> RemoteIdentity nc = xA)"
proof -
  from local_handshake [OF assms(1-9), of IsTrusted] obtain answer hello ct wB rB where B: "\<forall>connB rest. conn_healthy connB \<longrightarrow>
      conn_pending connB = frame hello @ rest \<longrightarrow> (\<exists>cB. handleRequest nz enc cd keyB IsTrusted request connB =
        Return (Inr (WrapConn (kp_Public keyB) xA cB wB rB)) \<and> c_out cB = c_out connB @ frame answer @ frame ct)" by (elim exE conjE)
  have "\<exists>nc. local_Accept nz enc cd keyB IsTrusted (Inr (request, conn) # requests) = Return (Inr nc) \<and> RemoteIdentity nc = xA"
    if "conn_healthy conn" "conn_pending conn = frame hello @ rest" for conn rest requests
    using B [rule_format, OF that] by (auto simp: RemoteIdentity_def WrapConn_def)
  then show ?thesis by blast
qed

theorem Accept_returns_untrusted_witness:
  "\<exists>conn nc. local_Accept clear_noise tag_cipher plain_codec (long_key 2) (\<lambda>_. False) [Inr (\<lparr>rq_Id = 4, rq_HandshakeMessage = key_nine\<rparr>, conn)] =
     Return (Inr nc) \<and> RemoteIdentity nc = replicate 32 1"
proof -
  have keys: "EdPublicKeyToX25519 clear_noise (kp_Public (long_key b)) = Some (replicate 32 b)" for b
    by (simp add: clear_noise_def)
  obtain hello where hello: "\<And>conn rest requests. conn_healthy conn \<Longrightarrow> conn_pending conn = frame hello @ rest \<Longrightarrow>
      \<exists>nc. local_Accept clear_noise tag_cipher plain_codec (long_key 2) (\<lambda>_. False) (Inr (\<lparr>rq_Id = 4, rq_HandshakeMessage = key_nine\<rparr>, conn) # requests) =
        Return (Inr nc) \<and> RemoteIdentity nc = replicate 32 1"
    using Accept_returns_untrusted [OF clear_noise_works tag_cipher_pair plain_codec_works keys [of 1] keys [of 2],
      of "\<lparr>rq_Id = 4, rq_HandshakeMessage = key_nine\<rparr>" 4 "(key_nine, key_nine)" "\<lambda>_. False"] by auto
  have "conn_healthy (idle_conn\<lparr>c_in := [frame hello]\<rparr>)" "conn_pending (idle_conn\<lparr>c_in := [frame hello]\<rparr>) = frame hello @ []"
    by (simp_all add: conn_healthy_def conn_pending_def)
  from hello [OF this] show ?thesis by blast
qed

end
