(* ===== verification/Local_Accept.thy ===== *)
theory Local_Accept
  imports Local_Client_Props
begin

text \<open>
  \<open>Accept\<close> of \<open>lib/local/client.go\<close> with its goroutines: the two of \<open>listenRequests\<close>, which read datagrams of the beacon into a buffer of
  eight packets and dial the devices that sent a request, and the one that makes the encrypted connection. The lemmas show that the
  call refines the loop \<open>local_Accept\<close> over the requests that were handed on, each of which came in a datagram that passed the check.
\<close>

section \<open>State\<close>

datatype beacon_reader_pc = BeaconRead | BeaconPush bytes bool | BeaconEnd

datatype requests_pc = RequestsSelect | RequestsHandle Request conn | RequestsEnd

datatype 'c accept_worker = AcceptorAccept | AcceptorOffer "'c noiseConn" | AcceptorEnd

datatype 'c accept_main = AcceptSelect | AcceptReturned "error + 'c noiseConn"

text \<open>
  A packet is kept with the answer whether its sender has a UDP address. \<open>ac_seen\<close>, the datagrams read so far, and \<open>ac_handed\<close>, the
  requests that the third goroutine has taken, are not read by any code.
\<close>

record 'c accept_call =
  ac_reader :: beacon_reader_pc
  ac_packets :: "(bytes \<times> bool) list"
  ac_requests :: requests_pc
  ac_worker :: "'c accept_worker"
  ac_main :: "'c accept_main"
  ac_ctx :: "error option"
  ac_outErr :: "error option"
  ac_panic :: "panic option"
  ac_seen :: "bytes list"
  ac_handed :: "(Request \<times> conn) list"

definition start_accept :: "'c accept_call" where
  "start_accept =
     \<lparr>ac_reader = BeaconRead, ac_packets = [], ac_requests = RequestsSelect, ac_worker = AcceptorAccept, ac_main = AcceptSelect,
      ac_ctx = None, ac_outErr = None, ac_panic = None, ac_seen = [], ac_handed = []\<rparr>"

section \<open>Operations\<close>

text \<open>The first goroutine of \<open>listenRequests\<close>, with what the beacon returns.\<close>

definition reader_datagram :: "error + bytes \<times> bool \<Rightarrow> 'c accept_call \<Rightarrow> 'c accept_call" where
  "reader_datagram r a =
     (case r of
        Inl e1 \<Rightarrow> a\<lparr>ac_reader := BeaconEnd\<rparr>
      | Inr (data, udp) \<Rightarrow>
          let a1 = a\<lparr>ac_seen := ac_seen a @ [data]\<rparr> in
          if ac_ctx a \<noteq> None then a1\<lparr>ac_reader := BeaconEnd\<rparr>
          else
            (case Packet_Decode data of
               Inl e1 \<Rightarrow> a1
             | Inr p \<Rightarrow> a1\<lparr>ac_reader := BeaconPush p udp\<rparr>))"

definition packetsSize :: nat where "packetsSize = 8"

text \<open>The second goroutine: what becomes of a packet.\<close>

definition requests_packet :: "(Request \<times> conn) option \<Rightarrow> 'c accept_call \<Rightarrow> 'c accept_call" where
  "requests_packet r a =
     (case r of None \<Rightarrow> a | Some (request, conn) \<Rightarrow> a\<lparr>ac_requests := RequestsHandle request conn\<rparr>)"

definition accept_cancel :: "'c accept_call \<Rightarrow> 'c accept_call" where
  "accept_cancel a = a\<lparr>ac_ctx := (case ac_ctx a of None \<Rightarrow> Some (IOError ContextCanceled) | Some e \<Rightarrow> Some e)\<rparr>"

text \<open>The third goroutine with a request; \<open>hq\<close> is \<open>handleRequest\<close>.\<close>

definition acceptor_handle ::
  "(Request \<Rightarrow> conn \<Rightarrow> (error + 'c noiseConn) outcome) \<Rightarrow> Request \<Rightarrow> conn \<Rightarrow> 'c accept_call \<Rightarrow> 'c accept_call" where
  "acceptor_handle hq request rawConn a =
     (let a1 = a\<lparr>ac_requests := RequestsSelect, ac_handed := ac_handed a @ [(request, rawConn)]\<rparr> in
      case hq request rawConn of
        Panic p \<Rightarrow> a1\<lparr>ac_panic := Some p\<rparr>
      | Diverge \<Rightarrow> a1\<lparr>ac_worker := AcceptorEnd\<rparr>
      | Return (Inl e2) \<Rightarrow> a1
      | Return (Inr secConn) \<Rightarrow> a1\<lparr>ac_worker := AcceptorOffer secConn\<rparr>)"

definition acceptor_ctx :: "error \<Rightarrow> 'c accept_call \<Rightarrow> 'c accept_call" where
  "acceptor_ctx e1 a = accept_cancel (a\<lparr>ac_outErr := Some e1, ac_worker := AcceptorEnd\<rparr>)"

text \<open>The return, with the deferred \<open>cancel\<close>.\<close>

definition accept_return :: "error + 'c noiseConn \<Rightarrow> 'c accept_call \<Rightarrow> 'c accept_call" where
  "accept_return r a = accept_cancel (a\<lparr>ac_main := AcceptReturned r\<rparr>)"

definition accept_ctx :: "error \<Rightarrow> 'c accept_call \<Rightarrow> 'c accept_call" where
  "accept_ctx ctxErr a = accept_return (Inl (case ac_outErr a of Some err \<Rightarrow> err | None \<Rightarrow> ctxErr)) a"

section \<open>Steps\<close>

text \<open>\<open>now\<close> and \<open>dial\<close> are the time and the result of dialling when a packet is handled.\<close>

inductive accept_step ::
  "local_codec \<Rightarrow> HMACKey \<Rightarrow> (Request \<Rightarrow> conn \<Rightarrow> (error + 'c noiseConn) outcome) \<Rightarrow> 'c accept_call \<Rightarrow> 'c accept_call \<Rightarrow> bool"
  for cd key hq where
  reader_reads: "ac_panic a = None \<Longrightarrow> ac_reader a = BeaconRead \<Longrightarrow> accept_step cd key hq a (reader_datagram r a)"
| reader_pushes: "ac_panic a = None \<Longrightarrow> ac_reader a = BeaconPush p udp \<Longrightarrow> length (ac_packets a) < packetsSize \<Longrightarrow>
    accept_step cd key hq a (a\<lparr>ac_reader := BeaconRead, ac_packets := ac_packets a @ [(p, udp)]\<rparr>)"
| requests_takes: "ac_panic a = None \<Longrightarrow> ac_requests a = RequestsSelect \<Longrightarrow> ac_packets a = (p, udp) # ps \<Longrightarrow>
    incoming_packet cd now key udp dial p = Return r \<Longrightarrow>
    accept_step cd key hq a (requests_packet r (a\<lparr>ac_packets := ps\<rparr>))"
| requests_ctx: "ac_panic a = None \<Longrightarrow> ac_requests a = RequestsSelect \<Longrightarrow> ac_ctx a = Some e \<Longrightarrow>
    accept_step cd key hq a (a\<lparr>ac_requests := RequestsEnd\<rparr>)"
| requests_unhandled: "ac_panic a = None \<Longrightarrow> ac_requests a = RequestsHandle request conn \<Longrightarrow> ac_ctx a = Some e \<Longrightarrow>
    accept_step cd key hq a (a\<lparr>ac_requests := RequestsEnd\<rparr>)"
| acceptor_takes: "ac_panic a = None \<Longrightarrow> ac_worker a = AcceptorAccept \<Longrightarrow> ac_requests a = RequestsHandle request conn \<Longrightarrow>
    accept_step cd key hq a (acceptor_handle hq request conn a)"
| acceptor_fails: "ac_panic a = None \<Longrightarrow> ac_worker a = AcceptorAccept \<Longrightarrow> ac_ctx a = Some e \<Longrightarrow>
    accept_step cd key hq a (acceptor_ctx e a)"
| acceptor_closes: "ac_panic a = None \<Longrightarrow> ac_worker a = AcceptorOffer secConn \<Longrightarrow> ac_ctx a = Some e \<Longrightarrow>
    accept_step cd key hq a (a\<lparr>ac_worker := AcceptorEnd\<rparr>)"
| accept_conn: "ac_panic a = None \<Longrightarrow> ac_main a = AcceptSelect \<Longrightarrow> ac_worker a = AcceptorOffer secConn \<Longrightarrow>
    accept_step cd key hq a (accept_return (Inr secConn) (a\<lparr>ac_worker := AcceptorEnd\<rparr>))"
| accept_canceled: "ac_panic a = None \<Longrightarrow> ac_main a = AcceptSelect \<Longrightarrow> ac_ctx a = Some e \<Longrightarrow>
    accept_step cd key hq a (accept_ctx e a)"
| accept_closed: "ac_panic a = None \<Longrightarrow> ac_main a = AcceptSelect \<Longrightarrow>
    accept_step cd key hq a (accept_return (Inl (IOError NetErrClosed)) a)"

abbreviation accept_run where
  "accept_run cd key hq \<equiv> (accept_step cd key hq)\<^sup>*\<^sup>*"

lemmas accept_defs = reader_datagram_def requests_packet_def accept_cancel_def acceptor_handle_def acceptor_ctx_def
  accept_return_def accept_ctx_def Let_def

section \<open>Requests come in datagrams\<close>

text \<open>A request of a datagram that passes the check with the key of this device.\<close>

definition from_datagram :: "local_codec \<Rightarrow> HMACKey \<Rightarrow> bytes list \<Rightarrow> Request \<times> conn \<Rightarrow> bool" where
  "from_datagram cd key seen rc \<longleftrightarrow>
     (\<exists>data\<in>set seen. \<exists>now udp dial. incoming_broadcast cd now key udp dial data = Return (Some rc))"

text \<open>A packet of a datagram.\<close>

definition from_beacon :: "bytes list \<Rightarrow> bytes \<Rightarrow> bool" where
  "from_beacon seen p \<longleftrightarrow> (\<exists>data\<in>set seen. Packet_Decode data = Inr p)"

lemma from_mono:
  "from_beacon seen p \<Longrightarrow> from_beacon (seen @ ds) p" "from_datagram cd key seen rc \<Longrightarrow> from_datagram cd key (seen @ ds) rc"
  unfolding from_beacon_def from_datagram_def set_append by blast+

lemma from_datagram_packet:
  assumes "from_beacon seen p" and "incoming_packet cd now key udp dial p = Return (Some rc)"
  shows "from_datagram cd key seen rc"
proof -
  obtain data where "data \<in> set seen" "Packet_Decode data = Inr p" using assms(1) by (auto simp: from_beacon_def)
  moreover have "incoming_broadcast cd now key udp dial data = Return (Some rc)" if "Packet_Decode data = Inr p" for data
    using assms(2) that by (simp add: incoming_broadcast_def)
  ultimately show ?thesis unfolding from_datagram_def by blast
qed

definition arrivals_inv :: "local_codec \<Rightarrow> HMACKey \<Rightarrow> 'c accept_call \<Rightarrow> bool" where
  "arrivals_inv cd key a \<longleftrightarrow>
     (\<forall>p udp. ac_reader a = BeaconPush p udp \<longrightarrow> from_beacon (ac_seen a) p) \<and>
     (\<forall>x\<in>set (ac_packets a). from_beacon (ac_seen a) (fst x)) \<and> length (ac_packets a) \<le> packetsSize \<and>
     (\<forall>request conn. ac_requests a = RequestsHandle request conn \<longrightarrow> from_datagram cd key (ac_seen a) (request, conn)) \<and>
     (\<forall>rc\<in>set (ac_handed a). from_datagram cd key (ac_seen a) rc)"

lemma arrivals_step:
  assumes "accept_step cd key hq a b" and "arrivals_inv cd key a"
  shows "arrivals_inv cd key b"
  using assms
proof cases
  case (reader_reads r)
  then show ?thesis using assms(2)
    by (auto simp: arrivals_inv_def reader_datagram_def Let_def from_mono split: sum.split)
      (auto simp: from_beacon_def)
next
  case (requests_takes p udp ps now dial r)
  have "from_beacon (ac_seen a) p" using requests_takes(4) assms(2) by (simp add: arrivals_inv_def)
  then have "from_datagram cd key (ac_seen a) rc" if "r = Some rc" for rc
    using from_datagram_packet requests_takes(5) that by blast
  then show ?thesis using assms(2) requests_takes
    by (auto simp: arrivals_inv_def requests_packet_def split: option.split)
next
  case (acceptor_takes request conn)
  then show ?thesis using assms(2)
    by (auto simp: arrivals_inv_def acceptor_handle_def Let_def split: outcome.split sum.split)
qed (auto simp: arrivals_inv_def accept_defs)

section \<open>The call refines the loop\<close>

definition refused :: "(Request \<Rightarrow> conn \<Rightarrow> (error + 'c noiseConn) outcome) \<Rightarrow> (Request \<times> conn) list \<Rightarrow> bool" where
  "refused hq xs \<longleftrightarrow> (\<forall>rc\<in>set xs. \<exists>e. hq (fst rc) (snd rc) = Return (Inl e))"

definition offered :: "(Request \<Rightarrow> conn \<Rightarrow> (error + 'c noiseConn) outcome) \<Rightarrow> (Request \<times> conn) list \<Rightarrow> 'c noiseConn \<Rightarrow> bool" where
  "offered hq xs secConn \<longleftrightarrow> (\<exists>ys request conn. xs = ys @ [(request, conn)] \<and> refused hq ys \<and> hq request conn = Return (Inr secConn))"

text \<open>The context ends with the call, which returns a connection or, after \<open>Close\<close>, an error.\<close>

definition acceptor_inv :: "(Request \<Rightarrow> conn \<Rightarrow> (error + 'c noiseConn) outcome) \<Rightarrow> 'c accept_call \<Rightarrow> bool" where
  "acceptor_inv hq a \<longleftrightarrow>
     (ac_panic a = None \<longrightarrow> ac_worker a = AcceptorAccept \<longrightarrow> refused hq (ac_handed a)) \<and>
     (\<forall>secConn. ac_worker a = AcceptorOffer secConn \<longrightarrow> offered hq (ac_handed a) secConn) \<and>
     (\<forall>secConn. ac_main a = AcceptReturned (Inr secConn) \<longrightarrow> offered hq (ac_handed a) secConn \<and> ac_worker a = AcceptorEnd) \<and>
     (\<forall>e. ac_main a = AcceptReturned (Inl e) \<longrightarrow> e = IOError NetErrClosed) \<and>
     (ac_ctx a = None \<longleftrightarrow> ac_main a = AcceptSelect) \<and> (ac_outErr a \<noteq> None \<longrightarrow> ac_ctx a \<noteq> None)"

lemma acceptor_step:
  assumes "accept_step cd key hq a b" and "acceptor_inv hq a"
  shows "acceptor_inv hq b"
  using assms
proof cases
  case (reader_reads r)
  then show ?thesis using assms(2) by (auto simp: acceptor_inv_def reader_datagram_def Let_def split: sum.split)
next
  case (acceptor_takes request conn)
  have "refused hq (ac_handed a)" using acceptor_takes assms(2) by (simp add: acceptor_inv_def)
  then show ?thesis using assms(2) acceptor_takes
    by (auto simp: acceptor_inv_def acceptor_handle_def Let_def refused_def offered_def split: outcome.split sum.split)
qed (auto simp: acceptor_inv_def accept_defs split: option.split)

interpretation accept_arrivals: step_invariant "accept_step cd key hq" "\<lambda>a. arrivals_inv cd key a \<and> acceptor_inv hq a" for cd key hq
  by unfold_locales (blast intro: arrivals_step acceptor_step)

lemma start_accept_inv: "arrivals_inv cd key start_accept \<and> acceptor_inv hq start_accept"
  by (simp add: arrivals_inv_def acceptor_inv_def start_accept_def refused_def)

lemma local_Accept_offered:
  assumes "offered (handleRequest nz Encrypt cd keyPair IsTrusted) xs secConn"
  shows "local_Accept nz Encrypt cd keyPair IsTrusted (map Inr xs) = Return (Inr secConn)"
proof -
  have "refused (handleRequest nz Encrypt cd keyPair IsTrusted) ys \<Longrightarrow>
      local_Accept nz Encrypt cd keyPair IsTrusted (map Inr ys @ rest) = local_Accept nz Encrypt cd keyPair IsTrusted rest" for ys rest
    by (induction ys) (auto simp: refused_def)
  then show ?thesis using assms by (auto simp: offered_def)
qed

text \<open>
  C17. \<open>Accept\<close> refines its loop, however its four goroutines are scheduled. The connection it returns is the one that
  the loop over the requests gives; each of these requests was in a datagram that has passed \<open>verifyRequestMessage\<close> with this device's key (which does not
  mean that it was made with this key, see \<open>request_code_is_transferable\<close>); and the only error it ever returns is that of a closed client.
\<close>

theorem Accept_refines_loop:
  assumes "accept_run cd key (handleRequest nz Encrypt cd keyPair IsTrusted) start_accept a"
  shows "(\<forall>secConn. ac_main a = AcceptReturned (Inr secConn) \<longrightarrow>
      local_Accept nz Encrypt cd keyPair IsTrusted (map Inr (ac_handed a)) = Return (Inr secConn)) \<and>
    (\<forall>rc\<in>set (ac_handed a). from_datagram cd key (ac_seen a) rc) \<and>
    (\<forall>e. ac_main a = AcceptReturned (Inl e) \<longrightarrow> e = IOError NetErrClosed)"
proof -
  have "arrivals_inv cd key a" "acceptor_inv (handleRequest nz Encrypt cd keyPair IsTrusted) a"
    using accept_arrivals.run_inv [OF assms start_accept_inv] by simp_all
  then show ?thesis unfolding arrivals_inv_def acceptor_inv_def using local_Accept_offered by blast
qed

text \<open>A datagram that holds a request is answered in some run.\<close>

lemma Accept_can_return:
  assumes "incoming_broadcast cd now key udp dial data = Return (Some (request, conn))" and "hq request conn = Return (Inr secConn)"
  shows "\<exists>a. accept_run cd key hq start_accept a \<and> ac_main a = AcceptReturned (Inr secConn) \<and> ac_handed a = [(request, conn)]"
proof -
  obtain p where p: "Packet_Decode data = Inr p" "incoming_packet cd now key udp dial p = Return (Some (request, conn))"
    using assms(1) by (auto simp: incoming_broadcast_def split: sum.split_asm)
  let ?a1 = "start_accept\<lparr>ac_seen := [data], ac_reader := BeaconPush p udp\<rparr>"
  let ?a2 = "start_accept\<lparr>ac_seen := [data], ac_packets := [(p, udp)]\<rparr>"
  let ?a3 = "start_accept\<lparr>ac_seen := [data], ac_requests := RequestsHandle request conn\<rparr>"
  let ?a4 = "start_accept\<lparr>ac_seen := [data], ac_handed := [(request, conn)], ac_worker := AcceptorOffer secConn\<rparr>"
  let ?a5 = "accept_return (Inr secConn) (?a4\<lparr>ac_worker := AcceptorEnd\<rparr>)"
  have "accept_step cd key hq start_accept ?a1"
    using reader_reads [of start_accept cd key hq "Inr (data, udp)"] p(1) by (simp add: start_accept_def reader_datagram_def)
  moreover have "accept_step cd key hq ?a1 ?a2"
    using reader_pushes [of ?a1 p udp cd key hq] by (simp add: start_accept_def packetsSize_def)
  moreover have "accept_step cd key hq ?a2 ?a3"
    using requests_takes [of ?a2 p udp "[]" cd now key dial "Some (request, conn)" hq] p(2) by (simp add: start_accept_def requests_packet_def)
  moreover have "accept_step cd key hq ?a3 ?a4"
    using acceptor_takes [of ?a3 request conn cd key hq] assms(2) by (simp add: start_accept_def acceptor_handle_def)
  moreover have "accept_step cd key hq ?a4 ?a5"
    using accept_conn [of ?a4 secConn cd key hq] by (simp add: start_accept_def)
  ultimately have "accept_run cd key hq start_accept ?a5" by (meson converse_rtranclp_into_rtranclp rtranclp.rtrancl_refl)
  then show ?thesis by (intro exI [of _ ?a5]) (simp add: accept_return_def accept_cancel_def)
qed

text \<open>
  The first goroutine of a call that has returned may wait forever to put a packet into the full buffer: nothing takes packets any more.
\<close>

definition leaking :: "'c accept_call \<Rightarrow> bool" where
  "leaking a \<longleftrightarrow> (\<exists>p udp. ac_reader a = BeaconPush p udp) \<and> length (ac_packets a) = packetsSize \<and> ac_requests a = RequestsEnd"

interpretation accept_leak: step_invariant "accept_step cd key hq" leaking for cd key hq
  by unfold_locales
    (erule accept_step.cases;
      auto simp: leaking_def accept_return_def accept_ctx_def accept_cancel_def acceptor_ctx_def)

lemma full_reader_leaks: "leaking a \<Longrightarrow> accept_run cd key hq a b \<Longrightarrow> leaking b"
  by (rule accept_leak.run_inv)

text \<open>Two devices: the request of the first in a datagram, and the run of \<open>Accept\<close> of the second in which it is answered.\<close>

lemma small_accept:
  "\<exists>data nc conn. incoming_broadcast plain_codec (1700000000 + unixToInternal, 0) [7] True (Inr conn) data =
      Return (Some (\<lparr>rq_Id = 4, rq_HandshakeMessage = key_nine\<rparr>, nc)) \<and>
    (\<exists>secConn. handleRequest clear_noise tag_cipher plain_codec (long_key 2) (\<lambda>_. True) \<lparr>rq_Id = 4, rq_HandshakeMessage = key_nine\<rparr> nc =
      Return (Inr secConn))"
proof -
  let ?request = "\<lparr>rq_Id = 4, rq_HandshakeMessage = key_nine\<rparr>"
  have keys: "EdPublicKeyToX25519 clear_noise (kp_Public (long_key b)) = Some (replicate 32 b)" for b by (simp add: clear_noise_def)
  from local_handshake [OF clear_noise_works tag_cipher_pair plain_codec_works keys [of 1] keys [of 2],
      of ?request 4 "(key_nine, key_nine)" "\<lambda>_. True"]
  obtain hello where hello: "\<And>c rest. conn_healthy c \<Longrightarrow> conn_pending c = frame hello @ rest \<Longrightarrow>
      \<exists>nc. handleRequest clear_noise tag_cipher plain_codec (long_key 2) (\<lambda>_. True) ?request c = Return (Inr nc)"
    by simp metis
  let ?conn = "idle_conn\<lparr>c_in := [frame hello]\<rparr>"
  have conn: "conn_healthy ?conn" "conn_pending ?conn = frame hello" by (simp_all add: conn_healthy_def conn_pending_def)
  obtain nc where nc: "Packet_WriteTo conn_Write [2] ?conn = Return (Packet_Size [2], None, nc)" "conn_healthy nc"
    using net_sink.Packet_WriteTo_healthy [OF conn(1), of "[2]"] by (auto simp: packet_consts)
  have "conn_pending nc = frame hello @ []" using Packet_WriteTo_input [OF nc(1)] conn(2) by simp
  from hello [OF nc(2) this] obtain secConn where sec:
    "handleRequest clear_noise tag_cipher plain_codec (long_key 2) (\<lambda>_. True) ?request nc = Return (Inr secConn)" by blast
  obtain p where p: "request_packet plain_codec 1700000000 [7] ?request = Inr p" "length p \<le> MaxLength"
    by (simp add: request_packet_def plain_codec_def request_mac_def Packet_New_def packet_consts)
  have "incoming_broadcast plain_codec (1700000000 + unixToInternal, 0) [7] True (Inr ?conn) (frame p) = Return (Some (?request, nc))"
    using datagram_answered [OF plain_codec_roundtrip p _ _ _ _ _ nc(1), where now = "(1700000000 + unixToInternal, 0)" and sent = 0 and elapsed = 0]
    by (simp add: unixToInternal_def plain_codec_def)
  then show ?thesis using sec by blast
qed

theorem Accept_refines_loop_witness:
  "\<exists>a secConn. accept_run plain_codec [7] (handleRequest clear_noise tag_cipher plain_codec (long_key 2) (\<lambda>_. True)) start_accept a \<and>
     ac_main a = AcceptReturned (Inr secConn) \<and>
     local_Accept clear_noise tag_cipher plain_codec (long_key 2) (\<lambda>_. True) (map Inr (ac_handed a)) = Return (Inr secConn)"
proof -
  obtain data nc conn secConn where
    "incoming_broadcast plain_codec (1700000000 + unixToInternal, 0) [7] True (Inr conn) data =
       Return (Some (\<lparr>rq_Id = 4, rq_HandshakeMessage = key_nine\<rparr>, nc))"
    "handleRequest clear_noise tag_cipher plain_codec (long_key 2) (\<lambda>_. True) \<lparr>rq_Id = 4, rq_HandshakeMessage = key_nine\<rparr> nc = Return (Inr secConn)"
    using small_accept by blast
  from Accept_can_return [where hq = "handleRequest clear_noise tag_cipher plain_codec (long_key 2) (\<lambda>_. True)", OF this] obtain a where
    a: "accept_run plain_codec [7] (handleRequest clear_noise tag_cipher plain_codec (long_key 2) (\<lambda>_. True)) start_accept a"
      "ac_main a = AcceptReturned (Inr secConn)" by blast
  with Accept_refines_loop [OF a(1)] show ?thesis by blast
qed

end
