(* ===== verification/Local_Listener.thy ===== *)
theory Local_Listener
  imports Local_Client
begin

text \<open>
  The listeners of \<open>lib/local\<close> (\<open>listener.go\<close>, \<open>request.go\<close>, \<open>response.go\<close>): a listener and a handler that share a \<open>Processor\<close>. The calls of \<open>Handle\<close>,
  \<open>Error\<close> and \<open>Accept\<close> run concurrently and meet on its two unbuffered channels; they are a step relation. A message is an interface value, which the
  listeners for requests and for responses assert to be of their type.
\<close>

section \<open>Calls\<close>

datatype any_message = RequestValue Request | ResponseValue Response

datatype handle_pc = HandleWaits | HandleReturns bool

datatype error_pc = ErrorWaits | ErrorReturns

text \<open>The results of \<open>Accept\<close>: a message and its connection, and an error; each can be missing.\<close>

type_synonym accepted = "(any_message \<times> conn) option \<times> error option"

datatype listener_accept_pc = AcceptWaits | AcceptReturns accepted

text \<open>The context of the processor, and every call made on it so far.\<close>

record listener =
  ls_ctx :: "error option"
  ls_handles :: "nat \<rightharpoonup> (any_message \<times> conn) \<times> handle_pc"
  ls_errors :: "nat \<rightharpoonup> error option \<times> error_pc"
  ls_accepts :: "nat \<rightharpoonup> listener_accept_pc"

definition NewListener :: "error option \<Rightarrow> listener" where
  "NewListener ctx = \<lparr>ls_ctx = ctx, ls_handles = Map.empty, ls_errors = Map.empty, ls_accepts = Map.empty\<rparr>"

abbreviation set_handle :: "nat \<Rightarrow> (any_message \<times> conn) \<Rightarrow> handle_pc \<Rightarrow> listener \<Rightarrow> listener" where
  "set_handle h m p l \<equiv> l\<lparr>ls_handles := (ls_handles l)(h \<mapsto> (m, p))\<rparr>"

abbreviation set_error :: "nat \<Rightarrow> error option \<Rightarrow> error_pc \<Rightarrow> listener \<Rightarrow> listener" where
  "set_error k e p l \<equiv> l\<lparr>ls_errors := (ls_errors l)(k \<mapsto> (e, p))\<rparr>"

abbreviation set_accept :: "nat \<Rightarrow> listener_accept_pc \<Rightarrow> listener \<Rightarrow> listener" where
  "set_accept n p l \<equiv> l\<lparr>ls_accepts := (ls_accepts l)(n \<mapsto> p)\<rparr>"

text \<open>The three selects. A call of \<open>Handle\<close> or \<open>Error\<close> meets one of \<open>Accept\<close>, or the context ends it.\<close>

definition deliver :: "nat \<Rightarrow> nat \<Rightarrow> (any_message \<times> conn) \<Rightarrow> listener \<Rightarrow> listener" where
  "deliver h n out l = set_handle h out (HandleReturns True) (set_accept n (AcceptReturns (Some out, None)) l)"

definition deliver_error :: "nat \<Rightarrow> nat \<Rightarrow> error option \<Rightarrow> listener \<Rightarrow> listener" where
  "deliver_error k n err l = set_error k err ErrorReturns (set_accept n (AcceptReturns (None, err)) l)"

inductive listener_step :: "listener \<Rightarrow> listener \<Rightarrow> bool" where
  calls_Handle: "ls_handles l h = None \<Longrightarrow> listener_step l (set_handle h out HandleWaits l)"
| calls_Error: "ls_errors l k = None \<Longrightarrow> listener_step l (set_error k err ErrorWaits l)"
| calls_Accept: "ls_accepts l n = None \<Longrightarrow> listener_step l (set_accept n AcceptWaits l)"
| out: "ls_handles l h = Some (m, HandleWaits) \<Longrightarrow> ls_accepts l n = Some AcceptWaits \<Longrightarrow> listener_step l (deliver h n m l)"
| err: "ls_errors l k = Some (e, ErrorWaits) \<Longrightarrow> ls_accepts l n = Some AcceptWaits \<Longrightarrow> listener_step l (deliver_error k n e l)"
| context_ends: "ls_ctx l = None \<Longrightarrow> listener_step l (l\<lparr>ls_ctx := Some e\<rparr>)"
| Handle_ctx: "ls_handles l h = Some (m, HandleWaits) \<Longrightarrow> ls_ctx l = Some e \<Longrightarrow> listener_step l (set_handle h m (HandleReturns False) l)"
| Error_ctx: "ls_errors l k = Some (x, ErrorWaits) \<Longrightarrow> ls_ctx l = Some e \<Longrightarrow> listener_step l (set_error k x ErrorReturns l)"
| Accept_ctx: "ls_accepts l n = Some AcceptWaits \<Longrightarrow> ls_ctx l = Some e \<Longrightarrow> listener_step l (set_accept n (AcceptReturns (None, Some e)) l)"

section \<open>Listeners for requests and responses\<close>

text \<open>\<open>Handle\<close> passes the value on as an interface; \<open>Accept\<close> asserts its type. The zero value stands beside an error.\<close>

definition requestProcessor_Handle :: "Request \<Rightarrow> conn \<Rightarrow> any_message \<times> conn" where
  "requestProcessor_Handle request conn = (RequestValue request, conn)"

definition requestProcessor_Accept :: "accepted \<Rightarrow> (Request \<times> conn option \<times> error option) outcome" where
  "requestProcessor_Accept r =
     (case r of
        (out, err) \<Rightarrow>
          if err = None then
            (case out of
               Some (RequestValue request, conn) \<Rightarrow> Return (request, Some conn, err)
             | _ \<Rightarrow> Panic (RuntimePanic TypeAssertion))
          else Return (\<lparr>rq_Id = 0, rq_HandshakeMessage = []\<rparr>, map_option snd out, err))"

definition responseProcessor_Handle :: "Response \<Rightarrow> conn \<Rightarrow> any_message \<times> conn" where
  "responseProcessor_Handle response conn = (ResponseValue response, conn)"

definition responseProcessor_Accept :: "accepted \<Rightarrow> (Response \<times> conn option \<times> error option) outcome" where
  "responseProcessor_Accept r =
     (case r of
        (out, err) \<Rightarrow>
          if err = None then
            (case out of
               Some (ResponseValue response, conn) \<Rightarrow> Return (response, Some conn, err)
             | _ \<Rightarrow> Panic (RuntimePanic TypeAssertion))
          else Return (\<lparr>rs_RequestId = 0, rs_HandshakeMessage = []\<rparr>, map_option snd out, err))"

section \<open>Every message is accepted at most once\<close>

text \<open>\<open>took h n\<close> pairs the calls of \<open>Handle\<close> that returned true with the calls of \<open>Accept\<close> that returned their message.\<close>

definition paired :: "listener \<Rightarrow> (nat \<rightharpoonup> nat) \<Rightarrow> bool" where
  "paired l took \<longleftrightarrow>
     (\<forall>h m. ls_handles l h = Some (m, HandleReturns True) \<longrightarrow>
        (\<exists>n. took h = Some n \<and> ls_accepts l n = Some (AcceptReturns (Some m, None)))) \<and>
     (\<forall>n m e. ls_accepts l n = Some (AcceptReturns (Some m, e)) \<longrightarrow>
        (\<exists>h. took h = Some n \<and> ls_handles l h = Some (m, HandleReturns True))) \<and>
     (\<forall>h n. took h = Some n \<longrightarrow> (\<exists>m. ls_handles l h = Some (m, HandleReturns True))) \<and>
     inj_on took (dom took)"

definition listener_inv :: "listener \<Rightarrow> bool" where
  "listener_inv l \<longleftrightarrow>
     (\<exists>took. paired l took) \<and>
     (\<forall>h m. ls_handles l h = Some (m, HandleReturns False) \<longrightarrow> ls_ctx l \<noteq> None) \<and>
     (\<forall>n e. ls_accepts l n = Some (AcceptReturns (None, e)) \<longrightarrow> ls_ctx l = e \<and> e \<noteq> None \<or> (\<exists>k. ls_errors l k = Some (e, ErrorReturns)))"

lemma pairedD:
  assumes "paired l took"
  shows "ls_handles l h = Some (m, HandleReturns True) \<Longrightarrow> \<exists>n. took h = Some n \<and> ls_accepts l n = Some (AcceptReturns (Some m, None))"
    and "ls_accepts l n = Some (AcceptReturns (Some m, e)) \<Longrightarrow> \<exists>h. took h = Some n \<and> ls_handles l h = Some (m, HandleReturns True)"
    and "took h = Some n \<Longrightarrow> \<exists>m. ls_handles l h = Some (m, HandleReturns True)"
    and "inj_on took (dom took)"
  using assms unfolding paired_def by blast+

lemma paired_unchanged:
  assumes "paired l took" and "\<And>h m. ls_handles l' h = Some (m, HandleReturns True) \<longleftrightarrow> ls_handles l h = Some (m, HandleReturns True)"
    and "\<And>n m e. ls_accepts l' n = Some (AcceptReturns (Some m, e)) \<longleftrightarrow> ls_accepts l n = Some (AcceptReturns (Some m, e))"
  shows "paired l' took"
  using assms(1) unfolding paired_def assms(2,3) .

lemma paired_deliver:
  assumes "paired l took" and "ls_handles l h = Some (m, HandleWaits)" and "ls_accepts l n = Some AcceptWaits"
  shows "paired (deliver h n m l) (took(h \<mapsto> n))"
proof -
  note p = pairedD [OF assms(1)]
  have new: "took h = None" using p(3) [of h] assms(2) by (cases "took h") auto
  have used: "took j \<noteq> Some n" for j
  proof
    assume j: "took j = Some n"
    then obtain m where "ls_handles l j = Some (m, HandleReturns True)" using p(3) by blast
    then show False using p(1) j assms(3) by fastforce
  qed
  have 1: "\<exists>k. (took(h \<mapsto> n)) j = Some k \<and> ls_accepts (deliver h n m l) k = Some (AcceptReturns (Some m', None))"
    if "ls_handles (deliver h n m l) j = Some (m', HandleReturns True)" for j m'
  proof (cases "j = h")
    case False
    then have "ls_handles l j = Some (m', HandleReturns True)" using that by (simp add: deliver_def)
    then obtain k where "took j = Some k" "ls_accepts l k = Some (AcceptReturns (Some m', None))" using p(1) by blast
    then show ?thesis using False used [of j] by (auto simp: deliver_def)
  qed (use that in \<open>auto simp: deliver_def\<close>)
  have 2: "\<exists>j. (took(h \<mapsto> n)) j = Some k \<and> ls_handles (deliver h n m l) j = Some (m', HandleReturns True)"
    if "ls_accepts (deliver h n m l) k = Some (AcceptReturns (Some m', e))" for k m' e
  proof (cases "k = n")
    case True
    then show ?thesis using that by (auto simp: deliver_def intro!: exI [of _ h])
  next
    case False
    then have "ls_accepts l k = Some (AcceptReturns (Some m', e))" using that by (simp add: deliver_def)
    then obtain j where "took j = Some k" "ls_handles l j = Some (m', HandleReturns True)" using p(2) by blast
    then show ?thesis using new by (auto simp: deliver_def intro!: exI [of _ j])
  qed
  have 3: "\<exists>m'. ls_handles (deliver h n m l) j = Some (m', HandleReturns True)" if "(took(h \<mapsto> n)) j = Some k" for j k
    using that p(3) [of j k] by (cases "j = h") (auto simp: deliver_def)
  have "inj_on (took(h \<mapsto> n)) (dom (took(h \<mapsto> n)))"
    using p(4) new used by (fastforce simp: inj_on_def dom_def)
  with 1 2 3 show ?thesis unfolding paired_def by blast
qed

lemma errors_stay:
  assumes "listener_step l l'"
  shows "ls_errors l k = Some (e, ErrorReturns) \<Longrightarrow> ls_errors l' k = Some (e, ErrorReturns)"
    and "ls_ctx l = x \<and> x \<noteq> None \<Longrightarrow> ls_ctx l' = x"
  using assms by (cases; auto simp: deliver_def deliver_error_def)+

lemma listener_inv_step:
  assumes st: "listener_step l l'" and inv: "listener_inv l"
  shows "listener_inv l'"
proof -
  obtain took where t: "paired l took" using inv by (auto simp: listener_inv_def)
  have "\<exists>took. paired l' took"
    using st
  proof cases
    case (out h m n)
    then show ?thesis using paired_deliver [OF t out(2,3)] by blast
  qed (rule exI [of _ took], rule paired_unchanged [OF t]; auto simp: deliver_error_def split: if_split_asm)+
  moreover have "ls_ctx l' \<noteq> None" if "ls_handles l' h = Some (m, HandleReturns False)" for h m
  proof -
    have "ls_handles l h = Some (m, HandleReturns False) \<or> ls_ctx l \<noteq> None"
      using st that by cases (auto simp: deliver_def deliver_error_def split: if_split_asm)
    then have "ls_ctx l \<noteq> None" using inv unfolding listener_inv_def by blast
    with st show ?thesis by cases (auto simp: deliver_def deliver_error_def)
  qed
  moreover have "ls_ctx l' = e \<and> e \<noteq> None \<or> (\<exists>k. ls_errors l' k = Some (e, ErrorReturns))" if "ls_accepts l' n = Some (AcceptReturns (None, e))" for n e
  proof -
    have "ls_accepts l n = Some (AcceptReturns (None, e)) \<or> ls_ctx l' = e \<and> e \<noteq> None \<or> (\<exists>k. ls_errors l' k = Some (e, ErrorReturns))"
      using st that by cases (auto simp: deliver_def deliver_error_def split: if_split_asm)
    then show ?thesis using inv errors_stay [OF st] unfolding listener_inv_def by metis
  qed
  ultimately show ?thesis by (simp add: listener_inv_def)
qed

interpretation listeners: step_invariant listener_step listener_inv
  by unfold_locales (rule listener_inv_step)

lemma listener_runs: "listener_step\<^sup>*\<^sup>* (NewListener ctx) l \<Longrightarrow> listener_inv l"
proof (erule listeners.run_inv)
  have "paired (NewListener ctx) Map.empty" by (simp add: paired_def NewListener_def)
  then show "listener_inv (NewListener ctx)" unfolding listener_inv_def by (auto simp: NewListener_def)
qed

text \<open>
  However the calls are scheduled, the calls of \<open>Handle\<close> that returned true and the calls of \<open>Accept\<close> that returned a message correspond one to one,
  with the same message and connection; \<open>Handle\<close> returns false only when the context has ended, and \<open>Accept\<close> returns no message only with the error
  of the context or of a call of \<open>Error\<close>.
\<close>

theorem listener_hands_over_once:
  assumes "listener_step\<^sup>*\<^sup>* (NewListener ctx) l"
  shows "(\<exists>took. inj_on took (dom took) \<and>
      (\<forall>h m. ls_handles l h = Some (m, HandleReturns True) \<longrightarrow>
        (\<exists>n. took h = Some n \<and> ls_accepts l n = Some (AcceptReturns (Some m, None)))) \<and>
      (\<forall>n m e. ls_accepts l n = Some (AcceptReturns (Some m, e)) \<longrightarrow>
        (\<exists>h. took h = Some n \<and> ls_handles l h = Some (m, HandleReturns True)))) \<and>
    (\<forall>h m. ls_handles l h = Some (m, HandleReturns False) \<longrightarrow> ls_ctx l \<noteq> None) \<and>
    (\<forall>n e. ls_accepts l n = Some (AcceptReturns (None, e)) \<longrightarrow> ls_ctx l = e \<and> e \<noteq> None \<or> (\<exists>k. ls_errors l k = Some (e, ErrorReturns)))"
  using listener_runs [OF assms] unfolding listener_inv_def paired_def by blast

text \<open>
  The assertion of a listener for requests holds: its \<open>Accept\<close> does not panic if only requests are handled and no call of \<open>Error\<close> has a nil error.
\<close>

theorem request_assertion_holds:
  assumes "listener_step\<^sup>*\<^sup>* (NewListener ctx) l" and "ls_accepts l n = Some (AcceptReturns r)"
    and "\<And>h m p. ls_handles l h = Some (m, p) \<Longrightarrow> \<exists>request conn. m = requestProcessor_Handle request conn"
    and "\<And>k p. ls_errors l k \<noteq> Some (None, p)"
  shows "\<exists>x. requestProcessor_Accept r = Return x"
proof (cases "fst r")
  case None
  then have "snd r \<noteq> None" using listener_hands_over_once [OF assms(1)] assms(2,4) by (metis prod.collapse)
  then show ?thesis by (cases r) (auto simp: requestProcessor_Accept_def)
next
  case (Some m)
  have "ls_accepts l n = Some (AcceptReturns (Some m, snd r))" using assms(2) Some by (metis prod.collapse)
  then obtain h where h: "ls_handles l h = Some (m, HandleReturns True)"
    using listener_hands_over_once [OF assms(1)] by blast
  obtain request conn where m: "m = (RequestValue request, conn)" using assms(3) [OF h] by (auto simp: requestProcessor_Handle_def)
  show ?thesis using Some m by (cases r) (simp add: requestProcessor_Accept_def)
qed

text \<open>A call of \<open>Error\<close> with a nil error makes the assertion panic.\<close>

lemma nil_Error_panics:
  "\<exists>l. listener_step\<^sup>*\<^sup>* (NewListener None) l \<and> ls_accepts l 0 = Some (AcceptReturns (None, None)) \<and>
     requestProcessor_Accept (None, None) = Panic (RuntimePanic TypeAssertion)"
proof -
  let ?l1 = "set_error 0 None ErrorWaits (NewListener None)"
  let ?l2 = "set_accept 0 AcceptWaits ?l1"
  have "listener_step (NewListener None) ?l1" by (rule calls_Error) (simp add: NewListener_def)
  moreover have "listener_step ?l1 ?l2" by (rule calls_Accept) (simp add: NewListener_def)
  moreover have "listener_step ?l2 (deliver_error 0 0 None ?l2)" by (rule err) simp_all
  ultimately have "listener_step\<^sup>*\<^sup>* (NewListener None) (deliver_error 0 0 None ?l2)" by (meson converse_rtranclp_into_rtranclp rtranclp.rtrancl_refl)
  moreover have "ls_accepts (deliver_error 0 0 None ?l2) 0 = Some (AcceptReturns (None, None))" by (simp add: deliver_error_def)
  ultimately show ?thesis by (auto simp: requestProcessor_Accept_def)
qed

section \<open>The processor of a call\<close>

text \<open>
  The processor in a call of \<open>Connect\<close> keeps the calls of \<open>Handle\<close> that wait. It is this listener, seen through its waiting calls: a step of the
  listener that is no call of \<open>Error\<close> or \<open>Accept\<close> adds a waiting call, takes one away or ends the context.
\<close>

definition shows_processor :: "listener \<Rightarrow> Response Processor \<Rightarrow> bool" where
  "shows_processor l p \<longleftrightarrow>
     ls_ctx l = pr_ctx p \<and>
     (\<exists>hs. distinct hs \<and> (\<forall>h. h \<in> set hs \<longleftrightarrow> (\<exists>m. ls_handles l h = Some (m, HandleWaits))) \<and>
       map (\<lambda>h. map_option fst (ls_handles l h)) hs = map (\<lambda>(r, c). Some (responseProcessor_Handle r c)) (pr_waiting p))"

lemma without_facts:
  assumes "k < length xs" and "distinct xs"
  shows "set (without k xs) = set xs - {xs ! k}" "distinct (without k xs)"
proof -
  obtain ys zs where xs: "xs = ys @ xs ! k # zs" "without k xs = ys @ zs"
    using id_take_nth_drop [OF assms(1)] by (simp add: without_def)
  have "distinct (ys @ xs ! k # zs)" "set xs = set (ys @ xs ! k # zs)" using assms(2) xs(1) by metis+
  then show "set (without k xs) = set xs - {xs ! k}" "distinct (without k xs)" unfolding xs(2) by auto
qed

lemma map_without: "map f (without k xs) = without k (map f xs)"
  by (simp add: without_def take_map drop_map)

text \<open>A waiting call of \<open>Handle\<close> that ends.\<close>

lemma processor_takes:
  assumes p: "shows_processor l p" and h: "ls_handles l h = Some (m, HandleWaits)"
    and l': "ls_ctx l' = ls_ctx l" "ls_handles l' = (ls_handles l)(h \<mapsto> (m, HandleReturns b))"
  shows "\<exists>k<length (pr_waiting p). shows_processor l' (snd (Processor_Accept k p))"
proof -
  obtain hs where hs: "distinct hs" "\<And>j. j \<in> set hs \<longleftrightarrow> (\<exists>m. ls_handles l j = Some (m, HandleWaits))"
    "map (\<lambda>h. map_option fst (ls_handles l h)) hs = map (\<lambda>(r, c). Some (responseProcessor_Handle r c)) (pr_waiting p)" and ctx: "ls_ctx l = pr_ctx p"
    using p unfolding shows_processor_def by blast
  obtain k where k: "k < length hs" "hs ! k = h" using hs(2) [of h] h by (metis in_set_conv_nth)
  have len: "length hs = length (pr_waiting p)" using hs(3) map_eq_imp_length_eq by blast
  note w = without_facts [OF k(1) hs(1)]
  have "map (\<lambda>j. map_option fst (ls_handles l' j)) (without k hs) = map (\<lambda>j. map_option fst (ls_handles l j)) (without k hs)"
    by (rule map_cong) (use w(1) k(2) l'(2) in auto)
  also have "\<dots> = map (\<lambda>(r, c). Some (responseProcessor_Handle r c)) (without k (pr_waiting p))"
    using hs(3) by (simp add: map_without)
  finally have "map (\<lambda>j. map_option fst (ls_handles l' j)) (without k hs) = \<dots>" .
  moreover have "j \<in> set (without k hs) \<longleftrightarrow> (\<exists>m. ls_handles l' j = Some (m, HandleWaits))" for j
    using w(1) k(2) hs(2) [of j] l'(2) by auto
  ultimately have "shows_processor l' (snd (Processor_Accept k p))"
    unfolding shows_processor_def Processor_Accept_def using w(2) ctx l'(1) by auto
  then show ?thesis using k(1) len by auto
qed

theorem listener_refines_processor:
  assumes st: "listener_step l l'" and p: "shows_processor l p"
    and resp: "\<And>h m q. ls_handles l' h = Some (m, q) \<Longrightarrow> \<exists>response conn. m = responseProcessor_Handle response conn"
  shows "\<exists>p'. shows_processor l' p' \<and>
    (p' = p \<or> (\<exists>response conn. p' = Processor_Handle response conn p) \<or> (\<exists>k<length (pr_waiting p). p' = snd (Processor_Accept k p)) \<or>
      (\<exists>e. pr_ctx p = None \<and> p' = p\<lparr>pr_ctx := Some e\<rparr>))"
  using st
proof cases
  case (calls_Handle h m)
  obtain response conn where m: "m = responseProcessor_Handle response conn" using resp [of h m HandleWaits] calls_Handle by auto
  obtain hs where hs: "distinct hs" "\<And>j. j \<in> set hs \<longleftrightarrow> (\<exists>m. ls_handles l j = Some (m, HandleWaits))"
    "map (\<lambda>h. map_option fst (ls_handles l h)) hs = map (\<lambda>(r, c). Some (responseProcessor_Handle r c)) (pr_waiting p)" and ctx: "ls_ctx l = pr_ctx p"
    using p unfolding shows_processor_def by blast
  have h: "h \<notin> set hs" using hs(2) calls_Handle(2) by simp
  have "map (\<lambda>j. map_option fst (ls_handles l' j)) hs = map (\<lambda>j. map_option fst (ls_handles l j)) hs"
    by (rule map_cong) (use h calls_Handle in auto)
  then have 1: "map (\<lambda>j. map_option fst (ls_handles l' j)) (hs @ [h]) = map (\<lambda>(r, c). Some (responseProcessor_Handle r c)) (pr_waiting (Processor_Handle response conn p))"
    using hs(3) m calls_Handle by (simp add: Processor_Handle_def)
  have 2: "distinct (hs @ [h])" using hs(1) h by simp
  have 3: "j \<in> set (hs @ [h]) \<longleftrightarrow> (\<exists>m. ls_handles l' j = Some (m, HandleWaits))" for j using hs(2) [of j] h calls_Handle by auto
  have "ls_ctx l' = pr_ctx (Processor_Handle response conn p)" using ctx calls_Handle(1) by (simp add: Processor_Handle_def)
  with 1 2 3 have "shows_processor l' (Processor_Handle response conn p)"
    unfolding shows_processor_def by blast
  then show ?thesis by blast
next
  case (out h m n)
  then show ?thesis using processor_takes [OF p out(2), of l' True] by (auto simp: deliver_def)
next
  case (Handle_ctx h m e)
  then show ?thesis using processor_takes [OF p Handle_ctx(2), of l' False] by auto
next
  case (context_ends e)
  then have "shows_processor l' (p\<lparr>pr_ctx := Some e\<rparr>)" "pr_ctx p = None" using p by (auto simp: shows_processor_def)
  then show ?thesis by blast
qed (rule exI [of _ p], use p in \<open>auto simp: shows_processor_def deliver_error_def\<close>)+

end
