(* ===== verification/Generate.thy ===== *)
theory Generate
  imports Prelude
begin

text \<open>
  The build script \<open>proto/generate.go\<close>: which files it compiles, which names of enumeration values it shortens and which files it renames. The files of
  the directory, the lines of a generated file, the names in camel case and the results of the commands are arguments.
\<close>

section \<open>Strings and paths of the standard library\<close>

definition HasSuffix :: "string \<Rightarrow> string \<Rightarrow> bool" where
  "HasSuffix s suf \<longleftrightarrow> length suf \<le> length s \<and> drop (length s - length suf) s = suf"

definition TrimSuffix :: "string \<Rightarrow> string \<Rightarrow> string" where
  "TrimSuffix s suf = (if HasSuffix s suf then take (length s - length suf) s else s)"

lemma HasSuffix_append [simp]: "HasSuffix (s @ suf) suf"
  by (simp add: HasSuffix_def)

lemma TrimSuffix_append [simp]: "TrimSuffix (s @ suf) suf = s"
  by (simp add: TrimSuffix_def)

lemma HasSuffix_iff: "HasSuffix s suf \<longleftrightarrow> (\<exists>p. s = p @ suf)"
  by (metis HasSuffix_append HasSuffix_def append_take_drop_id)

text \<open>The extension of the last element, with its dot.\<close>

definition filepath_Ext :: "string \<Rightarrow> string" where
  "filepath_Ext path =
     (let tail = takeWhile (\<lambda>c. c \<noteq> CHR ''/'') (rev path) in
      if CHR ''.'' \<in> set tail then CHR ''.'' # rev (takeWhile (\<lambda>c. c \<noteq> CHR ''.'') tail) else [])"

text \<open>\<open>filepath.Clean\<close>: the elements between the slashes, without empty ones, dots and pairs of a name and two dots.\<close>

fun path_elements :: "string \<Rightarrow> string \<Rightarrow> string list" where
  "path_elements acc [] = [acc]"
| "path_elements acc (c # cs) = (if c = CHR ''/'' then acc # path_elements [] cs else path_elements (acc @ [c]) cs)"

fun clean_elements :: "bool \<Rightarrow> string list \<Rightarrow> string list \<Rightarrow> string list" where
  "clean_elements rooted out [] = out"
| "clean_elements rooted out (e # es) =
     (if e = [] \<or> e = ''.'' then clean_elements rooted out es
      else if e = ''..'' then
        (if out \<noteq> [] \<and> last out \<noteq> ''..'' then clean_elements rooted (butlast out) es
         else if rooted then clean_elements rooted out es
         else clean_elements rooted (out @ [e]) es)
      else clean_elements rooted (out @ [e]) es)"

fun join_elements :: "string list \<Rightarrow> string" where
  "join_elements [] = []"
| "join_elements [e] = e"
| "join_elements (e # f # es) = e @ CHR ''/'' # join_elements (f # es)"

definition filepath_Clean :: "string \<Rightarrow> string" where
  "filepath_Clean path =
     (let rooted = (path \<noteq> [] \<and> hd path = CHR ''/'');
          body = join_elements (clean_elements rooted [] (path_elements [] path))
      in if rooted then CHR ''/'' # body else if body = [] then ''.'' else body)"

definition filepath_Join :: "string list \<Rightarrow> string" where
  "filepath_Join es = (let fs = filter (\<lambda>e. e \<noteq> []) es in if fs = [] then [] else filepath_Clean (join_elements fs))"

definition filepath_Dir :: "string \<Rightarrow> string" where
  "filepath_Dir path = filepath_Clean (rev (dropWhile (\<lambda>c. c \<noteq> CHR ''/'') (rev path)))"

section \<open>The script\<close>

definition ProtoExt :: string where "ProtoExt = ''.proto''"

definition ProtoGenExt :: string where "ProtoGenExt = ''.pb.go''"

definition ProtoGenTestExt :: string where "ProtoGenTestExt = ''.pb_test.go''"

definition TestSuffix :: string where "TestSuffix = ''_test''"

definition LibDir :: string where "LibDir = ''../lib''"

record Test_file =
  t_Dir :: string
  t_Name :: string

text \<open>The function that is called for each entry, with its path and its name; an error ends the walk.\<close>

definition visit :: "string \<Rightarrow> string \<Rightarrow> string list \<times> Test_file list \<Rightarrow> string list \<times> Test_file list" where
  "visit path name st =
     (case st of
        (source, tests) \<Rightarrow>
          let ext = filepath_Ext name in
          if ext = ProtoExt then
            let base = TrimSuffix name ext in
            (source @ [path],
             if HasSuffix base TestSuffix then tests @ [\<lparr>t_Dir = filepath_Dir path, t_Name = TrimSuffix base TestSuffix\<rparr>] else tests)
          else (source, tests))"

fun walk :: "(error + string \<times> string) list \<Rightarrow> string list \<times> Test_file list \<Rightarrow> error + string list \<times> Test_file list" where
  "walk [] st = Inr st"
| "walk (Inl e # entries) st = Inl e"
| "walk (Inr (path, name) # entries) st = walk entries (visit path name st)"

definition protoc_args :: "string list \<Rightarrow> string list" where
  "protoc_args source =
     [''--go_opt=module='' @ ''projekt/core/lib'', ''--go_out='' @ LibDir, ''--go_opt=paths=import'', ''--go-grpc_out='' @ LibDir,
      ''--go-grpc_opt=paths=import''] @ source"

text \<open>The file that is generated for a source, and the renaming of a test.\<close>

definition generated :: "string \<Rightarrow> string" where
  "generated path = TrimSuffix (filepath_Join [LibDir, path]) ProtoExt @ ProtoGenExt"

definition rename_test :: "Test_file \<Rightarrow> string \<times> string" where
  "rename_test t =
     (let dir = filepath_Join [LibDir, t_Dir t] in
      (filepath_Join [dir, t_Name t @ TestSuffix @ ProtoGenExt], filepath_Join [dir, t_Name t @ ProtoGenTestExt]))"

text \<open>
  The match of \<open>^\t([A-Z][aA-zZ]*?_+([A-Z][A-Z_]+))\<close>: the first, shortest repetition after which the rest matches. The class
  \<open>[aA-zZ]\<close> has all characters from \<open>A\<close> to \<open>z\<close>.
\<close>

definition upper :: "char \<Rightarrow> bool" where
  "upper c \<longleftrightarrow> 65 \<le> (of_char c :: nat) \<and> (of_char c :: nat) \<le> 90"

definition in_class :: "char \<Rightarrow> bool" where
  "in_class c \<longleftrightarrow> 65 \<le> (of_char c :: nat) \<and> (of_char c :: nat) \<le> 122"

definition match_name :: "string \<Rightarrow> string option" where
  "match_name s =
     (case dropWhile (\<lambda>c. c = CHR ''_'') s of
        [] \<Rightarrow> None
      | c # cs \<Rightarrow>
          let name = takeWhile (\<lambda>x. upper x \<or> x = CHR ''_'') cs in
          if hd s = CHR ''_'' \<and> upper c \<and> name \<noteq> [] then Some (c # name) else None)"

fun match_lazy :: "string \<Rightarrow> string \<Rightarrow> (string \<times> string) option" where
  "match_lazy acc s =
     (case match_name s of
        Some name \<Rightarrow> Some (acc @ takeWhile (\<lambda>c. c = CHR ''_'') s @ name, name)
      | None \<Rightarrow> (case s of [] \<Rightarrow> None | x # xs \<Rightarrow> if in_class x then match_lazy (acc @ [x]) xs else None))"

declare match_lazy.simps [simp del]

definition FindStringSubmatch :: "string \<Rightarrow> (string \<times> string) option" where
  "FindStringSubmatch line =
     (case line of
        t # c # cs \<Rightarrow> if t = CHR 0x09 \<and> upper c then match_lazy [c] cs else None
      | _ \<Rightarrow> None)"

text \<open>The loop over the lines; \<open>UpperCamelCase\<close> is third-party code.\<close>

fun GetEnumRewrites :: "(string \<Rightarrow> string) \<Rightarrow> bool \<Rightarrow> string list \<Rightarrow> (string \<times> string) list" where
  "GetEnumRewrites UpperCamelCase inConst [] = []"
| "GetEnumRewrites UpperCamelCase inConst (text # rest) =
     (let inConst' = (if text = ''const ('' then True else if text = '')'' then False else inConst) in
      case FindStringSubmatch text of
        Some (old, name) \<Rightarrow>
          if inConst' then (old, UpperCamelCase name) # GetEnumRewrites UpperCamelCase inConst' rest
          else GetEnumRewrites UpperCamelCase inConst' rest
      | None \<Rightarrow> GetEnumRewrites UpperCamelCase inConst' rest)"

definition Gofmt :: "string \<times> string \<Rightarrow> string" where
  "Gofmt r = fst r @ '' -> '' @ snd r"

text \<open>
  The commands in their order, with the result of each: the message of the first failure, or none. \<open>file\<close> gives the lines of a generated file.
\<close>

definition gofmt_command :: "string \<Rightarrow> string \<times> string \<Rightarrow> string list" where
  "gofmt_command path replacement = [''gofmt'', ''-w'', ''-r'', Gofmt replacement, path]"

fun fix_enums ::
  "(string \<Rightarrow> string) \<Rightarrow> (string \<Rightarrow> string list option) \<Rightarrow> (string list \<Rightarrow> error option) \<Rightarrow> string list \<Rightarrow> string option" where
  "fix_enums UpperCamelCase file run [] = None"
| "fix_enums UpperCamelCase file run (path # source) =
     (case file (generated path) of
        None \<Rightarrow> Some ''Failed to open file. Is the go_package option correct?''
      | Some lines \<Rightarrow>
          if list_ex (\<lambda>replacement. run (gofmt_command (generated path) replacement) \<noteq> None) (GetEnumRewrites UpperCamelCase False lines)
          then Some ''Failed to fix enumerations''
          else fix_enums UpperCamelCase file run source)"

definition generate_main ::
  "(string \<Rightarrow> string) \<Rightarrow> (string \<Rightarrow> string list option) \<Rightarrow> (string list \<Rightarrow> error option) \<Rightarrow> (string \<times> string \<Rightarrow> error option) \<Rightarrow>
   (error + string \<times> string) list \<Rightarrow> string option" where
  "generate_main UpperCamelCase file run rename entries =
     (case walk entries ([], []) of
        Inl e \<Rightarrow> Some ''Failed to collect proto files''
      | Inr (source, tests) \<Rightarrow>
          if run (''protoc'' # protoc_args source) \<noteq> None then Some ''Failed to generate''
          else
            (case fix_enums UpperCamelCase file run source of
               Some m \<Rightarrow> Some m
             | None \<Rightarrow> if list_ex (\<lambda>t. rename (rename_test t) \<noteq> None) tests then Some ''Failed to rename'' else None))"

section \<open>The renamed files are generated ones\<close>

definition plain_element :: "string \<Rightarrow> bool" where
  "plain_element e \<longleftrightarrow> e \<noteq> [] \<and> CHR ''/'' \<notin> set e \<and> e \<noteq> ''.'' \<and> e \<noteq> ''..''"

lemma path_elements_slash: "CHR ''/'' \<notin> set e \<Longrightarrow> path_elements acc (e @ CHR ''/'' # cs) = (acc @ e) # path_elements [] cs"
  by (induction e arbitrary: acc) auto

lemma path_elements_last: "CHR ''/'' \<notin> set e \<Longrightarrow> path_elements acc e = [acc @ e]"
  by (induction e arbitrary: acc) auto

lemma path_elements_join: "es \<noteq> [] \<Longrightarrow> \<forall>e\<in>set es. CHR ''/'' \<notin> set e \<Longrightarrow> path_elements [] (join_elements es) = es"
  by (induction es rule: join_elements.induct) (auto simp: path_elements_last path_elements_slash)

lemma clean_plain: "\<forall>e\<in>set es. plain_element e \<Longrightarrow> clean_elements r out es = out @ es"
  by (induction es arbitrary: out) (auto simp: plain_element_def)

lemma join_elements_snoc: "join_elements (es @ [e]) = (if es = [] then e else join_elements es @ CHR ''/'' # e)"
  by (induction es rule: join_elements.induct) auto

lemma join_elements_append:
  "es \<noteq> [] \<Longrightarrow> fs \<noteq> [] \<Longrightarrow> join_elements (es @ fs) = join_elements es @ CHR ''/'' # join_elements fs"
  by (induction es rule: join_elements.induct) (auto simp: neq_Nil_conv)

lemma join_elements_Nil: "\<forall>e\<in>set es. e \<noteq> [] \<Longrightarrow> join_elements es = [] \<longleftrightarrow> es = []"
  by (induction es rule: join_elements.induct) auto

text \<open>A path under \<open>../lib\<close> of plain elements is clean.\<close>

abbreviation lib_path :: "string list \<Rightarrow> string" where
  "lib_path es \<equiv> join_elements (''..'' # ''lib'' # es)"

lemma clean_lib_path:
  assumes "\<forall>e\<in>set es. plain_element e"
  shows "filepath_Clean (lib_path es) = lib_path es"
proof -
  have "\<forall>e\<in>set (''..'' # ''lib'' # es). CHR ''/'' \<notin> set e" using assms by (auto simp: plain_element_def)
  then have "path_elements [] (lib_path es) = ''..'' # ''lib'' # es" by (intro path_elements_join) simp_all
  moreover have "hd (lib_path es) = CHR ''.''" by (cases es) auto
  moreover have "clean_elements False [] (''..'' # ''lib'' # es) = ''..'' # ''lib'' # es"
    using clean_plain [OF assms, of False "[''..'', ''lib'']"] by simp
  ultimately show ?thesis unfolding filepath_Clean_def Let_def by (cases es) auto
qed

lemma join_lib:
  assumes "\<forall>e\<in>set es. plain_element e" and "es \<noteq> []"
  shows "filepath_Join [LibDir, join_elements es] = lib_path es"
proof -
  have "join_elements es \<noteq> []" using assms join_elements_Nil by (auto simp: plain_element_def)
  moreover have "join_elements [LibDir, join_elements es] = lib_path es" using assms(2) by (cases es) (auto simp: LibDir_def)
  ultimately show ?thesis using clean_lib_path [OF assms(1)] by (simp add: filepath_Join_def LibDir_def)
qed

lemma dir_of_join:
  assumes "\<forall>e\<in>set ds. plain_element e" and "plain_element name"
  shows "filepath_Dir (join_elements (ds @ [name])) = (if ds = [] then ''.'' else join_elements ds)"
proof -
  have n: "CHR ''/'' \<notin> set (rev name)" using assms(2) by (simp add: plain_element_def)
  then have drop: "dropWhile (\<lambda>c. c \<noteq> CHR ''/'') (rev name @ xs) = dropWhile (\<lambda>c. c \<noteq> CHR ''/'') xs" for xs
    by (intro dropWhile_append2) auto
  show ?thesis
  proof (cases "ds = []")
    case True
    have clean: "filepath_Clean [] = ''.''" by code_simp
    have none: "dropWhile (\<lambda>c. c \<noteq> CHR ''/'') (rev name) = []" using drop [of "[]"] by (simp only: append_Nil2 dropWhile.simps)
    show ?thesis by (simp only: True filepath_Dir_def append_Nil join_elements.simps none rev.simps clean simp_thms if_True)
  next
    case False
    let ?p = "join_elements (ds @ [[]])"
    have slash: "\<forall>e\<in>set (ds @ [[]]). CHR ''/'' \<notin> set e" using assms(1) by (auto simp: plain_element_def)
    have "filepath_Dir (join_elements (ds @ [name])) = filepath_Clean ?p"
      using False drop by (simp add: filepath_Dir_def join_elements_snoc)
    moreover have "path_elements [] ?p = ds @ [[]]" using slash by (intro path_elements_join) auto
    moreover obtain e es where "ds = e # es" "e \<noteq> []" "CHR ''/'' \<notin> set e"
      using False assms(1) by (cases ds) (auto simp: plain_element_def)
    then have "hd ?p \<noteq> CHR ''/''" "?p \<noteq> []" by (cases e; cases es; auto)+
    moreover have "clean_elements r out (ds @ [[]]) = out @ ds" for r out
      using assms(1) by (induction ds arbitrary: out) (auto simp: plain_element_def)
    moreover have "join_elements ds \<noteq> []" using False assms(1) join_elements_Nil by (auto simp: plain_element_def)
    ultimately show ?thesis using False by (simp add: filepath_Clean_def)
  qed
qed

text \<open>The file that is renamed for a test is the file that the compiler generates for the source of the test.\<close>

lemma renamed_file_is_generated:
  assumes ds: "\<forall>e\<in>set ds. plain_element e" and name: "plain_element (base @ TestSuffix @ ProtoExt)"
  shows "fst (rename_test \<lparr>t_Dir = filepath_Dir (join_elements (ds @ [base @ TestSuffix @ ProtoExt])), t_Name = base\<rparr>) =
    generated (join_elements (ds @ [base @ TestSuffix @ ProtoExt]))"
proof -
  let ?n = "base @ TestSuffix @ ProtoExt" and ?g = "base @ TestSuffix @ ProtoGenExt"
  have "plain_element ?g" using name by (auto simp: plain_element_def TestSuffix_def ProtoExt_def ProtoGenExt_def)
  then have g: "\<forall>e\<in>set (ds @ [?g]). plain_element e" and n: "\<forall>e\<in>set (ds @ [?n]). plain_element e" using ds name by auto
  have dir: "filepath_Join [LibDir, filepath_Dir (join_elements (ds @ [?n]))] = lib_path ds"
  proof (cases "ds = []")
    case True
    have "filepath_Join [LibDir, ''.''] = lib_path []" by code_simp
    then show ?thesis using True dir_of_join [OF ds name] by simp
  next
    case False
    then show ?thesis using join_lib [OF ds False] dir_of_join [OF ds name] by simp
  qed
  have "join_elements [lib_path ds, ?g] = lib_path (ds @ [?g])" using join_elements_snoc [of "''..'' # ''lib'' # ds" ?g] by simp
  moreover have "lib_path ds \<noteq> []" by (cases ds) auto
  ultimately have "filepath_Join [lib_path ds, ?g] = lib_path (ds @ [?g])"
    using clean_lib_path [OF g] \<open>plain_element ?g\<close> by (simp add: filepath_Join_def plain_element_def)
  moreover have "generated (join_elements (ds @ [?n])) = lib_path (ds @ [?g])"
  proof -
    have "lib_path (ds @ [x @ y]) = lib_path (ds @ [x]) @ y" for x y :: string
      using join_elements_snoc [of "''..'' # ''lib'' # ds" x] join_elements_snoc [of "''..'' # ''lib'' # ds" "x @ y"] by simp
    note this [of "base @ TestSuffix", unfolded append_assoc]
    then have "generated (join_elements (ds @ [?n])) = TrimSuffix (lib_path (ds @ [base @ TestSuffix]) @ ProtoExt) ProtoExt @ ProtoGenExt"
      and "lib_path (ds @ [?g]) = lib_path (ds @ [base @ TestSuffix]) @ ProtoGenExt"
      using join_lib [OF n] unfolding generated_def by auto
    then show ?thesis by (simp only: TrimSuffix_append)
  qed
  ultimately show ?thesis using dir by (simp add: rename_test_def Let_def)
qed

section \<open>What is rewritten\<close>

lemma match_name_Some:
  assumes "match_name s = Some name"
  shows "\<exists>rest. s = takeWhile (\<lambda>c. c = CHR ''_'') s @ name @ rest \<and> 2 \<le> length name \<and> (\<forall>c\<in>set name. upper c \<or> c = CHR ''_'')"
proof -
  obtain c cs where c: "dropWhile (\<lambda>c. c = CHR ''_'') s = c # cs" "upper c" "name = c # takeWhile (\<lambda>x. upper x \<or> x = CHR ''_'') cs"
    "takeWhile (\<lambda>x. upper x \<or> x = CHR ''_'') cs \<noteq> []"
    using assms by (auto simp: match_name_def Let_def split: list.split_asm if_split_asm)
  have "s = takeWhile (\<lambda>c. c = CHR ''_'') s @ c # cs" using c(1) by (metis takeWhile_dropWhile_id)
  moreover have "2 \<le> length name" using c(3,4) by (cases "takeWhile (\<lambda>x. upper x \<or> x = CHR ''_'') cs") auto
  moreover have "\<forall>x\<in>set name. upper x \<or> x = CHR ''_''" using c(2,3) by (auto dest: set_takeWhileD)
  ultimately show ?thesis
    using c(3) by (intro exI [of _ "dropWhile (\<lambda>x. upper x \<or> x = CHR ''_'') cs"]) simp
qed

lemma match_lazy_Some:
  "match_lazy acc s = Some (old, name) \<Longrightarrow>
   \<exists>mid rest. acc @ s = old @ rest \<and> old = acc @ mid @ name \<and> 2 \<le> length name \<and> (\<forall>c\<in>set name. upper c \<or> c = CHR ''_'')"
proof (induction s arbitrary: acc)
  case Nil
  then show ?case by (simp add: match_lazy.simps match_name_def)
next
  case (Cons x xs)
  show ?case
  proof (cases "match_name (x # xs)")
    case None
    then have "match_lazy (acc @ [x]) xs = Some (old, name)"
      using Cons.prems by (simp add: match_lazy.simps [of acc] split: if_split_asm)
    from Cons.IH [OF this] show ?thesis by auto
  next
    case (Some n)
    then have "name = n" "old = acc @ takeWhile (\<lambda>c. c = CHR ''_'') (x # xs) @ name"
      using Cons.prems unfolding match_lazy.simps [of acc] by (auto simp del: takeWhile.simps)
    moreover obtain rest where "x # xs = takeWhile (\<lambda>c. c = CHR ''_'') (x # xs) @ n @ rest" "2 \<le> length n"
      "\<forall>c\<in>set n. upper c \<or> c = CHR ''_''"
      using match_name_Some [OF Some] by blast
    ultimately show ?thesis
      by (intro exI [of _ "takeWhile (\<lambda>c. c = CHR ''_'') (x # xs)"] exI [of _ rest]) (simp del: takeWhile.simps)
  qed
qed

text \<open>Each rewrite is for an identifier at the start of a line, after a tab, that ends in the name it is replaced by.\<close>

lemma GetEnumRewrites_sound:
  "r \<in> set (GetEnumRewrites up inConst lines) \<Longrightarrow>
   \<exists>rest pre name. CHR 0x09 # fst r @ rest \<in> set lines \<and> fst r = pre @ name \<and> snd r = up name \<and> 2 \<le> length name"
proof (induction lines arbitrary: inConst)
  case (Cons l lines)
  show ?case
  proof (cases "\<exists>old name. FindStringSubmatch l = Some (old, name) \<and> r = (old, up name)")
    case True
    then obtain old name where m: "FindStringSubmatch l = Some (old, name)" "r = (old, up name)" by blast
    then obtain c cs where "l = CHR 0x09 # c # cs" "match_lazy [c] cs = Some (old, name)"
      by (auto simp: FindStringSubmatch_def split: list.split_asm if_split_asm)
    moreover obtain mid rest where "[c] @ cs = old @ rest" "old = [c] @ mid @ name" "2 \<le> length name"
      using match_lazy_Some [OF \<open>match_lazy [c] cs = Some (old, name)\<close>] by blast
    ultimately show ?thesis
      using m(2) by (intro exI [of _ rest] exI [of _ "[c] @ mid"] exI [of _ name]) simp
  next
    case False
    then have "\<exists>b. r \<in> set (GetEnumRewrites up b lines)"
      using Cons.prems by (auto simp: Let_def split: option.split_asm if_split_asm)
    with Cons.IH show ?thesis by (meson list.set_intros(2))
  qed
qed simp

end
