(* ===== verification/Test_Runner.thy ===== *)
theory Test_Runner
  imports Prelude
begin

text \<open>
  The test runner \<open>test.go\<close>: it starts the same tests in every container at once and prints the output of one container after the other. The
  processes that it starts, the goroutines that wait for them and the main function are a step relation; a process is an environment that writes
  to the writer of its command. A \<open>log.Fatalln\<close> ends the runner.
\<close>

section \<open>Commands\<close>

definition Command :: string where "Command = ''docker-compose''"

definition containers :: "string list" where "containers = [''alpha'', ''bravo'']"

definition getBaseArgs :: "string list" where
  "getBaseArgs = [''-f'', ''docker-compose.test.yml'', ''exec'', ''-T'', ''--'']"

definition getKillArgs :: "string \<Rightarrow> string list" where
  "getKillArgs container = getBaseArgs @ [container, ''pkill'', ''go'']"

definition getRunArgs :: "string \<Rightarrow> string \<Rightarrow> string \<Rightarrow> string list" where
  "getRunArgs container pkg rn =
     (let res = getBaseArgs @ [container, ''go'', ''test'', ''-v'', ''-tags=container'', ''-count=1'', ''./lib/'' @ pkg] in
      if rn \<noteq> [] then (res @ [''-run'']) @ [rn] else res)"

text \<open>A writer is standard output or one of the buffers. Both streams of a command go to the same one.\<close>

datatype cmd_writer = Stdout | BufferAt nat

record Cmd =
  cmd_Args :: "string list"
  cmd_out :: cmd_writer

definition run_cmd :: "string \<Rightarrow> string \<Rightarrow> string \<Rightarrow> cmd_writer \<Rightarrow> Cmd" where
  "run_cmd container pkg rn out = \<lparr>cmd_Args = getRunArgs container pkg rn, cmd_out = out\<rparr>"

text \<open>\<open>Cmd.String\<close> of the standard library, for the path that the command was found at.\<close>

definition cmd_String :: "string \<Rightarrow> Cmd \<Rightarrow> string" where
  "cmd_String path cmd = path @ concat (map (\<lambda>a. '' '' @ a) (cmd_Args cmd))"

section \<open>The runner\<close>

datatype proc_status = ProcRunning | ProcEnded "error option" | ProcWaited

text \<open>A process that was started, with all that it has written.\<close>

record proc =
  pr_cmd :: Cmd
  pr_written :: string
  pr_status :: proc_status

datatype runner_pc =
    RunnerStart nat
  | RunnerWait
  | RunnerOutput nat
  | RunnerReturned
  | RunnerExited string

text \<open>The variables of \<open>main\<close>, with the path of the command, the commands executed so far and what the goroutines log.\<close>

record runner =
  rn_pkg :: string
  rn_rn :: string
  rn_path :: string
  rn_writers :: "cmd_writer list"
  rn_buffers :: "string list"
  rn_stdout :: string
  rn_commands :: "string list list"
  rn_procs :: "proc list"
  rn_wg :: nat
  rn_main :: runner_pc
  rn_log :: "string list"
  rn_signalled :: bool

definition runner_args :: "string list \<Rightarrow> string + string \<times> string" where
  "runner_args args =
     (if length args \<noteq> 1 \<and> length args \<noteq> 2 then Inl ''need one or two arguments: name of package to test + optional method to run''
      else Inr (args ! 0, if length args = 2 then args ! 1 else []))"

text \<open>The loop that makes the writers: the first container writes to standard output, every other one to a buffer of its own.\<close>

fun make_writers :: "nat \<Rightarrow> nat \<Rightarrow> cmd_writer list \<Rightarrow> string list \<Rightarrow> cmd_writer list \<times> string list" where
  "make_writers i 0 writers buffers = (writers, buffers)"
| "make_writers i (Suc n) writers buffers =
     (if i > 0 then make_writers (i + 1) n (writers @ [BufferAt (length buffers)]) (buffers @ [[]])
      else make_writers (i + 1) n (writers @ [Stdout]) buffers)"

text \<open>\<open>main\<close> up to the loop that starts the commands. The results of the commands that end older tests are ignored.\<close>

definition runner_start :: "string \<Rightarrow> string list \<Rightarrow> string + runner" where
  "runner_start path args =
     (case runner_args args of
        Inl msg \<Rightarrow> Inl msg
      | Inr (pkg, rn) \<Rightarrow>
          (case make_writers 0 (length containers) [] [] of
             (writers, buffers) \<Rightarrow>
               Inr \<lparr>rn_pkg = pkg, rn_rn = rn, rn_path = path, rn_writers = writers, rn_buffers = buffers, rn_stdout = [],
                 rn_commands = map (\<lambda>container. Command # getKillArgs container) containers, rn_procs = [], rn_wg = 0,
                 rn_main = RunnerStart 0, rn_log = [], rn_signalled = False\<rparr>))"

definition write_out :: "cmd_writer \<Rightarrow> string \<Rightarrow> runner \<Rightarrow> runner" where
  "write_out w text s =
     (case w of
        Stdout \<Rightarrow> s\<lparr>rn_stdout := rn_stdout s @ text\<rparr>
      | BufferAt k \<Rightarrow> s\<lparr>rn_buffers := (rn_buffers s)[k := rn_buffers s ! k @ text]\<rparr>)"

definition runner_cmd :: "nat \<Rightarrow> runner \<Rightarrow> Cmd" where
  "runner_cmd i s = run_cmd (containers ! i) (rn_pkg s) (rn_rn s) (rn_writers s ! i)"

definition title :: "nat \<Rightarrow> runner \<Rightarrow> string" where
  "title i s = (if i = 0 then [] else [CHR 0x0A]) @ ''+ '' @ cmd_String (rn_path s) (runner_cmd i s) @ [CHR 0x0A]"

text \<open>One round of the loop that starts the commands, and of the loop in \<open>writeOutputs\<close>.\<close>

definition start_container :: "nat \<Rightarrow> runner \<Rightarrow> runner" where
  "start_container i s =
     (let s1 = write_out (rn_writers s ! i) (title i s) s; cmd = runner_cmd i s in
      s1\<lparr>rn_commands := rn_commands s @ [Command # cmd_Args cmd],
         rn_procs := rn_procs s @ [\<lparr>pr_cmd = cmd, pr_written = [], pr_status = ProcRunning\<rparr>],
         rn_wg := rn_wg s + 1, rn_main := RunnerStart (i + 1)\<rparr>)"

definition writeOutput :: "nat \<Rightarrow> runner \<Rightarrow> runner" where
  "writeOutput k s = s\<lparr>rn_stdout := rn_stdout s @ rn_buffers s ! k, rn_main := RunnerOutput (k + 1)\<rparr>"

definition proc_write :: "nat \<Rightarrow> string \<Rightarrow> runner \<Rightarrow> runner" where
  "proc_write i text s =
     (let p = rn_procs s ! i in
      write_out (cmd_out (pr_cmd p)) text (s\<lparr>rn_procs := (rn_procs s)[i := p\<lparr>pr_written := pr_written p @ text\<rparr>]\<rparr>))"

definition set_status :: "nat \<Rightarrow> proc_status \<Rightarrow> runner \<Rightarrow> runner" where
  "set_status i st s = s\<lparr>rn_procs := (rn_procs s)[i := (rn_procs s ! i)\<lparr>pr_status := st\<rparr>]\<rparr>"

text \<open>The goroutine of a process, once \<open>Wait\<close> has returned.\<close>

definition wait_done :: "nat \<Rightarrow> error option \<Rightarrow> runner \<Rightarrow> runner" where
  "wait_done i e s =
     (set_status i ProcWaited s)
       \<lparr>rn_log := rn_log s @ (if e \<noteq> None then [''ERROR failed to wait for command to finish''] else []), rn_wg := rn_wg s - 1\<rparr>"

abbreviation runner_ended :: "runner \<Rightarrow> bool" where
  "runner_ended s \<equiv> rn_main s = RunnerReturned \<or> (\<exists>msg. rn_main s = RunnerExited msg)"

text \<open>
  A process runs on when the runner has exited; the goroutines do not. The goroutine that receives signals has nothing to do after them; as long as it
  is registered they do not end the runner.
\<close>

inductive runner_step :: "runner \<Rightarrow> runner \<Rightarrow> bool" where
  title_fails: "rn_main s = RunnerStart i \<Longrightarrow> i < length containers \<Longrightarrow> rn_writers s ! i = Stdout \<Longrightarrow>
    runner_step s (s\<lparr>rn_main := RunnerExited ''failed to write title''\<rparr>)"
| start_fails: "rn_main s = RunnerStart i \<Longrightarrow> i < length containers \<Longrightarrow>
    runner_step s ((write_out (rn_writers s ! i) (title i s) s)\<lparr>rn_main := RunnerExited ''failed to run command''\<rparr>)"
| starts: "rn_main s = RunnerStart i \<Longrightarrow> i < length containers \<Longrightarrow> runner_step s (start_container i s)"
| all_started: "rn_main s = RunnerStart i \<Longrightarrow> \<not> i < length containers \<Longrightarrow> runner_step s (s\<lparr>rn_main := RunnerWait\<rparr>)"
| proc_writes: "i < length (rn_procs s) \<Longrightarrow> pr_status (rn_procs s ! i) = ProcRunning \<Longrightarrow> runner_step s (proc_write i text s)"
| proc_ends: "i < length (rn_procs s) \<Longrightarrow> pr_status (rn_procs s ! i) = ProcRunning \<Longrightarrow> runner_step s (set_status i (ProcEnded e) s)"
| proc_waited: "i < length (rn_procs s) \<Longrightarrow> pr_status (rn_procs s ! i) = ProcEnded e \<Longrightarrow> \<not> runner_ended s \<Longrightarrow>
    runner_step s (wait_done i e s)"
| all_waited: "rn_main s = RunnerWait \<Longrightarrow> rn_wg s = 0 \<Longrightarrow> runner_step s (s\<lparr>rn_main := RunnerOutput 0\<rparr>)"
| outputs: "rn_main s = RunnerOutput k \<Longrightarrow> k < length (rn_buffers s) \<Longrightarrow> runner_step s (writeOutput k s)"
| output_fails: "rn_main s = RunnerOutput k \<Longrightarrow> k < length (rn_buffers s) \<Longrightarrow>
    runner_step s (s\<lparr>rn_main := RunnerExited ''failed to write command output''\<rparr>)"
| output_ends: "rn_main s = RunnerOutput k \<Longrightarrow> \<not> k < length (rn_buffers s) \<Longrightarrow> runner_step s (s\<lparr>rn_main := RunnerReturned\<rparr>)"
| signalled: "\<not> runner_ended s \<Longrightarrow> runner_step s (s\<lparr>rn_signalled := True\<rparr>)"

abbreviation runner_run :: "runner \<Rightarrow> runner \<Rightarrow> bool" where
  "runner_run \<equiv> runner_step\<^sup>*\<^sup>*"

lemmas runner_defs = start_container_def writeOutput_def proc_write_def set_status_def wait_done_def write_out_def Let_def

section \<open>The output\<close>

text \<open>What the output has of a container: the title and what its process wrote.\<close>

definition container_entry :: "runner \<Rightarrow> nat \<Rightarrow> string" where
  "container_entry s i = (if i < length (rn_procs s) then title i s @ pr_written (rn_procs s ! i) else [])"

definition writer_of :: "nat \<Rightarrow> cmd_writer" where
  "writer_of i = (if i = 0 then Stdout else BufferAt (i - 1))"

text \<open>How many entries have been printed: before \<open>writeOutputs\<close> the first one is being printed.\<close>

fun printed :: "runner_pc \<Rightarrow> nat" where
  "printed (RunnerOutput k) = k + 1"
| "printed RunnerReturned = length containers"
| "printed pc = 1"

abbreviation unwaited :: "runner \<Rightarrow> nat" where
  "unwaited s \<equiv> length (filter (\<lambda>p. pr_status p \<noteq> ProcWaited) (rn_procs s))"

definition started_inv :: "runner \<Rightarrow> bool" where
  "started_inv s \<longleftrightarrow>
     rn_writers s = map writer_of [0..<length containers] \<and> length (rn_buffers s) = length containers - 1 \<and>
     length (rn_procs s) \<le> length containers \<and>
     (\<forall>i<length (rn_procs s). pr_cmd (rn_procs s ! i) = runner_cmd i s) \<and>
     rn_commands s = map (\<lambda>c. Command # getKillArgs c) containers @ map (\<lambda>p. Command # cmd_Args (pr_cmd p)) (rn_procs s) \<and>
     rn_wg s = unwaited s \<and>
     (case rn_main s of
        RunnerStart i \<Rightarrow> length (rn_procs s) = i
      | RunnerWait \<Rightarrow> length (rn_procs s) = length containers
      | RunnerOutput k \<Rightarrow> length (rn_procs s) = length containers \<and> rn_wg s = 0 \<and> k < length containers
      | RunnerReturned \<Rightarrow> length (rn_procs s) = length containers \<and> rn_wg s = 0
      | RunnerExited msg \<Rightarrow> True)"

definition output_inv :: "runner \<Rightarrow> bool" where
  "output_inv s \<longleftrightarrow>
     (\<forall>msg. rn_main s \<noteq> RunnerExited msg) \<longrightarrow>
       rn_stdout s = concat (map (container_entry s) [0..<printed (rn_main s)]) \<and>
       (\<forall>k<length (rn_buffers s). rn_buffers s ! k = container_entry s (k + 1))"

definition runner_inv :: "runner \<Rightarrow> bool" where
  "runner_inv s \<longleftrightarrow> started_inv s \<and> output_inv s"

lemma containers_len [simp]: "length containers = 2"
  by (simp add: containers_def)

lemma write_out_same [simp]:
  "rn_main (write_out w x s) = rn_main s" "rn_procs (write_out w x s) = rn_procs s" "rn_wg (write_out w x s) = rn_wg s"
  "rn_writers (write_out w x s) = rn_writers s" "rn_commands (write_out w x s) = rn_commands s"
  "rn_pkg (write_out w x s) = rn_pkg s" "rn_rn (write_out w x s) = rn_rn s" "rn_path (write_out w x s) = rn_path s"
  "length (rn_buffers (write_out w x s)) = length (rn_buffers s)"
  by (simp_all add: write_out_def split: cmd_writer.split)

lemma title_cong: "rn_pkg s = rn_pkg t \<Longrightarrow> rn_rn s = rn_rn t \<Longrightarrow> rn_path s = rn_path t \<Longrightarrow> rn_writers s = rn_writers t \<Longrightarrow> title i s = title i t"
  by (simp add: title_def runner_cmd_def)

lemma runner_cmd_cong: "rn_pkg s = rn_pkg t \<Longrightarrow> rn_rn s = rn_rn t \<Longrightarrow> rn_writers s = rn_writers t \<Longrightarrow> runner_cmd i s = runner_cmd i t"
  by (simp add: runner_cmd_def)

lemma unwaited_update:
  assumes "i < length ps"
  shows "length (filter P (ps[i := p])) + (if P (ps ! i) then 1 else 0) = length (filter P ps) + (if P p then 1 else 0)"
  using assms
proof (induction ps arbitrary: i)
  case (Cons q ps)
  then show ?case by (cases i) auto
qed simp

lemma map_update_same: "f p = f (ps ! i) \<Longrightarrow> map f (ps[i := p]) = map f ps"
  by (metis list_update_id map_update)

text \<open>A step of process \<open>i\<close>.\<close>

lemma started_inv_proc:
  assumes inv: "started_inv s" and i: "i < length (rn_procs s)" and ps: "rn_procs t = (rn_procs s)[i := p]"
    and same: "rn_writers t = rn_writers s" "rn_pkg t = rn_pkg s" "rn_rn t = rn_rn s" "rn_commands t = rn_commands s" "rn_main t = rn_main s"
      "length (rn_buffers t) = length (rn_buffers s)" "pr_cmd p = pr_cmd (rn_procs s ! i)"
    and wg: "rn_wg t = rn_wg s - (if pr_status p = ProcWaited then 1 else 0)" and run_cmd: "pr_status (rn_procs s ! i) \<noteq> ProcWaited"
  shows "started_inv t"
proof -
  have "pr_cmd (rn_procs t ! j) = runner_cmd j t" if "j < length (rn_procs t)" for j
    using that inv i ps same runner_cmd_cong [of t s] by (cases "j = i") (simp_all add: started_inv_def)
  moreover have "map (\<lambda>p. Command # cmd_Args (pr_cmd p)) (rn_procs t) = map (\<lambda>p. Command # cmd_Args (pr_cmd p)) (rn_procs s)"
    unfolding ps by (rule map_update_same) (simp add: same)
  moreover have "rn_wg t = unwaited t"
    using unwaited_update [OF i, of "\<lambda>p. pr_status p \<noteq> ProcWaited" p] run_cmd wg inv by (simp add: started_inv_def ps split: if_split_asm)
  moreover have "rn_wg t = 0" if "rn_wg s = 0" using that wg by simp
  ultimately show ?thesis using inv same by (cases "rn_main s") (auto simp: started_inv_def ps)
qed

lemma started_inv_step:
  assumes st: "runner_step s t" and inv: "started_inv s"
  shows "started_inv t"
  using st
proof cases
  case (starts i)
  have i: "i = length (rn_procs s)" using starts inv by (simp add: started_inv_def)
  have "pr_cmd (rn_procs t ! j) = runner_cmd j t" if "j < length (rn_procs t)" for j
  proof (cases "j = i")
    case True
    then show ?thesis using starts i runner_cmd_cong [of t s] by (simp add: start_container_def Let_def)
  next
    case False
    then have "j < length (rn_procs s)" using that starts i by (simp add: start_container_def Let_def)
    then show ?thesis using starts inv runner_cmd_cong [of t s] by (simp add: started_inv_def start_container_def Let_def nth_append)
  qed
  then show ?thesis using starts inv by (simp add: started_inv_def start_container_def Let_def)
next
  case (proc_writes i x)
  then show ?thesis by (intro started_inv_proc [OF inv proc_writes(2), of t "(rn_procs s ! i)\<lparr>pr_written := pr_written (rn_procs s ! i) @ x\<rparr>"]) (simp_all add: proc_write_def Let_def)
next
  case (proc_ends i e)
  then show ?thesis by (intro started_inv_proc [OF inv proc_ends(2), of t "(rn_procs s ! i)\<lparr>pr_status := ProcEnded e\<rparr>"]) (simp_all add: set_status_def)
next
  case (proc_waited i e)
  then show ?thesis by (intro started_inv_proc [OF inv proc_waited(2), of t "(rn_procs s ! i)\<lparr>pr_status := ProcWaited\<rparr>"]) (simp_all add: wait_done_def set_status_def)
qed (use inv in \<open>auto simp: started_inv_def writeOutput_def runner_cmd_def split: runner_pc.split_asm\<close>)

text \<open>A text that a writer is given goes to the end of the entry of its container, and nowhere else.\<close>

lemma container_entry_cong:
  assumes "rn_pkg s = rn_pkg t" "rn_rn s = rn_rn t" "rn_path s = rn_path t" "rn_writers s = rn_writers t"
    and "map pr_written (rn_procs s) = map pr_written (rn_procs t)"
  shows "container_entry s = container_entry t"
proof (rule ext)
  fix i
  have "length (rn_procs s) = length (rn_procs t)" using assms(5) map_eq_imp_length_eq by blast
  moreover have "i < length (rn_procs s) \<Longrightarrow> pr_written (rn_procs s ! i) = pr_written (rn_procs t ! i)"
    using assms(5) calculation by (metis nth_map)
  ultimately show "container_entry s i = container_entry t i" using title_cong [OF assms(1-4)] by (simp add: container_entry_def)
qed

lemma output_inv_writes:
  assumes "started_inv s" and "output_inv s" and "i < length containers" and "printed (rn_main s) = 1"
    and "\<forall>msg. rn_main s \<noteq> RunnerExited msg" and "printed (rn_main t) = 1"
    and "\<And>j. container_entry t j = (if j = i then container_entry s i @ x else container_entry s j)"
    and "rn_stdout t = rn_stdout (write_out (writer_of i) x s)" and "rn_buffers t = rn_buffers (write_out (writer_of i) x s)"
  shows "output_inv t"
proof -
  have so: "rn_stdout s = container_entry s 0" and bu: "k < length (rn_buffers s) \<Longrightarrow> rn_buffers s ! k = container_entry s (k + 1)" for k
    using assms(2,4,5) by (simp_all add: output_inv_def)
  have len: "length (rn_buffers s) = length containers - 1" using assms(1) by (simp add: started_inv_def)
  show ?thesis
  proof (cases i)
    case 0
    then show ?thesis using so bu assms(6-9) by (simp add: output_inv_def write_out_def writer_of_def)
  next
    case (Suc m)
    then show ?thesis using so bu assms(3,6-9) len by (simp add: output_inv_def write_out_def writer_of_def nth_list_update)
  qed
qed

lemma output_inv_step:
  assumes st: "runner_step s t" and inv: "started_inv s" "output_inv s"
  shows "output_inv t"
  using st
proof cases
  case (starts i)
  have i: "i = length (rn_procs s)" using starts inv(1) by (simp add: started_inv_def)
  have "container_entry t j = (if j = i then container_entry s i @ title i s else container_entry s j)" for j
    using starts(1) i title_cong [of t s] by (auto simp: container_entry_def start_container_def Let_def nth_append)
  with starts i inv show ?thesis
    by (intro output_inv_writes [of s i t "title i s"]) (auto simp: start_container_def Let_def started_inv_def)
next
  case (proc_writes i x)
  show ?thesis
  proof (cases "\<exists>k. rn_main s = RunnerStart k \<or> rn_main s = RunnerWait")
    case True
    have "container_entry t j = (if j = i then container_entry s i @ x else container_entry s j)" for j
      using proc_writes title_cong [of t s] by (auto simp: container_entry_def proc_write_def Let_def nth_list_update)
    with proc_writes True inv show ?thesis
      by (intro output_inv_writes [of s i t x]) (auto simp: proc_write_def Let_def started_inv_def runner_cmd_def run_cmd_def write_out_def split: cmd_writer.split)
  next
    case False
    then have "(\<exists>msg. rn_main s = RunnerExited msg) \<or> unwaited s = 0"
      using inv(1) by (cases "rn_main s") (auto simp: started_inv_def)
    moreover have "unwaited s \<noteq> 0" using proc_writes nth_mem [of i "rn_procs s"] by (fastforce simp: filter_empty_conv)
    ultimately show ?thesis using proc_writes by (auto simp: output_inv_def proc_write_def Let_def)
  qed
next
  case (proc_ends i e)
  have "container_entry t = container_entry s" by (rule container_entry_cong) (use proc_ends in \<open>simp_all add: set_status_def map_update list_update_same_conv\<close>)
  with proc_ends inv(2) show ?thesis by (simp add: output_inv_def set_status_def)
next
  case (proc_waited i e)
  have "container_entry t = container_entry s" by (rule container_entry_cong) (use proc_waited in \<open>simp_all add: wait_done_def set_status_def map_update list_update_same_conv\<close>)
  with proc_waited inv(2) show ?thesis by (simp add: output_inv_def wait_done_def set_status_def)
next
  case (outputs k)
  have "container_entry t = container_entry s" by (rule container_entry_cong) (use outputs in \<open>simp_all add: writeOutput_def\<close>)
  with outputs inv(2) show ?thesis by (simp add: output_inv_def writeOutput_def)
next
  case (output_ends k)
  have "container_entry t = container_entry s" by (rule container_entry_cong) (use output_ends in simp_all)
  moreover have "k + 1 = length containers" using output_ends inv(1) by (simp add: started_inv_def)
  ultimately show ?thesis using output_ends inv(2) by (simp add: output_inv_def numeral_2_eq_2)
next
  case (all_started i)
  have "container_entry t = container_entry s" by (rule container_entry_cong) (use all_started in simp_all)
  with all_started inv(2) show ?thesis by (simp add: output_inv_def)
next
  case all_waited
  have "container_entry t = container_entry s" by (rule container_entry_cong) (use all_waited in simp_all)
  with all_waited inv(2) show ?thesis by (simp add: output_inv_def)
next
  case signalled
  have "container_entry t = container_entry s" by (rule container_entry_cong) (use signalled in simp_all)
  with signalled inv(2) show ?thesis by (simp add: output_inv_def)
qed (simp_all add: output_inv_def)

interpretation test_runner: step_invariant runner_step runner_inv
  by unfold_locales (simp add: runner_inv_def started_inv_step output_inv_step)

lemma make_writers_two [simp]: "make_writers 0 2 [] [] = (map writer_of [0..<2], [[]])"
  by (simp add: numeral_2_eq_2 writer_of_def)

lemma runner_start_inv:
  assumes "runner_start path args = Inr s"
  shows "runner_inv s"
  using assms
  by (auto simp: runner_start_def runner_args_def runner_inv_def started_inv_def output_inv_def container_entry_def split: if_split_asm)

lemma runner_fields_step:
  assumes "runner_step s t"
  shows "rn_pkg t = rn_pkg s \<and> rn_rn t = rn_rn s \<and> rn_path t = rn_path s"
  using assms by cases (simp_all add: start_container_def writeOutput_def proc_write_def set_status_def wait_done_def Let_def)

lemma runner_fields:
  assumes "runner_run s t"
  shows "rn_pkg t = rn_pkg s \<and> rn_rn t = rn_rn s \<and> rn_path t = rn_path s"
  using assms by (induction rule: rtranclp_induct) (auto dest: runner_fields_step)

text \<open>
  However the processes and the goroutines are scheduled, and whatever signals come in, the runner that returns has ended the older tests and
  then started one command in each container, and it has printed the output of the containers one after the other, each complete and under its title.
\<close>

theorem runner_prints_in_order:
  assumes "runner_args args = Inr (pkg, rn)" and "runner_start path args = Inr s0" and "runner_run s0 s" and "rn_main s = RunnerReturned"
  shows "length (rn_procs s) = length containers \<and> (\<forall>p\<in>set (rn_procs s). pr_status p = ProcWaited) \<and>
    rn_commands s = map (\<lambda>c. Command # getKillArgs c) containers @ map (\<lambda>c. Command # getRunArgs c pkg rn) containers \<and>
    rn_stdout s = concat (map (\<lambda>i. title i s0 @ pr_written (rn_procs s ! i)) [0..<length containers])"
proof -
  have inv: "runner_inv s" by (rule test_runner.run_inv [OF assms(3) runner_start_inv [OF assms(2)]])
  then have st: "started_inv s" and len: "length (rn_procs s) = length containers" and wg: "unwaited s = 0"
    and out: "rn_stdout s = concat (map (container_entry s) [0..<length containers])"
    using assms(4) by (auto simp: runner_inv_def started_inv_def output_inv_def)
  have st0: "started_inv s0" using runner_start_inv [OF assms(2)] by (simp add: runner_inv_def)
  have t: "title i s = title i s0" for i
    by (rule title_cong) (use runner_fields [OF assms(3)] st st0 in \<open>simp_all add: started_inv_def\<close>)
  have e: "map (container_entry s) [0..<length containers] = map (\<lambda>i. title i s0 @ pr_written (rn_procs s ! i)) [0..<length containers]"
    by (rule map_cong) (use len in \<open>auto simp: container_entry_def t\<close>)
  have a: "rn_pkg s = pkg" "rn_rn s = rn"
    using assms(1,2) runner_fields [OF assms(3)] by (auto simp: runner_start_def split: prod.split_asm)
  have c: "map (\<lambda>p. Command # cmd_Args (pr_cmd p)) (rn_procs s) = map (\<lambda>c. Command # getRunArgs c pkg rn) containers"
    by (rule nth_equalityI) (use st len a in \<open>auto simp: started_inv_def runner_cmd_def run_cmd_def\<close>)
  have "\<forall>p\<in>set (rn_procs s). pr_status p = ProcWaited" using wg by (simp add: filter_empty_conv)
  moreover have "rn_commands s = map (\<lambda>c. Command # getKillArgs c) containers @ map (\<lambda>c. Command # getRunArgs c pkg rn) containers"
    using st unfolding started_inv_def c by blast
  ultimately show ?thesis using len out unfolding e by blast
qed

text \<open>
  Unless it exits with an error the runner can always return: it waits for nothing but the processes.
\<close>

fun proc_left :: "proc_status \<Rightarrow> nat" where
  "proc_left ProcRunning = 2"
| "proc_left (ProcEnded e) = 1"
| "proc_left ProcWaited = 0"

definition runner_left :: "runner \<Rightarrow> nat" where
  "runner_left s =
     (case rn_main s of
        RunnerStart i \<Rightarrow> 5 * (length containers - i) + length containers + 3
      | RunnerWait \<Rightarrow> length containers + 2
      | RunnerOutput k \<Rightarrow> length containers + 1 - k
      | _ \<Rightarrow> 0) +
     sum_list (map (\<lambda>p. proc_left (pr_status p)) (rn_procs s))"

lemma sum_list_update_less:
  fixes f :: "'a \<Rightarrow> nat"
  assumes "i < length ps" and "f p < f (ps ! i)"
  shows "sum_list (map f (ps[i := p])) < sum_list (map f ps)"
  using assms
proof (induction ps arbitrary: i)
  case (Cons q ps)
  then show ?case by (cases i) auto
qed simp

lemma runner_progress:
  assumes inv: "runner_inv s" and "\<not> runner_ended s"
  shows "\<exists>t. runner_step s t \<and> runner_left t < runner_left s \<and> (\<forall>msg. rn_main t \<noteq> RunnerExited msg)"
proof (cases "rn_main s")
  case (RunnerStart i)
  show ?thesis
  proof (cases "i < length containers")
    case True
    have "runner_left (start_container i s) < runner_left s"
      using RunnerStart True by (simp add: runner_left_def start_container_def Let_def)
    then show ?thesis using starts [OF RunnerStart True] by (auto simp: start_container_def Let_def)
  next
    case False
    then show ?thesis using all_started [OF RunnerStart False] by (fastforce simp: runner_left_def RunnerStart)
  qed
next
  case RunnerWait
  have wg: "rn_wg s = unwaited s" using inv by (simp add: runner_inv_def started_inv_def)
  show ?thesis
  proof (cases "rn_wg s = 0")
    case True
    then show ?thesis using all_waited [OF RunnerWait] by (fastforce simp: runner_left_def RunnerWait)
  next
    case False
    then obtain i where i: "i < length (rn_procs s)" "pr_status (rn_procs s ! i) \<noteq> ProcWaited"
      using wg by (auto simp: filter_empty_conv in_set_conv_nth)
    let ?w = "\<lambda>p. proc_left (pr_status p)"
    show ?thesis
    proof (cases "pr_status (rn_procs s ! i)")
      case ProcRunning
      have "runner_left (set_status i (ProcEnded None) s) < runner_left s"
        using sum_list_update_less [OF i(1), of ?w "(rn_procs s ! i)\<lparr>pr_status := ProcEnded None\<rparr>"] ProcRunning RunnerWait
        by (simp add: runner_left_def set_status_def)
      then show ?thesis using proc_ends [OF i(1) ProcRunning, of None] RunnerWait by (fastforce simp: set_status_def)
    next
      case (ProcEnded e)
      have "runner_left (wait_done i e s) < runner_left s"
        using sum_list_update_less [OF i(1), of ?w "(rn_procs s ! i)\<lparr>pr_status := ProcWaited\<rparr>"] ProcEnded RunnerWait
        by (simp add: runner_left_def set_status_def wait_done_def)
      then show ?thesis using proc_waited [OF i(1) ProcEnded] RunnerWait by (fastforce simp: set_status_def wait_done_def)
    qed (use i in simp)
  qed
next
  case (RunnerOutput k)
  show ?thesis
  proof (cases "k < length (rn_buffers s)")
    case True
    have "k < length containers" using inv RunnerOutput by (simp add: runner_inv_def started_inv_def)
    then show ?thesis using outputs [OF RunnerOutput True] by (fastforce simp: runner_left_def RunnerOutput writeOutput_def)
  next
    case False
    have "k < length containers" using inv RunnerOutput by (simp add: runner_inv_def started_inv_def)
    then show ?thesis using output_ends [OF RunnerOutput False] by (fastforce simp: runner_left_def RunnerOutput)
  qed
qed (use assms(2) in simp_all)

theorem runner_can_return:
  assumes "runner_start path args = Inr s0" and "runner_run s0 s" and "\<forall>msg. rn_main s \<noteq> RunnerExited msg"
  shows "\<exists>t. runner_run s t \<and> rn_main t = RunnerReturned"
proof -
  have "runner_inv s" by (rule test_runner.run_inv [OF assms(2) runner_start_inv [OF assms(1)]])
  then show ?thesis using assms(3)
  proof (induction "runner_left s" arbitrary: s rule: less_induct)
    case less
    show ?case
    proof (cases "rn_main s = RunnerReturned")
      case False
      then obtain t where t: "runner_step s t" "runner_left t < runner_left s" "\<forall>msg. rn_main t \<noteq> RunnerExited msg"
        using runner_progress [OF less.prems(1)] less.prems(2) by blast
      from less.hyps [OF t(2) test_runner.step_inv [OF t(1) less.prems(1)] t(3)] show ?thesis
        using t(1) by (meson converse_rtranclp_into_rtranclp)
    qed blast
  qed
qed

text \<open>For a package alone, the two titles and the outputs of the two processes.\<close>

theorem runner_prints_in_order_witness:
  "\<exists>s0 s. runner_start ''dc'' [''relay''] = Inr s0 \<and> runner_run s0 s \<and> rn_main s = RunnerReturned \<and>
     length (rn_commands s) = 4 \<and>
     rn_stdout s = title 0 s0 @ pr_written (rn_procs s ! 0) @ title 1 s0 @ pr_written (rn_procs s ! 1)"
proof -
  obtain s0 where s0: "runner_start ''dc'' [''relay''] = Inr s0" "rn_main s0 = RunnerStart 0"
    by (simp add: runner_start_def runner_args_def)
  obtain s where s: "runner_run s0 s" "rn_main s = RunnerReturned"
    using runner_can_return [OF s0(1), of s0] s0(2) by auto
  have "runner_args [''relay''] = Inr (''relay'', [])" by (simp add: runner_args_def)
  from runner_prints_in_order [OF this s0(1) s] s0 s show ?thesis
    by (intro exI [of _ s0] exI [of _ s]) (simp add: numeral_2_eq_2)
qed

end
