(* ===== verification/Spec2Isabelle.thy ===== *)
theory Spec2Isabelle
  imports Programs Relay_Session Transfer_Secure Transfer_States Container_Run Local_Accept Local_Listener Generate Test_Runner
begin

text \<open>
  A verification library for a program that sends files from one device to another, over the local network or through a
  relay server (\<open>cmd/send\<close>, \<open>cmd/receive\<close>, \<open>cmd/server\<close> and the packages under \<open>lib\<close>).

  \<^bold>\<open>The program.\<close> A device finds another one by a broadcast on the local network (\<open>lib/beacon\<close>, \<open>lib/local\<close>) or through
  the relay server (\<open>lib/relay\<close>). A Noise handshake gives an encrypted connection (\<open>lib/secure\<close>), a session runs several
  channels over it (\<open>lib/session\<close>), and a protocol client, a state machine that is compiled from a table of transitions
  (\<open>lib/automaton\<close>, \<open>lib/protocol\<close>), sends a file in blocks over one channel (\<open>lib/session/transfer\<close>).

  \<^bold>\<open>Foundations.\<close> \<open>Prelude\<close>: fixed-width integers as words, errors and panics as values (\<open>error\<close>, \<open>panic\<close>, \<open>outcome\<close>),
  slices, the locale \<open>step_invariant\<close> for invariants of step relations. \<open>Go_IO\<close>: \<open>io.Reader\<close>, \<open>io.Writer\<close>, \<open>io.ReadFull\<close> and
  network connections as segment lists, with the locale \<open>byte_stream\<close>. \<open>Files\<close>: files behind the locales \<open>read_file\<close> and
  \<open>write_file\<close>. \<open>Sha256\<close>: the hash, executable. \<open>Device\<close>, \<open>Noise\<close>: keys and handshakes, with the curve and the Noise
  library as parameters.

  \<^bold>\<open>Data.\<close> \<open>Packet\<close> (\<open>lib/packet\<close>): length-prefixed packets; round trips for every segmentation. \<open>Buffers\<close>
  (\<open>lib/util/buffer\<close>): the in-memory file, an instance of both file locales. \<open>Blocks\<close>, \<open>Block_Reader\<close>, \<open>Block_Writer\<close>
  (\<open>lib/session/transfer/block\<close>): 64-bit block arithmetic, checksums, reading a file in blocks and assembling it from
  blocks in any order.

  \<^bold>\<open>Protocols.\<close> \<open>Automaton\<close>, \<open>Protocol\<close>, \<open>Loop\<close>: compilation of transition tables and their dispatch, clients that follow
  their definition, and the loop of a client as two interleaved goroutines; the locales \<open>endpoint\<close> and \<open>conversation\<close> carry
  the proof that two loops finish a dialogue. \<open>File_Transfer\<close>: all handlers of sender and receiver. \<open>Transfer_System\<close>: the
  two of them joined; every schedule ends within a linear bound with the file on the other side, and no failure of the
  connection makes one of them report success wrongly. \<open>Transfer_States\<close>: the states that sender and receiver can be in.

  \<^bold>\<open>Connections.\<close> \<open>Secure\<close> (\<open>lib/secure\<close>): encrypted connections, with ciphers as parameters. \<open>Channel\<close>, \<open>Session\<close>
  (\<open>lib/session\<close>): ids and messages of channels, and the goroutines of a session as a step relation; order of messages,
  registration of channels. \<open>Session_Link\<close>, \<open>Late_Start\<close>, \<open>Transfer_Session\<close>: the loops of sender and receiver over a channel of a session each, as the
  programs run them; this system is simulated by the two loops of \<open>Transfer_System\<close>, so that the transfer is correct there, too,
  and the two sessions can open the channel. A receiver that starts after messages of the sender have been lost (\<open>AcceptChannel\<close> registers the channel after it has
  accepted it) takes nothing, so that no success is reported then. \<open>Transfer_Secure\<close>: the encrypted connection carries what they write.

  \<^bold>\<open>Relay.\<close> \<open>Relay_Protocol\<close>: messages and the authentication of a session. \<open>Relay_Server\<close>, \<open>Relay_Server_Inv\<close>,
  \<open>Relay_Server_Props\<close> (\<open>protocol_server.go\<close>): all goroutines of the server over a store of connections, their invariant, and
  that neither handler panics, keys open only their side, sessions relay streams (with the error variable that the two relaying goroutines of a session share). \<open>Relay_Session\<close>: from the request of one device over the acceptance of
  the other to the bytes that are relayed. \<open>Relay_Client\<close>, \<open>Relay_Client_Props\<close>
  (\<open>protocol_client.go\<close>): the goroutines and calls of the client, with \<open>Close\<close> in its single steps; answers come from the server, for the peer of the call but not
  always for this call. \<open>Relay_Dial\<close> (\<open>client.go\<close>,
  \<open>server.go\<close>): dialling, the listeners of the server and both ends of a relayed connection. \<open>Net_Addr\<close>: addresses of package \<open>net\<close>.

  \<^bold>\<open>Local network.\<close> \<open>Network\<close>, \<open>Beacon\<close>: broadcast addresses and datagrams. \<open>Local_Messages\<close>, \<open>Local_Handshake\<close>,
  \<open>Local_Client\<close>, \<open>Local_Client_Props\<close> (\<open>lib/local\<close>): requests and their codes, the handshake of two devices, and the calls
  of \<open>Connect\<close> with the response broker. \<open>Local_Accept\<close>: \<open>Accept\<close> with the goroutines of \<open>listenRequests\<close>, which refine the loop over
  the requests of datagrams. \<open>Local_Listener\<close>: the listeners for requests and responses; a message is handed over at most once, and the calls of \<open>Connect\<close> see
  such a listener through its waiting calls.

  \<^bold>\<open>Programs.\<close> \<open>Base\<close> (\<open>cmd/base\<close>): constants and keys of the command line. \<open>Programs\<close>: the main functions of \<open>cmd/send\<close>,
  \<open>cmd/receive\<close> and \<open>cmd/server\<close>; what the first two report about a file is true. \<open>Container\<close>, \<open>Container_Run\<close> (\<open>lib/util/container\<close>): how
  tests in several containers wait for each other, and two containers together; \<open>Sync\<close> is a rendezvous, and how it deadlocks. \<open>Test_Runner\<close> (\<open>test.go\<close>): the
  program that runs these tests prints the output of the containers one after the other. \<open>Generate\<close> (\<open>proto/generate.go\<close>): the build
  script for the Protobuf code; the files it renames are generated ones. This theory: properties that span components.

  \<^bold>\<open>Conventions.\<close> A goroutine is a program counter in a record, a step relation interleaves the goroutines, and a send on
  an unbuffered channel is one step with its receipt. Loops on a connection have fuel that is proved to be enough
  (\<open>io.ReadFull\<close> of \<open>n\<close> bytes takes at most \<open>n + 1\<close> rounds, as every read returns a byte or an error). Sizes are at most
  \<open>maxAlloc\<close>, the largest slice of the language. Third-party code (Protobuf, Noise, curves, TLS) is a parameter, with what
  is relied on as a named hypothesis and an instance of it in a witness: Protobuf decodes what it encodes and refuses strings that are not UTF-8
  (\<open>session_codec\<close>, \<open>transfer_roundtrip\<close>, \<open>transfer_codec\<close>), Noise completes with key pairs whose halves belong together (\<open>fallback_works\<close>) and authenticates the
  other end (\<open>authenticates\<close>), ciphers decrypt what the other end has encrypted (\<open>cipher_pair\<close>).

  \<^bold>\<open>Not modelled.\<close> The generated Protobuf code beside the message types; logging, deadlines and sleeps; the parsing of flags, whose
  values are a map; the compound and multicast beacons, which are stubs, and \<open>concurrent\<close> of \<open>lib/beacon/util.go\<close>, which runs two calls
  with the errgroup package; the sources of randomness of \<open>cmd/base\<close>; functions that only return a field.
\<close>

section \<open>Blocks on an encrypted connection\<close>

text \<open>
  What is relied on in Protobuf: beside the data of a block and its checksum, or the payload of a message of the session,
  an encoding takes at most 64 bytes (tags, lengths and numbers), and messages that are not huge are encoded.
\<close>

definition small_overhead :: "message codec \<Rightarrow> bool" where
  "small_overhead cd \<longleftrightarrow>
     overhead_bounded cd \<and>
     (\<forall>top. Marshal cd (Some (Message_Data max_data)) = Inr top \<longrightarrow> length top \<le> PayloadMaxSize + 64) \<and>
     (\<forall>b. length (b_Data b) \<le> PayloadMaxSize \<longrightarrow>
       (\<exists>p. Marshal_m cd (BlockMsg (Some b)) = Inr p \<and> length p \<le> length (b_Data b) + length (b_Checksum b) + 64)) \<and>
     (\<forall>d. length (dt_Payload d) \<le> PayloadMaxSize \<longrightarrow> (\<exists>bs. Marshal cd (Some (Message_Data d)) = Inr bs))"

text \<open>Whatever was read or put back before, the next block of a reader is one of its file.\<close>

lemma NextBlock_is_block:
  assumes "reader_inv buf_Data buf_ready xs r" and "NextBlock buffer_rsc r = Return (Some b, None, r')"
  shows "\<exists>i. b = block_of xs (unat (r_blockSize r)) i"
proof (cases "pending_blocks r")
  case Nil
  then have "NextBlock buffer_rsc r = Return (None, Some (IOError EOF), r)"
    using Reader_IsDone_iff [OF assms(1)] by (simp add: NextBlock_def)
  with assms(2) show ?thesis by simp
next
  case (Cons i "is")
  from buffer_reader.NextBlock_pending [OF assms(1) this] show ?thesis using assms(2) by auto
qed

text \<open>
  C30. The block size of the programs fits the connection: every block that a reader with \<open>base.BlockSize\<close> delivers, in any state of
  the reader, is wrapped into a message of its channel without being refused as too large, and that message is written as
  one message of the encrypted connection.
\<close>

theorem every_block_fits:
  assumes "small_overhead cd" and "cipher_pair enc dec matched" and "matched 1 (nc_writeCipher nc) k" and "conn_healthy (nc_Conn nc)"
    and "reader_inv buf_Data buf_ready xs r" and "r_blockSize r = BlockSize" and "NextBlock buffer_rsc r = Return (Some b, None, r')"
  shows "\<exists>ms nc'. MarshalMessage cd (NewChannelHandle transfer_protocol cid) (BlockMsg (Some b)) = Return (Inr ms) \<and>
    noiseConn_Write enc nc ms = Return (length ms, None, nc')"
proof -
  let ?h = "NewChannelHandle transfer_protocol cid"
  obtain i where b: "b = block_of xs (unat BlockSize) i" using NextBlock_is_block [OF assms(5,7)] assms(6) by auto
  have data: "length (b_Data b) \<le> 32768" "length (b_Checksum b) = 32"
    by (simp_all add: b length_slice ComputeChecksum_def BlockSize_def)
  have blocks: "length (b_Data b) \<le> PayloadMaxSize \<Longrightarrow>
      \<exists>p. Marshal_m cd (BlockMsg (Some b)) = Inr p \<and> length p \<le> length (b_Data b) + length (b_Checksum b) + 64"
    and messages: "length (dt_Payload d) \<le> PayloadMaxSize \<Longrightarrow> \<exists>bs. Marshal cd (Some (Message_Data d)) = Inr bs" for b d
    using assms(1) by (simp_all add: small_overhead_def)
  have "length (b_Data b) \<le> PayloadMaxSize" using data(1) by (simp add: secure_consts)
  then obtain p where p: "Marshal_m cd (BlockMsg (Some b)) = Inr p" "length p \<le> length (b_Data b) + length (b_Checksum b) + 64"
    using blocks by blast
  from p(2) data have len: "length p \<le> 32864" by linarith
  obtain top where "Marshal cd (Some (Message_Data max_data)) = Inr top" "length top \<le> PayloadMaxSize + 64"
    using assms(1) unfolding small_overhead_def overhead_bounded_def by meson
  with len have "\<not> ComputePayloadMaxSize cd < int (length p)" by (simp add: ComputePayloadMaxSize_def Let_def secure_consts)
  moreover have t: "pr_RawTypeOf (h_protocol ?h) (BlockMsg (Some b)) = Return 4"
    by (simp add: NewChannelHandle_def transfer_protocol_def RawTypeOf_def)
  moreover obtain ms where ms: "Marshal cd (Some (Message_Data \<lparr>dt_ChannelId = h_id ?h, dt_MessageType = 4, dt_Payload = p\<rparr>)) = Inr ms"
    using messages [of "\<lparr>dt_ChannelId = h_id ?h, dt_MessageType = 4, dt_Payload = p\<rparr>"] len by (auto simp: secure_consts)
  ultimately have "MarshalMessage cd ?h (BlockMsg (Some b)) = Return (Inr ms)"
    by (simp add: MarshalMessage_def WrapMessage_def p(1))
  with marshalled_fits [OF _ this t _ assms(2-4)] assms(1) show ?thesis by (auto simp: small_overhead_def)
qed

text \<open>For the witness: an encoding with a fixed overhead.\<close>

definition flat_codec :: "message codec" where
  "flat_codec =
     \<lparr>Marshal = (\<lambda>m. case m of
        Some (Message_Data d) \<Rightarrow> Inr (PutUint64 (dt_ChannelId d) @ PutUint32 (dt_MessageType d) @ dt_Payload d)
      | _ \<Rightarrow> Inl (ErrorString ''unsupported'')),
      Unmarshal = (\<lambda>bs. Inl (ErrorString ''unsupported'')),
      Marshal_m = (\<lambda>m. case m of
        BlockMsg (Some b) \<Rightarrow> Inr (PutUint64 (b_Index b) @ b_Data b @ b_Checksum b)
      | _ \<Rightarrow> Inl (ErrorString ''unsupported'')),
      Unmarshal_m = (\<lambda>bs blank. (Some (ErrorString ''unsupported''), blank))\<rparr>"

lemma flat_codec_overhead: "small_overhead flat_codec"
proof -
  have "overhead_bounded flat_codec" by (simp add: overhead_bounded_def flat_codec_def max_data_def)
  then show ?thesis by (simp add: small_overhead_def flat_codec_def max_data_def)
qed

theorem every_block_fits_witness:
  "\<exists>b r' ms nc'. NextBlock buffer_rsc (NewBlockReader (NewBuffer [1, 2, 3]) 3 BlockSize) = Return (Some b, None, r') \<and>
     MarshalMessage flat_codec (NewChannelHandle transfer_protocol 1) (BlockMsg (Some b)) = Return (Inr ms) \<and>
     noiseConn_Write tag_cipher (WrapConn [] [] \<lparr>c_in = [], c_end = IOError EOF, c_out = [],
       c_werr = None, c_closed = False\<rparr> 0 0) ms = Return (length ms, None, nc')"
proof -
  let ?r = "NewBlockReader (NewBuffer [1, 2, 3]) 3 BlockSize"
  let ?nc = "WrapConn [] [] \<lparr>c_in = [], c_end = IOError EOF, c_out = [], c_werr = None, c_closed = False\<rparr> 0 (0 :: nat)"
  have inv: "reader_inv buf_Data buf_ready [1, 2, 3] ?r" "pending_blocks ?r = [0]"
    using NewBlockReader_inv [of buf_ready "NewBuffer [1, 2, 3]" buf_Data "[1, 2, 3]" BlockSize]
    by (simp_all add: BlockSize_def maxAlloc_def block_count_def)
  obtain b r' where b: "NextBlock buffer_rsc ?r = Return (Some b, None, r')"
    using buffer_reader.NextBlock_pending [OF inv] by blast
  have "cipher_pair tag_cipher untag_cipher (\<lambda>k w r. True)"
    by (simp add: cipher_pair_def tag_cipher_def untag_cipher_def)
  from every_block_fits [where nc = ?nc and k = 0 and cid = 1, OF flat_codec_overhead this _ _ inv(1) _ b] b show ?thesis
    by (auto simp: WrapConn_def conn_healthy_def NewBlockReader_def)
qed

end
